(* ===== verification/Prelude.thy ===== *)
theory Prelude
  imports Main "HOL-Library.Word" "HOL-Library.Code_Target_Nat"
begin

text \<open>
  Shared vocabulary of the development: bytes and byte strings, the limits of the C
  integer types the code compares against, the byte constants the code writes as character
  literals, and the generic lemmas on lists that several components use.

  Conventions used by every theory of the library:
  \<^item> a \<open>char\<close> or \<open>unsigned char\<close> is an 8-bit word; every comparison of the sources on a
    (possibly signed) \<open>char\<close> is against an ASCII range or after a cast to
    \<open>unsigned char\<close>, so the unsigned reading gives the same result;
  \<^item> a pointer with a length is the list of the bytes it delimits; where the code
    distinguishes a NULL pointer the list is wrapped in \<open>option\<close>;
  \<^item> \<open>size_t\<close> lengths of objects in memory are \<open>nat\<close>; the overflow tests the code writes
    against \<open>SIZE_MAX\<close> are kept as tests against \<open>SIZE_MAX\<close>, and wrap-around is
    written out with \<open>mod\<close> where the code can reach it;
  \<^item> an allocation can fail: a buffer carries an oracle saying which requests are granted.
    Capacities of one buffer only grow, so the requested size identifies the call.
\<close>

named_theorems byte_simps "facts about the byte classes the parsers test"
named_theorems buf_simps "facts about the growing buffers"
named_theorems frame_simps "fields an operation leaves unchanged"

type_synonym byte = "8 word"

text \<open>A C string literal as bytes (without the terminating NUL).\<close>

definition lit :: "string \<Rightarrow> byte list" where
  "lit s = map of_char s"

lemma lit_Nil [simp]: "lit [] = []"
  by (simp add: lit_def)

lemma lit_Cons [simp]: "lit (c # s) = of_char c # lit s"
  by (simp add: lit_def)

lemma length_lit [simp]: "length (lit s) = length s"
  by (simp add: lit_def)

definition SIZE_MAX :: nat where
  "SIZE_MAX = 2 ^ 64 - 1"

definition INT_MAX :: nat where
  "INT_MAX = 2 ^ 31 - 1"

text \<open>Unsigned 64-bit wrap-around, for the counters and products the code does not guard.\<close>

definition wrap64 :: "nat \<Rightarrow> nat" where
  "wrap64 n = n mod 2 ^ 64"

lemma wrap64_le: "wrap64 n \<le> n"
  by (simp add: wrap64_def)

lemma wrap64_add: "wrap64 (wrap64 m + n) = wrap64 (m + n)"
  by (simp add: wrap64_def mod_add_left_eq)

lemma wrap64_id: "n \<le> SIZE_MAX \<Longrightarrow> wrap64 n = n"
  by (simp add: wrap64_def SIZE_MAX_def)

abbreviation (input) C_NUL :: byte where "C_NUL \<equiv> 0x00"
abbreviation (input) C_BS :: byte where "C_BS \<equiv> 0x08"
abbreviation (input) C_TAB :: byte where "C_TAB \<equiv> 0x09"
abbreviation (input) C_LF :: byte where "C_LF \<equiv> 0x0A"
abbreviation (input) C_FF :: byte where "C_FF \<equiv> 0x0C"
abbreviation (input) C_CR :: byte where "C_CR \<equiv> 0x0D"
abbreviation (input) C_SP :: byte where "C_SP \<equiv> 0x20"
abbreviation (input) C_QUOTE :: byte where "C_QUOTE \<equiv> 0x22"
abbreviation (input) C_PLUS :: byte where "C_PLUS \<equiv> 0x2B"
abbreviation (input) C_COMMA :: byte where "C_COMMA \<equiv> 0x2C"
abbreviation (input) C_MINUS :: byte where "C_MINUS \<equiv> 0x2D"
abbreviation (input) C_DOT :: byte where "C_DOT \<equiv> 0x2E"
abbreviation (input) C_SLASH :: byte where "C_SLASH \<equiv> 0x2F"
abbreviation (input) C_0 :: byte where "C_0 \<equiv> 0x30"
abbreviation (input) C_1 :: byte where "C_1 \<equiv> 0x31"
abbreviation (input) C_9 :: byte where "C_9 \<equiv> 0x39"
abbreviation (input) C_COLON :: byte where "C_COLON \<equiv> 0x3A"
abbreviation (input) C_LBRACK :: byte where "C_LBRACK \<equiv> 0x5B"
abbreviation (input) C_BSLASH :: byte where "C_BSLASH \<equiv> 0x5C"
abbreviation (input) C_RBRACK :: byte where "C_RBRACK \<equiv> 0x5D"
abbreviation (input) C_LBRACE :: byte where "C_LBRACE \<equiv> 0x7B"
abbreviation (input) C_RBRACE :: byte where "C_RBRACE \<equiv> 0x7D"

definition is_digit :: "byte \<Rightarrow> bool" where
  "is_digit c \<longleftrightarrow> C_0 \<le> c \<and> c \<le> C_9"

definition digit_val :: "byte \<Rightarrow> nat" where
  "digit_val c = unat (c - C_0)"

lemma digit_val_le_9: "is_digit c \<Longrightarrow> digit_val c \<le> 9"
  unfolding is_digit_def digit_val_def by unat_arith

section \<open>Spans\<close>

text \<open>
  A pointer with a separate length, as the interfaces of the client take it: the bytes it
  delimits, or a null pointer with whatever length came with it.
\<close>

datatype cspan =
    SNull nat
  | SPtr "byte list"

fun sp_null :: "cspan \<Rightarrow> bool" where
  "sp_null (SNull n) = True"
| "sp_null (SPtr bs) = False"

fun sp_len :: "cspan \<Rightarrow> nat" where
  "sp_len (SNull n) = n"
| "sp_len (SPtr bs) = length bs"

fun sp_bytes :: "cspan \<Rightarrow> byte list" where
  "sp_bytes (SNull n) = []"
| "sp_bytes (SPtr bs) = bs"

section \<open>Lists\<close>

text \<open>\<open>memchr\<close>: the index of the first occurrence of a byte, if there is one.\<close>

definition memchr :: "byte list \<Rightarrow> byte \<Rightarrow> nat option" where
  "memchr xs c = (let n = length (takeWhile (\<lambda>x. x \<noteq> c) xs)
                  in if n < length xs then Some n else None)"

lemma memchr_None_iff: "memchr xs c = None \<longleftrightarrow> c \<notin> set xs"
  by (induction xs) (auto simp: memchr_def Let_def)

lemma memchr_SomeD:
  assumes "memchr xs c = Some n"
  shows "n < length xs" "xs ! n = c" "c \<notin> set (take n xs)"
proof -
  have n: "n = length (takeWhile (\<lambda>x. x \<noteq> c) xs)" and l: "n < length xs"
    using assms by (auto simp: memchr_def Let_def split: if_splits)
  show "n < length xs" by (rule l)
  show "xs ! n = c" using n l nth_length_takeWhile by fastforce
  have "take n xs = takeWhile (\<lambda>x. x \<noteq> c) xs" using n takeWhile_eq_take by metis
  then show "c \<notin> set (take n xs)" by (auto dest: set_takeWhileD)
qed

lemma memchr_append_new:
  assumes "c \<notin> set xs"
  shows "memchr (xs @ c # ys) c = Some (length xs)"
proof -
  have "takeWhile (\<lambda>x. x \<noteq> c) (xs @ c # ys) = xs"
    using assms by (subst takeWhile_append2) auto
  then show ?thesis by (simp add: memchr_def)
qed

lemma take_drop_Cons: "i < length xs \<Longrightarrow> drop i xs = xs ! i # drop (Suc i) xs"
  by (simp add: Cons_nth_drop_Suc)

section \<open>Feeding a machine in chunks\<close>

text \<open>
  The transport hands a stream over in chunks and stops at the first call that does not
  return success.
\<close>

fun feed_chunks :: "('s \<Rightarrow> 'a list \<Rightarrow> 'r \<times> 's) \<Rightarrow> 'r \<Rightarrow> 's \<Rightarrow> 'a list list \<Rightarrow> 'r \<times> 's" where
  "feed_chunks feed ok s [] = (ok, s)"
| "feed_chunks feed ok s (c # cs) =
     (case feed s c of (rc, s') \<Rightarrow> if rc = ok then feed_chunks feed ok s' cs else (rc, s'))"

text \<open>
  A consumer of chunks: \<open>ready\<close> describes the states it is fed in, with room for so many
  more bytes; feeding two pieces together is feeding them one after the other. After an
  error only what \<open>obs\<close> shows of the state is promised.
\<close>

locale chunk_feeder =
  fixes feed :: "'s \<Rightarrow> 'a list \<Rightarrow> 'r \<times> 's"
    and ok :: 'r
    and ready :: "'s \<Rightarrow> nat \<Rightarrow> bool"
    and obs :: "'s \<Rightarrow> 'o"
  assumes feed_Nil: "ready s 0 \<Longrightarrow> feed s [] = (ok, s)"
    and feed_append_ok:
      "ready s (length a + length b) \<Longrightarrow> feed s a = (ok, s') \<Longrightarrow> feed s (a @ b) = feed s' b"
    and feed_append_err:
      "ready s (length a + length b) \<Longrightarrow> feed s a = (rc, s') \<Longrightarrow> rc \<noteq> ok \<Longrightarrow>
         fst (feed s (a @ b)) = rc \<and> obs (snd (feed s (a @ b))) = obs s'"
    and ready_step: "ready s (length a + n) \<Longrightarrow> feed s a = (ok, s') \<Longrightarrow> ready s' n"
begin

lemma feed_chunks_concat:
  assumes "ready s (length (concat cs))"
  shows "fst (feed_chunks feed ok s cs) = fst (feed s (concat cs))"
    and "obs (snd (feed_chunks feed ok s cs)) = obs (snd (feed s (concat cs)))"
    and "fst (feed s (concat cs)) = ok \<Longrightarrow> feed_chunks feed ok s cs = feed s (concat cs)"
proof -
  have "fst (feed_chunks feed ok s cs) = fst (feed s (concat cs)) \<and>
      obs (snd (feed_chunks feed ok s cs)) = obs (snd (feed s (concat cs))) \<and>
      (fst (feed s (concat cs)) = ok \<longrightarrow> feed_chunks feed ok s cs = feed s (concat cs))"
    using assms
  proof (induction cs arbitrary: s)
    case Nil
    then show ?case by (simp add: feed_Nil)
  next
    case (Cons c cs)
    obtain rc s' where f: "feed s c = (rc, s')" by fastforce
    have r: "ready s (length c + length (concat cs))" using Cons.prems by simp
    show ?case
    proof (cases "rc = ok")
      case True
      with f have ok: "feed s c = (ok, s')" by simp
      show ?thesis
        using Cons.IH [OF ready_step [OF r ok]] feed_append_ok [OF r ok] ok by simp
    next
      case False
      then show ?thesis using feed_append_err [OF r f] f by simp
    qed
  qed
  then show "fst (feed_chunks feed ok s cs) = fst (feed s (concat cs))"
    and "obs (snd (feed_chunks feed ok s cs)) = obs (snd (feed s (concat cs)))"
    and "fst (feed s (concat cs)) = ok \<Longrightarrow> feed_chunks feed ok s cs = feed s (concat cs)"
    by blast+
qed

text \<open>Two ways to cut the same bytes are indistinguishable.\<close>

lemma feed_chunks_cut:
  assumes "concat cs = concat ds" "ready s (length (concat cs))"
  shows "fst (feed_chunks feed ok s cs) = fst (feed_chunks feed ok s ds) \<and>
    obs (snd (feed_chunks feed ok s cs)) = obs (snd (feed_chunks feed ok s ds))"
  using feed_chunks_concat(1,2) [of s cs] feed_chunks_concat(1,2) [of s ds] assms by simp

end

end
