(* ===== verification/Utf8.thy ===== *)
theory Utf8
  imports Prelude
begin

text \<open>
  UTF-8 as a specification: the encoding of a Unicode scalar value, the well-formed
  sequences, and the replacement policy of the parser (one U+FFFD for each maximal run
  that a lead byte and its continuation bytes form without being well-formed). The policy
  is given twice, as a recursive function on a whole line and as the step of a decoder
  that gets one byte at a time; the two agree.
\<close>

section \<open>Encoding\<close>

definition is_scalar :: "nat \<Rightarrow> bool" where
  "is_scalar c \<longleftrightarrow> c \<le> 0x10FFFF \<and> \<not> (0xD800 \<le> c \<and> c \<le> 0xDFFF)"

definition utf8_encode :: "nat \<Rightarrow> byte list" where
  "utf8_encode c =
     (if c < 0x80 then [of_nat c]
      else if c < 0x800 then [of_nat (0xC0 + c div 64), of_nat (0x80 + c mod 64)]
      else if c < 0x10000 then
        [of_nat (0xE0 + c div 4096), of_nat (0x80 + c div 64 mod 64), of_nat (0x80 + c mod 64)]
      else
        [of_nat (0xF0 + c div 262144), of_nat (0x80 + c div 4096 mod 64),
         of_nat (0x80 + c div 64 mod 64), of_nat (0x80 + c mod 64)])"

fun utf8_point :: "byte list \<Rightarrow> nat" where
  "utf8_point [a] = unat a"
| "utf8_point [a, b] = unat a mod 32 * 64 + unat b mod 64"
| "utf8_point [a, b, c] = unat a mod 16 * 4096 + unat b mod 64 * 64 + unat c mod 64"
| "utf8_point [a, b, c, d] =
     unat a mod 8 * 262144 + unat b mod 64 * 4096 + unat c mod 64 * 64 + unat d mod 64"
| "utf8_point _ = 0x110000"

text \<open>A sequence is well-formed when it is the encoding of a scalar value.\<close>

definition utf8_wf :: "byte list \<Rightarrow> bool" where
  "utf8_wf bs \<longleftrightarrow> is_scalar (utf8_point bs) \<and> utf8_encode (utf8_point bs) = bs"

definition is_cont :: "byte \<Rightarrow> bool" where
  "is_cont b \<longleftrightarrow> 0x80 \<le> b \<and> b \<le> 0xBF"

text \<open>How many continuation bytes a lead byte asks for; 0 for a byte that leads nothing.\<close>

definition utf8_need :: "byte \<Rightarrow> nat" where
  "utf8_need b =
     (if 0xC2 \<le> b \<and> b \<le> 0xDF then 1
      else if 0xE0 \<le> b \<and> b \<le> 0xEF then 2
      else if 0xF0 \<le> b \<and> b \<le> 0xF4 then 3
      else 0)"

definition repl_char :: "byte list" where
  "repl_char = utf8_encode 0xFFFD"

lemma repl_char_eq [simp, code]: "repl_char = [0xEF, 0xBF, 0xBD]"
  by (simp add: repl_char_def utf8_encode_def)

section \<open>The replacement policy\<close>

function utf8_lossy :: "byte list \<Rightarrow> byte list" where
  "utf8_lossy [] = []"
| "utf8_lossy (b # bs) =
     (if b \<le> 0x7F then b # utf8_lossy bs
      else
        let n = utf8_need b; cs = takeWhile is_cont (take n bs)
        in if n = 0 then repl_char @ utf8_lossy bs
           else if length cs = n
           then (if utf8_wf (b # cs) then b # cs else repl_char) @ utf8_lossy (drop n bs)
           else repl_char @ utf8_lossy (drop (length cs) bs))"
  by pat_completeness auto
termination
  by (relation "measure length") auto

declare utf8_lossy.simps(2) [simp del]

text \<open>The same policy, one byte at a time: decoded output and pending sequence.\<close>

definition utf8_start :: "byte list \<Rightarrow> byte \<Rightarrow> byte list \<times> byte list" where
  "utf8_start out b =
     (if b \<le> 0x7F then (out @ [b], [])
      else if utf8_need b \<noteq> 0 then (out, [b])
      else (out @ repl_char, []))"

fun utf8_step :: "byte list \<times> byte list \<Rightarrow> byte \<Rightarrow> byte list \<times> byte list" where
  "utf8_step (out, []) b = utf8_start out b"
| "utf8_step (out, c # cs) b =
     (if is_cont b then
        (if length (c # cs) = utf8_need c
         then (out @ (if utf8_wf (c # cs @ [b]) then c # cs @ [b] else repl_char), [])
         else (out, c # cs @ [b]))
      else utf8_start (out @ repl_char) b)"

definition utf8_flush :: "byte list \<times> byte list \<Rightarrow> byte list" where
  "utf8_flush s = (if snd s = [] then fst s else fst s @ repl_char)"

definition utf8_run :: "byte list \<Rightarrow> byte list \<times> byte list" where
  "utf8_run bs = foldl utf8_step ([], []) bs"

text \<open>A pending sequence is a lead byte with some, but not all, of its continuations.\<close>

definition utf8_pending :: "byte list \<Rightarrow> bool" where
  "utf8_pending p \<longleftrightarrow>
     (case p of [] \<Rightarrow> True | c # cs \<Rightarrow> list_all is_cont cs \<and> length cs < utf8_need c)"

lemma utf8_need_ascii: "b \<le> 0x7F \<Longrightarrow> utf8_need b = 0"
  unfolding utf8_need_def by (auto split: if_splits simp: word_le_nat_alt)

lemma utf8_lossy_ascii: "b \<le> 0x7F \<Longrightarrow> utf8_lossy (b # bs) = b # utf8_lossy bs"
  by (simp add: utf8_lossy.simps)

lemma utf8_lossy_stray:
  "\<not> b \<le> 0x7F \<Longrightarrow> utf8_need b = 0 \<Longrightarrow> utf8_lossy (b # bs) = repl_char @ utf8_lossy bs"
  by (subst utf8_lossy.simps) (simp add: Let_def)

lemma utf8_lossy_lead:
  assumes "utf8_need c = n" "n \<noteq> 0"
  shows "utf8_lossy (c # bs) =
    (let cs = takeWhile is_cont (take n bs)
     in if length cs = n then (if utf8_wf (c # cs) then c # cs else repl_char) @ utf8_lossy (drop n bs)
        else repl_char @ utf8_lossy (drop (length cs) bs))"
proof -
  have "(c \<le> 0x7F) = False" using assms utf8_need_ascii by auto
  then show ?thesis using assms by (subst utf8_lossy.simps) (simp add: Let_def)
qed

lemma utf8_start_pending: "utf8_pending (snd (utf8_start out b))"
  by (simp add: utf8_start_def utf8_pending_def)

lemma utf8_step_pending:
  "utf8_pending (snd s) \<Longrightarrow> utf8_pending (snd (utf8_step s b))"
proof (cases "(s, b)" rule: utf8_step.cases)
  case (2 out c cs b')
  assume "utf8_pending (snd s)"
  with 2 show ?thesis by (auto simp: utf8_start_pending) (auto simp: utf8_pending_def)
qed (auto simp: utf8_start_pending)

lemma utf8_run_pending: "utf8_pending (snd (utf8_run bs))"
proof -
  have "utf8_pending (snd (foldl utf8_step s bs))" if "utf8_pending (snd s)" for s
    using that by (induction bs arbitrary: s) (auto simp: utf8_step_pending)
  from this [of "([], [])"] show ?thesis by (simp add: utf8_run_def utf8_pending_def)
qed

lemma utf8_run_snoc: "utf8_run (bs @ [b]) = utf8_step (utf8_run bs) b"
  by (simp add: utf8_run_def)

text \<open>With a sequence pending, the decoder's output is the policy on the whole run.\<close>

lemma takeWhile_cont_pending:
  assumes "list_all is_cont cs" "length cs < n"
  shows "takeWhile is_cont (take n (cs @ bs)) = cs @ takeWhile is_cont (take (n - length cs) bs)"
  using assms by (auto simp: list_all_iff takeWhile_append2)

lemma utf8_lossy_pending_cont:
  assumes "utf8_pending (c # cs)" "is_cont b" "Suc (length cs) = utf8_need c"
  shows "utf8_lossy (c # cs @ b # bs) =
           (if utf8_wf (c # cs @ [b]) then c # cs @ [b] else repl_char) @ utf8_lossy bs"
proof -
  have n: "utf8_need c \<noteq> 0" using assms(3) by simp
  have cs: "list_all is_cont cs" "length cs < utf8_need c"
    using assms(1) by (auto simp: utf8_pending_def)
  have d: "utf8_need c - length cs = 1" using assms(3) by simp
  have "takeWhile is_cont (take (utf8_need c) (cs @ b # bs)) = cs @ [b]"
    unfolding takeWhile_cont_pending [OF cs, of "b # bs"] d using assms(2) by simp
  moreover have "drop (utf8_need c) (cs @ b # bs) = bs"
    unfolding assms(3) [symmetric] by simp
  ultimately show ?thesis
    unfolding utf8_lossy_lead [OF refl n] using assms(3) by (simp add: Let_def)
qed

lemma utf8_lossy_pending_break:
  assumes "utf8_pending (c # cs)" "bs = [] \<or> \<not> is_cont (hd bs)"
  shows "utf8_lossy (c # cs @ bs) = repl_char @ utf8_lossy bs"
proof -
  have cs: "list_all is_cont cs" "length cs < utf8_need c"
    using assms(1) by (auto simp: utf8_pending_def)
  have "takeWhile is_cont (take (utf8_need c - length cs) bs) = []"
    using assms(2) cs(2) by (cases bs; cases "utf8_need c - length cs") auto
  then have "takeWhile is_cont (take (utf8_need c) (cs @ bs)) = cs"
    using takeWhile_cont_pending [OF cs, of bs] by simp
  then show ?thesis
    using cs(2) by (simp add: utf8_lossy_lead [OF refl] Let_def)
qed

lemma utf8_start_lossy:
  assumes IH: "\<And>out pend. utf8_pending pend \<Longrightarrow>
    utf8_flush (foldl utf8_step (out, pend) bs) = out @ utf8_lossy (pend @ bs)"
  shows "utf8_flush (foldl utf8_step (utf8_start out b) bs) = out @ utf8_lossy (b # bs)"
proof (cases "b \<le> 0x7F")
  case True
  then show ?thesis using IH [of "[]" "out @ [b]"] by (simp add: utf8_start_def utf8_pending_def utf8_lossy_ascii)
next
  case False
  show ?thesis
  proof (cases "utf8_need b = 0")
    case True
    then show ?thesis using False IH [of "[]" "out @ repl_char"]
      by (simp add: utf8_start_def utf8_pending_def utf8_lossy_stray)
  next
    case n: False
    then have "utf8_pending [b]" by (simp add: utf8_pending_def)
    from IH [OF this, of out] show ?thesis using False n
      by (simp add: utf8_start_def)
  qed
qed

lemma utf8_run_lossy_gen:
  "utf8_pending pend \<Longrightarrow>
     utf8_flush (foldl utf8_step (out, pend) bs) = out @ utf8_lossy (pend @ bs)"
proof (induction bs arbitrary: out pend)
  case Nil
  then show ?case
    using utf8_lossy_pending_break [of "hd pend" "tl pend" "[]"]
    by (cases pend) (auto simp: utf8_flush_def)
next
  case (Cons b bs)
  show ?case
  proof (cases pend)
    case Nil
    with Cons.IH show ?thesis by (simp add: utf8_start_lossy)
  next
    case (Cons c cs)
    show ?thesis
    proof (cases "is_cont b")
      case cont: True
      show ?thesis
      proof (cases "Suc (length cs) = utf8_need c")
        case True
        with cont Cons Cons.prems Cons.IH [of "[]"] show ?thesis
          using utf8_lossy_pending_cont [of c cs b bs]
          by (simp add: utf8_pending_def)
      next
        case False
        then have "utf8_pending (pend @ [b])"
          using Cons Cons.prems cont by (auto simp: utf8_pending_def)
        with cont False Cons Cons.IH [of "pend @ [b]"] show ?thesis
          by (simp)
      qed
    next
      case False
      then show ?thesis
        using Cons Cons.prems utf8_lossy_pending_break [of c cs "b # bs"]
          utf8_start_lossy [OF Cons.IH, of "out @ repl_char" b]
        by (simp)
    qed
  qed
qed

lemma utf8_run_lossy: "utf8_flush (utf8_run bs) = utf8_lossy bs"
  using utf8_run_lossy_gen [of "[]" "[]" bs] by (simp add: utf8_run_def utf8_pending_def)

section \<open>Well-formed text\<close>

definition utf8_valid :: "byte list \<Rightarrow> bool" where
  "utf8_valid bs \<longleftrightarrow> (\<exists>cps. list_all is_scalar cps \<and> bs = concat (map utf8_encode cps))"

lemma utf8_valid_Nil [simp]: "utf8_valid []"
  unfolding utf8_valid_def by (rule exI [of _ "[]"]) simp

lemma utf8_valid_append: "utf8_valid xs \<Longrightarrow> utf8_valid ys \<Longrightarrow> utf8_valid (xs @ ys)"
  unfolding utf8_valid_def by (metis list_all_append map_append concat_append)

lemma utf8_valid_encode: "is_scalar c \<Longrightarrow> utf8_valid (utf8_encode c)"
  unfolding utf8_valid_def by (rule exI [of _ "[c]"]) simp

lemma utf8_valid_repl: "utf8_valid repl_char"
  unfolding repl_char_def by (rule utf8_valid_encode) (simp add: is_scalar_def)

lemma utf8_valid_wf: "utf8_wf bs \<Longrightarrow> utf8_valid bs"
  using utf8_valid_encode unfolding utf8_wf_def by metis

lemma utf8_valid_ascii: "b \<le> 0x7F \<Longrightarrow> utf8_valid [b]"
  using utf8_valid_encode [of "unat b"]
  by (simp add: utf8_encode_def is_scalar_def word_le_nat_alt split: if_splits)

lemma utf8_lossy_valid: "utf8_valid (utf8_lossy bs)"
proof (induction bs rule: utf8_lossy.induct)
  case (2 b bs)
  show ?case
  proof (cases "b \<le> 0x7F")
    case True
    then show ?thesis
      using 2 utf8_valid_append [OF utf8_valid_ascii [OF True]] by (simp add: utf8_lossy_ascii)
  next
    case False
    let ?cs = "takeWhile is_cont (take (utf8_need b) bs)"
    have wf: "utf8_valid (if utf8_wf (b # ?cs) then b # ?cs else repl_char)"
      using utf8_valid_wf utf8_valid_repl by (simp del: repl_char_eq)
    show ?thesis
    proof (cases "utf8_need b = 0")
      case True
      then show ?thesis
        using utf8_valid_append [OF utf8_valid_repl] 2(2) False
        by (simp add: utf8_lossy_stray del: repl_char_eq)
    next
      case n: False
      then show ?thesis
        using utf8_valid_append [OF utf8_valid_repl 2(4)] utf8_valid_append [OF wf 2(3)] False
        by (simp add: utf8_lossy_lead [OF refl n] Let_def del: repl_char_eq)
    qed
  qed
qed simp

lemma unat_of_nat8: "n < 256 \<Longrightarrow> unat (of_nat n :: byte) = n"
  by (simp add: unat_of_nat)

text \<open>The shapes of an encoded scalar value.\<close>

lemma utf8_encode_1: "c < 0x80 \<Longrightarrow> \<exists>b. utf8_encode c = [b] \<and> b \<le> 0x7F"
  by (auto simp: utf8_encode_def word_le_nat_alt unat_of_nat8)

lemma add_mod_base:
  fixes n :: nat
  shows "(128 + n mod 64) mod 64 = n mod 64"
    and "n < 32 \<Longrightarrow> (192 + n) mod 32 = n"
    and "n < 16 \<Longrightarrow> (224 + n) mod 16 = n"
    and "n < 8 \<Longrightarrow> (240 + n) mod 8 = n"
  using mod_mult_self2 [of "n mod 64" 64 2] mod_mult_self2 [of n 32 6]
    mod_mult_self2 [of n 16 14] mod_mult_self2 [of n 8 30]
  by (simp_all add: add.commute)

lemma base64_sum:
  fixes c :: nat
  shows "c div 64 * 64 + c mod 64 = c"
    and "c div 4096 * 4096 + c div 64 mod 64 * 64 + c mod 64 = c"
    and "c div 262144 * 262144 + c div 4096 mod 64 * 4096 + c div 64 mod 64 * 64 + c mod 64 = c"
proof -
  show 1: "n div 64 * 64 + n mod 64 = n" for n :: nat by (rule div_mult_mod_eq)
  have d: "c div 4096 = c div 64 div 64" "c div 262144 = c div 64 div 64 div 64"
    by (simp_all flip: div_mult2_eq)
  show "c div 4096 * 4096 + c div 64 mod 64 * 64 + c mod 64 = c"
    using 1 [of c] 1 [of "c div 64"] unfolding d by linarith
  show "c div 262144 * 262144 + c div 4096 mod 64 * 4096 + c div 64 mod 64 * 64 + c mod 64 = c"
    using 1 [of c] 1 [of "c div 64"] 1 [of "c div 64 div 64"] unfolding d by linarith
qed

lemma utf8_point_encode: "is_scalar c \<Longrightarrow> utf8_point (utf8_encode c) = c"
proof -
  assume "is_scalar c"
  then have "c \<le> 0x10FFFF" by (simp add: is_scalar_def)
  then consider "c < 0x80" | "0x80 \<le> c" "c < 0x800" | "0x800 \<le> c" "c < 0x10000"
    | "0x10000 \<le> c" "c < 0x110000" by linarith
  then show ?thesis
  proof cases
    case 1
    then show ?thesis by (simp add: utf8_encode_def unat_of_nat8)
  next
    case 2
    then have "c div 64 < 32" by simp
    with 2 show ?thesis
      by (simp add: utf8_encode_def unat_of_nat8 add_mod_base base64_sum del: of_nat_add)
  next
    case 3
    then have "c div 4096 < 16" by simp
    with 3 show ?thesis
      by (simp add: utf8_encode_def unat_of_nat8 add_mod_base base64_sum del: of_nat_add)
  next
    case 4
    then have "c div 262144 < 8" by simp
    with 4 show ?thesis
      by (simp add: utf8_encode_def unat_of_nat8 add_mod_base base64_sum del: of_nat_add)
  qed
qed

lemma utf8_encode_wf: "is_scalar c \<Longrightarrow> utf8_wf (utf8_encode c)"
  by (simp add: utf8_wf_def utf8_point_encode)

lemma utf8_encode_multi:
  assumes "is_scalar c" "0x80 \<le> c"
  shows "\<exists>a cs. utf8_encode c = a # cs \<and> utf8_need a = length cs \<and> cs \<noteq> [] \<and> list_all is_cont cs"
proof -
  have le: "c \<le> 0x10FFFF" using assms by (simp add: is_scalar_def)
  have cont: "is_cont (of_nat (0x80 + n mod 64))" for n
  proof -
    have "unat (of_nat (0x80 + n mod 64) :: byte) = 0x80 + n mod 64"
      by (rule unat_of_nat8) (use pos_mod_bound [of 64 "int n"] in presburger)
    moreover have "n mod 64 < 64" by simp
    ultimately show ?thesis
      unfolding is_cont_def word_le_nat_alt by (simp del: of_nat_add)
  qed
  consider "c < 0x800" | "0x800 \<le> c" "c < 0x10000" | "0x10000 \<le> c" by linarith
  then show ?thesis
  proof cases
    case 1
    then have d: "c div 64 < 32" "2 \<le> c div 64" using assms(2) by auto
    have "utf8_need (of_nat (0xC0 + c div 64)) = 1"
      unfolding utf8_need_def word_le_nat_alt using d by (simp add: unat_of_nat8 del: of_nat_add)
    with 1 assms(2) cont show ?thesis by (simp add: utf8_encode_def)
  next
    case 2
    then have d: "c div 4096 < 16" by auto
    have "utf8_need (of_nat (0xE0 + c div 4096)) = 2"
      unfolding utf8_need_def word_le_nat_alt using d by (simp add: unat_of_nat8 del: of_nat_add)
    with 2 cont show ?thesis by (simp add: utf8_encode_def)
  next
    case 3
    then have d: "c div 262144 < 5" using le by auto
    have "utf8_need (of_nat (0xF0 + c div 262144)) = 3"
      unfolding utf8_need_def word_le_nat_alt using d by (simp add: unat_of_nat8 del: of_nat_add)
    with 3 cont show ?thesis by (simp add: utf8_encode_def)
  qed
qed

lemma utf8_lossy_encode: "is_scalar c \<Longrightarrow> utf8_lossy (utf8_encode c @ bs) = utf8_encode c @ utf8_lossy bs"
proof (cases "c < 0x80")
  case True
  then show ?thesis using utf8_encode_1 [OF True] by (auto simp: utf8_lossy_ascii)
next
  case False
  assume s: "is_scalar c"
  from False obtain a cs where a: "utf8_encode c = a # cs" "utf8_need a = length cs" "cs \<noteq> []"
    "list_all is_cont cs" using utf8_encode_multi [OF s] by auto
  have "utf8_wf (a # cs)" using utf8_encode_wf [OF s] a(1) by simp
  moreover have tw: "takeWhile is_cont cs = cs"
    using a(4) by (simp add: list_all_iff takeWhile_eq_all_conv)
  ultimately show ?thesis
    unfolding a(1) append_Cons using a(2,3) by (simp add: utf8_lossy_lead [OF a(2)] Let_def tw)
qed

lemma utf8_lossy_id_append:
  assumes "utf8_valid xs"
  shows "utf8_lossy (xs @ ys) = xs @ utf8_lossy ys"
proof -
  obtain cps where c: "list_all is_scalar cps" "xs = concat (map utf8_encode cps)"
    using assms by (auto simp: utf8_valid_def)
  have "utf8_lossy (concat (map utf8_encode cps) @ ys) = concat (map utf8_encode cps) @ utf8_lossy ys"
    using c(1) by (induction cps) (auto simp: utf8_lossy_encode)
  with c(2) show ?thesis by simp
qed

lemma utf8_lossy_id: "utf8_valid xs \<Longrightarrow> utf8_lossy xs = xs"
  using utf8_lossy_id_append [of xs "[]"] by simp

lemma utf8_valid_iff_lossy: "utf8_valid bs \<longleftrightarrow> utf8_lossy bs = bs"
  using utf8_lossy_valid [of bs] utf8_lossy_id by metis

lemma utf8_valid_code [code]: "utf8_valid bs = (utf8_lossy bs = bs)"
  by (rule utf8_valid_iff_lossy)

text \<open>Well-formed text may be cut before and after any ASCII byte.\<close>

lemma utf8_encode_ascii_pos:
  assumes "is_scalar c" "utf8_encode c = us @ a # vs" "a \<le> 0x7F"
  shows "us = [] \<and> vs = []"
proof (cases "c < 0x80")
  case True
  then obtain b where "utf8_encode c = [b]" using utf8_encode_1 by blast
  with assms(2) show ?thesis by (cases us) auto
next
  case False
  then obtain d cs where e: "utf8_encode c = d # cs" "utf8_need d = length cs" "cs \<noteq> []" "list_all is_cont cs"
    using utf8_encode_multi [OF assms(1)] by auto
  show ?thesis
  proof (cases us)
    case Nil
    with e assms(2,3) utf8_need_ascii [of a] show ?thesis by simp
  next
    case (Cons u us')
    with e assms(2) have "is_cont a" by (auto simp: list_all_iff)
    with assms(3) have False unfolding is_cont_def word_le_nat_alt by simp
    then show ?thesis ..
  qed
qed

lemma utf8_valid_split:
  assumes "utf8_valid (xs @ a # ys)" "a \<le> 0x7F"
  shows "utf8_valid xs \<and> utf8_valid ys"
proof -
  obtain cps where "list_all is_scalar cps" "xs @ a # ys = concat (map utf8_encode cps)"
    using assms(1) by (auto simp: utf8_valid_def)
  then show ?thesis
  proof (induction cps arbitrary: xs)
    case (Cons c cps)
    have rest: "utf8_valid (concat (map utf8_encode cps))"
      unfolding utf8_valid_def using Cons.prems(1) by (intro exI [of _ cps]) simp
    have sc: "is_scalar c" using Cons.prems(1) by simp
    from Cons.prems(2) have eq: "xs @ a # ys = utf8_encode c @ concat (map utf8_encode cps)" by simp
    then consider (1) us where "xs = utf8_encode c @ us" "us @ a # ys = concat (map utf8_encode cps)"
      | (2) us where "xs @ us = utf8_encode c" "a # ys = us @ concat (map utf8_encode cps)"
      by (auto simp: append_eq_append_conv2)
    then show ?case
    proof cases
      case 1
      with Cons.IH [of us] Cons.prems(1) utf8_valid_append [OF utf8_valid_encode [OF sc]]
      show ?thesis by simp
    next
      case 2
      show ?thesis
      proof (cases us)
        case Nil
        with 2 Cons.IH [of "[]"] Cons.prems(1) utf8_valid_encode [OF sc] show ?thesis by simp
      next
        case (Cons b vs)
        then have ys: "utf8_encode c = xs @ a # vs" "ys = vs @ concat (map utf8_encode cps)"
          using 2 by auto
        from utf8_encode_ascii_pos [OF sc ys(1) assms(2)] ys(2) rest show ?thesis by simp
      qed
    qed
  qed simp
qed

lemma utf8_valid_tl: "utf8_valid (a # ys) \<Longrightarrow> a \<le> 0x7F \<Longrightarrow> utf8_valid ys"
  using utf8_valid_split [of "[]"] by simp

lemma utf8_valid_ascii_all: "list_all (\<lambda>b. b \<le> 0x7F) bs \<Longrightarrow> utf8_valid bs"
proof (induction bs)
  case (Cons b bs)
  then show ?case using utf8_valid_append [OF utf8_valid_ascii [of b], of bs] by simp
qed simp

end
