(* ===== verification/Sse.thy ===== *)
theory Sse
  imports Prelude
begin

text \<open>
  The incremental server-sent-events parser of \<open>src/src/sse.c\<close>: its byte buffers with their
  memory budget, the UTF-8 decoder that replaces ill-formed sequences, the byte-order-mark
  filter, the line machine, the field handlers, the dispatch of events to the callbacks and
  the public entry points.

  Correspondence with the code. A \<open>struct sse_buf\<close> is the list of its first \<open>len\<close> bytes,
  its capacity and the allocator's answer to each request. The pair \<open>utf8_seq\<close>/\<open>utf8_len\<close>
  is one list, and so is \<open>bom_buf\<close>/\<open>bom_len\<close>. A callback with its \<open>user_data\<close> is a
  function on the memory its user pointer reaches, of type \<open>'u\<close>; both callbacks of a parser
  share that memory in the library. A span with a NULL pointer is the empty list: the
  parser builds such a span exactly when the buffer is empty.
\<close>

section \<open>Types\<close>

datatype sse_err_t =
    SSE_OK
  | SSE_ERR_NOMEM
  | SSE_ERR_OVERFLOW_LINE
  | SSE_ERR_OVERFLOW_FRAME
  | SSE_ERR_OVERFLOW_BUFFER
  | SSE_ERR_OVERFLOW_TOTAL
  | SSE_ERR_ABORT
  | SSE_ERR_BAD_INPUT

record sse_event =
  ev_data :: "byte list"
  ev_type :: "byte list"
  ev_last_id :: "byte list"

record sse_buf =
  sb_data :: "byte list"
  sb_cap :: nat
  sb_realloc :: "nat \<Rightarrow> bool"

record 'u sse_parser =
  sp_line :: sse_buf
  sp_data :: sse_buf
  sp_event_type :: sse_buf
  sp_last_event_id :: sse_buf
  max_line_bytes :: nat
  max_frame_bytes :: nat
  max_sse_buffer_bytes :: nat
  max_total_bytes :: nat
  total_bytes_seen :: nat
  mem_used :: nat
  data_seen :: bool
  pending_cr :: bool
  bom_checked :: bool
  bom_buf :: "byte list"
  utf8_seq :: "byte list"
  utf8_expected :: nat
  utf8_total :: nat
  retry_ms :: nat
  retry_set :: bool
  on_event :: "('u \<Rightarrow> sse_event \<Rightarrow> bool \<times> 'u) option"
  on_frame :: "('u \<Rightarrow> bool \<times> 'u) option"
  user_data :: 'u
  last_error :: sse_err_t

section \<open>Buffers\<close>

definition sse_buf_empty :: "(nat \<Rightarrow> bool) \<Rightarrow> sse_buf" where
  "sse_buf_empty ok = \<lparr>sb_data = [], sb_cap = 0, sb_realloc = ok\<rparr>"

definition sse_buf_free :: "sse_buf \<Rightarrow> sse_buf" where
  "sse_buf_free buf = buf\<lparr>sb_data := [], sb_cap := 0\<rparr>"

text \<open>
  \<open>sse_buf_reserve\<close> gets the budget and the memory in use of the parser and returns the
  new memory in use with the buffer.
\<close>

definition sse_buf_reserve ::
  "nat \<Rightarrow> nat \<Rightarrow> sse_buf \<Rightarrow> nat \<Rightarrow> sse_err_t \<times> nat \<times> sse_buf" where
  "sse_buf_reserve max_buf mem buf needed =
     (if needed \<le> sb_cap buf then (SSE_OK, mem, buf)
      else
        let doubled = (if sb_cap buf \<noteq> 0 then sb_cap buf * 2 else 64);
            new_cap = (if doubled < needed then needed else doubled);
            used_without = mem - sb_cap buf;
            max_cap = (if max_buf > used_without then max_buf - used_without else 0)
        in if max_buf \<noteq> 0 \<and> needed > max_cap then (SSE_ERR_OVERFLOW_BUFFER, mem, buf)
           else
             let cap = (if max_buf \<noteq> 0 \<and> new_cap > max_cap then max_cap else new_cap)
             in if sb_realloc buf cap
                then (SSE_OK, mem - sb_cap buf + cap, buf\<lparr>sb_cap := cap\<rparr>)
                else (SSE_ERR_NOMEM, mem, buf))"

definition sse_buf_append ::
  "nat \<Rightarrow> nat \<Rightarrow> sse_buf \<Rightarrow> byte list \<Rightarrow> sse_err_t \<times> nat \<times> sse_buf" where
  "sse_buf_append max_buf mem buf bs =
     (if bs = [] then (SSE_OK, mem, buf)
      else case sse_buf_reserve max_buf mem buf (length (sb_data buf) + length bs) of
        (rc, mem', buf') \<Rightarrow>
          if rc \<noteq> SSE_OK then (rc, mem', buf')
          else (SSE_OK, mem', buf'\<lparr>sb_data := sb_data buf' @ bs\<rparr>))"

definition sse_buf_append_byte ::
  "nat \<Rightarrow> nat \<Rightarrow> sse_buf \<Rightarrow> byte \<Rightarrow> sse_err_t \<times> nat \<times> sse_buf" where
  "sse_buf_append_byte max_buf mem buf b = sse_buf_append max_buf mem buf [b]"

definition sse_buf_set ::
  "nat \<Rightarrow> nat \<Rightarrow> sse_buf \<Rightarrow> byte list \<Rightarrow> sse_err_t \<times> nat \<times> sse_buf" where
  "sse_buf_set max_buf mem buf bs =
     (let buf0 = buf\<lparr>sb_data := []\<rparr>
      in if bs = [] then (SSE_OK, mem, buf0)
         else case sse_buf_reserve max_buf mem buf0 (length bs) of
           (rc, mem', buf') \<Rightarrow>
             if rc \<noteq> SSE_OK then (rc, mem', buf')
             else (SSE_OK, mem', buf'\<lparr>sb_data := bs\<rparr>))"

section \<open>The line buffer and the UTF-8 decoder\<close>

definition sse_line_append :: "'u sse_parser \<Rightarrow> byte list \<Rightarrow> sse_err_t \<times> 'u sse_parser" where
  "sse_line_append p bs =
     (if max_line_bytes p \<noteq> 0 \<and> length (sb_data (sp_line p)) + length bs > max_line_bytes p
      then (SSE_ERR_OVERFLOW_LINE, p)
      else case sse_buf_append (max_sse_buffer_bytes p) (mem_used p) (sp_line p) bs of
        (rc, mem, buf) \<Rightarrow> (rc, p\<lparr>mem_used := mem, sp_line := buf\<rparr>))"

definition sse_line_append_byte :: "'u sse_parser \<Rightarrow> byte \<Rightarrow> sse_err_t \<times> 'u sse_parser" where
  "sse_line_append_byte p b =
     (if max_line_bytes p \<noteq> 0 \<and> length (sb_data (sp_line p)) + 1 > max_line_bytes p
      then (SSE_ERR_OVERFLOW_LINE, p)
      else case sse_buf_append_byte (max_sse_buffer_bytes p) (mem_used p) (sp_line p) b of
        (rc, mem, buf) \<Rightarrow> (rc, p\<lparr>mem_used := mem, sp_line := buf\<rparr>))"

definition repl :: "byte list" where
  "repl = [0xEF, 0xBF, 0xBD]"

definition sse_append_replacement :: "'u sse_parser \<Rightarrow> sse_err_t \<times> 'u sse_parser" where
  "sse_append_replacement p = sse_line_append p repl"

definition utf8_reset :: "'u sse_parser \<Rightarrow> 'u sse_parser" where
  "utf8_reset p = p\<lparr>utf8_seq := [], utf8_expected := 0, utf8_total := 0\<rparr>"

text \<open>The code points are computed in 32-bit arithmetic, as in the code.\<close>

definition u32 :: "byte \<Rightarrow> 32 word" where
  "u32 b = ucast b"

definition utf8_sequence_code :: "byte list \<Rightarrow> (32 word \<times> 32 word) option" where
  "utf8_sequence_code seq =
     (if length seq = 2 then
        Some (or (push_bit 6 (u32 (and (seq ! 0) 0x1F))) (u32 (and (seq ! 1) 0x3F)), 0x80)
      else if length seq = 3 then
        Some (or (or (push_bit 12 (u32 (and (seq ! 0) 0x0F)))
                     (push_bit 6 (u32 (and (seq ! 1) 0x3F))))
                 (u32 (and (seq ! 2) 0x3F)), 0x800)
      else if length seq = 4 then
        Some (or (or (or (push_bit 18 (u32 (and (seq ! 0) 0x07)))
                         (push_bit 12 (u32 (and (seq ! 1) 0x3F))))
                     (push_bit 6 (u32 (and (seq ! 2) 0x3F))))
                 (u32 (and (seq ! 3) 0x3F)), 0x10000)
      else None)"

definition utf8_sequence_valid :: "byte list \<Rightarrow> bool" where
  "utf8_sequence_valid seq =
     (case utf8_sequence_code seq of
        None \<Rightarrow> False
      | Some (code, minimum) \<Rightarrow>
          if code < minimum then False
          else if code > 0x10FFFF then False
          else if code \<ge> 0xD800 \<and> code \<le> 0xDFFF then False
          else True)"

definition sse_utf8_emit_sequence :: "'u sse_parser \<Rightarrow> sse_err_t \<times> 'u sse_parser" where
  "sse_utf8_emit_sequence p =
     (if utf8_sequence_valid (utf8_seq p) then sse_line_append p (utf8_seq p)
      else sse_append_replacement p)"

text \<open>
  The branch of \<open>sse_utf8_feed_byte\<close> with no sequence pending. The recursive call of the
  code happens after \<open>utf8_reset\<close>, so it always takes this branch and the recursion has
  depth one.
\<close>

definition sse_utf8_start_byte :: "'u sse_parser \<Rightarrow> byte \<Rightarrow> sse_err_t \<times> 'u sse_parser" where
  "sse_utf8_start_byte p b =
     (if b \<le> 0x7F then sse_line_append_byte p b
      else if b \<ge> 0xC2 \<and> b \<le> 0xDF then
        (SSE_OK, p\<lparr>utf8_seq := [b], utf8_total := 2, utf8_expected := 1\<rparr>)
      else if b \<ge> 0xE0 \<and> b \<le> 0xEF then
        (SSE_OK, p\<lparr>utf8_seq := [b], utf8_total := 3, utf8_expected := 2\<rparr>)
      else if b \<ge> 0xF0 \<and> b \<le> 0xF4 then
        (SSE_OK, p\<lparr>utf8_seq := [b], utf8_total := 4, utf8_expected := 3\<rparr>)
      else sse_append_replacement p)"

definition sse_utf8_feed_byte :: "'u sse_parser \<Rightarrow> byte \<Rightarrow> sse_err_t \<times> 'u sse_parser" where
  "sse_utf8_feed_byte p b =
     (if utf8_expected p = 0 then sse_utf8_start_byte p b
      else if b \<ge> 0x80 \<and> b \<le> 0xBF then
        let p1 = p\<lparr>utf8_seq := utf8_seq p @ [b], utf8_expected := utf8_expected p - 1\<rparr>
        in if utf8_expected p1 = 0
           then (case sse_utf8_emit_sequence p1 of (rc, p2) \<Rightarrow> (rc, utf8_reset p2))
           else (SSE_OK, p1)
      else
        (case sse_append_replacement p of
           (rc, p1) \<Rightarrow>
             let p2 = utf8_reset p1
             in if rc \<noteq> SSE_OK then (rc, p2) else sse_utf8_start_byte p2 b))"

definition sse_utf8_flush_incomplete :: "'u sse_parser \<Rightarrow> sse_err_t \<times> 'u sse_parser" where
  "sse_utf8_flush_incomplete p =
     (if utf8_expected p = 0 then (SSE_OK, p)
      else sse_append_replacement (utf8_reset p))"

section \<open>Fields\<close>

text \<open>The digit loop of \<open>sse_parse_retry_value\<close>, with its overflow test.\<close>

fun sse_retry_digits :: "nat \<Rightarrow> byte list \<Rightarrow> nat option" where
  "sse_retry_digits v [] = Some v"
| "sse_retry_digits v (c # cs) =
     (if \<not> is_digit c then None
      else if v > (SIZE_MAX - digit_val c) div 10 then None
      else sse_retry_digits (v * 10 + digit_val c) cs)"

definition sse_parse_retry_value :: "byte list \<Rightarrow> nat option" where
  "sse_parse_retry_value v = (if v = [] then None else sse_retry_digits 0 v)"

definition sse_handle_data :: "'u sse_parser \<Rightarrow> byte list \<Rightarrow> sse_err_t \<times> 'u sse_parser" where
  "sse_handle_data p v =
     (if max_frame_bytes p \<noteq> 0 \<and> length (sb_data (sp_data p)) + (length v + 1) > max_frame_bytes p
      then (SSE_ERR_OVERFLOW_FRAME, p)
      else case sse_buf_append (max_sse_buffer_bytes p) (mem_used p) (sp_data p) v of
        (rc, mem, buf) \<Rightarrow>
          let p1 = p\<lparr>mem_used := mem, sp_data := buf\<rparr>
          in if rc \<noteq> SSE_OK then (rc, p1)
             else case sse_buf_append_byte (max_sse_buffer_bytes p1) (mem_used p1) (sp_data p1) C_LF of
               (rc, mem, buf) \<Rightarrow>
                 let p2 = p1\<lparr>mem_used := mem, sp_data := buf\<rparr>
                 in if rc \<noteq> SSE_OK then (rc, p2) else (SSE_OK, p2\<lparr>data_seen := True\<rparr>))"

definition sse_handle_event :: "'u sse_parser \<Rightarrow> byte list \<Rightarrow> sse_err_t \<times> 'u sse_parser" where
  "sse_handle_event p v =
     (case sse_buf_set (max_sse_buffer_bytes p) (mem_used p) (sp_event_type p) v of
        (rc, mem, buf) \<Rightarrow> (rc, p\<lparr>mem_used := mem, sp_event_type := buf\<rparr>))"

definition sse_handle_id :: "'u sse_parser \<Rightarrow> byte list \<Rightarrow> sse_err_t \<times> 'u sse_parser" where
  "sse_handle_id p v =
     (if v \<noteq> [] \<and> memchr v C_NUL \<noteq> None then (SSE_OK, p)
      else case sse_buf_set (max_sse_buffer_bytes p) (mem_used p) (sp_last_event_id p) v of
        (rc, mem, buf) \<Rightarrow> (rc, p\<lparr>mem_used := mem, sp_last_event_id := buf\<rparr>))"

definition sse_handle_retry :: "'u sse_parser \<Rightarrow> byte list \<Rightarrow> sse_err_t \<times> 'u sse_parser" where
  "sse_handle_retry p v =
     (case sse_parse_retry_value v of
        Some n \<Rightarrow> (SSE_OK, p\<lparr>retry_ms := n, retry_set := True\<rparr>)
      | None \<Rightarrow> (SSE_OK, p))"

text \<open>The field name and value of a line that is neither empty nor a comment.\<close>

definition sse_split_field :: "byte list \<Rightarrow> byte list \<times> byte list" where
  "sse_split_field line =
     (case memchr line C_COLON of
        Some n \<Rightarrow>
          let v = drop (n + 1) line
          in (take n line, if v \<noteq> [] \<and> v ! 0 = C_SP then drop 1 v else v)
      | None \<Rightarrow> (line, []))"

section \<open>Lines and dispatch\<close>

definition drop_trailing_lf :: "byte list \<Rightarrow> byte list" where
  "drop_trailing_lf d = (if d \<noteq> [] \<and> last d = C_LF then butlast d else d)"

definition sse_reset_event :: "'u sse_parser \<Rightarrow> 'u sse_parser" where
  "sse_reset_event p =
     p\<lparr>sp_data := (sp_data p)\<lparr>sb_data := []\<rparr>,
       sp_event_type := (sp_event_type p)\<lparr>sb_data := []\<rparr>,
       data_seen := False\<rparr>"

definition sse_call_frame :: "'u sse_parser \<Rightarrow> bool \<times> 'u sse_parser" where
  "sse_call_frame p =
     (case on_frame p of
        None \<Rightarrow> (True, p)
      | Some f \<Rightarrow> (case f (user_data p) of (ok, u) \<Rightarrow> (ok, p\<lparr>user_data := u\<rparr>)))"

definition sse_call_event :: "'u sse_parser \<Rightarrow> sse_event \<Rightarrow> bool \<times> 'u sse_parser" where
  "sse_call_event p e =
     (case on_event p of
        None \<Rightarrow> (True, p)
      | Some f \<Rightarrow> (case f (user_data p) e of (ok, u) \<Rightarrow> (ok, p\<lparr>user_data := u\<rparr>)))"

definition sse_event_of :: "'u sse_parser \<Rightarrow> sse_event" where
  "sse_event_of p =
     \<lparr>ev_data = sb_data (sp_data p),
      ev_type = (if length (sb_data (sp_event_type p)) > 0 then sb_data (sp_event_type p)
                 else lit ''message''),
      ev_last_id = sb_data (sp_last_event_id p)\<rparr>"

definition sse_dispatch :: "'u sse_parser \<Rightarrow> sse_err_t \<times> 'u sse_parser" where
  "sse_dispatch p =
     (case sse_call_frame p of (ok, p1) \<Rightarrow>
        if \<not> ok then (SSE_ERR_ABORT, p1)
        else if data_seen p1 then
          let p2 = p1\<lparr>sp_data := (sp_data p1)\<lparr>sb_data := drop_trailing_lf (sb_data (sp_data p1))\<rparr>\<rparr>
          in (case sse_call_event p2 (sse_event_of p2) of (ok, p3) \<Rightarrow>
                if \<not> ok then (SSE_ERR_ABORT, p3) else (SSE_OK, sse_reset_event p3))
        else (SSE_OK, sse_reset_event p1))"

definition sse_process_line :: "'u sse_parser \<Rightarrow> sse_err_t \<times> 'u sse_parser" where
  "sse_process_line p =
     (let line = sb_data (sp_line p)
      in if line = [] then sse_dispatch p
         else if line ! 0 = C_COLON then (SSE_OK, p)
         else case sse_split_field line of (field, v) \<Rightarrow>
           if field = lit ''data'' then sse_handle_data p v
           else if field = lit ''event'' then sse_handle_event p v
           else if field = lit ''id'' then sse_handle_id p v
           else if field = lit ''retry'' then sse_handle_retry p v
           else (SSE_OK, p))"

section \<open>Bytes\<close>

definition sse_clear_line :: "'u sse_parser \<Rightarrow> 'u sse_parser" where
  "sse_clear_line p = p\<lparr>sp_line := (sp_line p)\<lparr>sb_data := []\<rparr>\<rparr>"

text \<open>What both line terminators do before they differ in \<open>pending_cr\<close>.\<close>

definition sse_end_line :: "'u sse_parser \<Rightarrow> sse_err_t \<times> 'u sse_parser" where
  "sse_end_line p =
     (case sse_utf8_flush_incomplete p of (rc, p1) \<Rightarrow>
        if rc \<noteq> SSE_OK then (rc, p1)
        else (case sse_process_line p1 of (rc, p2) \<Rightarrow>
          if rc \<noteq> SSE_OK then (rc, p2) else (SSE_OK, sse_clear_line p2)))"

definition sse_process_raw_byte :: "'u sse_parser \<Rightarrow> byte \<Rightarrow> sse_err_t \<times> 'u sse_parser" where
  "sse_process_raw_byte p b =
     (if pending_cr p \<and> b = C_LF then (SSE_OK, p\<lparr>pending_cr := False\<rparr>)
      else
        let p0 = p\<lparr>pending_cr := False\<rparr>
        in if b = C_CR then
             (case sse_end_line p0 of (rc, p1) \<Rightarrow>
                if rc \<noteq> SSE_OK then (rc, p1) else (SSE_OK, p1\<lparr>pending_cr := True\<rparr>))
           else if b = C_LF then sse_end_line p0
           else sse_utf8_feed_byte p0 b)"

fun sse_process_raw_bytes :: "'u sse_parser \<Rightarrow> byte list \<Rightarrow> sse_err_t \<times> 'u sse_parser" where
  "sse_process_raw_bytes p [] = (SSE_OK, p)"
| "sse_process_raw_bytes p (b # bs) =
     (case sse_process_raw_byte p b of (rc, p1) \<Rightarrow>
        if rc \<noteq> SSE_OK then (rc, p1) else sse_process_raw_bytes p1 bs)"

definition sse_process_byte :: "'u sse_parser \<Rightarrow> byte \<Rightarrow> sse_err_t \<times> 'u sse_parser" where
  "sse_process_byte p b =
     (if \<not> bom_checked p then
        let bom = bom_buf p @ [b]; p0 = p\<lparr>bom_buf := bom\<rparr>
        in if length bom = 1 \<and> bom ! 0 = 0xEF then (SSE_OK, p0)
           else if length bom = 2 \<and> bom ! 1 = 0xBB then (SSE_OK, p0)
           else if length bom = 3 \<and> bom ! 2 = 0xBF then
             (SSE_OK, p0\<lparr>bom_checked := True, bom_buf := []\<rparr>)
           else
             (case sse_process_raw_bytes (p0\<lparr>bom_checked := True\<rparr>) (take 3 bom) of (rc, p1) \<Rightarrow>
                if rc \<noteq> SSE_OK then (rc, p1) else (SSE_OK, p1\<lparr>bom_buf := []\<rparr>))
      else sse_process_raw_byte p b)"

section \<open>Entry points\<close>

text \<open>
  The entry points are modelled on a parser that exists. On a NULL parser the code returns
  at once: \<open>SSE_ERR_NOMEM\<close> from \<open>sse_feed\<close>, false from \<open>sse_retry_ms\<close>, nothing from the others.
\<close>

definition sse_init ::
  "nat \<Rightarrow> nat \<Rightarrow> nat \<Rightarrow> nat \<Rightarrow> (nat \<Rightarrow> bool) \<Rightarrow> 'u \<Rightarrow> 'u sse_parser" where
  "sse_init line frame buf total_max ok u =
     \<lparr>sp_line = sse_buf_empty ok, sp_data = sse_buf_empty ok,
      sp_event_type = sse_buf_empty ok, sp_last_event_id = sse_buf_empty ok,
      max_line_bytes = line, max_frame_bytes = frame, max_sse_buffer_bytes = buf,
      max_total_bytes = total_max, total_bytes_seen = 0, mem_used = 0,
      data_seen = False, pending_cr = False,
      bom_checked = False, bom_buf = [],
      utf8_seq = [], utf8_expected = 0, utf8_total = 0,
      retry_ms = 0, retry_set = False,
      on_event = None, on_frame = None, user_data = u, last_error = SSE_OK\<rparr>"

text \<open>\<open>alloc\<close> says whether the allocation of the parser itself succeeds.\<close>

definition sse_create ::
  "bool \<Rightarrow> nat \<Rightarrow> nat \<Rightarrow> nat \<Rightarrow> nat \<Rightarrow> (nat \<Rightarrow> bool) \<Rightarrow> 'u \<Rightarrow> 'u sse_parser option" where
  "sse_create alloc line frame buf total_max ok u =
     (if alloc then Some (sse_init line frame buf total_max ok u) else None)"

definition sse_destroy :: "'u sse_parser \<Rightarrow> sse_buf list" where
  "sse_destroy p = map sse_buf_free [sp_line p, sp_data p, sp_event_type p, sp_last_event_id p]"

definition sse_set_callback ::
  "'u sse_parser \<Rightarrow> ('u \<Rightarrow> sse_event \<Rightarrow> bool \<times> 'u) option \<Rightarrow> 'u sse_parser" where
  "sse_set_callback p cb = p\<lparr>on_event := cb\<rparr>"

definition sse_set_frame_callback ::
  "'u sse_parser \<Rightarrow> ('u \<Rightarrow> bool \<times> 'u) option \<Rightarrow> 'u sse_parser" where
  "sse_set_frame_callback p cb = p\<lparr>on_frame := cb\<rparr>"

definition sse_set_error :: "'u sse_parser \<Rightarrow> sse_err_t \<Rightarrow> sse_err_t \<times> 'u sse_parser" where
  "sse_set_error p err =
     (err, if last_error p = SSE_OK then p\<lparr>last_error := err\<rparr> else p)"

fun sse_process_bytes :: "'u sse_parser \<Rightarrow> byte list \<Rightarrow> sse_err_t \<times> 'u sse_parser" where
  "sse_process_bytes p [] = (SSE_OK, p)"
| "sse_process_bytes p (b # bs) =
     (case sse_process_byte p b of (rc, p1) \<Rightarrow>
        if rc \<noteq> SSE_OK then (rc, p1) else sse_process_bytes p1 bs)"

text \<open>
  A NULL chunk is an empty one, which the code treats alike. The running total is a \<open>size_t\<close>: it can wrap only
  when there is no total limit, and then it is never read.
\<close>

definition sse_feed ::
  "'u sse_parser \<Rightarrow> byte list \<Rightarrow> sse_err_t \<times> 'u sse_parser" where
  "sse_feed p chunk =
     (if last_error p \<noteq> SSE_OK then (last_error p, p)
      else if chunk = [] then (SSE_OK, p)
      else if max_total_bytes p \<noteq> 0 \<and> length chunk > max_total_bytes p - total_bytes_seen p
      then sse_set_error p SSE_ERR_OVERFLOW_TOTAL
      else
        let p0 = p\<lparr>total_bytes_seen := wrap64 (total_bytes_seen p + length chunk)\<rparr>
        in (case sse_process_bytes p0 chunk of (rc, p1) \<Rightarrow>
              if rc \<noteq> SSE_OK then sse_set_error p1 rc else (SSE_OK, p1)))"

definition sse_retry_ms :: "'u sse_parser \<Rightarrow> nat option" where
  "sse_retry_ms p = (if \<not> retry_set p then None else Some (retry_ms p))"

end
