(* ===== verification/SseSpec.thy ===== *)
theory SseSpec
  imports Utf8 Sse
begin

text \<open>
  What an event stream means, stated on the whole byte string (the rules of
  \<open>sse-spec.md\<close>): strip one byte order mark, end a line at CRLF, LF or CR, decode each
  line as UTF-8, process the lines one after the other over the data, type, identifier and
  retry variables, and dispatch on blank lines. Nothing here mentions chunks, buffers,
  limits or the order in which bytes arrive; the parser of \<open>Sse\<close> is proved against it in
  \<open>SseRefine\<close>.
\<close>

section \<open>Lines of a byte string\<close>

definition strip_bom :: "byte list \<Rightarrow> byte list" where
  "strip_bom bs = (if take 3 bs = [0xEF, 0xBB, 0xBF] then drop 3 bs else bs)"

text \<open>Every terminator becomes one LF.\<close>

fun norm_eol :: "byte list \<Rightarrow> byte list" where
  "norm_eol [] = []"
| "norm_eol [b] = [if b = C_CR then C_LF else b]"
| "norm_eol (a # b # bs) =
     (if a = C_CR \<and> b = C_LF then C_LF # norm_eol bs
      else (if a = C_CR then C_LF else a) # norm_eol (b # bs))"

text \<open>The pieces between LFs: the complete lines, and the unfinished last one.\<close>

fun split_lf :: "byte list \<Rightarrow> byte list list \<times> byte list" where
  "split_lf [] = ([], [])"
| "split_lf (b # bs) =
     (case split_lf bs of (ls, r) \<Rightarrow>
        if b = C_LF then ([] # ls, r)
        else (case ls of [] \<Rightarrow> ([], b # r) | l # ls' \<Rightarrow> ((b # l) # ls', r)))"

definition complete_lines :: "byte list \<Rightarrow> byte list list" where
  "complete_lines bs = fst (split_lf (norm_eol bs))"

definition unfinished_line :: "byte list \<Rightarrow> byte list" where
  "unfinished_line bs = snd (split_lf (norm_eol bs))"

section \<open>Fields and dispatch\<close>

record sse_vars =
  v_data :: "byte list"
  v_seen :: bool
  v_type :: "byte list"
  v_id :: "byte list"
  v_retry :: "nat option"

definition sse_vars0 :: sse_vars where
  "sse_vars0 = \<lparr>v_data = [], v_seen = False, v_type = [], v_id = [], v_retry = None\<rparr>"

text \<open>What the parser's owner observes: one call per blank line, one per event.\<close>

datatype sse_call = Frame_Call | Event_Call sse_event

definition field_name :: "byte list \<Rightarrow> byte list" where
  "field_name line = takeWhile (\<lambda>b. b \<noteq> C_COLON) line"

definition field_value :: "byte list \<Rightarrow> byte list" where
  "field_value line =
     (case dropWhile (\<lambda>b. b \<noteq> C_COLON) line of
        [] \<Rightarrow> []
      | _ # v \<Rightarrow> (case v of [] \<Rightarrow> [] | c # w \<Rightarrow> if c = C_SP then w else c # w))"

definition decimal :: "byte list \<Rightarrow> nat" where
  "decimal ds = foldl (\<lambda>n c. n * 10 + digit_val c) 0 ds"

definition spec_retry :: "byte list \<Rightarrow> nat option" where
  "spec_retry v = (if v \<noteq> [] \<and> list_all is_digit v \<and> decimal v \<le> SIZE_MAX
                   then Some (decimal v) else None)"

definition spec_event :: "sse_vars \<Rightarrow> sse_event" where
  "spec_event s =
     \<lparr>ev_data = (if v_data s \<noteq> [] \<and> last (v_data s) = C_LF then butlast (v_data s) else v_data s),
      ev_type = (if v_type s = [] then lit ''message'' else v_type s),
      ev_last_id = v_id s\<rparr>"

definition spec_dispatch :: "sse_vars \<Rightarrow> sse_vars \<times> sse_call list" where
  "spec_dispatch s =
     (s\<lparr>v_data := [], v_seen := False, v_type := []\<rparr>,
      Frame_Call # (if v_seen s then [Event_Call (spec_event s)] else []))"

definition spec_field :: "sse_vars \<Rightarrow> byte list \<Rightarrow> byte list \<Rightarrow> sse_vars" where
  "spec_field s name v =
     (if name = lit ''data'' then s\<lparr>v_data := v_data s @ v @ [C_LF], v_seen := True\<rparr>
      else if name = lit ''event'' then s\<lparr>v_type := v\<rparr>
      else if name = lit ''id'' then (if C_NUL \<in> set v then s else s\<lparr>v_id := v\<rparr>)
      else if name = lit ''retry'' then
        (case spec_retry v of Some n \<Rightarrow> s\<lparr>v_retry := Some n\<rparr> | None \<Rightarrow> s)
      else s)"

definition spec_line :: "sse_vars \<Rightarrow> byte list \<Rightarrow> sse_vars \<times> sse_call list" where
  "spec_line s line =
     (case line of
        [] \<Rightarrow> spec_dispatch s
      | c # _ \<Rightarrow> if c = C_COLON then (s, [])
                else (spec_field s (field_name line) (field_value line), []))"

definition spec_line_acc :: "sse_vars \<times> sse_call list \<Rightarrow> byte list \<Rightarrow> sse_vars \<times> sse_call list" where
  "spec_line_acc sc line = (case spec_line (fst sc) line of (s', cs) \<Rightarrow> (s', snd sc @ cs))"

definition spec_lines :: "byte list list \<Rightarrow> sse_vars \<times> sse_call list" where
  "spec_lines ls = foldl spec_line_acc (sse_vars0, []) ls"

text \<open>The calls a stream makes, and the events among them.\<close>

definition spec_run :: "byte list \<Rightarrow> sse_vars \<times> sse_call list" where
  "spec_run bs = spec_lines (map utf8_lossy (complete_lines (strip_bom bs)))"

definition spec_calls :: "byte list \<Rightarrow> sse_call list" where
  "spec_calls bs = snd (spec_run bs)"

fun events_of :: "sse_call list \<Rightarrow> sse_event list" where
  "events_of [] = []"
| "events_of (Frame_Call # cs) = events_of cs"
| "events_of (Event_Call e # cs) = e # events_of cs"

definition spec_events :: "byte list \<Rightarrow> sse_event list" where
  "spec_events bs = events_of (spec_calls bs)"

lemma events_of_append [simp]: "events_of (xs @ ys) = events_of xs @ events_of ys"
  by (induction xs rule: events_of.induct) auto

section \<open>Growing a stream by one byte\<close>

lemma split_lf_snoc:
  "split_lf (bs @ [b]) =
     (if b = C_LF then (fst (split_lf bs) @ [snd (split_lf bs)], [])
      else (fst (split_lf bs), snd (split_lf bs) @ [b]))"
proof (induction bs)
  case (Cons a bs)
  then show ?case by (auto split: prod.splits list.splits)
qed simp

lemma norm_eol_snoc:
  "norm_eol (bs @ [b]) =
     (if bs \<noteq> [] \<and> last bs = C_CR \<and> b = C_LF then norm_eol bs
      else norm_eol bs @ [if b = C_CR then C_LF else b])"
proof (induction bs rule: norm_eol.induct)
  case (3 a c bs)
  show ?case
  proof (cases bs)
    case Nil
    then show ?thesis using 3 by auto
  next
    case (Cons d ds)
    then show ?thesis using 3 by (cases "a = C_CR \<and> c = C_LF") auto
  qed
qed auto

lemma complete_lines_snoc:
  "complete_lines (bs @ [b]) =
     (if bs \<noteq> [] \<and> last bs = C_CR \<and> b = C_LF then complete_lines bs
      else if b = C_CR \<or> b = C_LF then complete_lines bs @ [unfinished_line bs]
      else complete_lines bs)"
  by (auto simp: complete_lines_def unfinished_line_def norm_eol_snoc split_lf_snoc)

lemma unfinished_line_snoc:
  "unfinished_line (bs @ [b]) =
     (if bs \<noteq> [] \<and> last bs = C_CR \<and> b = C_LF then unfinished_line bs
      else if b = C_CR \<or> b = C_LF then []
      else unfinished_line bs @ [b])"
  by (auto simp: unfinished_line_def norm_eol_snoc split_lf_snoc)

lemma complete_lines_Nil [simp]: "complete_lines [] = []"
  by (simp add: complete_lines_def)

lemma unfinished_line_Nil [simp]: "unfinished_line [] = []"
  by (simp add: unfinished_line_def)

lemma unfinished_line_after_cr: "bs \<noteq> [] \<Longrightarrow> last bs = C_CR \<Longrightarrow> unfinished_line bs = []"
  using unfinished_line_snoc [of "butlast bs" "last bs"] append_butlast_last_id [of bs] by simp

lemma spec_lines_snoc:
  "spec_lines (ls @ [l]) = spec_line_acc (spec_lines ls) l"
  by (simp add: spec_lines_def)

lemma spec_lines_prefix: "\<exists>cs. snd (spec_lines (ls @ ms)) = snd (spec_lines ls) @ cs"
proof (induction ms rule: rev_induct)
  case (snoc m ms)
  then obtain cs where "snd (spec_lines (ls @ ms)) = snd (spec_lines ls) @ cs" by blast
  then show ?case
    using spec_lines_snoc [of "ls @ ms" m] by (auto simp: spec_line_acc_def split: prod.splits)
qed simp

text \<open>Three equivalent readings of a field, for the code's \<open>memchr\<close> and pointer arithmetic.\<close>

lemma field_of_memchr:
  "sse_split_field line = (field_name line, field_value line)"
proof (cases "memchr line C_COLON")
  case None
  then have "C_COLON \<notin> set line" by (simp add: memchr_None_iff)
  then have f: "field_name line = line" and d: "dropWhile (\<lambda>b. b \<noteq> C_COLON) line = []"
    by (auto simp: field_name_def takeWhile_eq_all_conv)
  have "field_value line = []" unfolding field_value_def d by simp
  then show ?thesis using None f by (simp add: sse_split_field_def)
next
  case (Some n)
  then have n: "n = length (takeWhile (\<lambda>b. b \<noteq> C_COLON) line)" "n < length line"
    by (auto simp: memchr_def Let_def split: if_splits)
  have "take n line = field_name line"
    unfolding field_name_def n(1) by (rule takeWhile_eq_take [symmetric])
  moreover have "dropWhile (\<lambda>b. b \<noteq> C_COLON) line = drop n line"
    using n(1) dropWhile_eq_drop by metis
  then have "dropWhile (\<lambda>b. b \<noteq> C_COLON) line = line ! n # drop (n + 1) line"
    using n(2) by (simp add: Cons_nth_drop_Suc)
  then have "field_value line =
      (if drop (n + 1) line \<noteq> [] \<and> drop (n + 1) line ! 0 = C_SP
       then drop 1 (drop (n + 1) line) else drop (n + 1) line)"
    unfolding field_value_def by (cases "drop (n + 1) line") simp_all
  ultimately show ?thesis
    unfolding sse_split_field_def Some by (simp only: option.case Let_def)
qed

lemma sse_retry_digits_spec:
  "v \<le> SIZE_MAX \<Longrightarrow> sse_retry_digits v ds =
     (if list_all is_digit ds \<and> foldl (\<lambda>n c. n * 10 + digit_val c) v ds \<le> SIZE_MAX
      then Some (foldl (\<lambda>n c. n * 10 + digit_val c) v ds) else None)"
proof (induction ds arbitrary: v)
  case (Cons c cs)
  have mono: "n \<le> foldl (\<lambda>n c. n * 10 + digit_val c) n xs" for n xs
  proof (induction xs arbitrary: n)
    case (Cons x xs)
    have "n \<le> n * 10 + digit_val x" by simp
    also have "\<dots> \<le> foldl (\<lambda>n c. n * 10 + digit_val c) (n * 10 + digit_val x) xs" by (rule Cons)
    finally show ?case by simp
  qed simp
  show ?case
  proof (cases "is_digit c")
    case True
    have "digit_val c \<le> SIZE_MAX" using digit_val_le_9 [OF True] by (simp add: SIZE_MAX_def)
    then have "\<not> v > (SIZE_MAX - digit_val c) div 10 \<longleftrightarrow> v * 10 + digit_val c \<le> SIZE_MAX"
      by (simp add: not_less less_eq_div_iff_mult_less_eq le_diff_conv2)
    then show ?thesis
      using True Cons.IH [of "v * 10 + digit_val c"] mono [of "v * 10 + digit_val c" cs] by auto
  qed simp
qed simp

lemma sse_parse_retry_value_spec: "sse_parse_retry_value v = spec_retry v"
  using sse_retry_digits_spec [of 0 v] by (simp add: sse_parse_retry_value_def spec_retry_def decimal_def)

section \<open>Everything in the variables is well-formed\<close>

lemma field_parts: "C_COLON \<in> set line \<Longrightarrow> \<exists>v. line = field_name line @ C_COLON # v \<and>
    field_value line = (case v of [] \<Rightarrow> [] | c # w \<Rightarrow> if c = C_SP then w else c # w)"
proof -
  assume "C_COLON \<in> set line"
  then obtain v where d: "dropWhile (\<lambda>b. b \<noteq> C_COLON) line = C_COLON # v"
    using hd_dropWhile [of "\<lambda>b. b \<noteq> C_COLON" line] dropWhile_eq_Nil_conv
    by (metis (mono_tags, lifting) list.exhaust_sel)
  have "line = field_name line @ dropWhile (\<lambda>b. b \<noteq> C_COLON) line"
    unfolding field_name_def by (rule takeWhile_dropWhile_id [symmetric])
  then show ?thesis using d by (intro exI [of _ v]) (simp add: field_value_def)
qed

lemma field_value_valid:
  assumes "utf8_valid line" shows "utf8_valid (field_value line)"
proof (cases "C_COLON \<in> set line")
  case True
  then obtain v where v: "line = field_name line @ C_COLON # v"
    "field_value line = (case v of [] \<Rightarrow> [] | c # w \<Rightarrow> if c = C_SP then w else c # w)"
    using field_parts by blast
  have "utf8_valid v" using utf8_valid_split [of "field_name line" C_COLON v] v(1) assms by simp
  then show ?thesis using v(2) utf8_valid_tl [of C_SP] by (cases v) auto
next
  case False
  then have "dropWhile (\<lambda>b. b \<noteq> C_COLON) line = []" by auto
  then show ?thesis by (simp only: field_value_def list.case utf8_valid_Nil)
qed

definition vars_valid :: "sse_vars \<Rightarrow> bool" where
  "vars_valid s \<longleftrightarrow> utf8_valid (v_data s) \<and> utf8_valid (v_type s) \<and> utf8_valid (v_id s) \<and>
     C_NUL \<notin> set (v_id s) \<and> (v_seen s \<longrightarrow> v_data s \<noteq> [] \<and> last (v_data s) = C_LF)"

definition event_valid :: "sse_event \<Rightarrow> bool" where
  "event_valid e \<longleftrightarrow> utf8_valid (ev_data e) \<and> utf8_valid (ev_type e) \<and> ev_type e \<noteq> [] \<and>
     utf8_valid (ev_last_id e) \<and> C_NUL \<notin> set (ev_last_id e)"

lemma spec_event_valid:
  assumes "vars_valid s" shows "event_valid (spec_event s)"
proof -
  have "utf8_valid (butlast (v_data s))" if "v_data s \<noteq> []" "last (v_data s) = C_LF"
    using utf8_valid_split [of "butlast (v_data s)" C_LF "[]"] assms that append_butlast_last_id [of "v_data s"]
    by (simp add: vars_valid_def)
  moreover have "utf8_valid (lit ''message'')" by code_simp
  ultimately show ?thesis using assms by (auto simp: event_valid_def spec_event_def vars_valid_def)
qed

lemma spec_field_valid: "vars_valid s \<Longrightarrow> utf8_valid v \<Longrightarrow> vars_valid (spec_field s name v)"
  using utf8_valid_append [of "v_data s" "v @ [C_LF]"] utf8_valid_append [of v "[C_LF]"]
    utf8_valid_ascii [of C_LF]
  by (auto simp: spec_field_def vars_valid_def split: option.splits)

lemma spec_line_valid:
  assumes "vars_valid s" "utf8_valid l" "spec_line s l = (s', cs)"
  shows "vars_valid s' \<and> list_all event_valid (events_of cs)"
  using assms spec_field_valid [OF assms(1) field_value_valid [OF assms(2)], of "field_name l"]
    spec_event_valid [OF assms(1)]
  by (auto simp: spec_line_def spec_dispatch_def vars_valid_def split: list.splits if_splits)

lemma spec_lines_valid:
  "list_all utf8_valid ls \<Longrightarrow>
     vars_valid (fst (spec_lines ls)) \<and> list_all event_valid (events_of (snd (spec_lines ls)))"
proof (induction ls rule: rev_induct)
  case Nil
  show ?case by (simp add: spec_lines_def sse_vars0_def vars_valid_def)
next
  case (snoc l ls)
  obtain s' cs where l: "spec_line (fst (spec_lines ls)) l = (s', cs)" by fastforce
  with snoc spec_line_valid [of "fst (spec_lines ls)" l s' cs] show ?case
    by (simp add: spec_lines_snoc spec_line_acc_def)
qed

lemma spec_events_valid: "list_all event_valid (spec_events bs)"
  using spec_lines_valid [of "map utf8_lossy (complete_lines (strip_bom bs))"]
  by (simp add: spec_events_def spec_calls_def spec_run_def list_all_iff utf8_lossy_valid)

end
