(* ===== verification/Utf8Code.thy ===== *)
theory Utf8Code
  imports Utf8 Sse
begin

text \<open>
  The parser's test of a complete sequence (\<open>utf8_sequence_valid\<close>, bit operations on
  32-bit words) against the specification: on a lead byte followed by the continuation
  bytes it asks for, the test accepts exactly the encodings of Unicode scalar values, so it
  refuses overlong forms, surrogates and values above U+10FFFF.
\<close>

lemma or_shift:
  fixes x y :: "32 word"
  assumes "unat x * 2 ^ n + unat y < 2 ^ 32" "unat y < 2 ^ n"
  shows "unat (or (push_bit n x) y) = unat x * 2 ^ n + unat y"
proof -
  have y: "\<not> bit y k" if "n \<le> k" for k
  proof -
    have "unat y < 2 ^ k"
      using order_less_le_trans [OF assms(2) power_increasing [OF that, of "2::nat"]] by simp
    then have "\<not> bit (unat y) k" by (metis bit_take_bit_iff take_bit_nat_eq_self order_less_irrefl)
    then show ?thesis by (simp add: bit_unsigned_iff)
  qed
  have "and (push_bit n x) y = 0"
    by (rule bit_eqI) (auto simp: bit_simps y)
  then have "or (push_bit n x) y = push_bit n x + y"
    by (simp add: disjunctive_add_eq_or)
  moreover have "unat (push_bit n x) = unat x * 2 ^ n"
    unfolding unsigned_push_bit_eq using assms(1)
    by (simp add: take_bit_nat_eq_self push_bit_eq_mult)
  ultimately show ?thesis using assms(1) by (simp add: unat_plus_if')
qed

lemma unat_low_bits:
  "unat (u32 (and b 0x3F)) = unat b mod 64" "unat (u32 (and b 0x1F)) = unat b mod 32"
  "unat (u32 (and b 0x0F)) = unat b mod 16" "unat (u32 (and b 0x07)) = unat b mod 8"
proof -
  have 1: "unat (u32 b) = unat b" for b
    using unsigned_less [of b, where 'a = nat] by (simp add: u32_def unsigned_ucast_eq take_bit_nat_eq_self)
  have "and b 0x3F = take_bit 6 b" "and b 0x1F = take_bit 5 b" "and b 0x0F = take_bit 4 b" "and b 0x07 = take_bit 3 b"
    by (simp_all add: take_bit_eq_mask mask_eq_exp_minus_1)
  then show "unat (u32 (and b 0x3F)) = unat b mod 64" "unat (u32 (and b 0x1F)) = unat b mod 32"
    "unat (u32 (and b 0x0F)) = unat b mod 16" "unat (u32 (and b 0x07)) = unat b mod 8"
    unfolding 1 by (simp_all only: unsigned_take_bit_eq take_bit_nat_def) simp_all
qed

lemma utf8_code_2: "unat (or (push_bit 6 (u32 (and a 0x1F))) (u32 (and b 0x3F))) = utf8_point [a,b]"
proof -
  have "unat a mod 32 < 32" "unat b mod 64 < 64" by simp_all
  then show ?thesis by (subst or_shift) (simp_all add: unat_low_bits)
qed

lemma utf8_code_3: "unat (or (or (push_bit 12 (u32 (and a 0x0F)))
                     (push_bit 6 (u32 (and b 0x3F))))
                 (u32 (and c 0x3F))) = utf8_point [a,b,c]"
proof -
  have 1: "unat a mod 16 < 16" "unat b mod 64 < 64" "unat c mod 64 < 64" by simp_all
  let ?x = "or (push_bit 6 (u32 (and a 0x0F))) (u32 (and b 0x3F))"
  have x: "unat ?x = unat a mod 16 * 64 + unat b mod 64"
    using 1 by (subst or_shift) (simp_all add: unat_low_bits)
  have "or (push_bit 12 (u32 (and a 0x0F))) (push_bit 6 (u32 (and b 0x3F))) = push_bit 6 ?x"
    by (simp add: push_bit_or)
  moreover have "unat (or (push_bit 6 ?x) (u32 (and c 0x3F))) = unat ?x * 64 + unat c mod 64"
    using 1 by (subst or_shift) (simp_all add: unat_low_bits x)
  ultimately show ?thesis using x by simp
qed

lemma utf8_code_4: "unat (or (or (or (push_bit 18 (u32 (and a 0x07)))
                         (push_bit 12 (u32 (and b 0x3F))))
                     (push_bit 6 (u32 (and c 0x3F))))
                 (u32 (and d 0x3F))) = utf8_point [a,b,c,d]"
proof -
  have 1: "unat a mod 8 < 8" "unat b mod 64 < 64" "unat c mod 64 < 64" "unat d mod 64 < 64" by simp_all
  let ?x = "or (push_bit 6 (u32 (and a 0x07))) (u32 (and b 0x3F))"
  let ?y = "or (push_bit 6 ?x) (u32 (and c 0x3F))"
  have x: "unat ?x = unat a mod 8 * 64 + unat b mod 64"
    using 1 by (subst or_shift) (simp_all add: unat_low_bits)
  have y: "unat ?y = unat ?x * 64 + unat c mod 64"
    using 1 by (subst or_shift) (simp_all add: unat_low_bits x)
  have "or (or (push_bit 18 (u32 (and a 0x07))) (push_bit 12 (u32 (and b 0x3F))))
                     (push_bit 6 (u32 (and c 0x3F))) = push_bit 6 ?y"
    by (simp add: push_bit_or)
  moreover have "unat (or (push_bit 6 ?y) (u32 (and d 0x3F))) = unat ?y * 2 ^ 6 + unat (u32 (and d 0x3F))"
    by (rule or_shift; unfold y x unat_low_bits) (use 1 in simp_all)
  ultimately show ?thesis using x y by (simp add: unat_low_bits)
qed

lemma of_nat_unat8: "unat (b::byte) = n \<Longrightarrow> of_nat n = b"
  by (metis of_nat_unat ucast_id)

lemma mod_window:
  fixes n :: nat
  assumes "k \<le> n" "n < k + m" "m dvd k"
  shows "n = k + n mod m"
proof -
  obtain d where d: "n = k + d" using assms(1) le_Suc_ex by blast
  then have "n mod m = d" using assms(2,3) by (auto simp: dvd_def)
  with d show ?thesis by simp
qed

lemma is_cont_unat: "is_cont b \<Longrightarrow> unat b = 128 + unat b mod 64"
proof -
  assume "is_cont b"
  then have "128 \<le> unat b" "unat b < 192" by (auto simp: is_cont_def word_le_nat_alt)
  then show ?thesis using mod_window [of 128 "unat b" 64] by simp
qed

lemma utf8_need_unat:
  "utf8_need a = 1 \<Longrightarrow> unat a = 192 + unat a mod 32 \<and> 2 \<le> unat a mod 32"
  "utf8_need a = 2 \<Longrightarrow> unat a = 224 + unat a mod 16"
  "utf8_need a = 3 \<Longrightarrow> unat a = 240 + unat a mod 8"
proof -
  assume "utf8_need a = 1"
  then have "194 \<le> unat a" "unat a < 224" by (auto simp: utf8_need_def word_le_nat_alt split: if_splits)
  then show "unat a = 192 + unat a mod 32 \<and> 2 \<le> unat a mod 32"
    using mod_window [of 192 "unat a" 32] by simp
next
  assume "utf8_need a = 2"
  then have "224 \<le> unat a" "unat a < 240" by (auto simp: utf8_need_def word_le_nat_alt split: if_splits)
  then show "unat a = 224 + unat a mod 16" using mod_window [of 224 "unat a" 16] by simp
next
  assume "utf8_need a = 3"
  then have "240 \<le> unat a" "unat a < 248" by (auto simp: utf8_need_def word_le_nat_alt split: if_splits)
  then show "unat a = 240 + unat a mod 8" using mod_window [of 240 "unat a" 8] by simp
qed

lemma utf8_need_le: "utf8_need a \<le> 3"
  by (simp add: utf8_need_def)

lemma utf8_encode_length: "length (utf8_encode c) =
  (if c < 0x80 then 1 else if c < 0x800 then 2 else if c < 0x10000 then 3 else 4)"
  by (simp add: utf8_encode_def)

lemma div_mod_base:
  fixes x y :: nat
  assumes "y < 64"
  shows "(x * 64 + y) div 64 = x" "(x * 64 + y) mod 64 = y"
  using assms by simp_all

lemma utf8_wf_iff_min:
  assumes "list_all is_cont cs" "utf8_need a = length cs" "cs \<noteq> []"
  shows "utf8_wf (a # cs) \<longleftrightarrow>
    is_scalar (utf8_point (a # cs)) \<and>
    (if length cs = 1 then 0x80 else if length cs = 2 then 0x800 else 0x10000) \<le> utf8_point (a # cs)"
proof -
  consider b where "cs = [b]" | b c where "cs = [b, c]" | b c d where "cs = [b, c, d]"
    using assms utf8_need_le [of a] by (auto simp: length_Suc_conv le_Suc_eq numeral_eq_Suc neq_Nil_conv)
  then show ?thesis
  proof cases
    case (1 b)
    let ?p = "utf8_point [a, b]"
    have a: "unat a = 192 + unat a mod 32" using utf8_need_unat(1) assms(2) 1 by simp
    have b: "unat b = 128 + unat b mod 64" using is_cont_unat assms(1) 1 by simp
    have lt: "unat a mod 32 < 32" "unat b mod 64 < 64" by simp_all
    then have p: "?p < 0x800" by (simp; linarith?)
    have d: "?p div 64 = unat a mod 32" "?p mod 64 = unat b mod 64" by simp_all
    have "utf8_encode ?p = [a, b] \<longleftrightarrow> 0x80 \<le> ?p"
      unfolding utf8_encode_def d using p of_nat_unat8 [OF a] of_nat_unat8 [OF b]
      by (simp del: of_nat_add utf8_point.simps of_nat_unat)
    then show ?thesis using 1 by (simp add: utf8_wf_def del: utf8_point.simps)
  next
    case (2 b c)
    let ?p = "utf8_point [a, b, c]"
    have a: "unat a = 224 + unat a mod 16" using utf8_need_unat(2) assms(2) 2 by simp
    have b: "unat b = 128 + unat b mod 64" "unat c = 128 + unat c mod 64"
      using is_cont_unat assms(1) 2 by simp_all
    have lt: "unat a mod 16 < 16" "unat b mod 64 < 64" "unat c mod 64 < 64" by simp_all
    then have p: "?p < 0x10000" by (simp; linarith?)
    have d0: "?p = (unat a mod 16 * 64 + unat b mod 64) * 64 + unat c mod 64" by simp
    have "?p div 64 = unat a mod 16 * 64 + unat b mod 64" "?p mod 64 = unat c mod 64"
      by (simp_all only: d0 div_mod_base [OF lt(3)])
    moreover have "?p div 4096 = ?p div 64 div 64" by (simp add: div_mult2_eq [symmetric] del: utf8_point.simps)
    ultimately have d: "?p div 4096 = unat a mod 16" "?p div 64 mod 64 = unat b mod 64" "?p mod 64 = unat c mod 64"
      by (simp_all only: div_mod_base [OF lt(2)])
    have "utf8_encode ?p = [a, b, c] \<longleftrightarrow> 0x800 \<le> ?p"
      unfolding utf8_encode_def d using p of_nat_unat8 [OF a] of_nat_unat8 [OF b(1)] of_nat_unat8 [OF b(2)]
      by (simp del: of_nat_add utf8_point.simps of_nat_unat)
    then show ?thesis using 2 by (simp add: utf8_wf_def del: utf8_point.simps)
  next
    case (3 b c e)
    let ?p = "utf8_point [a, b, c, e]"
    have a: "unat a = 240 + unat a mod 8" using utf8_need_unat(3) assms(2) 3 by simp
    have b: "unat b = 128 + unat b mod 64" "unat c = 128 + unat c mod 64" "unat e = 128 + unat e mod 64"
      using is_cont_unat assms(1) 3 by simp_all
    have lt: "unat b mod 64 < 64" "unat c mod 64 < 64" "unat e mod 64 < 64" by simp_all
    have d0: "?p = ((unat a mod 8 * 64 + unat b mod 64) * 64 + unat c mod 64) * 64 + unat e mod 64" by simp
    have "?p div 64 = (unat a mod 8 * 64 + unat b mod 64) * 64 + unat c mod 64" "?p mod 64 = unat e mod 64"
      by (simp_all only: d0 div_mod_base [OF lt(3)])
    moreover have "?p div 4096 = ?p div 64 div 64" "?p div 262144 = ?p div 64 div 64 div 64"
      by (simp_all add: div_mult2_eq [symmetric] del: utf8_point.simps)
    ultimately have d: "?p div 262144 = unat a mod 8" "?p div 4096 mod 64 = unat b mod 64"
      "?p div 64 mod 64 = unat c mod 64" "?p mod 64 = unat e mod 64"
      by (simp_all only: div_mod_base [OF lt(2)] div_mod_base [OF lt(1)])
    have "utf8_encode ?p = [a, b, c, e] \<longleftrightarrow> 0x10000 \<le> ?p"
      unfolding utf8_encode_def d using of_nat_unat8 [OF a] of_nat_unat8 [OF b(1)]
        of_nat_unat8 [OF b(2)] of_nat_unat8 [OF b(3)]
      by (simp del: of_nat_add utf8_point.simps of_nat_unat)
    then show ?thesis using 3 by (simp add: utf8_wf_def del: utf8_point.simps)
  qed
qed

lemma utf8_sequence_valid_wf:
  assumes "list_all is_cont cs" "utf8_need a = length cs" "cs \<noteq> []"
  shows "utf8_sequence_valid (a # cs) = utf8_wf (a # cs)"
proof -
  consider b where "cs = [b]" | b c where "cs = [b, c]" | b c d where "cs = [b, c, d]"
    using assms utf8_need_le [of a] by (auto simp: length_Suc_conv le_Suc_eq numeral_eq_Suc neq_Nil_conv)
  then show ?thesis
    unfolding utf8_wf_iff_min [OF assms]
    by cases (auto simp: utf8_sequence_valid_def utf8_sequence_code_def is_scalar_def
        word_less_nat_alt word_le_nat_alt utf8_code_2 utf8_code_3 utf8_code_4
        simp del: utf8_point.simps)
qed
end
