(* ===== verification/SseRefine.thy ===== *)
theory SseRefine
  imports SseSpec Utf8Code
begin

text \<open>
  The incremental parser of \<open>Sse\<close> against the specification of \<open>SseSpec\<close>: whatever the
  limits, the allocator and the callbacks do, after the bytes \<open>bs\<close> have been accepted the
  parser's variables, line buffer and decoder state are those of \<open>bs\<close>, and the callbacks
  have been run exactly on the calls of \<open>bs\<close>, in order. When a byte is refused, the
  callbacks have been run on a prefix of them.
\<close>

section \<open>Buffers\<close>

lemma sse_buf_reserve_data:
  "sse_buf_reserve mb m buf n = (rc, m', buf') \<Longrightarrow> sb_data buf' = sb_data buf"
  by (auto simp: sse_buf_reserve_def Let_def split: if_splits)

lemma sse_buf_append_data:
  "sse_buf_append mb m buf bs = (rc, m', buf') \<Longrightarrow>
     sb_data buf' = (if rc = SSE_OK then sb_data buf @ bs else sb_data buf)"
  by (auto simp: sse_buf_append_def dest: sse_buf_reserve_data split: if_splits prod.splits)

lemma sse_buf_set_data:
  "sse_buf_set mb m buf bs = (rc, m', buf') \<Longrightarrow> sb_data buf' = (if rc = SSE_OK then bs else [])"
  by (auto simp: sse_buf_set_def Let_def dest: sse_buf_reserve_data split: if_splits prod.splits)

section \<open>The decoder\<close>

text \<open>The fields the decoder and the line buffer do not touch.\<close>

definition decoder_frame :: "'u sse_parser \<Rightarrow> 'u sse_parser \<Rightarrow> bool" where
  "decoder_frame p p' \<longleftrightarrow>
     sp_data p' = sp_data p \<and> sp_event_type p' = sp_event_type p \<and>
     sp_last_event_id p' = sp_last_event_id p \<and>
     max_line_bytes p' = max_line_bytes p \<and> max_frame_bytes p' = max_frame_bytes p \<and>
     max_sse_buffer_bytes p' = max_sse_buffer_bytes p \<and> max_total_bytes p' = max_total_bytes p \<and>
     total_bytes_seen p' = total_bytes_seen p \<and> data_seen p' = data_seen p \<and>
     pending_cr p' = pending_cr p \<and> bom_checked p' = bom_checked p \<and> bom_buf p' = bom_buf p \<and>
     retry_ms p' = retry_ms p \<and> retry_set p' = retry_set p \<and> on_event p' = on_event p \<and>
     on_frame p' = on_frame p \<and> user_data p' = user_data p \<and> last_error p' = last_error p"

lemma decoder_frame_refl [simp]: "decoder_frame p p"
  by (simp add: decoder_frame_def)

lemma decoder_frame_trans [trans]: "decoder_frame p q \<Longrightarrow> decoder_frame q r \<Longrightarrow> decoder_frame p r"
  by (simp add: decoder_frame_def)

definition line_bytes :: "'u sse_parser \<Rightarrow> byte list" where
  "line_bytes p = sb_data (sp_line p)"

lemma line_bytes_update [simp]:
  "line_bytes (p\<lparr>utf8_seq := s, utf8_expected := e\<rparr>) = line_bytes p"
  by (simp add: line_bytes_def)

lemma sse_line_append_effect:
  assumes "sse_line_append p bs = (rc, p')"
  shows "decoder_frame p p' \<and> utf8_seq p' = utf8_seq p \<and> utf8_expected p' = utf8_expected p \<and>
    (rc = SSE_OK \<longrightarrow> line_bytes p' = line_bytes p @ bs)"
  using assms sse_buf_append_data
  by (fastforce simp: sse_line_append_def line_bytes_def decoder_frame_def split: prod.splits if_splits)

lemma sse_line_append_byte_eq: "sse_line_append_byte p b = sse_line_append p [b]"
  by (simp add: sse_line_append_byte_def sse_line_append_def sse_buf_append_byte_def)

definition decoder_state :: "'u sse_parser \<Rightarrow> byte list \<times> byte list" where
  "decoder_state p = (line_bytes p, utf8_seq p)"

definition decoder_ok :: "'u sse_parser \<Rightarrow> bool" where
  "decoder_ok p \<longleftrightarrow> utf8_pending (utf8_seq p) \<and>
     utf8_expected p = (case utf8_seq p of [] \<Rightarrow> 0 | c # cs \<Rightarrow> utf8_need c - length cs)"

lemma repl_eq: "repl = repl_char"
  by (simp add: repl_def)

lemma utf8_need_cases:
  "b \<ge> 0xC2 \<Longrightarrow> b \<le> 0xDF \<Longrightarrow> utf8_need b = 1"
  "b \<ge> 0xE0 \<Longrightarrow> b \<le> 0xEF \<Longrightarrow> utf8_need b = 2"
  "b \<ge> 0xF0 \<Longrightarrow> b \<le> 0xF4 \<Longrightarrow> utf8_need b = 3"
  "\<not> (b \<ge> 0xC2 \<and> b \<le> 0xDF) \<Longrightarrow> \<not> (b \<ge> 0xE0 \<and> b \<le> 0xEF) \<Longrightarrow>
     \<not> (b \<ge> 0xF0 \<and> b \<le> 0xF4) \<Longrightarrow> utf8_need b = 0"
  unfolding utf8_need_def word_le_nat_alt by auto

lemma sse_utf8_start_byte_effect:
  assumes "sse_utf8_start_byte p b = (rc, p')" "utf8_seq p = []" "utf8_expected p = 0"
  shows "decoder_frame p p' \<and>
    (rc = SSE_OK \<longrightarrow> decoder_state p' = utf8_start (line_bytes p) b \<and> decoder_ok p')"
proof -
  note eff = sse_line_append_effect
  consider "b \<le> 0x7F" | "\<not> b \<le> 0x7F" "b \<ge> 0xC2 \<and> b \<le> 0xDF"
    | "\<not> b \<le> 0x7F" "\<not> (b \<ge> 0xC2 \<and> b \<le> 0xDF)" "b \<ge> 0xE0 \<and> b \<le> 0xEF"
    | "\<not> b \<le> 0x7F" "\<not> (b \<ge> 0xC2 \<and> b \<le> 0xDF)" "\<not> (b \<ge> 0xE0 \<and> b \<le> 0xEF)" "b \<ge> 0xF0 \<and> b \<le> 0xF4"
    | "\<not> b \<le> 0x7F" "\<not> (b \<ge> 0xC2 \<and> b \<le> 0xDF)" "\<not> (b \<ge> 0xE0 \<and> b \<le> 0xEF)" "\<not> (b \<ge> 0xF0 \<and> b \<le> 0xF4)"
    by blast
  then show ?thesis
  proof cases
    case 1
    then have "sse_line_append p [b] = (rc, p')"
      using assms(1) by (simp add: sse_utf8_start_byte_def sse_line_append_byte_eq)
    from eff [OF this] 1 assms(2,3) show ?thesis
      by (auto simp: decoder_state_def decoder_ok_def utf8_pending_def utf8_start_def)
  next
    case 5
    then have "sse_line_append p repl = (rc, p')"
      using assms(1) unfolding sse_utf8_start_byte_def sse_append_replacement_def by (simp split: if_splits)
    from eff [OF this] 5 assms(2,3) utf8_need_cases(4) [of b] show ?thesis
      by (auto simp: decoder_state_def decoder_ok_def utf8_pending_def utf8_start_def repl_eq)
  next
    case 2
    then show ?thesis using assms utf8_need_cases(1) [of b]
      unfolding sse_utf8_start_byte_def
      by (auto simp: decoder_state_def decoder_ok_def utf8_pending_def utf8_start_def decoder_frame_def line_bytes_def)
  next
    case 3
    then show ?thesis using assms utf8_need_cases(2) [of b]
      unfolding sse_utf8_start_byte_def
      by (auto simp: decoder_state_def decoder_ok_def utf8_pending_def utf8_start_def decoder_frame_def line_bytes_def)
  next
    case 4
    then show ?thesis using assms utf8_need_cases(3) [of b]
      unfolding sse_utf8_start_byte_def
      by (auto simp: decoder_state_def decoder_ok_def utf8_pending_def utf8_start_def decoder_frame_def line_bytes_def)
  qed
qed

lemma decoder_ok_expected:
  "decoder_ok p \<Longrightarrow> (utf8_expected p = 0 \<longleftrightarrow> utf8_seq p = [])"
  by (auto simp: decoder_ok_def utf8_pending_def split: list.splits)

lemma utf8_reset_frame: "decoder_frame p (utf8_reset p)"
  by (simp add: utf8_reset_def decoder_frame_def)

lemma utf8_reset_simps [simp]:
  "utf8_seq (utf8_reset p) = []" "utf8_expected (utf8_reset p) = 0"
  "line_bytes (utf8_reset p) = line_bytes p"
  by (simp_all add: utf8_reset_def line_bytes_def)

lemma sse_append_replacement_effect:
  "sse_append_replacement p = (rc, p') \<Longrightarrow>
     decoder_frame p p' \<and> utf8_seq p' = utf8_seq p \<and> utf8_expected p' = utf8_expected p \<and>
     (rc = SSE_OK \<longrightarrow> line_bytes p' = line_bytes p @ repl_char)"
  using sse_line_append_effect [of p repl] by (simp add: sse_append_replacement_def repl_eq)

lemma sse_utf8_emit_effect:
  assumes "sse_utf8_emit_sequence p = (rc, p')" "utf8_seq p = c # cs"
    "list_all is_cont cs" "utf8_need c = length cs" "cs \<noteq> []"
  shows "decoder_frame p p' \<and>
    (rc = SSE_OK \<longrightarrow> line_bytes p' = line_bytes p @ (if utf8_wf (c # cs) then c # cs else repl_char))"
  using assms sse_line_append_effect [of p "c # cs" rc p'] sse_append_replacement_effect [of p rc p']
    utf8_sequence_valid_wf [of cs c]
  by (auto simp: sse_utf8_emit_sequence_def split: if_splits)

lemma sse_utf8_feed_byte_effect:
  assumes f: "sse_utf8_feed_byte p b = (rc, p')" and ok: "decoder_ok p"
  shows "decoder_frame p p' \<and>
    (rc = SSE_OK \<longrightarrow> decoder_state p' = utf8_step (decoder_state p) b \<and> decoder_ok p')"
proof (cases "utf8_seq p")
  case Nil
  then show ?thesis
    using f sse_utf8_start_byte_effect [of p b rc p'] decoder_ok_expected [OF ok]
    by (simp add: sse_utf8_feed_byte_def decoder_state_def)
next
  case (Cons c cs)
  have exp: "utf8_expected p = utf8_need c - length cs" "length cs < utf8_need c" "list_all is_cont cs"
    using ok Cons by (auto simp: decoder_ok_def utf8_pending_def)
  show ?thesis
  proof (cases "is_cont b")
    case True
    let ?p1 = "p\<lparr>utf8_seq := utf8_seq p @ [b], utf8_expected := utf8_expected p - 1\<rparr>"
    have fr: "decoder_frame p ?p1" by (simp add: decoder_frame_def)
    show ?thesis
    proof (cases "Suc (length cs) = utf8_need c")
      case last: True
      obtain rc1 p2 where e: "sse_utf8_emit_sequence ?p1 = (rc1, p2)" by fastforce
      have f': "rc = rc1" "p' = utf8_reset p2"
        using f e True last exp(1,2) by (auto simp: sse_utf8_feed_byte_def is_cont_def Let_def)
      have eff: "decoder_frame ?p1 p2 \<and> (rc1 = SSE_OK \<longrightarrow> line_bytes p2 = line_bytes ?p1 @
          (if utf8_wf (c # cs @ [b]) then c # cs @ [b] else repl_char))"
        by (rule sse_utf8_emit_effect [OF e]) (use Cons exp True last in auto)
      then show ?thesis
        using f' Cons True last decoder_frame_trans [OF decoder_frame_trans [OF fr] utf8_reset_frame]
        by (auto simp: decoder_state_def decoder_ok_def utf8_pending_def)
    next
      case False
      then have "rc = SSE_OK" "p' = ?p1"
        using f True exp(1,2) by (auto simp: sse_utf8_feed_byte_def is_cont_def Let_def)
      then show ?thesis
        using False True fr Cons exp
        by (auto simp: decoder_state_def decoder_ok_def utf8_pending_def line_bytes_def)
    qed
  next
    case False
    obtain rc1 p1 where r: "sse_append_replacement p = (rc1, p1)" by fastforce
    note eff = sse_append_replacement_effect [OF r]
    have fr: "decoder_frame p (utf8_reset p1)"
      using eff decoder_frame_trans [OF _ utf8_reset_frame] by blast
    show ?thesis
    proof (cases "rc1 = SSE_OK")
      case True
      have "sse_utf8_start_byte (utf8_reset p1) b = (rc, p')"
        using f r True exp(1,2) False by (auto simp: sse_utf8_feed_byte_def is_cont_def Let_def)
      from sse_utf8_start_byte_effect [OF this] show ?thesis
        using eff True False Cons decoder_frame_trans [OF fr] by (auto simp: decoder_state_def)
    next
      case err: False
      then have "rc = rc1 \<and> p' = utf8_reset p1"
        using f r exp(1,2) False by (auto simp: sse_utf8_feed_byte_def is_cont_def Let_def)
      with fr err show ?thesis by simp
    qed
  qed
qed

lemma sse_utf8_flush_effect:
  assumes "sse_utf8_flush_incomplete p = (rc, p')" "decoder_ok p"
  shows "decoder_frame p p' \<and>
    (rc = SSE_OK \<longrightarrow> line_bytes p' = utf8_flush (decoder_state p) \<and> utf8_seq p' = [] \<and> decoder_ok p')"
proof (cases "utf8_seq p = []")
  case True
  then show ?thesis using assms decoder_ok_expected [OF assms(2)]
    by (auto simp: sse_utf8_flush_incomplete_def decoder_state_def utf8_flush_def)
next
  case False
  then have "sse_append_replacement (utf8_reset p) = (rc, p')"
    using assms decoder_ok_expected [OF assms(2)] by (simp add: sse_utf8_flush_incomplete_def)
  from sse_append_replacement_effect [OF this] False show ?thesis
    using decoder_frame_trans [OF utf8_reset_frame [of p]]
    by (auto simp: decoder_state_def utf8_flush_def decoder_ok_def utf8_pending_def)
qed

section \<open>Lines\<close>

definition vars_of :: "'u sse_parser \<Rightarrow> sse_vars" where
  "vars_of p =
     \<lparr>v_data = sb_data (sp_data p), v_seen = data_seen p, v_type = sb_data (sp_event_type p),
      v_id = sb_data (sp_last_event_id p),
      v_retry = (if retry_set p then Some (retry_ms p) else None)\<rparr>"

text \<open>Running the two callbacks on a list of calls, stopping at the first that returns false.\<close>

definition do_call :: "'u sse_parser \<Rightarrow> 'u \<Rightarrow> sse_call \<Rightarrow> bool \<times> 'u" where
  "do_call p u c =
     (case c of
        Frame_Call \<Rightarrow> (case on_frame p of None \<Rightarrow> (True, u) | Some f \<Rightarrow> f u)
      | Event_Call e \<Rightarrow> (case on_event p of None \<Rightarrow> (True, u) | Some f \<Rightarrow> f u e))"

fun do_calls :: "'u sse_parser \<Rightarrow> 'u \<Rightarrow> sse_call list \<Rightarrow> bool \<times> 'u" where
  "do_calls p u [] = (True, u)"
| "do_calls p u (c # cs) =
     (case do_call p u c of (ok, u') \<Rightarrow> if ok then do_calls p u' cs else (False, u'))"

lemma do_calls_append:
  "do_calls p u (xs @ ys) =
     (case do_calls p u xs of (ok, u') \<Rightarrow> if ok then do_calls p u' ys else (False, u'))"
  by (induction xs arbitrary: u) (auto split: prod.splits)

lemma do_calls_cong:
  "on_event p = on_event q \<Longrightarrow> on_frame p = on_frame q \<Longrightarrow> do_calls p u cs = do_calls q u cs"
proof (induction cs arbitrary: u)
  case (Cons c cs)
  then have "do_call p u c = do_call q u c" by (cases c) (simp_all add: do_call_def)
  with Cons show ?case by (auto split: prod.splits)
qed simp

text \<open>The fields that processing a line does not touch.\<close>

definition line_frame :: "'u sse_parser \<Rightarrow> 'u sse_parser \<Rightarrow> bool" where
  "line_frame p p' \<longleftrightarrow>
     sp_line p' = sp_line p \<and> max_line_bytes p' = max_line_bytes p \<and>
     max_frame_bytes p' = max_frame_bytes p \<and>
     max_sse_buffer_bytes p' = max_sse_buffer_bytes p \<and> max_total_bytes p' = max_total_bytes p \<and>
     total_bytes_seen p' = total_bytes_seen p \<and> pending_cr p' = pending_cr p \<and>
     bom_checked p' = bom_checked p \<and> bom_buf p' = bom_buf p \<and>
     utf8_seq p' = utf8_seq p \<and> utf8_expected p' = utf8_expected p \<and>
     on_event p' = on_event p \<and> on_frame p' = on_frame p \<and> last_error p' = last_error p"

text \<open>
  The outcome of an operation that should make the calls \<open>cs\<close> and reach the variables \<open>s\<close>:
  it did, or a callback refused one of them, or another error stopped it before any call.
\<close>

definition line_outcome ::
  "'u sse_parser \<Rightarrow> sse_vars \<times> sse_call list \<Rightarrow> sse_err_t \<Rightarrow> 'u sse_parser \<Rightarrow> bool" where
  "line_outcome p sc rc p' \<longleftrightarrow>
     (rc = SSE_OK \<and> vars_of p' = fst sc \<and> do_calls p (user_data p) (snd sc) = (True, user_data p')) \<or>
     (rc = SSE_ERR_ABORT \<and> do_calls p (user_data p) (snd sc) = (False, user_data p')) \<or>
     (rc \<noteq> SSE_OK \<and> rc \<noteq> SSE_ERR_ABORT \<and> snd sc = [] \<and> user_data p' = user_data p)"

lemma sse_buf_reserve_not_abort:
  "sse_buf_reserve mb m buf n = (rc, m', buf') \<Longrightarrow> rc \<noteq> SSE_ERR_ABORT"
  by (auto simp: sse_buf_reserve_def Let_def split: if_splits)

lemma sse_buf_append_not_abort:
  "sse_buf_append mb m buf bs = (rc, m', buf') \<Longrightarrow> rc \<noteq> SSE_ERR_ABORT"
  by (auto simp: sse_buf_append_def dest: sse_buf_reserve_not_abort split: if_splits prod.splits)

lemma sse_buf_set_not_abort:
  "sse_buf_set mb m buf bs = (rc, m', buf') \<Longrightarrow> rc \<noteq> SSE_ERR_ABORT"
  by (auto simp: sse_buf_set_def Let_def dest: sse_buf_reserve_not_abort split: if_splits prod.splits)

lemma sse_handle_data_effect:
  assumes "sse_handle_data p v = (rc, p')"
  shows "line_frame p p' \<and>
    line_outcome p ((vars_of p)\<lparr>v_data := v_data (vars_of p) @ v @ [C_LF], v_seen := True\<rparr>, []) rc p'"
proof (cases "max_frame_bytes p \<noteq> 0 \<and> length (sb_data (sp_data p)) + (length v + 1) > max_frame_bytes p")
  case True
  with assms show ?thesis by (auto simp: sse_handle_data_def line_frame_def line_outcome_def)
next
  case False
  obtain rc1 m1 b1 where a: "sse_buf_append (max_sse_buffer_bytes p) (mem_used p) (sp_data p) v = (rc1, m1, b1)"
    by (metis prod_cases3)
  show ?thesis
  proof (cases "rc1 = SSE_OK")
    case True
    obtain rc2 m2 b2 where b: "sse_buf_append_byte (max_sse_buffer_bytes p) m1 b1 C_LF = (rc2, m2, b2)"
      by (metis prod_cases3)
    from assms False a b True
    have "rc = rc2 \<and> p' = (if rc2 = SSE_OK then p\<lparr>mem_used := m2, sp_data := b2, data_seen := True\<rparr>
        else p\<lparr>mem_used := m2, sp_data := b2\<rparr>)"
      by (auto simp: sse_handle_data_def Let_def)
    then show ?thesis
      using sse_buf_append_data [OF a] True sse_buf_append_data [OF b [unfolded sse_buf_append_byte_def]]
        sse_buf_append_not_abort [OF b [unfolded sse_buf_append_byte_def]]
      by (auto simp: line_frame_def line_outcome_def vars_of_def)
  next
    case err: False
    with assms False a have "rc = rc1" "p' = p\<lparr>mem_used := m1, sp_data := b1\<rparr>"
      by (auto simp: sse_handle_data_def Let_def)
    with err sse_buf_append_not_abort [OF a] show ?thesis by (auto simp: line_frame_def line_outcome_def)
  qed
qed

lemma sse_handle_event_effect:
  assumes "sse_handle_event p v = (rc, p')"
  shows "line_frame p p' \<and> line_outcome p ((vars_of p)\<lparr>v_type := v\<rparr>, []) rc p'"
  using assms sse_buf_set_data sse_buf_set_not_abort
  by (fastforce simp: sse_handle_event_def line_frame_def line_outcome_def vars_of_def split: prod.splits)

lemma sse_handle_id_effect:
  assumes "sse_handle_id p v = (rc, p')"
  shows "line_frame p p' \<and>
    line_outcome p (if C_NUL \<in> set v then vars_of p else (vars_of p)\<lparr>v_id := v\<rparr>, []) rc p'"
proof (cases "C_NUL \<in> set v")
  case True
  then have "v \<noteq> []" "memchr v C_NUL \<noteq> None" using memchr_None_iff by auto
  with assms True show ?thesis by (auto simp: sse_handle_id_def line_frame_def line_outcome_def)
next
  case False
  then have "memchr v C_NUL = None" by (simp add: memchr_None_iff)
  with False assms sse_buf_set_data sse_buf_set_not_abort show ?thesis
    by (fastforce simp: sse_handle_id_def line_frame_def line_outcome_def vars_of_def split: prod.splits)
qed

lemma sse_handle_retry_effect:
  assumes "sse_handle_retry p v = (rc, p')"
  shows "line_frame p p' \<and>
    line_outcome p (case spec_retry v of Some n \<Rightarrow> (vars_of p)\<lparr>v_retry := Some n\<rparr> | None \<Rightarrow> vars_of p, []) rc p'"
  using assms by (auto simp: sse_handle_retry_def sse_parse_retry_value_spec line_frame_def
      line_outcome_def vars_of_def split: option.splits)

lemma sse_call_frame_effect:
  assumes "sse_call_frame p = (ok, p1)"
  obtains u where "do_call p (user_data p) Frame_Call = (ok, u)" "p1 = p\<lparr>user_data := u\<rparr>"
proof (cases "on_frame p")
  case None
  show ?thesis
    by (rule that [of "user_data p"]) (use assms None in \<open>simp_all add: sse_call_frame_def do_call_def\<close>)
next
  case (Some f)
  show ?thesis
    by (rule that [of "snd (f (user_data p))"])
      (use assms Some in \<open>simp_all add: sse_call_frame_def do_call_def split: prod.splits\<close>)
qed

lemma sse_call_event_effect:
  assumes "sse_call_event p e = (ok, p1)"
  obtains u where "do_call p (user_data p) (Event_Call e) = (ok, u)" "p1 = p\<lparr>user_data := u\<rparr>"
proof (cases "on_event p")
  case None
  show ?thesis
    by (rule that [of "user_data p"]) (use assms None in \<open>simp_all add: sse_call_event_def do_call_def\<close>)
next
  case (Some f)
  show ?thesis
    by (rule that [of "snd (f (user_data p) e)"])
      (use assms Some in \<open>simp_all add: sse_call_event_def do_call_def split: prod.splits\<close>)
qed

lemma sse_reset_event_effect:
  "line_frame p (sse_reset_event p)" "user_data (sse_reset_event p) = user_data p"
  "vars_of (sse_reset_event p) = (vars_of p)\<lparr>v_data := [], v_seen := False, v_type := []\<rparr>"
  by (simp_all add: sse_reset_event_def line_frame_def vars_of_def)

lemma sse_event_of_spec:
  "sse_event_of (p\<lparr>sp_data := (sp_data p)\<lparr>sb_data := drop_trailing_lf (sb_data (sp_data p))\<rparr>\<rparr>) =
     spec_event (vars_of p)"
  by (simp add: sse_event_of_def spec_event_def vars_of_def drop_trailing_lf_def)

lemma sse_dispatch_effect:
  assumes "sse_dispatch p = (rc, p')"
  shows "line_frame p p' \<and> line_outcome p (spec_dispatch (vars_of p)) rc p'"
proof -
  obtain ok1 p1 where f: "sse_call_frame p = (ok1, p1)" by fastforce
  obtain u1 where u1: "do_call p (user_data p) Frame_Call = (ok1, u1)" "p1 = p\<lparr>user_data := u1\<rparr>"
    using sse_call_frame_effect [OF f] by blast
  show ?thesis
  proof (cases ok1)
    case False
    with assms f have "rc = SSE_ERR_ABORT" "p' = p1" by (auto simp: sse_dispatch_def)
    with u1 False show ?thesis by (simp add: line_frame_def line_outcome_def spec_dispatch_def)
  next
    case ok1: True
    show ?thesis
    proof (cases "data_seen p")
      case False
      with assms f ok1 u1(2) have "rc = SSE_OK" "p' = sse_reset_event (p\<lparr>user_data := u1\<rparr>)"
        by (auto simp: sse_dispatch_def)
      with u1(1) ok1 False show ?thesis
        by (simp add: line_outcome_def spec_dispatch_def vars_of_def line_frame_def sse_reset_event_def)
    next
      case seen: True
      let ?p2 = "p1\<lparr>sp_data := (sp_data p1)\<lparr>sb_data := drop_trailing_lf (sb_data (sp_data p1))\<rparr>\<rparr>"
      have ev: "sse_event_of ?p2 = spec_event (vars_of p)"
        unfolding sse_event_of_spec u1(2) by (simp add: vars_of_def)
      obtain ok2 p3 where e: "sse_call_event ?p2 (spec_event (vars_of p)) = (ok2, p3)" by fastforce
      obtain u2 where u2: "do_call ?p2 (user_data ?p2) (Event_Call (spec_event (vars_of p))) = (ok2, u2)"
        "p3 = ?p2\<lparr>user_data := u2\<rparr>" using sse_call_event_effect [OF e] by blast
      have p': "rc = (if ok2 then SSE_OK else SSE_ERR_ABORT)" "p' = (if ok2 then sse_reset_event p3 else p3)"
        using assms f ok1 seen u1(2) e ev by (auto simp: sse_dispatch_def Let_def split: if_splits)
      have "do_call p u1 (Event_Call (spec_event (vars_of p))) = (ok2, u2)"
        using u2(1) u1(2) by (simp add: do_call_def)
      then show ?thesis
        using p' u1(1) ok1 seen
        by (simp add: line_outcome_def spec_dispatch_def line_frame_def sse_reset_event_def
            vars_of_def [of p] vars_of_def [of "_\<lparr>user_data := _\<rparr>"] u1(2) u2(2))
          (simp add: vars_of_def)
    qed
  qed
qed

lemma sse_process_line_effect:
  assumes "sse_process_line p = (rc, p')"
  shows "line_frame p p' \<and> line_outcome p (spec_line (vars_of p) (line_bytes p)) rc p'"
proof (cases "line_bytes p")
  case Nil
  with assms sse_dispatch_effect [of p rc p'] show ?thesis
    by (simp add: sse_process_line_def line_bytes_def spec_line_def)
next
  case (Cons c l)
  show ?thesis
  proof (cases "c = C_COLON")
    case True
    with Cons assms have "rc = SSE_OK" "p' = p"
      by (auto simp: sse_process_line_def line_bytes_def Let_def)
    with True Cons show ?thesis by (simp add: line_frame_def line_outcome_def spec_line_def)
  next
    case False
    let ?f = "field_name (line_bytes p)" and ?v = "field_value (line_bytes p)"
    have eq: "sse_process_line p =
      (if ?f = lit ''data'' then sse_handle_data p ?v
       else if ?f = lit ''event'' then sse_handle_event p ?v
       else if ?f = lit ''id'' then sse_handle_id p ?v
       else if ?f = lit ''retry'' then sse_handle_retry p ?v
       else (SSE_OK, p))"
      using False Cons unfolding sse_process_line_def line_bytes_def field_of_memchr Let_def by simp
    have sp: "spec_line (vars_of p) (line_bytes p) = (spec_field (vars_of p) ?f ?v, [])"
      using False Cons by (simp add: spec_line_def)
    consider "?f = lit ''data''" | "?f = lit ''event''" | "?f = lit ''id''" | "?f = lit ''retry''"
      | "?f \<noteq> lit ''data''" "?f \<noteq> lit ''event''" "?f \<noteq> lit ''id''" "?f \<noteq> lit ''retry''" by blast
    then show ?thesis
    proof cases
      case 1
      with assms sse_handle_data_effect [of p ?v rc p'] show ?thesis
        unfolding sp eq spec_field_def by simp
    next
      case 2
      with assms sse_handle_event_effect [of p ?v rc p'] show ?thesis
        unfolding sp eq spec_field_def by simp
    next
      case 3
      with assms sse_handle_id_effect [of p ?v rc p'] show ?thesis
        unfolding sp eq spec_field_def by simp
    next
      case 4
      with assms sse_handle_retry_effect [of p ?v rc p'] show ?thesis
        unfolding sp eq spec_field_def by simp
    next
      case 5
      with assms show ?thesis
        unfolding sp eq spec_field_def by (simp add: line_frame_def line_outcome_def)
    qed
  qed
qed

section \<open>Bytes\<close>

lemma sse_line_append_not_abort: "sse_line_append p bs = (rc, p') \<Longrightarrow> rc \<noteq> SSE_ERR_ABORT"
  by (auto simp: sse_line_append_def dest: sse_buf_append_not_abort split: if_splits prod.splits)

lemma sse_append_replacement_not_abort: "sse_append_replacement p = (rc, p') \<Longrightarrow> rc \<noteq> SSE_ERR_ABORT"
  by (simp add: sse_append_replacement_def sse_line_append_not_abort)

lemma sse_utf8_start_byte_not_abort: "sse_utf8_start_byte p b = (rc, p') \<Longrightarrow> rc \<noteq> SSE_ERR_ABORT"
  by (auto simp: sse_utf8_start_byte_def sse_line_append_byte_eq
      dest: sse_line_append_not_abort sse_append_replacement_not_abort split: if_splits)

lemma sse_utf8_feed_byte_not_abort: "sse_utf8_feed_byte p b = (rc, p') \<Longrightarrow> rc \<noteq> SSE_ERR_ABORT"
  unfolding sse_utf8_feed_byte_def sse_utf8_emit_sequence_def Let_def
  by (auto dest: sse_line_append_not_abort sse_append_replacement_not_abort
      sse_utf8_start_byte_not_abort split: if_splits prod.splits)

lemma sse_utf8_flush_not_abort: "sse_utf8_flush_incomplete p = (rc, p') \<Longrightarrow> rc \<noteq> SSE_ERR_ABORT"
  by (auto simp: sse_utf8_flush_incomplete_def dest: sse_append_replacement_not_abort split: if_splits)

text \<open>The configuration and the bookkeeping of \<open>sse_feed\<close>, which no byte changes.\<close>

definition env_frame :: "'u sse_parser \<Rightarrow> 'u sse_parser \<Rightarrow> bool" where
  "env_frame p p' \<longleftrightarrow>
     max_line_bytes p' = max_line_bytes p \<and> max_frame_bytes p' = max_frame_bytes p \<and>
     max_sse_buffer_bytes p' = max_sse_buffer_bytes p \<and> max_total_bytes p' = max_total_bytes p \<and>
     total_bytes_seen p' = total_bytes_seen p \<and>
     on_event p' = on_event p \<and> on_frame p' = on_frame p \<and> last_error p' = last_error p"

lemma env_frame_refl [simp]: "env_frame p p"
  by (simp add: env_frame_def)

lemma env_frame_trans [trans]: "env_frame p q \<Longrightarrow> env_frame q r \<Longrightarrow> env_frame p r"
  by (simp add: env_frame_def)

lemma decoder_frame_env: "decoder_frame p q \<Longrightarrow> env_frame p q \<and> bom_checked q = bom_checked p \<and> bom_buf q = bom_buf p"
  by (simp add: decoder_frame_def env_frame_def)

lemma line_frame_env: "line_frame p q \<Longrightarrow> env_frame p q \<and> bom_checked q = bom_checked p \<and> bom_buf q = bom_buf p"
  by (simp add: line_frame_def env_frame_def)

lemma do_calls_env: "env_frame p q \<Longrightarrow> do_calls q u cs = do_calls p u cs"
  by (rule do_calls_cong) (simp_all add: env_frame_def)

text \<open>The meaning of a stream whose byte order mark has been dealt with.\<close>

definition raw_spec :: "byte list \<Rightarrow> sse_vars \<times> sse_call list" where
  "raw_spec t = spec_lines (map utf8_lossy (complete_lines t))"

lemma spec_run_raw: "spec_run bs = raw_spec (strip_bom bs)"
  by (simp add: spec_run_def raw_spec_def)

lemma raw_spec_snoc:
  "raw_spec (t @ [b]) =
     (if (b = C_CR \<or> b = C_LF) \<and> \<not> (t \<noteq> [] \<and> last t = C_CR \<and> b = C_LF)
      then spec_line_acc (raw_spec t) (utf8_lossy (unfinished_line t)) else raw_spec t)"
  by (auto simp: raw_spec_def complete_lines_snoc spec_lines_snoc)

lemma raw_spec_mono: "\<exists>cs. snd (raw_spec (t @ u)) = snd (raw_spec t) @ cs"
proof (induction u rule: rev_induct)
  case (snoc b u)
  then obtain cs where cs: "snd (raw_spec (t @ u)) = snd (raw_spec t) @ cs" by blast
  show ?case
    using raw_spec_snoc [of "t @ u" b] cs
    by (auto simp: spec_line_acc_def split: prod.splits if_splits)
qed simp

definition raw_inv :: "'u \<Rightarrow> byte list \<Rightarrow> 'u sse_parser \<Rightarrow> bool" where
  "raw_inv u t p \<longleftrightarrow>
     vars_of p = fst (raw_spec t) \<and> do_calls p u (snd (raw_spec t)) = (True, user_data p) \<and>
     decoder_state p = utf8_run (unfinished_line t) \<and> decoder_ok p \<and>
     pending_cr p = (t \<noteq> [] \<and> last t = C_CR)"

text \<open>
  Stopped: the callbacks have been run on a prefix of the calls of the bytes, and the last
  one returned false exactly when the error is the abort.
\<close>

definition stopped :: "'u \<Rightarrow> sse_call list \<Rightarrow> sse_err_t \<Rightarrow> 'u sse_parser \<Rightarrow> bool" where
  "stopped u calls rc p \<longleftrightarrow>
     (\<exists>cs cs'. calls = cs @ cs' \<and> do_calls p u cs = (rc \<noteq> SSE_ERR_ABORT, user_data p))"

lemma stopped_mono: "stopped u (snd (raw_spec t)) rc p \<Longrightarrow> stopped u (snd (raw_spec (t @ v))) rc p"
  using raw_spec_mono [of t v] by (fastforce simp: stopped_def)

lemma stopped_whole: "do_calls p u cs = (rc \<noteq> SSE_ERR_ABORT, user_data p) \<Longrightarrow> stopped u cs rc p"
  unfolding stopped_def by (rule exI [of _ cs], rule exI [of _ "[]"]) simp

definition raw_outcome :: "'u \<Rightarrow> byte list \<Rightarrow> sse_err_t \<Rightarrow> 'u sse_parser \<Rightarrow> bool" where
  "raw_outcome u t rc p \<longleftrightarrow> (if rc = SSE_OK then raw_inv u t p else stopped u (snd (raw_spec t)) rc p)"

lemma decoder_frame_vars: "decoder_frame p q \<Longrightarrow> vars_of q = vars_of p \<and> user_data q = user_data p \<and> pending_cr q = pending_cr p"
  by (simp add: decoder_frame_def vars_of_def)

lemma sse_clear_line_simps [simp]:
  "vars_of (sse_clear_line p) = vars_of p" "user_data (sse_clear_line p) = user_data p"
  "env_frame p (sse_clear_line p)" "bom_checked (sse_clear_line p) = bom_checked p"
  "bom_buf (sse_clear_line p) = bom_buf p" "line_bytes (sse_clear_line p) = []"
  "utf8_seq (sse_clear_line p) = utf8_seq p" "utf8_expected (sse_clear_line p) = utf8_expected p"
  "pending_cr (sse_clear_line p) = pending_cr p"
  by (simp_all add: sse_clear_line_def vars_of_def env_frame_def line_bytes_def)

lemma sse_end_line_effect:
  assumes e: "sse_end_line p = (rc, p')" and ok: "decoder_ok p"
  shows "env_frame p p' \<and> bom_checked p' = bom_checked p \<and> bom_buf p' = bom_buf p \<and>
    line_outcome p (spec_line (vars_of p) (utf8_flush (decoder_state p))) rc p' \<or>
    rc \<noteq> SSE_OK \<and> rc \<noteq> SSE_ERR_ABORT \<and> user_data p' = user_data p \<and> env_frame p p' \<and>
    bom_checked p' = bom_checked p \<and> bom_buf p' = bom_buf p" (is "?A \<or> ?B")
  and "rc = SSE_OK \<Longrightarrow> decoder_state p' = ([], []) \<and> decoder_ok p' \<and> pending_cr p' = pending_cr p"
proof -
  obtain rc1 p1 where f: "sse_utf8_flush_incomplete p = (rc1, p1)" by fastforce
  note feff = sse_utf8_flush_effect [OF f ok] and na = sse_utf8_flush_not_abort [OF f]
  have env1: "env_frame p p1 \<and> bom_checked p1 = bom_checked p \<and> bom_buf p1 = bom_buf p"
    using feff decoder_frame_env by blast
  have v1: "vars_of p1 = vars_of p \<and> user_data p1 = user_data p \<and> pending_cr p1 = pending_cr p"
    using feff decoder_frame_vars by blast
  have "(?A \<or> ?B) \<and> (rc = SSE_OK \<longrightarrow> decoder_state p' = ([], []) \<and> decoder_ok p' \<and> pending_cr p' = pending_cr p)"
  proof (cases "rc1 = SSE_OK")
    case False
    with e f have "rc = rc1" "p' = p1" by (auto simp: sse_end_line_def)
    with False na env1 v1 show ?thesis by auto
  next
    case True
    obtain rc2 p2 where l: "sse_process_line p1 = (rc2, p2)" by fastforce
    note leff = sse_process_line_effect [OF l]
    have lb: "line_bytes p1 = utf8_flush (decoder_state p)" and s1: "utf8_seq p1 = []" "decoder_ok p1"
      using feff True by auto
    have p': "rc = rc2" "p' = (if rc2 = SSE_OK then sse_clear_line p2 else p2)"
      using e f l True by (auto simp: sse_end_line_def split: if_splits)
    have env2: "env_frame p p2 \<and> bom_checked p2 = bom_checked p \<and> bom_buf p2 = bom_buf p"
      using leff line_frame_env env1 env_frame_trans by metis
    have "line_outcome p (spec_line (vars_of p) (utf8_flush (decoder_state p))) rc2 p2"
      using leff v1 do_calls_env [of p p1] env1 by (simp add: line_outcome_def lb)
    then have "?A"
      using p' env2 env_frame_trans [of p p2 "sse_clear_line p2"] by (auto simp: line_outcome_def)
    moreover have "utf8_seq p2 = []" "utf8_expected p2 = 0" "pending_cr p2 = pending_cr p"
      using leff s1 v1 decoder_ok_expected [of p1] by (auto simp: line_frame_def)
    ultimately show ?thesis using p' by (auto simp: decoder_state_def decoder_ok_def utf8_pending_def)
  qed
  then show "?A \<or> ?B" and "rc = SSE_OK \<Longrightarrow> decoder_state p' = ([], []) \<and> decoder_ok p' \<and> pending_cr p' = pending_cr p"
    by blast+
qed

lemma vars_of_pending_cr [simp]:
  "vars_of (p\<lparr>pending_cr := c\<rparr>) = vars_of p" "decoder_state (p\<lparr>pending_cr := c\<rparr>) = decoder_state p"
  "decoder_ok (p\<lparr>pending_cr := c\<rparr>) = decoder_ok p" "env_frame p (p\<lparr>pending_cr := c\<rparr>)"
  "env_frame (p\<lparr>pending_cr := c\<rparr>) q = env_frame p q" "env_frame q (p\<lparr>pending_cr := c\<rparr>) = env_frame q p"
  "do_calls (p\<lparr>pending_cr := c\<rparr>) u cs = do_calls p u cs"
  by (simp_all add: vars_of_def decoder_state_def line_bytes_def decoder_ok_def env_frame_def
      do_calls_cong [of "p\<lparr>pending_cr := c\<rparr>" p])

text \<open>A line terminator, read in a state where it ends a line.\<close>

lemma raw_inv_end_line:
  assumes inv: "raw_inv u t p" and b: "b = C_CR \<or> b = C_LF"
    and n: "\<not> (t \<noteq> [] \<and> last t = C_CR \<and> b = C_LF)"
    and e: "sse_end_line (p\<lparr>pending_cr := False\<rparr>) = (rc, p')"
  shows "env_frame p p' \<and> bom_checked p' = bom_checked p \<and> bom_buf p' = bom_buf p \<and>
    raw_outcome u (t @ [b]) rc (p'\<lparr>pending_cr := (b = C_CR)\<rparr>)"
proof -
  let ?p0 = "p\<lparr>pending_cr := False\<rparr>"
  have ok: "decoder_ok ?p0" using inv by (simp add: raw_inv_def)
  have fl: "utf8_flush (decoder_state ?p0) = utf8_lossy (unfinished_line t)"
    using inv by (simp add: raw_inv_def utf8_run_lossy)
  have snoc: "raw_spec (t @ [b]) = spec_line_acc (raw_spec t) (utf8_lossy (unfinished_line t))"
    using raw_spec_snoc [of t b] b n by simp
  have un: "unfinished_line (t @ [b]) = []"
    using unfinished_line_snoc [of t b] b n by auto
  have pre: "vars_of p = fst (raw_spec t)" "do_calls p u (snd (raw_spec t)) = (True, user_data p)"
    using inv by (simp_all add: raw_inv_def)
  have u0: "user_data ?p0 = user_data p" by simp
  note eff = sse_end_line_effect [OF e ok]
  have env: "env_frame p p' \<and> bom_checked p' = bom_checked p \<and> bom_buf p' = bom_buf p"
    using eff(1) by auto
  obtain s cs where sc: "spec_line (vars_of p) (utf8_lossy (unfinished_line t)) = (s, cs)" by fastforce
  have snoc': "raw_spec (t @ [b]) = (s, snd (raw_spec t) @ cs)"
    unfolding snoc spec_line_acc_def pre(1) [symmetric] sc by simp
  have dc: "do_calls p' v ds = do_calls p v ds" for v ds using env by (simp add: do_calls_env [of p p'])
  have out: "line_outcome ?p0 (s, cs) rc p' \<or>
      rc \<noteq> SSE_OK \<and> rc \<noteq> SSE_ERR_ABORT \<and> user_data p' = user_data p"
    using eff(1) sc fl by auto
  show ?thesis
  proof (cases "rc = SSE_OK")
    case True
    with out have "vars_of p' = s" "do_calls p (user_data p) cs = (True, user_data p')"
      by (auto simp: line_outcome_def)
    moreover have "decoder_state p' = ([], [])" "decoder_ok p'"
      using eff(2) True by auto
    ultimately show ?thesis
      using env True un pre(2)
      by (simp add: raw_outcome_def raw_inv_def snoc' dc do_calls_append utf8_run_def)
  next
    case False
    have "stopped u (snd (raw_spec t) @ cs) rc p'"
    proof (cases "rc = SSE_ERR_ABORT")
      case True
      with out have "do_calls p (user_data p) cs = (False, user_data p')" by (auto simp: line_outcome_def)
      with True pre(2) show ?thesis by (intro stopped_whole) (simp add: dc do_calls_append)
    next
      case nab: False
      with out False have "user_data p' = user_data p" by (auto simp: line_outcome_def)
      with nab pre(2) show ?thesis
        unfolding stopped_def by (intro exI [of _ "snd (raw_spec t)"] exI [of _ cs]) (simp add: dc)
    qed
    with env False show ?thesis by (simp add: raw_outcome_def snoc' stopped_def)
  qed
qed

lemma sse_process_raw_byte_effect:
  assumes f: "sse_process_raw_byte p b = (rc, p')" and inv: "raw_inv u t p"
  shows "env_frame p p' \<and> bom_checked p' = bom_checked p \<and> bom_buf p' = bom_buf p \<and>
    raw_outcome u (t @ [b]) rc p'"
proof -
  have cr: "pending_cr p = (t \<noteq> [] \<and> last t = C_CR)" using inv by (simp add: raw_inv_def)
  let ?p0 = "p\<lparr>pending_cr := False\<rparr>"
  consider (skip) "pending_cr p" "b = C_LF" | (cr) "b = C_CR" | (lf) "b = C_LF" "\<not> pending_cr p"
    | (data) "b \<noteq> C_CR" "b \<noteq> C_LF" by blast
  then show ?thesis
  proof cases
    case skip
    then have p': "rc = SSE_OK" "p' = ?p0" using f by (auto simp: sse_process_raw_byte_def)
    have t: "t \<noteq> []" "last t = C_CR" using skip cr by auto
    have "raw_spec (t @ [b]) = raw_spec t" using raw_spec_snoc [of t b] t skip by simp
    moreover have "unfinished_line (t @ [b]) = unfinished_line t"
      using unfinished_line_snoc [of t b] t skip by simp
    ultimately show ?thesis using inv p' skip by (simp add: raw_outcome_def raw_inv_def)
  next
    case cr
    obtain rc1 p1 where e: "sse_end_line ?p0 = (rc1, p1)" by fastforce
    have "rc = rc1" "p' = (if rc1 = SSE_OK then p1\<lparr>pending_cr := True\<rparr> else p1)"
      using f e cr by (auto simp: sse_process_raw_byte_def Let_def split: if_splits)
    moreover have "\<not> (t \<noteq> [] \<and> last t = C_CR \<and> b = C_LF)" using cr by simp
    ultimately show ?thesis
      using raw_inv_end_line [OF inv _ _ e, of b] cr
      by (auto simp: raw_outcome_def stopped_def)
  next
    case lf
    have e: "sse_end_line ?p0 = (rc, p')"
      using f lf by (simp add: sse_process_raw_byte_def Let_def)
    have n: "\<not> (t \<noteq> [] \<and> last t = C_CR \<and> b = C_LF)" using lf cr by simp
    note r = raw_inv_end_line [OF inv _ n e]
    have "decoder_ok ?p0" using inv by (simp add: raw_inv_def)
    then have "rc = SSE_OK \<Longrightarrow> p'\<lparr>pending_cr := False\<rparr> = p'"
      using sse_end_line_effect(2) [OF e] by simp
    then show ?thesis using r lf by (auto simp: raw_outcome_def stopped_def)
  next
    case data
    have e: "sse_utf8_feed_byte ?p0 b = (rc, p')"
      using f data by (simp add: sse_process_raw_byte_def Let_def)
    have ok: "decoder_ok ?p0" using inv by (simp add: raw_inv_def)
    note eff = sse_utf8_feed_byte_effect [OF e ok] and na = sse_utf8_feed_byte_not_abort [OF e]
    have env: "env_frame p p' \<and> bom_checked p' = bom_checked p \<and> bom_buf p' = bom_buf p"
      and v: "vars_of p' = vars_of p \<and> user_data p' = user_data p \<and> \<not> pending_cr p'"
      using eff decoder_frame_env [of ?p0 p'] decoder_frame_vars [of ?p0 p'] by auto
    have sp: "raw_spec (t @ [b]) = raw_spec t" using raw_spec_snoc [of t b] data by simp
    have un: "unfinished_line (t @ [b]) = unfinished_line t @ [b]"
      using unfinished_line_snoc [of t b] data by auto
    show ?thesis
    proof (cases "rc = SSE_OK")
      case True
      with eff inv v env data show ?thesis
        by (simp add: raw_outcome_def raw_inv_def sp un utf8_run_snoc do_calls_env [of p p'])
    next
      case False
      with inv v env na show ?thesis
        by (auto simp: raw_outcome_def raw_inv_def sp do_calls_env [of p p'] intro!: stopped_whole)
    qed
  qed
qed

lemma sse_process_raw_bytes_effect:
  assumes "sse_process_raw_bytes p bs = (rc, p')" and "raw_inv u t p"
  shows "env_frame p p' \<and> bom_checked p' = bom_checked p \<and> bom_buf p' = bom_buf p \<and>
    raw_outcome u (t @ bs) rc p'"
  using assms
proof (induction bs arbitrary: p t)
  case (Cons b bs)
  obtain rc1 p1 where e: "sse_process_raw_byte p b = (rc1, p1)" by fastforce
  note eff = sse_process_raw_byte_effect [OF e Cons.prems(2)]
  show ?case
  proof (cases "rc1 = SSE_OK")
    case True
    with Cons.prems e have "sse_process_raw_bytes p1 bs = (rc, p')" by simp
    from Cons.IH [OF this, of "t @ [b]"] eff True show ?thesis
      using env_frame_trans by (fastforce simp: raw_outcome_def)
  next
    case False
    with Cons.prems e have "rc = rc1" "p' = p1" by auto
    with eff False stopped_mono [of u "t @ [b]" rc p' bs] show ?thesis by (simp add: raw_outcome_def)
  qed
qed (simp add: raw_outcome_def)

definition bom_prefix :: "byte list \<Rightarrow> bool" where
  "bom_prefix bs \<longleftrightarrow> bs = [] \<or> bs = [0xEF] \<or> bs = [0xEF, 0xBB]"

text \<open>The parser after the bytes \<open>bs\<close> of a stream.\<close>

definition stream_inv :: "'u \<Rightarrow> byte list \<Rightarrow> 'u sse_parser \<Rightarrow> bool" where
  "stream_inv u bs p \<longleftrightarrow>
     (if bom_checked p then \<not> bom_prefix bs \<and> raw_inv u (strip_bom bs) p
      else bom_prefix bs \<and> bom_buf p = bs \<and> raw_inv u [] p)"

definition stream_outcome :: "'u \<Rightarrow> byte list \<Rightarrow> sse_err_t \<Rightarrow> 'u sse_parser \<Rightarrow> bool" where
  "stream_outcome u bs rc p \<longleftrightarrow>
     (if rc = SSE_OK then stream_inv u bs p else stopped u (spec_calls bs) rc p)"

lemma strip_bom_snoc: "\<not> bom_prefix bs \<Longrightarrow> strip_bom (bs @ [b]) = strip_bom bs @ [b]"
  by (cases bs rule: remdups_adj.cases; cases "drop 2 bs")
    (auto simp: strip_bom_def bom_prefix_def)

lemma strip_bom_short: "length bs < 3 \<Longrightarrow> strip_bom bs = bs"
  by (auto simp: strip_bom_def)

lemma spec_calls_raw: "spec_calls bs = snd (raw_spec (strip_bom bs))"
  by (simp add: spec_calls_def spec_run_raw)

lemma raw_spec_Nil: "raw_spec [] = (sse_vars0, [])"
  by (simp add: raw_spec_def spec_lines_def)

lemma raw_inv_bom [simp]:
  "raw_inv u t (p\<lparr>bom_buf := x\<rparr>) = raw_inv u t p"
  "raw_inv u t (p\<lparr>bom_checked := c\<rparr>) = raw_inv u t p"
  "env_frame p (p\<lparr>bom_buf := x\<rparr>)" "env_frame p (p\<lparr>bom_checked := c\<rparr>)"
  "env_frame q (p\<lparr>bom_buf := x\<rparr>) = env_frame q p" "env_frame (p\<lparr>bom_buf := x\<rparr>) q = env_frame p q"
  "env_frame q (p\<lparr>bom_checked := c\<rparr>) = env_frame q p" "env_frame (p\<lparr>bom_checked := c\<rparr>) q = env_frame p q"
  by (simp_all add: raw_inv_def vars_of_def decoder_state_def line_bytes_def decoder_ok_def env_frame_def
      do_calls_cong [of "p\<lparr>bom_buf := x\<rparr>" p] do_calls_cong [of "p\<lparr>bom_checked := c\<rparr>" p])

lemma sse_process_byte_effect:
  assumes f: "sse_process_byte p b = (rc, p')" and inv: "stream_inv u bs p"
  shows "env_frame p p' \<and> stream_outcome u (bs @ [b]) rc p'"
proof (cases "bom_checked p")
  case True
  then have r: "raw_inv u (strip_bom bs) p" and nb: "\<not> bom_prefix bs"
    using inv by (simp_all add: stream_inv_def)
  have "sse_process_raw_byte p b = (rc, p')" using f True by (simp add: sse_process_byte_def)
  from sse_process_raw_byte_effect [OF this r] show ?thesis
    using True nb strip_bom_snoc [OF nb, of b]
    by (auto simp: stream_outcome_def raw_outcome_def stream_inv_def spec_calls_raw bom_prefix_def)
next
  case False
  then have bp: "bom_prefix bs" "bom_buf p = bs" and r: "raw_inv u [] p"
    using inv by (simp_all add: stream_inv_def)
  let ?bom = "bs @ [b]"
  let ?p0 = "p\<lparr>bom_buf := ?bom\<rparr>"
  have len: "length ?bom \<le> 3" using bp(1) by (auto simp: bom_prefix_def)
  consider (pre) "bom_prefix ?bom" | (bom) "?bom = [0xEF, 0xBB, 0xBF]"
    | (no) "\<not> bom_prefix ?bom" "?bom \<noteq> [0xEF, 0xBB, 0xBF]" by blast
  then show ?thesis
  proof cases
    case pre
    then have "rc = SSE_OK" "p' = ?p0"
      using f False bp by (auto simp: sse_process_byte_def bom_prefix_def Let_def)
    with pre False r show ?thesis by (simp add: stream_outcome_def stream_inv_def)
  next
    case bom
    then have "rc = SSE_OK" "p' = ?p0\<lparr>bom_checked := True, bom_buf := []\<rparr>"
      using f False bp by (auto simp: sse_process_byte_def bom_prefix_def Let_def)
    with bom r show ?thesis
      by (simp add: stream_outcome_def stream_inv_def bom_prefix_def strip_bom_def)
  next
    case no
    let ?q = "?p0\<lparr>bom_checked := True\<rparr>"
    obtain rc1 p1 where e: "sse_process_raw_bytes ?q ?bom = (rc1, p1)" by fastforce
    have "raw_inv u [] ?q" using r by simp
    note eff = sse_process_raw_bytes_effect [OF e this]
    have "rc = rc1" "p' = (if rc1 = SSE_OK then p1\<lparr>bom_buf := []\<rparr> else p1)"
      using f False bp no e len
      by (auto simp: sse_process_byte_def bom_prefix_def Let_def split: if_splits)
    moreover have "strip_bom ?bom = ?bom"
      using no(2) len by (cases "length ?bom < 3") (auto simp: strip_bom_def)
    ultimately show ?thesis
      using eff no(1) by (auto simp: stream_outcome_def raw_outcome_def stream_inv_def spec_calls_raw)
  qed
qed

lemma stopped_stream_mono:
  assumes "\<not> bom_prefix bs" "stopped u (spec_calls bs) rc p"
  shows "stopped u (spec_calls (bs @ cs)) rc p"
proof -
  have "strip_bom (bs @ cs) = strip_bom bs @ cs"
  proof (induction cs rule: rev_induct)
    case (snoc c cs)
    have "\<not> bom_prefix (bs @ cs)"
      using assms(1) by (auto simp: bom_prefix_def append_eq_Cons_conv)
    then show ?case using strip_bom_snoc [of "bs @ cs" c] snoc by simp
  qed simp
  then show ?thesis using assms(2) stopped_mono by (simp add: spec_calls_raw)
qed

lemma spec_calls_bom_prefix: "bom_prefix bs \<Longrightarrow> spec_calls bs = []"
  by (auto simp: bom_prefix_def spec_calls_def spec_run_def strip_bom_def complete_lines_def spec_lines_def)

lemma stopped_stream_append:
  assumes "stopped u (spec_calls bs) rc p"
  shows "stopped u (spec_calls (bs @ cs)) rc p"
proof (cases "bom_prefix bs")
  case True
  with assms spec_calls_bom_prefix have "do_calls p u [] = (rc \<noteq> SSE_ERR_ABORT, user_data p)"
    by (fastforce simp: stopped_def)
  then show ?thesis unfolding stopped_def by fastforce
next
  case False
  with assms show ?thesis by (rule stopped_stream_mono [rotated])
qed

lemma sse_process_bytes_effect:
  assumes "sse_process_bytes p cs = (rc, p')" and "stream_inv u bs p"
  shows "env_frame p p' \<and> stream_outcome u (bs @ cs) rc p'"
  using assms
proof (induction cs arbitrary: p bs)
  case (Cons c cs)
  obtain rc1 p1 where e: "sse_process_byte p c = (rc1, p1)" by fastforce
  note eff = sse_process_byte_effect [OF e Cons.prems(2)]
  show ?case
  proof (cases "rc1 = SSE_OK")
    case True
    with Cons.prems e have "sse_process_bytes p1 cs = (rc, p')" by simp
    from Cons.IH [OF this, of "bs @ [c]"] eff True show ?thesis
      using env_frame_trans by (fastforce simp: stream_outcome_def)
  next
    case False
    with Cons.prems e have "rc = rc1" "p' = p1" by auto
    with eff False stopped_stream_append [of u "bs @ [c]" rc p' cs] show ?thesis
      by (simp add: stream_outcome_def)
  qed
qed (simp add: stream_outcome_def)

end
