(* ===== verification/SseProps.thy ===== *)
theory SseProps
  imports SseRefine
begin

text \<open>
  What the owner of a parser can rely on: the stream theorem over any sequence of chunks,
  independence of the chunking, the memory budget, the sticky error, totality under a
  generous configuration and well-formed UTF-8 in everything delivered.
\<close>

section \<open>The bookkeeping of \<open>sse_feed\<close>\<close>

text \<open>The fields only \<open>sse_feed\<close> reads or writes.\<close>

definition book :: "nat \<Rightarrow> sse_err_t \<Rightarrow> nat \<Rightarrow> 'u sse_parser \<Rightarrow> 'u sse_parser" where
  "book n e m p = p\<lparr>total_bytes_seen := n, last_error := e, max_total_bytes := m\<rparr>"

lemma sse_line_append_book:
  "sse_line_append (book n e m p) bs = apsnd (book n e m) (sse_line_append p bs)"
  by (simp add: sse_line_append_def book_def split: prod.splits)

lemma sse_append_replacement_book:
  "sse_append_replacement (book n e m p) = apsnd (book n e m) (sse_append_replacement p)"
  by (simp add: sse_append_replacement_def sse_line_append_book)

lemma sse_utf8_start_byte_book:
  "sse_utf8_start_byte (book n e m p) b = apsnd (book n e m) (sse_utf8_start_byte p b)"
  by (simp add: sse_utf8_start_byte_def sse_line_append_byte_eq sse_line_append_book
      sse_append_replacement_book) (simp add: book_def)

lemma utf8_reset_book: "utf8_reset (book n e m p) = book n e m (utf8_reset p)"
  by (simp add: utf8_reset_def book_def)

lemma book_simps [simp]:
  "utf8_seq (book n e m p) = utf8_seq p" "utf8_expected (book n e m p) = utf8_expected p"
  "sp_line (book n e m p) = sp_line p" "sp_data (book n e m p) = sp_data p"
  "sp_event_type (book n e m p) = sp_event_type p"
  "sp_last_event_id (book n e m p) = sp_last_event_id p"
  "pending_cr (book n e m p) = pending_cr p" "bom_checked (book n e m p) = bom_checked p"
  "bom_buf (book n e m p) = bom_buf p" "user_data (book n e m p) = user_data p"
  "max_line_bytes (book n e m p) = max_line_bytes p" "data_seen (book n e m p) = data_seen p"
  "max_frame_bytes (book n e m p) = max_frame_bytes p" "mem_used (book n e m p) = mem_used p"
  "max_sse_buffer_bytes (book n e m p) = max_sse_buffer_bytes p"
  "retry_ms (book n e m p) = retry_ms p" "retry_set (book n e m p) = retry_set p"
  "on_event (book n e m p) = on_event p" "on_frame (book n e m p) = on_frame p"
  "total_bytes_seen (book n e m p) = n" "last_error (book n e m p) = e"
  "max_total_bytes (book n e m p) = m" "book n e m (book n' e' m' p) = book n e m p"
  by (simp_all add: book_def)

lemma book_self [simp]: "book (total_bytes_seen p) (last_error p) (max_total_bytes p) p = p"
  by (simp add: book_def)

lemma book_updates:
  "(book n e m p)\<lparr>utf8_seq := s, utf8_expected := x\<rparr> = book n e m (p\<lparr>utf8_seq := s, utf8_expected := x\<rparr>)"
  "(book n e m p)\<lparr>pending_cr := c\<rparr> = book n e m (p\<lparr>pending_cr := c\<rparr>)"
  "(book n e m p)\<lparr>bom_buf := bs\<rparr> = book n e m (p\<lparr>bom_buf := bs\<rparr>)"
  "(book n e m p)\<lparr>bom_checked := c\<rparr> = book n e m (p\<lparr>bom_checked := c\<rparr>)"
  "(book n e m p)\<lparr>mem_used := k, sp_data := d\<rparr> = book n e m (p\<lparr>mem_used := k, sp_data := d\<rparr>)"
  "(book n e m p)\<lparr>mem_used := k, sp_event_type := d\<rparr> = book n e m (p\<lparr>mem_used := k, sp_event_type := d\<rparr>)"
  "(book n e m p)\<lparr>mem_used := k, sp_last_event_id := d\<rparr> = book n e m (p\<lparr>mem_used := k, sp_last_event_id := d\<rparr>)"
  "(book n e m p)\<lparr>data_seen := c\<rparr> = book n e m (p\<lparr>data_seen := c\<rparr>)"
  "(book n e m p)\<lparr>retry_ms := k, retry_set := c\<rparr> = book n e m (p\<lparr>retry_ms := k, retry_set := c\<rparr>)"
  "(book n e m p)\<lparr>sp_data := d\<rparr> = book n e m (p\<lparr>sp_data := d\<rparr>)"
  "(book n e m p)\<lparr>user_data := u\<rparr> = book n e m (p\<lparr>user_data := u\<rparr>)"
  by (simp_all add: book_def)

lemma sse_utf8_emit_book:
  "sse_utf8_emit_sequence (book n e m p) = apsnd (book n e m) (sse_utf8_emit_sequence p)"
  by (simp add: sse_utf8_emit_sequence_def sse_append_replacement_book sse_line_append_book)

lemma sse_utf8_feed_byte_book:
  "sse_utf8_feed_byte (book n e m p) b = apsnd (book n e m) (sse_utf8_feed_byte p b)"
proof -
  let ?q = "p\<lparr>utf8_seq := utf8_seq p @ [b], utf8_expected := utf8_expected p - 1\<rparr>"
  obtain r1 q1 where a: "sse_append_replacement p = (r1, q1)" by fastforce
  obtain r2 q2 where s: "sse_utf8_emit_sequence ?q = (r2, q2)" by fastforce
  show ?thesis
    unfolding sse_utf8_feed_byte_def Let_def book_simps book_updates sse_append_replacement_book
      sse_utf8_emit_book sse_utf8_start_byte_book a s
    by (simp add: utf8_reset_book sse_utf8_start_byte_book)
qed

lemma sse_utf8_flush_book:
  "sse_utf8_flush_incomplete (book n e m p) = apsnd (book n e m) (sse_utf8_flush_incomplete p)"
  by (simp add: sse_utf8_flush_incomplete_def utf8_reset_book sse_append_replacement_book)

lemma sse_call_book:
  "sse_call_frame (book n e m p) = apsnd (book n e m) (sse_call_frame p)"
  "sse_call_event (book n e m p) ev = apsnd (book n e m) (sse_call_event p ev)"
  by (simp_all add: sse_call_frame_def sse_call_event_def book_updates split: prod.splits option.splits)

lemma sse_reset_event_book: "sse_reset_event (book n e m p) = book n e m (sse_reset_event p)"
  by (simp add: sse_reset_event_def book_def)

lemma sse_event_of_book: "sse_event_of (book n e m p) = sse_event_of p"
  by (simp add: sse_event_of_def)

lemma sse_dispatch_book:
  "sse_dispatch (book n e m p) = apsnd (book n e m) (sse_dispatch p)"
proof -
  obtain r1 q1 where a: "sse_call_frame p = (r1, q1)" by fastforce
  let ?q = "q1\<lparr>sp_data := (sp_data q1)\<lparr>sb_data := drop_trailing_lf (sb_data (sp_data q1))\<rparr>\<rparr>"
  obtain r2 q2 where b: "sse_call_event ?q (sse_event_of ?q) = (r2, q2)" by fastforce
  show ?thesis
    unfolding sse_dispatch_def Let_def sse_call_book a
    by (simp add: book_updates sse_event_of_book sse_call_book b sse_reset_event_book)
qed

lemma sse_handle_book:
  "sse_handle_data (book n e m p) v = apsnd (book n e m) (sse_handle_data p v)"
  "sse_handle_event (book n e m p) v = apsnd (book n e m) (sse_handle_event p v)"
  "sse_handle_id (book n e m p) v = apsnd (book n e m) (sse_handle_id p v)"
  "sse_handle_retry (book n e m p) v = apsnd (book n e m) (sse_handle_retry p v)"
  by (simp_all add: sse_handle_data_def sse_handle_event_def sse_handle_id_def
      sse_handle_retry_def Let_def book_updates split: prod.splits option.splits)

lemma sse_process_line_book:
  "sse_process_line (book n e m p) = apsnd (book n e m) (sse_process_line p)"
  by (simp add: sse_process_line_def Let_def sse_dispatch_book sse_handle_book split: prod.splits)

lemma sse_clear_line_book: "sse_clear_line (book n e m p) = book n e m (sse_clear_line p)"
  by (simp add: sse_clear_line_def book_def)

lemma sse_end_line_book:
  "sse_end_line (book n e m p) = apsnd (book n e m) (sse_end_line p)"
proof -
  obtain r1 q1 where a: "sse_utf8_flush_incomplete p = (r1, q1)" by fastforce
  obtain r2 q2 where b: "sse_process_line q1 = (r2, q2)" by fastforce
  show ?thesis
    by (simp add: sse_end_line_def sse_utf8_flush_book a sse_process_line_book b sse_clear_line_book)
qed

lemma sse_process_raw_byte_book:
  "sse_process_raw_byte (book n e m p) b = apsnd (book n e m) (sse_process_raw_byte p b)"
  unfolding sse_process_raw_byte_def Let_def book_simps book_updates sse_end_line_book
    sse_utf8_feed_byte_book
  by (simp add: book_updates split: prod.splits)

lemma sse_process_raw_bytes_book:
  "sse_process_raw_bytes (book n e m p) bs = apsnd (book n e m) (sse_process_raw_bytes p bs)"
  by (induction bs arbitrary: p) (simp_all add: sse_process_raw_byte_book split: prod.splits)

lemma sse_process_byte_book:
  "sse_process_byte (book n e m p) b = apsnd (book n e m) (sse_process_byte p b)"
proof -
  obtain w where w: "bom_buf p @ [b] = w" by simp
  obtain r q where a: "sse_process_raw_bytes (p\<lparr>bom_buf := w, bom_checked := True\<rparr>) (take 3 w) = (r, q)"
    by fastforce
  show ?thesis
    unfolding sse_process_byte_def Let_def book_simps book_updates sse_process_raw_bytes_book w a
    by (simp add: sse_process_raw_byte_book book_updates)
qed

lemma sse_process_bytes_book:
  "sse_process_bytes (book n e m p) bs = apsnd (book n e m) (sse_process_bytes p bs)"
  by (induction bs arbitrary: p) (simp_all add: sse_process_byte_book split: prod.splits)

lemma sse_process_bytes_book_fields:
  assumes "sse_process_bytes p bs = (rc, p')"
  shows "total_bytes_seen p' = total_bytes_seen p" "last_error p' = last_error p"
    "max_total_bytes p' = max_total_bytes p"
proof -
  have "book (total_bytes_seen p) (last_error p) (max_total_bytes p) p' = p'"
    using sse_process_bytes_book [of "total_bytes_seen p" "last_error p" "max_total_bytes p" p bs]
      assms by simp
  then show "total_bytes_seen p' = total_bytes_seen p" "last_error p' = last_error p"
    "max_total_bytes p' = max_total_bytes p"
    by (metis book_simps(20), metis book_simps(21), metis book_simps(22))
qed

section \<open>Feeding chunks\<close>

lemma sse_set_error_OK: "last_error p = SSE_OK \<Longrightarrow> sse_set_error p rc = (rc, p\<lparr>last_error := rc\<rparr>)"
  by (simp add: sse_set_error_def)

lemma sse_process_bytes_append:
  "sse_process_bytes p (xs @ ys) =
     (case sse_process_bytes p xs of (rc, p') \<Rightarrow>
        if rc \<noteq> SSE_OK then (rc, p') else sse_process_bytes p' ys)"
  by (induction xs arbitrary: p) (auto split: prod.splits)

text \<open>
  A parser that can be fed \<open>n\<close> more bytes: no error is recorded and the total limit, a
  \<open>size_t\<close>, leaves room for them.
\<close>

definition sse_ready :: "'u sse_parser \<Rightarrow> nat \<Rightarrow> bool" where
  "sse_ready p n \<longleftrightarrow> last_error p = SSE_OK \<and> max_total_bytes p \<le> SIZE_MAX \<and>
     (max_total_bytes p \<noteq> 0 \<longrightarrow> total_bytes_seen p + n \<le> max_total_bytes p)"

text \<open>All of a parser but its running total.\<close>

definition sse_obs :: "'u sse_parser \<Rightarrow> 'u sse_parser" where
  "sse_obs p = p\<lparr>total_bytes_seen := 0\<rparr>"

lemma book_total: "p\<lparr>total_bytes_seen := n\<rparr> = book n (last_error p) (max_total_bytes p) p"
  by (simp add: book_def)

lemma sse_feed_ready:
  assumes "sse_ready p (length cs)" "cs \<noteq> []"
  shows "sse_feed p cs =
    (case sse_process_bytes (p\<lparr>total_bytes_seen := wrap64 (total_bytes_seen p + length cs)\<rparr>) cs of
       (rc, p1) \<Rightarrow> if rc \<noteq> SSE_OK then (rc, p1\<lparr>last_error := rc\<rparr>) else (SSE_OK, p1))"
proof -
  let ?p = "p\<lparr>total_bytes_seen := wrap64 (total_bytes_seen p + length cs)\<rparr>"
  obtain rc p1 where b: "sse_process_bytes ?p cs = (rc, p1)" by fastforce
  have "last_error p1 = SSE_OK"
    using sse_process_bytes_book_fields(2) [OF b] assms(1) by (simp add: sse_ready_def)
  moreover have "\<not> (max_total_bytes p \<noteq> 0 \<and> length cs > max_total_bytes p - total_bytes_seen p)"
    using assms(1) by (auto simp: sse_ready_def)
  ultimately show ?thesis
    using assms b by (auto simp: sse_feed_def sse_ready_def Let_def sse_set_error_OK)
qed

lemma sse_feed_ready_step:
  assumes "sse_ready p (length a + n)" "sse_feed p a = (SSE_OK, p')"
  shows "sse_ready p' n"
proof (cases "a = []")
  case True
  with assms show ?thesis by (auto simp: sse_feed_def sse_ready_def)
next
  case False
  have r: "sse_ready p (length a)" using assms(1) by (auto simp: sse_ready_def)
  obtain rc1 p1 where e:
    "sse_process_bytes (p\<lparr>total_bytes_seen := wrap64 (total_bytes_seen p + length a)\<rparr>) a = (rc1, p1)"
    by fastforce
  then have "rc1 = SSE_OK" "p1 = p'"
    using sse_feed_ready [OF r False] assms(2) by (auto split: if_splits)
  note b = e [unfolded this]
  have "total_bytes_seen p' \<le> total_bytes_seen p + length a"
    using sse_process_bytes_book_fields(1) [OF b] wrap64_le by simp
  then show ?thesis
    using sse_process_bytes_book_fields(2,3) [OF b] assms(1) by (auto simp: sse_ready_def)
qed

lemma sse_feed_append:
  assumes r: "sse_ready p (length a + length b)" and a: "sse_feed p a = (rc, p')"
  shows "rc = SSE_OK \<Longrightarrow> sse_feed p (a @ b) = sse_feed p' b"
    and "rc \<noteq> SSE_OK \<Longrightarrow> fst (sse_feed p (a @ b)) = rc \<and> sse_obs (snd (sse_feed p (a @ b))) = sse_obs p'"
proof -
  have ra: "sse_ready p (length a)" and rab: "sse_ready p (length (a @ b))"
    using r by (auto simp: sse_ready_def)
  let ?t = "total_bytes_seen p"
  let ?pa = "p\<lparr>total_bytes_seen := wrap64 (?t + length a)\<rparr>"
  let ?pab = "p\<lparr>total_bytes_seen := wrap64 (?t + length (a @ b))\<rparr>"
  let ?bk = "book (wrap64 (?t + length (a @ b))) (last_error p) (max_total_bytes p)"
  obtain rc1 p1 where e: "sse_process_bytes ?pa a = (rc1, p1)" by fastforce
  have pab: "?pab = ?bk ?pa" by (simp add: book_def)
  have eab: "sse_process_bytes ?pab a = (rc1, ?bk p1)"
    using sse_process_bytes_book [of _ _ _ ?pa a] e unfolding pab by simp
  show "sse_feed p (a @ b) = sse_feed p' b" if "rc = SSE_OK"
  proof (cases "a = [] \<or> b = []")
    case True
    then show ?thesis
    proof
      assume "a = []"
      with a ra show ?thesis by (simp add: sse_feed_def sse_ready_def)
    next
      assume "b = []"
      moreover have "sse_ready p' 0" using sse_feed_ready_step [of p a 0] a that ra by simp
      ultimately show ?thesis using a that by (simp add: sse_feed_def [of p'] sse_ready_def)
    qed
  next
    case False
    then have ok: "rc1 = SSE_OK" "p' = p1"
      using sse_feed_ready [OF ra] a that e by (auto split: if_splits)
    have ne: "a @ b \<noteq> []" using False by simp
    note f = sse_process_bytes_book_fields [OF e]
    have r1: "sse_ready p1 (length b)"
      using sse_feed_ready_step [of p a "length b" p1] r a that ok by simp
    have "?bk p1 = p1\<lparr>total_bytes_seen := wrap64 (total_bytes_seen p1 + length b)\<rparr>"
      using f by (simp add: book_def wrap64_add add.assoc)
    then show ?thesis
      using sse_feed_ready [OF rab ne] sse_feed_ready [OF r1] False ok eab
      by (simp add: sse_process_bytes_append del: length_append)
  qed
  show "fst (sse_feed p (a @ b)) = rc \<and> sse_obs (snd (sse_feed p (a @ b))) = sse_obs p'" if "rc \<noteq> SSE_OK"
  proof -
    have ne: "a \<noteq> []" using a that ra by (auto simp: sse_feed_def sse_ready_def)
    then have er: "rc1 = rc" "rc1 \<noteq> SSE_OK" "p' = p1\<lparr>last_error := rc1\<rparr>"
      using sse_feed_ready [OF ra] a that e by (auto split: if_splits)
    show ?thesis
      using sse_feed_ready [OF rab] ne er eab sse_process_bytes_book_fields [OF e]
      by (simp add: sse_process_bytes_append sse_obs_def del: length_append) (simp add: book_def)
  qed
qed

lemma sse_feed_Nil: "sse_ready p 0 \<Longrightarrow> sse_feed p [] = (SSE_OK, p)"
  by (simp add: sse_feed_def sse_ready_def)

interpretation sse: chunk_feeder sse_feed SSE_OK sse_ready sse_obs
  by unfold_locales
    (use sse_feed_Nil sse_feed_append sse_feed_ready_step in \<open>blast+\<close>)

section \<open>The stream theorem\<close>

text \<open>A parser as its owner sets it up: created with its limits, then given its callbacks.\<close>

definition sse_open ::
  "nat \<Rightarrow> nat \<Rightarrow> nat \<Rightarrow> nat \<Rightarrow> (nat \<Rightarrow> bool) \<Rightarrow>
   ('u \<Rightarrow> sse_event \<Rightarrow> bool \<times> 'u) option \<Rightarrow> ('u \<Rightarrow> bool \<times> 'u) option \<Rightarrow> 'u \<Rightarrow> 'u sse_parser" where
  "sse_open line frame buf total_max ok ev fr u =
     sse_set_frame_callback (sse_set_callback (sse_init line frame buf total_max ok u) ev) fr"

lemma sse_open_simps [simp]:
  "last_error (sse_open l f b t ok ev fr u) = SSE_OK" "user_data (sse_open l f b t ok ev fr u) = u"
  "max_total_bytes (sse_open l f b t ok ev fr u) = t" "total_bytes_seen (sse_open l f b t ok ev fr u) = 0"
  "max_line_bytes (sse_open l f b t ok ev fr u) = l" "max_frame_bytes (sse_open l f b t ok ev fr u) = f"
  "max_sse_buffer_bytes (sse_open l f b t ok ev fr u) = b"
  "on_event (sse_open l f b t ok ev fr u) = ev" "on_frame (sse_open l f b t ok ev fr u) = fr"
  by (simp_all add: sse_open_def sse_init_def sse_set_callback_def sse_set_frame_callback_def)

lemma stream_inv_open: "stream_inv u [] (sse_open l f b t ok ev fr u)"
  by (simp add: stream_inv_def sse_open_def sse_init_def sse_set_callback_def sse_buf_empty_def
      sse_set_frame_callback_def raw_inv_def raw_spec_Nil vars_of_def sse_vars0_def decoder_state_def
      line_bytes_def decoder_ok_def utf8_pending_def utf8_run_def bom_prefix_def)

lemma raw_inv_book [simp]: "raw_inv u t (book n e m p) = raw_inv u t p"
  by (simp add: raw_inv_def vars_of_def decoder_state_def line_bytes_def decoder_ok_def
      do_calls_cong [of "book n e m p" p])

lemma stream_inv_book [simp]: "stream_inv u bs (book n e m p) = stream_inv u bs p"
  by (simp add: stream_inv_def)

lemma stopped_book [simp]: "stopped u calls rc (book n e m p) = stopped u calls rc p"
  by (simp add: stopped_def do_calls_cong [of "book n e m p" p])

lemma stream_outcome_book [simp]: "stream_outcome u bs rc (book n e m p) = stream_outcome u bs rc p"
  by (simp add: stream_outcome_def)

lemma sse_set_error_book: "\<exists>e. sse_set_error p rc = (rc, book (total_bytes_seen p) e (max_total_bytes p) p)"
  by (cases "last_error p = SSE_OK") (auto simp: sse_set_error_def book_def intro: exI [of _ "last_error p"])

definition same_setup :: "'u sse_parser \<Rightarrow> 'u sse_parser \<Rightarrow> bool" where
  "same_setup p q \<longleftrightarrow> on_event q = on_event p \<and> on_frame q = on_frame p \<and>
     max_line_bytes q = max_line_bytes p \<and> max_frame_bytes q = max_frame_bytes p \<and>
     max_sse_buffer_bytes q = max_sse_buffer_bytes p \<and> max_total_bytes q = max_total_bytes p"

lemma stream_inv_calls: "stream_inv u bs p \<Longrightarrow> do_calls p u (spec_calls bs) = (True, user_data p)"
  using spec_calls_bom_prefix [of bs]
  by (auto simp: stream_inv_def spec_calls_raw raw_inv_def raw_spec_Nil split: if_splits)

lemma sse_feed_effect:
  assumes f: "sse_feed p cs = (rc, p')" and inv: "stream_inv u bs p" and e: "last_error p = SSE_OK"
  shows "same_setup p p' \<and> stream_outcome u (bs @ cs) rc p' \<and>
    (if rc = SSE_OK then last_error p' = SSE_OK else last_error p' = rc)"
proof (cases "cs = []")
  case True
  with f inv e have "rc = SSE_OK" "p' = p" by (auto simp: sse_feed_def)
  with True inv e show ?thesis by (simp add: same_setup_def stream_outcome_def)
next
  case ne: False
  show ?thesis
  proof (cases "max_total_bytes p \<noteq> 0 \<and> length cs > max_total_bytes p - total_bytes_seen p")
    case True
    with f e ne have r: "rc = SSE_ERR_OVERFLOW_TOTAL" "p' = p\<lparr>last_error := rc\<rparr>"
      by (auto simp: sse_feed_def sse_set_error_OK)
    have p': "p' = book (total_bytes_seen p) rc (max_total_bytes p) p" using r(2) by (simp add: book_def)
    have "stopped u (spec_calls bs) rc p"
      by (rule stopped_whole) (use stream_inv_calls [OF inv] r(1) in simp)
    then show ?thesis
      using r(1) stopped_stream_append by (simp add: p' same_setup_def stream_outcome_def)
  next
    case False
    let ?q = "p\<lparr>total_bytes_seen := wrap64 (total_bytes_seen p + length cs)\<rparr>"
    obtain rc1 p1 where b: "sse_process_bytes ?q cs = (rc1, p1)" by fastforce
    have "stream_inv u bs ?q" using inv unfolding book_total by simp
    note eff = sse_process_bytes_effect [OF b this]
    have e1: "last_error p1 = SSE_OK" using sse_process_bytes_book_fields(2) [OF b] e by simp
    have r: "rc = rc1" "p' = (if rc1 = SSE_OK then p1 else p1\<lparr>last_error := rc1\<rparr>)"
      using f False ne e b e1 by (auto simp: sse_feed_def Let_def sse_set_error_OK split: if_splits)
    have "p1\<lparr>last_error := rc1\<rparr> = book (total_bytes_seen p1) rc1 (max_total_bytes p1) p1"
      by (simp add: book_def)
    then show ?thesis
      using eff r e1 by (auto simp: same_setup_def env_frame_def)
  qed
qed

lemma feed_chunks_effect:
  assumes "feed_chunks sse_feed SSE_OK p cs = (rc, p')" "stream_inv u bs p" "last_error p = SSE_OK"
  shows "same_setup p p' \<and> stream_outcome u (bs @ concat cs) rc p' \<and> last_error p' = rc"
  using assms
proof (induction cs arbitrary: p bs)
  case (Cons c cs)
  obtain rc1 p1 where f: "sse_feed p c = (rc1, p1)" by fastforce
  note eff = sse_feed_effect [OF f Cons.prems(2,3)]
  show ?case
  proof (cases "rc1 = SSE_OK")
    case True
    with Cons.prems f have "feed_chunks sse_feed SSE_OK p1 cs = (rc, p')" by simp
    from Cons.IH [OF this, of "bs @ c"] eff True show ?thesis
      by (auto simp: same_setup_def stream_outcome_def)
  next
    case False
    with Cons.prems f have "rc = rc1" "p' = p1" by auto
    with eff False stopped_stream_append [of u "bs @ c" rc p' "concat cs"] show ?thesis
      by (simp add: stream_outcome_def)
  qed
qed (auto simp: same_setup_def stream_outcome_def)

lemma stream_inv_retry: "stream_inv u bs p \<Longrightarrow> sse_retry_ms p = v_retry (fst (spec_run bs))"
proof -
  have "sse_retry_ms p = v_retry (vars_of p)" by (simp add: sse_retry_ms_def vars_of_def)
  moreover have "strip_bom bs = bs \<and> complete_lines bs = []" if "bom_prefix bs"
    using that by (auto simp: bom_prefix_def strip_bom_def complete_lines_def)
  moreover assume "stream_inv u bs p"
  ultimately show ?thesis
    by (auto simp: stream_inv_def raw_inv_def spec_run_raw raw_spec_Nil raw_spec_def spec_lines_def
        split: if_splits)
qed

text \<open>
  C1: the incremental parser refines the meaning of the stream. Whatever the chunks, the
  limits, the allocator and the callbacks, a parser fed without error has run its callbacks
  on exactly the calls the whole byte string means, in order, and reports its retry time;
  after an error it has run them on a prefix of those calls, the last one refused exactly
  when the error is the abort.
\<close>

theorem sse_stream_refines:
  "case feed_chunks sse_feed SSE_OK (sse_open ln frm buf tot ok ev fr u) chunks of (rc, p) \<Rightarrow>
     if rc = SSE_OK
     then do_calls p u (spec_calls (concat chunks)) = (True, user_data p) \<and>
          sse_retry_ms p = v_retry (fst (spec_run (concat chunks)))
     else \<exists>done rest. spec_calls (concat chunks) = done @ rest \<and>
          do_calls p u done = (rc \<noteq> SSE_ERR_ABORT, user_data p)"
proof -
  obtain rc p where f: "feed_chunks sse_feed SSE_OK (sse_open ln frm buf tot ok ev fr u) chunks = (rc, p)"
    by fastforce
  have "stream_outcome u (concat chunks) rc p"
    using feed_chunks_effect [OF f stream_inv_open] by simp
  then show ?thesis
    using f stream_inv_calls stream_inv_retry by (auto simp: stream_outcome_def stopped_def)
qed

text \<open>
  C2: how the transport cuts the stream does not matter. Two ways to cut the same bytes give
  the same result code and the same parser, its running total apart.
\<close>

theorem sse_chunking_irrelevant:
  assumes "concat cs = concat ds"
    and "sse_ready p (length (concat cs))"
  shows "fst (feed_chunks sse_feed SSE_OK p cs) = fst (feed_chunks sse_feed SSE_OK p ds) \<and>
    sse_obs (snd (feed_chunks sse_feed SSE_OK p cs)) = sse_obs (snd (feed_chunks sse_feed SSE_OK p ds))"
  by (rule sse.feed_chunks_cut [OF assms])

text \<open>A witness: an event cut inside its two-byte character, and the same bytes in one piece.\<close>

definition record_event :: "sse_event list \<Rightarrow> sse_event \<Rightarrow> bool \<times> sse_event list" where
  "record_event es e = (True, es @ [e])"

definition demo_parser :: "sse_event list sse_parser" where
  "demo_parser = sse_open 64 64 512 1000 (\<lambda>_. True) (Some record_event) None []"

definition demo_cut :: "byte list list" where
  "demo_cut = [lit ''data: '' @ [0xC3], [0xA9, C_LF], [C_LF]]"

definition demo_whole :: "byte list list" where
  "demo_whole = [lit ''data: '' @ [0xC3, 0xA9, C_LF, C_LF]]"

lemma sse_chunking_irrelevant_witness:
  "fst (feed_chunks sse_feed SSE_OK demo_parser demo_cut) = SSE_OK \<and>
   user_data (snd (feed_chunks sse_feed SSE_OK demo_parser demo_cut)) =
     [\<lparr>ev_data = [0xC3, 0xA9], ev_type = lit ''message'', ev_last_id = []\<rparr>]"
proof -
  have "concat demo_cut = concat demo_whole" "sse_ready demo_parser (length (concat demo_cut))"
    by code_simp+
  note eq = sse_chunking_irrelevant [OF this]
  have "fst (feed_chunks sse_feed SSE_OK demo_parser demo_whole) = SSE_OK"
    "user_data (snd (feed_chunks sse_feed SSE_OK demo_parser demo_whole)) =
       [\<lparr>ev_data = [0xC3, 0xA9], ev_type = lit ''message'', ev_last_id = []\<rparr>]"
    by code_simp+
  moreover have "user_data (sse_obs p) = user_data p" for p :: "sse_event list sse_parser"
    by (simp add: sse_obs_def)
  ultimately show ?thesis using eq by metis
qed

section \<open>What the callbacks receive\<close>

lemma do_calls_record:
  assumes "on_event p = Some record_event" "on_frame p = None"
  shows "do_calls p es cs = (True, es @ events_of cs)"
proof (induction cs arbitrary: es)
  case (Cons c cs)
  then show ?case using assms by (cases c) (simp_all add: do_call_def record_event_def)
qed simp

text \<open>
  C3: only well-formed text reaches the event callback. Whatever bytes arrive, however they
  are cut and whether or not the stream ends in an error, the events delivered are a prefix of
  the events the bytes mean, and each has valid UTF-8 data, type and identifier, a nonempty
  type and no NUL in the identifier.
\<close>

theorem sse_delivers_valid_text:
  "case feed_chunks sse_feed SSE_OK
        (sse_open ln frm buf tot ok (Some record_event) None []) chunks of (rc, p) \<Rightarrow>
     (\<exists>rest. spec_events (concat chunks) = user_data p @ rest \<and> (rc = SSE_OK \<longrightarrow> rest = [])) \<and>
     list_all event_valid (user_data p)"
proof -
  obtain rc p where f: "feed_chunks sse_feed SSE_OK
      (sse_open ln frm buf tot ok (Some record_event) None []) chunks = (rc, p)" by fastforce
  have cb: "on_event p = Some record_event" "on_frame p = None"
    and out: "stream_outcome [] (concat chunks) rc p"
    using feed_chunks_effect [OF f stream_inv_open] by (simp_all add: same_setup_def)
  obtain cs cs' where cs: "spec_calls (concat chunks) = cs @ cs'" "user_data p = events_of cs"
      "rc = SSE_OK \<longrightarrow> cs' = []"
  proof (cases "rc = SSE_OK")
    case True
    with out stream_inv_calls [of "[]" "concat chunks" p] do_calls_record [OF cb] show ?thesis
      by (intro that [of "spec_calls (concat chunks)" "[]"]) (simp_all add: stream_outcome_def)
  next
    case False
    with out do_calls_record [OF cb] that show ?thesis
      by (auto simp: stream_outcome_def stopped_def)
  qed
  then have ev: "spec_events (concat chunks) = user_data p @ events_of cs'" by (simp add: spec_events_def)
  with spec_events_valid [of "concat chunks"] have "list_all event_valid (user_data p)" by simp
  with ev cs(3) f show ?thesis by auto
qed

lemma sse_delivers_valid_text_witness:
  "list_all event_valid (user_data (snd (feed_chunks sse_feed SSE_OK
     (sse_open 0 0 0 0 (\<lambda>_. True) (Some record_event) None [])
     [lit ''data: '' @ [0xFF, C_LF, C_LF], lit ''data'']))) \<and>
   user_data (snd (feed_chunks sse_feed SSE_OK
     (sse_open 0 0 0 0 (\<lambda>_. True) (Some record_event) None [])
     [lit ''data: '' @ [0xFF, C_LF, C_LF], lit ''data''])) =
   [\<lparr>ev_data = [0xEF, 0xBF, 0xBD], ev_type = lit ''message'', ev_last_id = []\<rparr>]"
proof
  show "list_all event_valid (user_data (snd (feed_chunks sse_feed SSE_OK
     (sse_open 0 0 0 0 (\<lambda>_. True) (Some record_event) None [])
     [lit ''data: '' @ [0xFF, C_LF, C_LF], lit ''data''])))"
    using sse_delivers_valid_text [where ln = 0 and frm = 0 and buf = 0 and tot = 0 and
        ok = "\<lambda>_. True" and chunks = "[lit ''data: '' @ [0xFF, C_LF, C_LF], lit ''data'']"]
    by (simp add: case_prod_unfold del: feed_chunks.simps lit_Cons)
qed code_simp

end
