(* ===== verification/SseSafe.thy ===== *)
theory SseSafe
  imports SseProps
begin

text \<open>
  The safety of the parser of \<open>Sse\<close>: its memory budget and array bounds on every path,
  errors included, the sticky error, and the absence of spurious errors when the
  configuration leaves room.
\<close>

section \<open>Memory and limits\<close>

definition buf_inv :: "sse_buf \<Rightarrow> bool" where
  "buf_inv buf \<longleftrightarrow> length (sb_data buf) \<le> sb_cap buf"

definition sse_caps :: "'u sse_parser \<Rightarrow> nat" where
  "sse_caps p = sb_cap (sp_line p) + sb_cap (sp_data p) + sb_cap (sp_event_type p) +
     sb_cap (sp_last_event_id p)"

text \<open>
  \<open>mem_used\<close> is the memory the four buffers hold and is within the budget; no buffer is
  longer than its allocation; the line, the frame and the stream are within their limits;
  \<open>utf8_seq\<close> (four bytes in the code) has room for the bytes still expected and
  \<open>bom_buf\<close> (three bytes) for the next one while the byte order mark is undecided.
\<close>

definition mem_inv :: "'u sse_parser \<Rightarrow> bool" where
  "mem_inv p \<longleftrightarrow>
     buf_inv (sp_line p) \<and> buf_inv (sp_data p) \<and> buf_inv (sp_event_type p) \<and>
     buf_inv (sp_last_event_id p) \<and> mem_used p = sse_caps p \<and>
     (max_sse_buffer_bytes p \<noteq> 0 \<longrightarrow> sse_caps p \<le> max_sse_buffer_bytes p)"

definition limits_inv :: "'u sse_parser \<Rightarrow> bool" where
  "limits_inv p \<longleftrightarrow>
     (max_line_bytes p \<noteq> 0 \<longrightarrow> length (sb_data (sp_line p)) \<le> max_line_bytes p) \<and>
     (max_frame_bytes p \<noteq> 0 \<longrightarrow> length (sb_data (sp_data p)) \<le> max_frame_bytes p) \<and>
     length (utf8_seq p) + utf8_expected p \<le> 4 \<and>
     length (bom_buf p) \<le> (if bom_checked p then 3 else 2)"

definition safe :: "'u sse_parser \<Rightarrow> bool" where
  "safe p \<longleftrightarrow> mem_inv p \<and> limits_inv p"

lemma sse_buf_reserve_inv:
  assumes "sse_buf_reserve mb m buf n = (rc, m', buf')" "buf_inv buf"
    "m = sb_cap buf + others" "mb \<noteq> 0 \<longrightarrow> m \<le> mb"
  shows "buf_inv buf' \<and> m' = sb_cap buf' + others \<and> (mb \<noteq> 0 \<longrightarrow> m' \<le> mb) \<and>
    (rc = SSE_OK \<longrightarrow> n \<le> sb_cap buf')"
  using assms by (auto simp: sse_buf_reserve_def Let_def buf_inv_def split: if_splits)

lemma sse_buf_append_inv:
  assumes "sse_buf_append mb m buf bs = (rc, m', buf')" "buf_inv buf"
    "m = sb_cap buf + others" "mb \<noteq> 0 \<longrightarrow> m \<le> mb"
  shows "buf_inv buf' \<and> m' = sb_cap buf' + others \<and> (mb \<noteq> 0 \<longrightarrow> m' \<le> mb)"
proof (cases "bs = []")
  case False
  obtain rc1 m1 b1 where r: "sse_buf_reserve mb m buf (length (sb_data buf) + length bs) = (rc1, m1, b1)"
    by (metis prod_cases3)
  from sse_buf_reserve_inv [OF r assms(2,3,4)] sse_buf_reserve_data [OF r] assms(1) False r
  show ?thesis by (auto simp: sse_buf_append_def buf_inv_def split: if_splits)
qed (use assms in \<open>auto simp: sse_buf_append_def\<close>)

lemma sse_buf_set_inv:
  assumes "sse_buf_set mb m buf bs = (rc, m', buf')" "buf_inv buf"
    "m = sb_cap buf + others" "mb \<noteq> 0 \<longrightarrow> m \<le> mb"
  shows "buf_inv buf' \<and> m' = sb_cap buf' + others \<and> (mb \<noteq> 0 \<longrightarrow> m' \<le> mb)"
proof (cases "bs = []")
  case False
  let ?b0 = "buf\<lparr>sb_data := []\<rparr>"
  obtain rc1 m1 b1 where r: "sse_buf_reserve mb m ?b0 (length bs) = (rc1, m1, b1)"
    by (metis prod_cases3)
  have "buf_inv ?b0" "m = sb_cap ?b0 + others" using assms(3) by (simp_all add: buf_inv_def)
  from sse_buf_reserve_inv [OF r this assms(4)] assms(1) False r
  show ?thesis by (auto simp: sse_buf_set_def buf_inv_def split: if_splits)
qed (use assms in \<open>auto simp: sse_buf_set_def buf_inv_def\<close>)

lemma sse_line_append_safe:
  assumes "sse_line_append p bs = (rc, p')" "safe p"
  shows "safe p'"
proof (cases "max_line_bytes p \<noteq> 0 \<and> length (sb_data (sp_line p)) + length bs > max_line_bytes p")
  case True
  with assms show ?thesis by (auto simp: sse_line_append_def)
next
  case False
  obtain rc1 m b where a: "sse_buf_append (max_sse_buffer_bytes p) (mem_used p) (sp_line p) bs = (rc1, m, b)"
    by (metis prod_cases3)
  have "p' = p\<lparr>mem_used := m, sp_line := b\<rparr>"
    using assms(1) False a by (auto simp: sse_line_append_def)
  then show ?thesis
    using assms(2) False sse_buf_append_data [OF a]
      sse_buf_append_inv [OF a, of "sb_cap (sp_data p) + sb_cap (sp_event_type p) + sb_cap (sp_last_event_id p)"]
    by (auto simp: safe_def mem_inv_def limits_inv_def sse_caps_def)
qed

lemma sse_append_replacement_safe: "sse_append_replacement p = (rc, p') \<Longrightarrow> safe p \<Longrightarrow> safe p'"
  by (simp add: sse_append_replacement_def sse_line_append_safe)

lemma utf8_reset_safe: "safe p \<Longrightarrow> safe (utf8_reset p)"
  by (simp add: safe_def mem_inv_def limits_inv_def utf8_reset_def sse_caps_def)

lemma sse_utf8_start_byte_safe:
  assumes "sse_utf8_start_byte p b = (rc, p')" "safe p"
  shows "safe p'"
proof -
  have "safe (p\<lparr>utf8_seq := [b], utf8_total := t, utf8_expected := e\<rparr>)" if "e \<le> 3" for t e
    using assms(2) that by (simp add: safe_def mem_inv_def limits_inv_def sse_caps_def)
  then show ?thesis
    using assms by (auto simp: sse_utf8_start_byte_def sse_line_append_byte_eq split: if_splits
        dest: sse_line_append_safe sse_append_replacement_safe)
qed

lemma sse_utf8_feed_byte_safe:
  assumes f: "sse_utf8_feed_byte p b = (rc, p')" and s: "safe p"
  shows "safe p'"
proof -
  let ?q = "p\<lparr>utf8_seq := utf8_seq p @ [b], utf8_expected := utf8_expected p - 1\<rparr>"
  obtain r1 q1 where a: "sse_append_replacement p = (r1, q1)" by fastforce
  obtain r2 q2 where e: "sse_utf8_emit_sequence ?q = (r2, q2)" by fastforce
  have q: "safe ?q" if "utf8_expected p \<noteq> 0"
    using s that by (simp add: safe_def mem_inv_def limits_inv_def sse_caps_def)
  have "safe q2" if "utf8_expected p \<noteq> 0"
    using e q [OF that] sse_line_append_safe sse_append_replacement_safe
    by (auto simp: sse_utf8_emit_sequence_def split: if_splits)
  then show ?thesis
    using f a e q s sse_append_replacement_safe [OF a s] utf8_reset_safe
      sse_utf8_start_byte_safe [of "utf8_reset q1" b rc p'] sse_utf8_start_byte_safe [of p b rc p']
    by (auto simp: sse_utf8_feed_byte_def Let_def split: if_splits)
qed

lemma sse_handle_data_safe:
  assumes "sse_handle_data p v = (rc, p')" "safe p"
  shows "safe p'"
proof (cases "max_frame_bytes p \<noteq> 0 \<and> length (sb_data (sp_data p)) + (length v + 1) > max_frame_bytes p")
  case True
  with assms show ?thesis by (auto simp: sse_handle_data_def)
next
  case False
  let ?mb = "max_sse_buffer_bytes p"
  let ?o = "sb_cap (sp_line p) + sb_cap (sp_event_type p) + sb_cap (sp_last_event_id p)"
  obtain rc1 m1 b1 where a: "sse_buf_append ?mb (mem_used p) (sp_data p) v = (rc1, m1, b1)"
    by (metis prod_cases3)
  obtain rc2 m2 b2 where b: "sse_buf_append ?mb m1 b1 [C_LF] = (rc2, m2, b2)"
    by (metis prod_cases3)
  have i1: "buf_inv b1 \<and> m1 = sb_cap b1 + ?o \<and> (?mb \<noteq> 0 \<longrightarrow> m1 \<le> ?mb)"
    by (rule sse_buf_append_inv [OF a]) (use assms(2) in \<open>auto simp: safe_def mem_inv_def sse_caps_def\<close>)
  have i2: "buf_inv b2 \<and> m2 = sb_cap b2 + ?o \<and> (?mb \<noteq> 0 \<longrightarrow> m2 \<le> ?mb)"
    by (rule sse_buf_append_inv [OF b]) (use i1 in auto)
  have l: "length (sb_data b1) \<le> length (sb_data (sp_data p)) + length v"
    "length (sb_data b2) \<le> length (sb_data b1) + 1"
    using sse_buf_append_data [OF a] sse_buf_append_data [OF b] by auto
  have s: "safe (p\<lparr>mem_used := m, sp_data := d\<rparr>)" "safe (p\<lparr>mem_used := m, sp_data := d, data_seen := c\<rparr>)"
    if "buf_inv d \<and> m = sb_cap d + ?o \<and> (?mb \<noteq> 0 \<longrightarrow> m \<le> ?mb)"
      "length (sb_data d) \<le> length (sb_data (sp_data p)) + length v + 1" for m d c
    using that assms(2) False by (auto simp: safe_def mem_inv_def limits_inv_def sse_caps_def)
  have "p' \<in> {p\<lparr>mem_used := m1, sp_data := b1\<rparr>, p\<lparr>mem_used := m2, sp_data := b2\<rparr>,
      p\<lparr>mem_used := m2, sp_data := b2, data_seen := True\<rparr>}"
    using assms(1) False a b by (auto simp: sse_handle_data_def sse_buf_append_byte_def Let_def split: if_splits)
  then show ?thesis using s [OF i1] s [OF i2] l by auto
qed

lemma sse_handle_event_safe:
  assumes "sse_handle_event p v = (rc, p')" "safe p"
  shows "safe p'"
proof -
  obtain rc1 m b where a: "sse_buf_set (max_sse_buffer_bytes p) (mem_used p) (sp_event_type p) v = (rc1, m, b)"
    by (metis prod_cases3)
  have "p' = p\<lparr>mem_used := m, sp_event_type := b\<rparr>" using assms(1) a by (auto simp: sse_handle_event_def)
  then show ?thesis
    using assms(2) sse_buf_set_inv [OF a, of "sb_cap (sp_line p) + sb_cap (sp_data p) + sb_cap (sp_last_event_id p)"]
    by (auto simp: safe_def mem_inv_def limits_inv_def sse_caps_def)
qed

lemma sse_handle_id_safe:
  assumes "sse_handle_id p v = (rc, p')" "safe p"
  shows "safe p'"
proof (cases "v \<noteq> [] \<and> memchr v C_NUL \<noteq> None")
  case True
  with assms show ?thesis by (auto simp: sse_handle_id_def)
next
  case False
  obtain rc1 m b where a: "sse_buf_set (max_sse_buffer_bytes p) (mem_used p) (sp_last_event_id p) v = (rc1, m, b)"
    by (metis prod_cases3)
  have "p' = p\<lparr>mem_used := m, sp_last_event_id := b\<rparr>"
    using assms(1) a False by (auto simp: sse_handle_id_def)
  then show ?thesis
    using assms(2) sse_buf_set_inv [OF a, of "sb_cap (sp_line p) + sb_cap (sp_data p) + sb_cap (sp_event_type p)"]
    by (auto simp: safe_def mem_inv_def limits_inv_def sse_caps_def)
qed

lemma sse_handle_retry_safe: "sse_handle_retry p v = (rc, p') \<Longrightarrow> safe p \<Longrightarrow> safe p'"
  by (auto simp: sse_handle_retry_def safe_def mem_inv_def limits_inv_def sse_caps_def split: option.splits)

lemma drop_trailing_lf_length: "length (drop_trailing_lf d) \<le> length d"
  by (simp add: drop_trailing_lf_def)

lemma sse_dispatch_safe:
  assumes "sse_dispatch p = (rc, p')" "safe p"
  shows "safe p'"
proof -
  have u: "safe (q\<lparr>user_data := x\<rparr>) = safe q" for q :: "'a sse_parser" and x
    by (simp add: safe_def mem_inv_def limits_inv_def sse_caps_def)
  have r: "safe (sse_reset_event q)" if "safe q" for q :: "'a sse_parser"
    using that by (simp add: sse_reset_event_def safe_def mem_inv_def limits_inv_def sse_caps_def buf_inv_def)
  have d: "safe (q\<lparr>sp_data := (sp_data q)\<lparr>sb_data := drop_trailing_lf (sb_data (sp_data q))\<rparr>\<rparr>)"
    if "safe q" for q :: "'a sse_parser"
    using that drop_trailing_lf_length [of "sb_data (sp_data q)"]
    by (auto simp: safe_def mem_inv_def limits_inv_def sse_caps_def buf_inv_def)
  obtain r1 q1 where a: "sse_call_frame p = (r1, q1)" by fastforce
  let ?q = "q1\<lparr>sp_data := (sp_data q1)\<lparr>sb_data := drop_trailing_lf (sb_data (sp_data q1))\<rparr>\<rparr>"
  obtain r2 q2 where b: "sse_call_event ?q (sse_event_of ?q) = (r2, q2)" by fastforce
  have "safe q1" using sse_call_frame_effect [OF a] u assms(2) by metis
  moreover then have "safe q2" using sse_call_event_effect [OF b] u d by metis
  ultimately show ?thesis
    using assms(1) r unfolding sse_dispatch_def a by (auto simp: Let_def b split: if_splits)
qed

lemma sse_process_line_safe:
  assumes "sse_process_line p = (rc, p')" "safe p"
  shows "safe p'"
  using assms sse_dispatch_safe sse_handle_data_safe sse_handle_event_safe sse_handle_id_safe
    sse_handle_retry_safe
  by (auto simp: sse_process_line_def Let_def split: if_splits prod.splits)

lemma sse_end_line_safe:
  assumes "sse_end_line p = (rc, p')" "safe p"
  shows "safe p'"
proof -
  obtain r1 q1 where a: "sse_utf8_flush_incomplete p = (r1, q1)" by fastforce
  obtain r2 q2 where b: "sse_process_line q1 = (r2, q2)" by fastforce
  have "safe q1"
    using a assms(2) utf8_reset_safe [OF assms(2)] sse_append_replacement_safe [of "utf8_reset p" r1 q1]
    by (auto simp: sse_utf8_flush_incomplete_def split: if_splits)
  moreover then have "safe q2" using sse_process_line_safe [OF b] by simp
  moreover have "safe (sse_clear_line q)" if "safe q" for q :: "'a sse_parser"
    using that by (simp add: sse_clear_line_def safe_def mem_inv_def limits_inv_def sse_caps_def buf_inv_def)
  ultimately show ?thesis using assms(1) a b by (auto simp: sse_end_line_def split: if_splits)
qed

lemma safe_pending_cr [simp]: "safe (p\<lparr>pending_cr := c\<rparr>) = safe p"
  by (simp add: safe_def mem_inv_def limits_inv_def sse_caps_def)

lemma sse_process_raw_byte_safe:
  assumes "sse_process_raw_byte p b = (rc, p')" "safe p"
  shows "safe p'"
proof -
  let ?p = "p\<lparr>pending_cr := False\<rparr>"
  obtain r1 q1 where a: "sse_end_line ?p = (r1, q1)" by fastforce
  obtain r2 q2 where b: "sse_utf8_feed_byte ?p b = (r2, q2)" by fastforce
  have "safe q1" "safe q2"
    using sse_end_line_safe [OF a] sse_utf8_feed_byte_safe [OF b] assms(2) by simp_all
  then show ?thesis
    using assms a b by (auto simp: sse_process_raw_byte_def Let_def split: if_splits)
qed

text \<open>Within a stream, a byte keeps the parser's configuration and its place in the BOM filter.\<close>

lemma sse_process_raw_bytes_safe:
  "sse_process_raw_bytes p bs = (rc, p') \<Longrightarrow> safe p \<Longrightarrow> safe p'"
  by (induction bs arbitrary: p)
    (auto dest: sse_process_raw_byte_safe split: prod.splits if_splits)

lemma sse_process_byte_safe:
  assumes f: "sse_process_byte p b = (rc, p')" and s: "safe p"
  shows "safe p'"
proof -
  let ?w = "bom_buf p @ [b]"
  let ?q = "p\<lparr>bom_buf := ?w, bom_checked := True\<rparr>"
  obtain r q where e: "sse_process_raw_bytes ?q (take 3 ?w) = (r, q)" by fastforce
  have raw: "safe p'" if "sse_process_raw_byte p b = (rc, p')"
    using sse_process_raw_byte_safe [OF that s] .
  have upd: "safe (x\<lparr>bom_buf := w, bom_checked := c\<rparr>)"
    if "safe x" "length w \<le> (if c then 3 else 2)" for x :: "'a sse_parser" and w c
    using that by (auto simp: safe_def mem_inv_def limits_inv_def sse_caps_def)
  have upd2: "safe (x\<lparr>bom_buf := []\<rparr>)" if "safe x" for x :: "'a sse_parser"
    using that by (auto simp: safe_def mem_inv_def limits_inv_def sse_caps_def)
  have upd1: "safe (p\<lparr>bom_buf := w\<rparr>)" if "\<not> bom_checked p" "length w \<le> 2" for w
    using s that by (auto simp: safe_def mem_inv_def limits_inv_def sse_caps_def)
  show ?thesis
  proof (cases "bom_checked p")
    case True
    with f raw show ?thesis by (simp add: sse_process_byte_def)
  next
    case False
    then have l: "length ?w \<le> 3" using s by (auto simp: safe_def limits_inv_def)
    have q: "safe q" by (rule sse_process_raw_bytes_safe [OF e]) (use upd [OF s, of ?w True] l in simp)
    have "p' \<in> {p\<lparr>bom_buf := [], bom_checked := True\<rparr>, q, q\<lparr>bom_buf := []\<rparr>} \<or>
        p' = p\<lparr>bom_buf := ?w\<rparr> \<and> length ?w \<le> 2"
      using f False e by (auto simp: sse_process_byte_def Let_def split: if_splits)
    then show ?thesis using q upd [OF s, of "[]" True] upd2 upd1 False by auto
  qed
qed

lemma sse_process_bytes_safe: "sse_process_bytes p bs = (rc, p') \<Longrightarrow> safe p \<Longrightarrow> safe p'"
  by (induction bs arbitrary: p) (auto dest: sse_process_byte_safe split: prod.splits if_splits)

lemma safe_book [simp]: "safe (book n e m p) = safe p"
  by (simp add: safe_def mem_inv_def limits_inv_def sse_caps_def)

text \<open>The running total stays within its limit as well.\<close>

definition total_inv :: "'u sse_parser \<Rightarrow> bool" where
  "total_inv p \<longleftrightarrow> (max_total_bytes p \<noteq> 0 \<longrightarrow> total_bytes_seen p \<le> max_total_bytes p)"

lemma sse_feed_safe:
  assumes f: "sse_feed p cs = (rc, p')" and s: "safe p" "total_inv p"
  shows "safe p' \<and> total_inv p'"
proof (cases "last_error p \<noteq> SSE_OK \<or> cs = [] \<or>
    max_total_bytes p \<noteq> 0 \<and> length cs > max_total_bytes p - total_bytes_seen p")
  case True
  then have "sse_feed p cs \<in> {(last_error p, p), (SSE_OK, p), sse_set_error p SSE_ERR_OVERFLOW_TOTAL}"
    by (auto simp: sse_feed_def)
  then have "p' = p \<or> p' = book (total_bytes_seen p) SSE_ERR_OVERFLOW_TOTAL (max_total_bytes p) p"
    using f by (auto simp: sse_set_error_def book_def)
  then show ?thesis using s by (auto simp: total_inv_def)
next
  case False
  let ?q = "p\<lparr>total_bytes_seen := wrap64 (total_bytes_seen p + length cs)\<rparr>"
  obtain rc1 p1 where b: "sse_process_bytes ?q cs = (rc1, p1)" by fastforce
  have q: "safe ?q" using s(1) unfolding book_total by simp
  have t: "total_inv ?q"
    using False s(2) order.trans [OF wrap64_le] by (auto simp: total_inv_def)
  have p1: "safe p1" "total_inv p1"
    using sse_process_bytes_safe [OF b q] sse_process_bytes_book_fields [OF b] t
    by (simp_all add: total_inv_def)
  obtain e where "sse_set_error p1 rc1 = (rc1, book (total_bytes_seen p1) e (max_total_bytes p1) p1)"
    using sse_set_error_book by blast
  then have "p' = p1 \<or> p' = book (total_bytes_seen p1) e (max_total_bytes p1) p1"
    using f False b by (auto simp: sse_feed_def Let_def split: if_splits)
  with p1 show ?thesis by (auto simp: total_inv_def)
qed

lemma feed_chunks_safe:
  "feed_chunks sse_feed SSE_OK p cs = (rc, p') \<Longrightarrow> safe p \<Longrightarrow> total_inv p \<Longrightarrow> safe p' \<and> total_inv p'"
  by (induction cs arbitrary: p) (auto dest: sse_feed_safe split: prod.splits if_splits)

text \<open>
  C4: the parser stays within its budget. For any limits, allocator, callbacks and chunks,
  and also when a call fails, \<open>mem_used\<close> is exactly what the buffers hold and at most
  \<open>max_sse_buffer_bytes\<close>, no buffer is longer than its allocation, the line, the frame and
  the stream are within their limits, and the fixed arrays \<open>utf8_seq\<close> and \<open>bom_buf\<close> are not
  overrun.
\<close>

theorem sse_within_budget:
  "case feed_chunks sse_feed SSE_OK (sse_open ln frm buf tot ok ev fr u) chunks of (rc, p) \<Rightarrow>
     safe p \<and> total_inv p \<and> max_line_bytes p = ln \<and> max_frame_bytes p = frm \<and>
     max_sse_buffer_bytes p = buf \<and> max_total_bytes p = tot"
proof -
  obtain rc p where f: "feed_chunks sse_feed SSE_OK (sse_open ln frm buf tot ok ev fr u) chunks = (rc, p)"
    by fastforce
  have "safe (sse_open ln frm buf tot ok ev fr u)" "total_inv (sse_open ln frm buf tot ok ev fr u)"
    by (simp_all add: sse_open_def sse_init_def sse_set_callback_def sse_set_frame_callback_def
        sse_buf_empty_def safe_def mem_inv_def limits_inv_def sse_caps_def buf_inv_def total_inv_def)
  from feed_chunks_safe [OF f this] feed_chunks_effect [OF f stream_inv_open] f show ?thesis
    by (simp add: same_setup_def)
qed

section \<open>Errors\<close>

text \<open>
  An error is sticky. After a chunk sequence that ended in an error, every further chunk
  returns that same error, runs no callback and changes nothing.
\<close>

theorem sse_error_sticky:
  assumes "feed_chunks sse_feed SSE_OK (sse_open ln frm buf tot ok ev fr u) chunks = (rc, p)"
    and "rc \<noteq> SSE_OK"
  shows "feed_chunks sse_feed SSE_OK p (c # cs) = (rc, p)"
proof -
  have "last_error p = rc" using feed_chunks_effect [OF assms(1) stream_inv_open] by simp
  then show ?thesis using assms(2) by (simp add: sse_feed_def)
qed

lemma sse_error_sticky_witness:
  "\<exists>p. feed_chunks sse_feed SSE_OK
      (sse_open 4 64 512 1000 (\<lambda>_. True) (Some record_event) None []) [lit ''data: long''] =
        (SSE_ERR_OVERFLOW_LINE, p) \<and>
     feed_chunks sse_feed SSE_OK p [[C_LF], [C_LF]] = (SSE_ERR_OVERFLOW_LINE, p)"
proof -
  obtain rc p where f: "feed_chunks sse_feed SSE_OK
      (sse_open 4 64 512 1000 (\<lambda>_. True) (Some record_event) None []) [lit ''data: long''] = (rc, p)"
    by fastforce
  have "fst (feed_chunks sse_feed SSE_OK
      (sse_open 4 64 512 1000 (\<lambda>_. True) (Some record_event) None []) [lit ''data: long'']) =
      SSE_ERR_OVERFLOW_LINE" by code_simp
  then have rc: "rc = SSE_ERR_OVERFLOW_LINE" using f by simp
  then have "rc \<noteq> SSE_OK" by simp
  from sse_error_sticky [OF f this, of "[C_LF]" "[[C_LF]]"] f rc show ?thesis by blast
qed

section \<open>No spurious errors\<close>

text \<open>No limits on lines, frames and buffers, an allocator that serves every request.\<close>

definition roomy :: "'u sse_parser \<Rightarrow> bool" where
  "roomy p \<longleftrightarrow> max_line_bytes p = 0 \<and> max_frame_bytes p = 0 \<and> max_sse_buffer_bytes p = 0 \<and>
     sb_realloc (sp_line p) = (\<lambda>_. True) \<and> sb_realloc (sp_data p) = (\<lambda>_. True) \<and>
     sb_realloc (sp_event_type p) = (\<lambda>_. True) \<and> sb_realloc (sp_last_event_id p) = (\<lambda>_. True)"

text \<open>Callbacks that accept in the states \<open>P\<close>, which they keep.\<close>

definition accepting :: "('u \<Rightarrow> bool) \<Rightarrow> 'u sse_parser \<Rightarrow> bool" where
  "accepting P p \<longleftrightarrow> P (user_data p) \<and>
     (\<forall>f u. on_frame p = Some f \<longrightarrow> P u \<longrightarrow> fst (f u) \<and> P (snd (f u))) \<and>
     (\<forall>f u e. on_event p = Some f \<longrightarrow> P u \<longrightarrow> fst (f u e) \<and> P (snd (f u e)))"

definition well :: "('u \<Rightarrow> bool) \<Rightarrow> 'u sse_parser \<Rightarrow> bool" where
  "well P p \<longleftrightarrow> roomy p \<and> accepting P p"

lemma sse_buf_reserve_roomy:
  "sb_realloc buf = (\<lambda>_. True) \<Longrightarrow> sse_buf_reserve 0 m buf n = (rc, m', buf') \<Longrightarrow>
     rc = SSE_OK \<and> sb_realloc buf' = (\<lambda>_. True)"
  by (auto simp: sse_buf_reserve_def Let_def split: if_splits)

lemma sse_buf_append_roomy:
  "sb_realloc buf = (\<lambda>_. True) \<Longrightarrow> sse_buf_append 0 m buf bs = (rc, m', buf') \<Longrightarrow>
     rc = SSE_OK \<and> sb_realloc buf' = (\<lambda>_. True)"
  by (auto simp: sse_buf_append_def dest: sse_buf_reserve_roomy split: if_splits prod.splits)

lemma sse_buf_set_roomy:
  "sb_realloc buf = (\<lambda>_. True) \<Longrightarrow> sse_buf_set 0 m buf bs = (rc, m', buf') \<Longrightarrow>
     rc = SSE_OK \<and> sb_realloc buf' = (\<lambda>_. True)"
  by (auto simp: sse_buf_set_def Let_def dest: sse_buf_reserve_roomy [rotated] split: if_splits prod.splits)

lemma well_simps [simp]:
  "well P (p\<lparr>utf8_seq := s, utf8_expected := e\<rparr>) = well P p" "well P (utf8_reset p) = well P p"
  "well P (p\<lparr>utf8_seq := s, utf8_total := t, utf8_expected := e\<rparr>) = well P p"
  "well P (p\<lparr>pending_cr := c\<rparr>) = well P p" "well P (p\<lparr>bom_buf := bs\<rparr>) = well P p"
  "well P (p\<lparr>bom_checked := c\<rparr>) = well P p"
  "well P (p\<lparr>retry_ms := k, retry_set := c\<rparr>) = well P p" "well P (p\<lparr>data_seen := c\<rparr>) = well P p"
  "well P (p\<lparr>total_bytes_seen := n\<rparr>) = well P p"
  "well P (sse_reset_event p) = well P p" "well P (sse_clear_line p) = well P p"
  "well P (p\<lparr>sp_data := (sp_data p)\<lparr>sb_data := d\<rparr>\<rparr>) = well P p"
  by (simp_all add: well_def roomy_def accepting_def utf8_reset_def sse_reset_event_def sse_clear_line_def)

definition fine :: "('u \<Rightarrow> bool) \<Rightarrow> sse_err_t \<times> 'u sse_parser \<Rightarrow> bool" where
  "fine P r \<longleftrightarrow> fst r = SSE_OK \<and> well P (snd r)"

lemma sse_line_append_fine: "well P p \<Longrightarrow> fine P (sse_line_append p bs)"
  using sse_buf_append_roomy [of "sp_line p" "mem_used p" bs]
  by (auto simp: fine_def sse_line_append_def well_def roomy_def accepting_def split: prod.splits)

lemma sse_append_replacement_fine: "well P p \<Longrightarrow> fine P (sse_append_replacement p)"
  by (simp add: sse_append_replacement_def sse_line_append_fine)

lemma sse_utf8_start_byte_fine: "well P p \<Longrightarrow> fine P (sse_utf8_start_byte p b)"
  by (simp add: sse_utf8_start_byte_def sse_line_append_byte_eq sse_line_append_fine
      sse_append_replacement_fine) (simp add: fine_def)

lemma fineD: "fine P x \<Longrightarrow> x = (rc, p') \<Longrightarrow> rc = SSE_OK \<and> well P p'"
  by (simp add: fine_def)

lemma sse_utf8_feed_byte_fine: "well P p \<Longrightarrow> fine P (sse_utf8_feed_byte p b)"
proof -
  let ?q = "p\<lparr>utf8_seq := utf8_seq p @ [b], utf8_expected := utf8_expected p - 1\<rparr>"
  obtain r1 q1 where a: "sse_append_replacement p = (r1, q1)" by fastforce
  obtain r2 q2 where e: "sse_utf8_emit_sequence ?q = (r2, q2)" by fastforce
  assume w: "well P p"
  then have "fine P (sse_utf8_emit_sequence ?q)"
    by (simp add: sse_utf8_emit_sequence_def sse_line_append_fine sse_append_replacement_fine)
  from fineD [OF this e] fineD [OF sse_append_replacement_fine [OF w] a] w show ?thesis
    unfolding sse_utf8_feed_byte_def Let_def a e
    by (simp add: sse_utf8_start_byte_fine) (simp add: fine_def)
qed

lemma sse_dispatch_fine:
  assumes w: "well P p" shows "fine P (sse_dispatch p)"
proof -
  have f: "fst (sse_call_frame q) \<and> well P (snd (sse_call_frame q))" if "well P q" for q :: "'a sse_parser"
  proof (cases "on_frame q")
    case None
    with that show ?thesis by (simp add: sse_call_frame_def)
  next
    case (Some g)
    obtain r u where "g (user_data q) = (r, u)" by fastforce
    moreover have "fst (g (user_data q)) \<and> P (snd (g (user_data q)))" using that Some by (auto simp: well_def accepting_def)
    ultimately show ?thesis using that Some by (simp add: sse_call_frame_def well_def accepting_def roomy_def)
  qed
  have e: "fst (sse_call_event q v) \<and> well P (snd (sse_call_event q v))" if "well P q" for q :: "'a sse_parser" and v
  proof (cases "on_event q")
    case None
    with that show ?thesis by (simp add: sse_call_event_def)
  next
    case (Some g)
    obtain r u where "g (user_data q) v = (r, u)" by fastforce
    moreover have "fst (g (user_data q) v) \<and> P (snd (g (user_data q) v))" using that Some by (auto simp: well_def accepting_def)
    ultimately show ?thesis using that Some by (simp add: sse_call_event_def well_def accepting_def roomy_def)
  qed
  obtain r1 q1 where a: "sse_call_frame p = (r1, q1)" by fastforce
  let ?q = "q1\<lparr>sp_data := (sp_data q1)\<lparr>sb_data := drop_trailing_lf (sb_data (sp_data q1))\<rparr>\<rparr>"
  obtain r2 q2 where b: "sse_call_event ?q (sse_event_of ?q) = (r2, q2)" by fastforce
  have "r1" "well P q1" using f [OF w] a by simp_all
  moreover then have "r2" "well P q2" using e [of ?q "sse_event_of ?q"] b by simp_all
  ultimately show ?thesis by (simp add: sse_dispatch_def a b Let_def fine_def)
qed

lemma sse_handle_fine:
  assumes w: "well P p"
  shows "fine P (sse_handle_data p v)" "fine P (sse_handle_event p v)" "fine P (sse_handle_id p v)"
    "fine P (sse_handle_retry p v)"
proof -
  have r: "max_line_bytes p = 0" "max_frame_bytes p = 0" "max_sse_buffer_bytes p = 0"
    "sb_realloc (sp_data p) = (\<lambda>_. True)" "sb_realloc (sp_event_type p) = (\<lambda>_. True)"
    "sb_realloc (sp_last_event_id p) = (\<lambda>_. True)"
    using w by (simp_all add: well_def roomy_def)
  have upd: "well P (p\<lparr>mem_used := m, sp_data := b\<rparr>)" "well P (p\<lparr>mem_used := m, sp_event_type := b\<rparr>)"
    "well P (p\<lparr>mem_used := m, sp_last_event_id := b\<rparr>)" if "sb_realloc b = (\<lambda>_. True)" for m b
    using that w by (simp_all add: well_def roomy_def accepting_def)
  obtain r1 m1 b1 where a: "sse_buf_append 0 (mem_used p) (sp_data p) v = (r1, m1, b1)" by (metis prod_cases3)
  obtain r2 m2 b2 where b: "sse_buf_append 0 m1 b1 [C_LF] = (r2, m2, b2)" by (metis prod_cases3)
  have 1: "r1 = SSE_OK" "sb_realloc b1 = (\<lambda>_. True)" using sse_buf_append_roomy [OF r(4) a] by simp_all
  have 2: "r2 = SSE_OK" "sb_realloc b2 = (\<lambda>_. True)" using sse_buf_append_roomy [OF 1(2) b] by simp_all
  show "fine P (sse_handle_data p v)"
    using 1 2 r upd [OF 2(2)] a b by (simp add: sse_handle_data_def fine_def sse_buf_append_byte_def)
  obtain r3 m3 b3 where c: "sse_buf_set 0 (mem_used p) (sp_event_type p) v = (r3, m3, b3)" by (metis prod_cases3)
  show "fine P (sse_handle_event p v)"
    using sse_buf_set_roomy [OF r(5) c] upd(2) r c by (simp add: sse_handle_event_def fine_def)
  obtain r4 m4 b4 where d: "sse_buf_set 0 (mem_used p) (sp_last_event_id p) v = (r4, m4, b4)" by (metis prod_cases3)
  show "fine P (sse_handle_id p v)"
    using sse_buf_set_roomy [OF r(6) d] upd(3) r d w by (simp add: sse_handle_id_def fine_def)
  show "fine P (sse_handle_retry p v)"
    using w by (simp add: sse_handle_retry_def fine_def split: option.splits)
qed

lemma sse_process_line_fine: "well P p \<Longrightarrow> fine P (sse_process_line p)"
  by (cases "sse_split_field (sb_data (sp_line p))")
    (auto simp: sse_process_line_def Let_def sse_dispatch_fine sse_handle_fine, auto simp: fine_def)

lemma sse_end_line_fine: "well P p \<Longrightarrow> fine P (sse_end_line p)"
proof -
  obtain r1 q1 where a: "sse_utf8_flush_incomplete p = (r1, q1)" by fastforce
  obtain r2 q2 where b: "sse_process_line q1 = (r2, q2)" by fastforce
  assume "well P p"
  then have "fine P (sse_utf8_flush_incomplete p)"
    using sse_append_replacement_fine [of P "utf8_reset p"] by (simp add: sse_utf8_flush_incomplete_def fine_def)
  from fineD [OF this a] have "r1 = SSE_OK" "well P q1" by simp_all
  then show ?thesis
    using fineD [OF sse_process_line_fine b] by (simp add: sse_end_line_def a b fine_def)
qed

lemma sse_process_raw_byte_fine: "well P p \<Longrightarrow> fine P (sse_process_raw_byte p b)"
proof -
  obtain r1 q1 where a: "sse_end_line (p\<lparr>pending_cr := False\<rparr>) = (r1, q1)" by fastforce
  assume w: "well P p"
  then have "r1 = SSE_OK \<and> well P q1" using fineD [OF sse_end_line_fine a] by simp
  then show ?thesis
    using w sse_utf8_feed_byte_fine [of P "p\<lparr>pending_cr := False\<rparr>" b]
    by (simp add: sse_process_raw_byte_def Let_def a fine_def)
qed

lemma sse_process_raw_bytes_fine: "well P p \<Longrightarrow> fine P (sse_process_raw_bytes p bs)"
proof (induction bs arbitrary: p)
  case (Cons b bs)
  obtain r1 q1 where a: "sse_process_raw_byte p b = (r1, q1)" by fastforce
  from Cons.IH fineD [OF sse_process_raw_byte_fine [OF Cons.prems] a] a show ?case by simp
qed (simp add: fine_def)

lemma sse_process_byte_fine: "well P p \<Longrightarrow> fine P (sse_process_byte p b)"
proof -
  obtain w where w: "bom_buf p @ [b] = w" by simp
  obtain r q where e: "sse_process_raw_bytes (p\<lparr>bom_buf := w, bom_checked := True\<rparr>) (take 3 w) = (r, q)"
    by fastforce
  assume p: "well P p"
  then have "r = SSE_OK \<and> well P q" using fineD [OF sse_process_raw_bytes_fine e] by simp
  then show ?thesis
    unfolding sse_process_byte_def Let_def w
    using p by (simp add: e sse_process_raw_byte_fine) (simp add: fine_def)
qed

lemma sse_process_bytes_fine: "well P p \<Longrightarrow> fine P (sse_process_bytes p bs)"
proof (induction bs arbitrary: p)
  case (Cons b bs)
  obtain r1 q1 where a: "sse_process_byte p b = (r1, q1)" by fastforce
  from Cons.IH fineD [OF sse_process_byte_fine [OF Cons.prems] a] a show ?case by simp
qed (simp add: fine_def)

lemma sse_open_accepts:
  assumes "tot = 0 \<or> length (concat chunks) \<le> tot" and "tot \<le> SIZE_MAX"
    and "P u" "\<forall>f u. fr = Some f \<longrightarrow> P u \<longrightarrow> fst (f u) \<and> P (snd (f u))"
    and "\<forall>f u e. ev = Some f \<longrightarrow> P u \<longrightarrow> fst (f u e) \<and> P (snd (f u e))"
  shows "fst (feed_chunks sse_feed SSE_OK (sse_open 0 0 0 tot (\<lambda>_. True) ev fr u) chunks) = SSE_OK"
proof -
  let ?p = "sse_open 0 0 0 tot (\<lambda>_. True) ev fr u"
  have r: "sse_ready ?p (length (concat chunks))" using assms(1,2) by (auto simp: sse_ready_def)
  have w: "well P ?p"
    using assms(3,4,5) by (auto simp: well_def roomy_def accepting_def sse_open_def sse_init_def
        sse_set_callback_def sse_set_frame_callback_def sse_buf_empty_def)
  have "fst (sse_feed ?p (concat chunks)) = SSE_OK"
  proof (cases "concat chunks = []")
    case True
    show ?thesis using sse_feed_Nil [of ?p] r unfolding True by simp
  next
    case False
    let ?q = "?p\<lparr>total_bytes_seen := wrap64 (total_bytes_seen ?p + length (concat chunks))\<rparr>"
    obtain rc1 p1 where b: "sse_process_bytes ?q (concat chunks) = (rc1, p1)" by fastforce
    have "well P ?q" using w by simp
    from fineD [OF sse_process_bytes_fine [OF this] b] have "rc1 = SSE_OK" by simp
    then show ?thesis using sse_feed_ready [OF r False] b by simp
  qed
  then show ?thesis using sse.feed_chunks_concat(1) [OF r] by simp
qed

text \<open>
  C5: the parser accepts every byte string. With no limits, or a total limit that the stream
  respects, an allocator that does not fail and callbacks that accept, no chunk sequence
  whatsoever is an error: ill-formed text is replaced and unknown fields are ignored.
\<close>

theorem sse_accepts_everything:
  assumes "tot = 0 \<or> length (concat chunks) \<le> tot" and "tot \<le> SIZE_MAX"
    and "\<forall>f u. fr = Some f \<longrightarrow> fst (f u)" and "\<forall>f u e. ev = Some f \<longrightarrow> fst (f u e)"
  shows "fst (feed_chunks sse_feed SSE_OK (sse_open 0 0 0 tot (\<lambda>_. True) ev fr u) chunks) = SSE_OK"
  by (rule sse_open_accepts [where P = "\<lambda>_. True", OF assms(1,2)]) (use assms(3,4) in auto)

lemma sse_accepts_everything_witness:
  "fst (feed_chunks sse_feed SSE_OK
     (sse_open 0 0 0 20 (\<lambda>_. True) (Some record_event) None []) [[0xFF, 0xC3], [], [C_CR, 0x80, C_LF]]) = SSE_OK"
  by (rule sse_accepts_everything) (simp_all add: record_event_def SIZE_MAX_def)

end
