(* ===== verification/SseWrite.thy ===== *)
theory SseWrite
  imports SseSafe
begin

text \<open>
  The event-stream writer of \<open>src/src/sse.c\<close> and its agreement with the parser: what it writes
  fits the caller's buffer, and any parser without limits delivers exactly the events that
  were written, however the bytes are cut.

  A pointer argument is an option: \<open>None\<close> is a NULL pointer where the code rejects one (for
  the inputs, a NULL pointer with a nonzero length). The result is the code, the value of
  \<open>*out_len\<close> and the caller's buffer after the call.
\<close>

section \<open>The writer\<close>

record sse_write_limits =
  wl_max_line :: nat
  wl_max_frame :: nat

definition sse_size_add :: "nat \<Rightarrow> nat \<Rightarrow> nat option" where
  "sse_size_add a b = (if SIZE_MAX - a < b then None else Some (a + b))"

text \<open>Accounting for one data line, at a LF or at the end of the data.\<close>

definition sse_write_count :: "nat \<Rightarrow> nat \<Rightarrow> nat \<Rightarrow> nat \<Rightarrow> sse_err_t + nat \<times> nat" where
  "sse_write_count max_line lines sm line_len =
     (if max_line \<noteq> 0 \<and> (max_line < 6 \<or> line_len > max_line - 6) then Inl SSE_ERR_OVERFLOW_LINE
      else case sse_size_add sm line_len of
        None \<Rightarrow> Inl SSE_ERR_OVERFLOW_BUFFER
      | Some sm' \<Rightarrow> if lines = SIZE_MAX then Inl SSE_ERR_OVERFLOW_BUFFER else Inr (lines + 1, sm'))"

fun sse_write_scan :: "nat \<Rightarrow> nat \<Rightarrow> nat \<Rightarrow> nat \<Rightarrow> byte list \<Rightarrow> sse_err_t + nat \<times> nat" where
  "sse_write_scan max_line lines sm len [] = sse_write_count max_line lines sm len"
| "sse_write_scan max_line lines sm len (c # cs) =
     (if c = C_CR then Inl SSE_ERR_BAD_INPUT
      else if c = C_LF then
        (case sse_write_count max_line lines sm len of
           Inl e \<Rightarrow> Inl e
         | Inr (lines', sm') \<Rightarrow> sse_write_scan max_line lines' sm' 0 cs)
      else sse_write_scan max_line lines sm (len + 1) cs)"

definition sse_write_total :: "nat \<Rightarrow> nat \<Rightarrow> nat \<Rightarrow> nat option" where
  "sse_write_total event_len lines sm =
     (case (if event_len > 0 then
              (case sse_size_add 8 event_len of None \<Rightarrow> None | Some e \<Rightarrow> sse_size_add 0 e)
            else Some 0) of
        None \<Rightarrow> None
      | Some t0 \<Rightarrow>
          if lines \<noteq> 0 \<and> lines > SIZE_MAX div 7 then None
          else (case sse_size_add t0 (lines * 7) of
                  None \<Rightarrow> None
                | Some t1 \<Rightarrow> (case sse_size_add t1 sm of
                                None \<Rightarrow> None
                              | Some t2 \<Rightarrow> sse_size_add t2 1)))"

text \<open>The second loop: one data line per LF-separated piece; \<open>cur\<close> is the piece being read.\<close>

fun sse_write_lines :: "byte list \<Rightarrow> byte list \<Rightarrow> byte list" where
  "sse_write_lines cur [] = lit ''data: '' @ cur @ [C_LF]"
| "sse_write_lines cur (c # cs) =
     (if c = C_LF then lit ''data: '' @ cur @ [C_LF] @ sse_write_lines [] cs
      else sse_write_lines (cur @ [c]) cs)"

definition sse_write_body :: "byte list \<Rightarrow> byte list \<Rightarrow> byte list" where
  "sse_write_body ev data =
     (if length ev > 0 then lit ''event: '' @ ev @ [C_LF] else []) @ sse_write_lines [] data @ [C_LF]"

text \<open>Writing from the start of a buffer leaves what lies behind untouched.\<close>

definition overwrite :: "byte list \<Rightarrow> byte list \<Rightarrow> byte list" where
  "overwrite out bs = bs @ drop (length bs) out"

definition sse_write_event ::
  "sse_write_limits option \<Rightarrow> byte list option \<Rightarrow> byte list option \<Rightarrow> byte list option
     \<Rightarrow> sse_err_t \<times> nat \<times> byte list" where
  "sse_write_event limits event_type data out_buf =
     (case out_buf of None \<Rightarrow> (SSE_ERR_BAD_INPUT, 0, []) | Some out \<Rightarrow>
      case event_type of None \<Rightarrow> (SSE_ERR_BAD_INPUT, 0, out) | Some ev \<Rightarrow>
      case data of None \<Rightarrow> (SSE_ERR_BAD_INPUT, 0, out) | Some d \<Rightarrow>
        let max_line = (case limits of Some l \<Rightarrow> wl_max_line l | None \<Rightarrow> 0);
            max_frame = (case limits of Some l \<Rightarrow> wl_max_frame l | None \<Rightarrow> 0)
        in if max_frame \<noteq> 0 \<and> (length d = SIZE_MAX \<or> length d + 1 > max_frame)
           then (SSE_ERR_OVERFLOW_FRAME, 0, out)
           else if length ev > 0 \<and> (memchr ev C_LF \<noteq> None \<or> memchr ev C_CR \<noteq> None)
           then (SSE_ERR_BAD_INPUT, 0, out)
           else if length ev > 0 \<and> max_line \<noteq> 0 \<and> (max_line < 7 \<or> length ev > max_line - 7)
           then (SSE_ERR_OVERFLOW_LINE, 0, out)
           else (case sse_write_scan max_line 0 0 0 d of
             Inl e \<Rightarrow> (e, 0, out)
           | Inr (lines, sm) \<Rightarrow>
               (case sse_write_total (length ev) lines sm of
                  None \<Rightarrow> (SSE_ERR_OVERFLOW_BUFFER, 0, out)
                | Some total_len \<Rightarrow>
                    if total_len > length out then (SSE_ERR_OVERFLOW_BUFFER, 0, out)
                    else (SSE_OK, total_len, overwrite out (sse_write_body ev d)))))"

definition sse_write_keepalive ::
  "sse_write_limits option \<Rightarrow> byte list option \<Rightarrow> sse_err_t \<times> nat \<times> byte list" where
  "sse_write_keepalive limits out_buf =
     (case out_buf of None \<Rightarrow> (SSE_ERR_BAD_INPUT, 0, []) | Some out \<Rightarrow>
        let max_line = (case limits of Some l \<Rightarrow> wl_max_line l | None \<Rightarrow> 0);
            line_len = length (lit '': ping''); total_len = line_len + 2
        in if max_line \<noteq> 0 \<and> line_len > max_line then (SSE_ERR_OVERFLOW_LINE, 0, out)
           else if total_len > length out then (SSE_ERR_OVERFLOW_BUFFER, 0, out)
           else (SSE_OK, total_len, overwrite out (lit '': ping'' @ [C_LF, C_LF])))"

section \<open>Lengths\<close>

text \<open>The lines of the data: what lies between its LFs, the last piece included.\<close>

definition data_lines :: "byte list \<Rightarrow> byte list list" where
  "data_lines d = (case split_lf d of (ls, r) \<Rightarrow> ls @ [r])"

lemma data_lines_Nil [simp]: "data_lines [] = [[]]"
  by (simp add: data_lines_def)

lemma data_lines_LF [simp]: "data_lines (C_LF # d) = [] # data_lines d"
  by (simp add: data_lines_def split: prod.splits)

lemma data_lines_Cons:
  "c \<noteq> C_LF \<Longrightarrow> data_lines (c # d) = (c # hd (data_lines d)) # tl (data_lines d)"
  by (auto simp: data_lines_def split: prod.splits list.splits)

lemma data_lines_nonempty [simp]: "data_lines d \<noteq> []"
  by (simp add: data_lines_def split: prod.splits)

definition data_text :: "byte list list \<Rightarrow> byte list" where
  "data_text ls = concat (map (\<lambda>l. lit ''data: '' @ l @ [C_LF]) ls)"

lemma data_text_Nil [simp]: "data_text [] = []"
  by (simp add: data_text_def)

lemma data_text_Cons [simp]: "data_text (l # ls) = lit ''data: '' @ l @ [C_LF] @ data_text ls"
  by (simp add: data_text_def)

lemma sse_write_lines_text:
  "sse_write_lines cur d = data_text ((cur @ hd (data_lines d)) # tl (data_lines d))"
proof (induction cur d rule: sse_write_lines.induct)
  case (2 cur c cs)
  then show ?case
    by (cases "c = C_LF"; cases "data_lines cs") (simp_all add: data_lines_Cons)
qed simp

lemma sse_write_body_text:
  "sse_write_body ev d =
     (if ev = [] then [] else lit ''event: '' @ ev @ [C_LF]) @ data_text (data_lines d) @ [C_LF]"
  by (simp add: sse_write_body_def sse_write_lines_text)

definition total_length :: "byte list list \<Rightarrow> nat" where
  "total_length ls = sum_list (map length ls)"

lemma sse_write_scan_OK:
  "sse_write_scan ml lines sm len d = Inr (lines', sm') \<Longrightarrow>
     C_CR \<notin> set d \<and> lines' = lines + length (data_lines d) \<and>
     sm' = sm + len + total_length (data_lines d)"
proof (induction ml lines sm len d arbitrary: lines' sm' rule: sse_write_scan.induct)
  case (1 ml lines sm len)
  then show ?case
    by (auto simp: sse_write_count_def sse_size_add_def total_length_def split: if_splits option.splits)
next
  case (2 ml lines sm len c cs)
  show ?case
  proof (cases "c = C_LF")
    case True
    with 2(3) obtain l1 s1 where c: "sse_write_count ml lines sm len = Inr (l1, s1)"
      "sse_write_scan ml l1 s1 0 cs = Inr (lines', sm')"
      by (auto split: sum.splits prod.splits)
    then have "l1 = lines + 1" "s1 = sm + len"
      by (auto simp: sse_write_count_def sse_size_add_def split: if_splits option.splits)
    with 2(1) [OF _ True c(1) refl c(2)] True show ?thesis by (simp add: total_length_def)
  next
    case False
    with 2(3) have cr: "c \<noteq> C_CR" "sse_write_scan ml lines sm (len + 1) cs = Inr (lines', sm')"
      by (auto split: if_splits)
    with 2(2) [OF cr(1) False cr(2)] False data_lines_nonempty [of cs] show ?thesis
      by (cases "data_lines cs") (simp_all add: data_lines_Cons total_length_def)
  qed
qed

lemma data_text_length: "length (data_text ls) = 7 * length ls + total_length ls"
  by (induction ls) (simp_all add: total_length_def)

lemma sse_write_total_OK:
  "sse_write_total n lines sm = Some t \<Longrightarrow> t = (if n > 0 then 8 + n else 0) + lines * 7 + sm + 1"
  by (auto simp: sse_write_total_def sse_size_add_def split: if_splits option.splits)

lemma sse_write_eventD:
  assumes "sse_write_event lim (Some ev) (Some d) (Some out) = (SSE_OK, n, out')"
  shows "n = length (sse_write_body ev d)" "n \<le> length out" "out' = overwrite out (sse_write_body ev d)"
    "C_CR \<notin> set d" "C_LF \<notin> set ev" "C_CR \<notin> set ev"
proof -
  obtain ml where s: "(case sse_write_scan ml 0 0 0 d of
             Inl e \<Rightarrow> (e, 0, out)
           | Inr (lines, sm) \<Rightarrow>
               (case sse_write_total (length ev) lines sm of
                  None \<Rightarrow> (SSE_ERR_OVERFLOW_BUFFER, 0, out)
                | Some total_len \<Rightarrow>
                    if total_len > length out then (SSE_ERR_OVERFLOW_BUFFER, 0, out)
                    else (SSE_OK, total_len, overwrite out (sse_write_body ev d)))) = (SSE_OK, n, out')"
    and ev: "ev = [] \<or> memchr ev C_LF = None \<and> memchr ev C_CR = None"
    using assms unfolding sse_write_event_def Let_def
    by (auto simp del: sse_write_scan.simps split: if_splits)
  show "C_LF \<notin> set ev" "C_CR \<notin> set ev" using ev by (auto simp: memchr_None_iff)
  have no_ok: "sse_write_scan ml a b c d \<noteq> Inl SSE_OK" for a b c
    by (induction ml a b c d rule: sse_write_scan.induct)
      (auto simp: sse_write_count_def split: sum.splits option.splits)
  obtain lines sm where c: "sse_write_scan ml 0 0 0 d = Inr (lines, sm)"
    using s no_ok by (auto split: sum.splits)
  then obtain t where t: "sse_write_total (length ev) lines sm = Some t"
    and "n = t" "t \<le> length out" "out' = overwrite out (sse_write_body ev d)"
    using s by (auto split: option.splits if_splits)
  then show "n \<le> length out" "out' = overwrite out (sse_write_body ev d)" by simp_all
  from sse_write_scan_OK [OF c] show "C_CR \<notin> set d" by simp
  show "n = length (sse_write_body ev d)"
    using sse_write_scan_OK [OF c] sse_write_total_OK [OF t] \<open>n = t\<close>
    by (auto simp: sse_write_body_text data_text_length)
qed

section \<open>Round trip\<close>

lemma norm_eol_no_cr: "C_CR \<notin> set bs \<Longrightarrow> norm_eol bs = bs"
  by (induction bs rule: norm_eol.induct) auto

lemma split_lf_line: "C_LF \<notin> set l \<Longrightarrow> split_lf (l @ C_LF # bs) = (l # fst (split_lf bs), snd (split_lf bs))"
  by (induction l) (auto split: prod.splits)

definition join_lines :: "byte list list \<Rightarrow> byte list" where
  "join_lines ls = concat (map (\<lambda>l. l @ [C_LF]) ls)"

lemma join_lines_simps [simp]:
  "join_lines [] = []" "join_lines (l # ls) = l @ [C_LF] @ join_lines ls"
  "join_lines (ls @ ms) = join_lines ls @ join_lines ms"
  by (simp_all add: join_lines_def)

lemma split_lf_join: "\<forall>l\<in>set ls. C_LF \<notin> set l \<Longrightarrow> split_lf (join_lines ls) = (ls, [])"
  by (induction ls) (simp_all add: split_lf_line)

lemma complete_lines_join:
  assumes "\<forall>l\<in>set ls. C_LF \<notin> set l \<and> C_CR \<notin> set l"
  shows "complete_lines (join_lines ls) = ls"
proof -
  have "C_CR \<notin> set (join_lines ls)" using assms by (auto simp: join_lines_def)
  then show ?thesis using assms by (simp add: complete_lines_def norm_eol_no_cr split_lf_join)
qed

lemma join_data_lines: "join_lines (data_lines d) = d @ [C_LF]"
proof (induction d)
  case (Cons c d)
  then show ?case by (cases "c = C_LF"; cases "data_lines d") (simp_all add: data_lines_Cons)
qed simp

lemma data_lines_no_lf: "l \<in> set (data_lines d) \<Longrightarrow> C_LF \<notin> set l \<and> set l \<subseteq> set d"
proof (induction d arbitrary: l)
  case (Cons c d)
  show ?case
  proof (cases "c = C_LF")
    case True
    with Cons show ?thesis by auto
  next
    case False
    with Cons.prems have "l = c # hd (data_lines d) \<or> l \<in> set (tl (data_lines d))"
      by (simp add: data_lines_Cons)
    moreover have "hd (data_lines d) \<in> set (data_lines d)" by simp
    ultimately show ?thesis
      using Cons.IH False list.set_sel(2) [OF data_lines_nonempty [of d]] by fastforce
  qed
qed simp

lemma data_lines_valid:
  assumes "utf8_valid d" shows "list_all utf8_valid (data_lines d)"
proof -
  have "list_all utf8_valid ls" if "utf8_valid (join_lines ls)" for ls
    using that
  proof (induction ls)
    case (Cons l ls)
    with utf8_valid_split [of l C_LF "join_lines ls"] show ?case by simp
  qed simp
  moreover have "utf8_valid (d @ [C_LF])"
    using assms utf8_valid_append utf8_valid_ascii [of C_LF] by simp
  ultimately show ?thesis using join_data_lines [of d] by metis
qed

text \<open>The lines one written event consists of.\<close>

definition body_lines :: "byte list \<Rightarrow> byte list \<Rightarrow> byte list list" where
  "body_lines ev d = (if ev = [] then [] else [lit ''event: '' @ ev]) @
     map (\<lambda>l. lit ''data: '' @ l) (data_lines d) @ [[]]"

lemma sse_write_body_lines: "sse_write_body ev d = join_lines (body_lines ev d)"
proof -
  have "data_text ls = join_lines (map (\<lambda>l. lit ''data: '' @ l) ls)" for ls
    by (induction ls) simp_all
  then show ?thesis by (simp add: sse_write_body_text body_lines_def)
qed

lemma body_lines_valid:
  assumes "utf8_valid ev" "utf8_valid d" shows "map utf8_lossy (body_lines ev d) = body_lines ev d"
proof -
  have "utf8_valid (lit ''event: '')" "utf8_valid (lit ''data: '')" by code_simp+
  then have "list_all utf8_valid (body_lines ev d)"
    using assms(1) data_lines_valid [OF assms(2)] utf8_valid_append
    by (fastforce simp: body_lines_def list_all_iff simp del: lit_Cons)
  then show ?thesis by (simp add: list_all_iff utf8_lossy_id map_idI)
qed

lemma spec_line_data: "spec_line s (lit ''data: '' @ l) = (s\<lparr>v_data := v_data s @ l @ [C_LF], v_seen := True\<rparr>, [])"
  by (simp add: spec_line_def field_name_def field_value_def spec_field_def)

lemma spec_line_event: "spec_line s (lit ''event: '' @ l) = (s\<lparr>v_type := l\<rparr>, [])"
  by (simp add: spec_line_def field_name_def field_value_def spec_field_def)

lemma spec_data_lines:
  "ls \<noteq> [] \<Longrightarrow> foldl spec_line_acc (s, cs) (map (\<lambda>l. lit ''data: '' @ l) ls) =
     (s\<lparr>v_data := v_data s @ join_lines ls, v_seen := True\<rparr>, cs)"
proof (induction ls arbitrary: s)
  case (Cons l ls)
  then show ?case
    by (cases "ls = []") (simp_all add: spec_line_acc_def spec_line_data del: lit_Cons)
qed simp

definition event_of_msg :: "byte list \<Rightarrow> byte list \<Rightarrow> sse_event" where
  "event_of_msg ev d =
     \<lparr>ev_data = d, ev_type = (if ev = [] then lit ''message'' else ev), ev_last_id = []\<rparr>"

lemma spec_body_lines:
  "foldl spec_line_acc (sse_vars0, cs) (body_lines ev d) =
     (sse_vars0, cs @ [Frame_Call, Event_Call (event_of_msg ev d)])"
proof -
  let ?s = "sse_vars0\<lparr>v_type := ev\<rparr>"
  have 1: "foldl spec_line_acc (sse_vars0, cs) (if ev = [] then [] else [lit ''event: '' @ ev]) = (?s, cs)"
    by (simp add: spec_line_acc_def spec_line_event sse_vars0_def del: lit_Cons)
  have 2: "foldl spec_line_acc (?s, cs) (map (\<lambda>l. lit ''data: '' @ l) (data_lines d)) =
      (?s\<lparr>v_data := d @ [C_LF], v_seen := True\<rparr>, cs)"
    using spec_data_lines [OF data_lines_nonempty, of ?s cs d] by (simp add: join_data_lines sse_vars0_def)
  show ?thesis
    unfolding body_lines_def foldl_append 1 2
    by (simp add: spec_line_acc_def spec_line_def spec_dispatch_def spec_event_def event_of_msg_def
        sse_vars0_def)
qed

lemma spec_calls_written:
  assumes "\<forall>(ev, d) \<in> set msgs. utf8_valid ev \<and> utf8_valid d \<and> C_CR \<notin> set d \<and>
      C_LF \<notin> set ev \<and> C_CR \<notin> set ev"
  shows "spec_events (concat (map (\<lambda>(ev, d). sse_write_body ev d) msgs)) =
    map (\<lambda>(ev, d). event_of_msg ev d) msgs"
proof -
  let ?ls = "concat (map (\<lambda>(ev, d). body_lines ev d) msgs)"
  have join: "concat (map (\<lambda>(ev, d). sse_write_body ev d) msgs) = join_lines ?ls"
    by (induction msgs) (auto simp: sse_write_body_lines)
  have bl: "C_LF \<notin> set l \<and> C_CR \<notin> set l" if "l \<in> set (body_lines ev d)" "C_CR \<notin> set d"
    "C_LF \<notin> set ev" "C_CR \<notin> set ev" for l ev d
    using that data_lines_no_lf [of _ d] by (auto simp: body_lines_def subset_iff split: if_splits)
  have sep: "\<forall>l\<in>set ?ls. C_LF \<notin> set l \<and> C_CR \<notin> set l"
  proof
    fix l assume "l \<in> set ?ls"
    then obtain ev d where "(ev, d) \<in> set msgs" "l \<in> set (body_lines ev d)" by auto
    with assms bl show "C_LF \<notin> set l \<and> C_CR \<notin> set l" by blast
  qed
  have lossy: "map utf8_lossy ?ls = ?ls"
    using assms by (induction msgs) (auto simp: body_lines_valid)
  have run: "foldl spec_line_acc (sse_vars0, cs) ?ls =
      (sse_vars0, cs @ concat (map (\<lambda>(ev, d). [Frame_Call, Event_Call (event_of_msg ev d)]) msgs))" for cs
    by (induction msgs arbitrary: cs) (auto simp: spec_body_lines)
  have ev: "events_of (concat (map (\<lambda>(ev, d). [Frame_Call, Event_Call (event_of_msg ev d)]) msgs)) =
      map (\<lambda>(ev, d). event_of_msg ev d) msgs"
    by (induction msgs) auto
  have first: "strip_bom (join_lines ?ls) = join_lines ?ls"
  proof (cases msgs)
    case (Cons m ms)
    obtain ev0 d0 where m: "m = (ev0, d0)" by (cases m)
    have "\<exists>t. join_lines (body_lines ev0 d0) = 0x64 # t \<or> join_lines (body_lines ev0 d0) = 0x65 # t"
      by (cases "data_lines d0") (simp_all add: body_lines_def)
    then have "\<exists>t. join_lines ?ls = 0x64 # t \<or> join_lines ?ls = 0x65 # t"
      using Cons m by (auto simp del: join_lines_simps(2))
    then show ?thesis by (auto simp: strip_bom_def)
  qed (simp add: strip_bom_def)
  show ?thesis
    unfolding join spec_events_def spec_calls_def spec_run_def first complete_lines_join [OF sep] lossy
      spec_lines_def run by (simp add: ev)
qed

text \<open>The bytes a call put into the caller's buffer.\<close>

definition written :: "sse_err_t \<times> nat \<times> byte list \<Rightarrow> byte list" where
  "written r = (case r of (_, n, out) \<Rightarrow> take n out)"

definition wire :: "sse_write_limits option \<Rightarrow> byte list \<times> byte list \<times> byte list \<Rightarrow> byte list" where
  "wire lim m = (case m of (ev, d, out) \<Rightarrow> written (sse_write_event lim (Some ev) (Some d) (Some out)))"

definition writes_ok :: "sse_write_limits option \<Rightarrow> byte list \<times> byte list \<times> byte list \<Rightarrow> bool" where
  "writes_ok lim m = (case m of (ev, d, out) \<Rightarrow> utf8_valid ev \<and> utf8_valid d \<and>
     fst (sse_write_event lim (Some ev) (Some d) (Some out)) = SSE_OK)"

lemma written_body:
  assumes "fst (sse_write_event lim (Some ev) (Some d) (Some out)) = SSE_OK"
  shows "written (sse_write_event lim (Some ev) (Some d) (Some out)) = sse_write_body ev d"
proof -
  obtain n out' where w: "sse_write_event lim (Some ev) (Some d) (Some out) = (SSE_OK, n, out')"
    using assms by (metis fst_conv prod_cases3)
  show ?thesis using sse_write_eventD [OF w] w by (simp add: written_def overwrite_def)
qed

text \<open>
  C6: writing then parsing is the identity on events. Events with valid text that the writer
  accepts, written one after the other and fed to a parser without limits in any chunks,
  are delivered unchanged and in order, with the type \<open>message\<close> where none was given.
\<close>

theorem sse_write_roundtrip:
  assumes "list_all (writes_ok lim) msgs"
    and "concat chunks = concat (map (wire lim) msgs)"
  shows "user_data (snd (feed_chunks sse_feed SSE_OK
           (sse_open 0 0 0 0 (\<lambda>_. True) (Some record_event) None []) chunks)) =
         map (\<lambda>(ev, d, out). event_of_msg ev d) msgs"
proof -
  let ?p = "sse_open 0 0 0 0 (\<lambda>_. True) (Some record_event) None []"
  let ?ms = "map (\<lambda>(ev, d, out). (ev, d)) msgs"
  have ok: "utf8_valid ev \<and> utf8_valid d \<and> C_CR \<notin> set d \<and> C_LF \<notin> set ev \<and> C_CR \<notin> set ev"
    if m: "(ev, d, out) \<in> set msgs" for ev d out
  proof -
    from m assms(1) have w: "writes_ok lim (ev, d, out)" by (auto simp: list_all_iff)
    then obtain n out' where "sse_write_event lim (Some ev) (Some d) (Some out) = (SSE_OK, n, out')"
      by (auto simp: writes_ok_def) (metis fst_conv prod_cases3)
    from sse_write_eventD [OF this] w show ?thesis by (simp add: writes_ok_def)
  qed
  have "concat (map (wire lim) msgs) = concat (map (\<lambda>(ev, d). sse_write_body ev d) ?ms)"
    using assms(1) by (induction msgs) (auto simp: wire_def writes_ok_def written_body)
  then have ev: "spec_events (concat chunks) = map (\<lambda>(ev, d, out). event_of_msg ev d) msgs"
    using spec_calls_written [of ?ms] ok assms(2) by (fastforce simp: o_def case_prod_beta)
  obtain rc p where f: "feed_chunks sse_feed SSE_OK ?p chunks = (rc, p)" by fastforce
  have "sse_ready ?p (length (concat chunks))" by (simp add: sse_ready_def)
  have w: "fst (feed_chunks sse_feed SSE_OK ?p chunks) = SSE_OK"
    by (rule sse_open_accepts [where P = "\<lambda>_. True"]) (simp_all add: record_event_def SIZE_MAX_def)
  have out: "stream_outcome [] (concat chunks) rc p" "on_event p = Some record_event" "on_frame p = None"
    using feed_chunks_effect [OF f stream_inv_open] by (simp_all add: same_setup_def)
  then have "do_calls p [] (spec_calls (concat chunks)) = (True, user_data p)"
    using w f stream_inv_calls by (simp add: stream_outcome_def)
  then show ?thesis
    using do_calls_record [OF out(2,3)] ev f by (simp add: spec_events_def)
qed

lemma sse_write_roundtrip_witness:
  "user_data (snd (feed_chunks sse_feed SSE_OK
      (sse_open 0 0 0 0 (\<lambda>_. True) (Some record_event) None [])
      [wire None (lit ''ping'', [0x61, C_LF, C_SP, 0x62], replicate 40 0)])) =
   [event_of_msg (lit ''ping'') [0x61, C_LF, C_SP, 0x62]]"
proof -
  have "list_all (writes_ok None) [(lit ''ping'', [0x61, C_LF, C_SP, 0x62], replicate 40 0)]"
    by code_simp
  from sse_write_roundtrip [OF this, of "[wire None (lit ''ping'', [0x61, C_LF, C_SP, 0x62], replicate 40 0)]"]
  show ?thesis by (simp del: lit_Cons)
qed

text \<open>
  C7: the writer never overruns the caller's buffer. Whatever the arguments, it changes at
  most the first \<open>*out_len\<close> bytes, that length is within the buffer, a failure writes
  nothing and reports length zero, and success reports exactly the bytes of the event.
\<close>

theorem sse_write_bounds:
  "case sse_write_event lim ev d (Some out) of (rc, n, out') \<Rightarrow>
     n \<le> length out \<and> length out' = length out \<and> drop n out' = drop n out \<and>
     (rc \<noteq> SSE_OK \<longrightarrow> n = 0) \<and>
     (rc = SSE_OK \<longrightarrow> (\<exists>e b. ev = Some e \<and> d = Some b \<and> take n out' = sse_write_body e b))"
proof -
  obtain rc n out' where w: "sse_write_event lim ev d (Some out) = (rc, n, out')" by (metis prod_cases3)
  show ?thesis
  proof (cases "rc = SSE_OK")
    case True
    with w obtain e b where eb: "ev = Some e" "d = Some b"
      by (auto simp: sse_write_event_def split: option.splits)
    from sse_write_eventD [OF w [unfolded eb True]] w True eb show ?thesis
      by (simp add: overwrite_def)
  next
    case False
    then have "n = 0 \<and> out' = out"
      using w by (auto simp: sse_write_event_def Let_def simp del: sse_write_scan.simps
          split: option.splits if_splits sum.splits prod.splits)
    with w False show ?thesis by simp
  qed
qed

lemma sse_write_bounds_witness:
  "case sse_write_event None (Some []) (Some (lit ''hi'')) (Some (replicate 12 0xAA)) of (rc, n, out') \<Rightarrow>
     rc = SSE_OK \<and> n = 10 \<and> length out' = 12 \<and> drop n out' = [0xAA, 0xAA]"
proof -
  have "fst (sse_write_event None (Some []) (Some (lit ''hi'')) (Some (replicate 12 0xAA))) = SSE_OK"
    "fst (snd (sse_write_event None (Some []) (Some (lit ''hi'')) (Some (replicate 12 0xAA)))) = 10"
    by code_simp+
  then show ?thesis
    using sse_write_bounds [where lim = None and ev = "Some []" and d = "Some (lit ''hi'')"
        and out = "replicate 12 0xAA"]
    by (simp add: case_prod_unfold numeral_2_eq_2 del: lit_Cons)
qed

end
