(* ===== verification/Jstok.thy ===== *)
theory Jstok
  imports Prelude
begin

text \<open>
  The JSON tokenizer of \<open>src/include/jstok.h\<close>: a pushdown machine that reads the input once,
  writes tokens into the caller's array (or only counts them) and can be called again with
  more bytes after it ran out of input.

  Correspondence with the code. The stack of frames is a list whose head is the top, so
  \<open>depth\<close> is its length. The caller's array is \<open>Some toks\<close> with \<open>max_tokens\<close> elements and
  \<open>None\<close> in count-only mode. The \<open>int\<close> offsets never overflow: \<open>json_len\<close> is an \<open>int\<close>, no offset
  exceeds it and no input has more tokens than bytes; they are naturals here, except where
  the code stores -1. \<open>JSTOK_STRICT\<close> is a compile-time switch: the parameter \<open>strict\<close>. The
  library's build leaves it undefined, so the client code of the other theories passes
  False. A scanner that the code writes as a loop over \<open>p->pos\<close> is a recursion over the bytes
  from that position on, with the position as an accumulator.
\<close>

section \<open>Types\<close>

definition JSTOK_MAX_DEPTH :: nat where
  "JSTOK_MAX_DEPTH = 64"

datatype jstoktype =
    JSTOK_UNDEFINED
  | JSTOK_OBJECT
  | JSTOK_ARRAY
  | JSTOK_STRING
  | JSTOK_PRIMITIVE

datatype jstokerr =
    JSTOK_ERROR_NOMEM
  | JSTOK_ERROR_INVAL
  | JSTOK_ERROR_PART
  | JSTOK_ERROR_DEPTH

record jstoktok =
  tk_type :: jstoktype
  tk_start :: int
  tk_end :: int
  tk_size :: int

datatype jstok_state =
    ST_OBJ_KEY_OR_END
  | ST_OBJ_KEY
  | ST_OBJ_COLON
  | ST_OBJ_VALUE
  | ST_OBJ_COMMA_OR_END
  | ST_ARR_VALUE_OR_END
  | ST_ARR_VALUE
  | ST_ARR_COMMA_OR_END

record jstok_frame =
  fr_type :: jstoktype
  fr_st :: jstok_state
  fr_tok :: int

record jstok_parser =
  jp_pos :: nat
  jp_toknext :: nat
  jp_stack :: "jstok_frame list"
  jp_root_done :: bool
  jp_error_pos :: int
  jp_error_code :: "jstokerr option"

type_synonym jtoks = "jstoktok list option"

section \<open>Characters, errors and frames\<close>

definition jstok_is_space :: "byte \<Rightarrow> bool" where
  "jstok_is_space c \<longleftrightarrow> c = C_SP \<or> c = C_TAB \<or> c = C_LF \<or> c = C_CR"

definition jstok_is_hex :: "byte \<Rightarrow> bool" where
  "jstok_is_hex c \<longleftrightarrow> is_digit c \<or> (0x61 \<le> c \<and> c \<le> 0x66) \<or> (0x41 \<le> c \<and> c \<le> 0x46)"

definition jstok_is_delim :: "byte \<Rightarrow> bool" where
  "jstok_is_delim c \<longleftrightarrow> c = C_COMMA \<or> c = C_RBRACK \<or> c = C_RBRACE \<or> jstok_is_space c"

definition jstok_set_error :: "jstok_parser \<Rightarrow> jstokerr \<Rightarrow> nat \<Rightarrow> jstok_parser" where
  "jstok_set_error p code pos = p\<lparr>jp_error_code := Some code, jp_error_pos := int pos\<rparr>"

definition jstok_init :: jstok_parser where
  "jstok_init = \<lparr>jp_pos = 0, jp_toknext = 0, jp_stack = [], jp_root_done = False,
     jp_error_pos = -1, jp_error_code = None\<rparr>"

definition jstok_top :: "jstok_parser \<Rightarrow> jstok_frame option" where
  "jstok_top p = (case jp_stack p of [] \<Rightarrow> None | f # _ \<Rightarrow> Some f)"

definition jstok_push ::
  "jstok_parser \<Rightarrow> jstoktype \<Rightarrow> jstok_state \<Rightarrow> int \<Rightarrow> jstokerr option \<times> jstok_parser" where
  "jstok_push p type st tok =
     (if length (jp_stack p) \<ge> JSTOK_MAX_DEPTH
      then (Some JSTOK_ERROR_DEPTH, jstok_set_error p JSTOK_ERROR_DEPTH (jp_pos p))
      else (None, p\<lparr>jp_stack := \<lparr>fr_type = type, fr_st = st, fr_tok = tok\<rparr> # jp_stack p\<rparr>))"

definition jstok_pop :: "jstok_parser \<Rightarrow> jstok_parser" where
  "jstok_pop p = p\<lparr>jp_stack := tl (jp_stack p)\<rparr>"

text \<open>Assigning to the state of the top frame, \<open>fr->st = st\<close>.\<close>

definition jstok_set_st :: "jstok_parser \<Rightarrow> jstok_state \<Rightarrow> jstok_parser" where
  "jstok_set_st p st =
     (case jp_stack p of [] \<Rightarrow> p | f # fs \<Rightarrow> p\<lparr>jp_stack := f\<lparr>fr_st := st\<rparr> # fs\<rparr>)"

definition jstok_new_token ::
  "jstok_parser \<Rightarrow> jtoks \<Rightarrow> jstoktype \<Rightarrow> int \<Rightarrow> int \<Rightarrow> (jstokerr + nat) \<times> jstok_parser \<times> jtoks" where
  "jstok_new_token p toks type start stop =
     (case toks of
        Some ts \<Rightarrow>
          if jp_toknext p \<ge> length ts
          then (Inl JSTOK_ERROR_NOMEM, jstok_set_error p JSTOK_ERROR_NOMEM (jp_pos p), toks)
          else (Inr (jp_toknext p), p\<lparr>jp_toknext := jp_toknext p + 1\<rparr>,
                Some (ts[jp_toknext p := \<lparr>tk_type = type, tk_start = start, tk_end = stop, tk_size = 0\<rparr>]))
      | None \<Rightarrow> (Inr (jp_toknext p), p\<lparr>jp_toknext := jp_toknext p + 1\<rparr>, None))"

text \<open>\<open>toks[i].size += d\<close>; the index of a frame is always that of a token already written.\<close>

definition tok_add_size :: "jtoks \<Rightarrow> int \<Rightarrow> int \<Rightarrow> jtoks" where
  "tok_add_size toks i d =
     (case toks of
        None \<Rightarrow> None
      | Some ts \<Rightarrow> if i < 0 then toks
                   else Some (ts[nat i := (ts ! nat i)\<lparr>tk_size := tk_size (ts ! nat i) + d\<rparr>]))"

definition jstok_inc_container_size :: "jstok_parser \<Rightarrow> jtoks \<Rightarrow> jtoks" where
  "jstok_inc_container_size p toks =
     (case jstok_top p of None \<Rightarrow> toks | Some fr \<Rightarrow> tok_add_size toks (fr_tok fr) 1)"

definition jstok_inval :: "jstok_parser \<Rightarrow> jstokerr option \<times> jstok_parser" where
  "jstok_inval p = (Some JSTOK_ERROR_INVAL, jstok_set_error p JSTOK_ERROR_INVAL (jp_pos p))"

definition jstok_accept_value ::
  "bool \<Rightarrow> jstok_parser \<Rightarrow> jtoks \<Rightarrow> jstokerr option \<times> jstok_parser \<times> jtoks" where
  "jstok_accept_value strict p toks =
     (let inval = (case jstok_inval p of (e, q) \<Rightarrow> (e, q, toks)) in
      case jstok_top p of
        None \<Rightarrow>
          if strict \<and> jp_root_done p then inval
          else (None, p\<lparr>jp_root_done := True\<rparr>, toks)
      | Some fr \<Rightarrow>
          if fr_type fr = JSTOK_ARRAY then
            if fr_st fr \<noteq> ST_ARR_VALUE_OR_END \<and> fr_st fr \<noteq> ST_ARR_VALUE then inval
            else (None, jstok_set_st p ST_ARR_COMMA_OR_END, jstok_inc_container_size p toks)
          else if fr_type fr = JSTOK_OBJECT then
            if fr_st fr \<noteq> ST_OBJ_VALUE then inval
            else (None, jstok_set_st p ST_OBJ_COMMA_OR_END, jstok_inc_container_size p toks)
          else inval)"

definition jstok_accept_key :: "jstok_parser \<Rightarrow> jstokerr option \<times> jstok_parser" where
  "jstok_accept_key p =
     (case jstok_top p of
        None \<Rightarrow> jstok_inval p
      | Some fr \<Rightarrow>
          if fr_type fr \<noteq> JSTOK_OBJECT then jstok_inval p
          else if fr_st fr \<noteq> ST_OBJ_KEY_OR_END \<and> fr_st fr \<noteq> ST_OBJ_KEY then jstok_inval p
          else (None, jstok_set_st p ST_OBJ_COLON))"

section \<open>Scanners\<close>

text \<open>A scanner returns the error with the position it reports, or what it found.\<close>

definition jstok_simple_escape :: "byte \<Rightarrow> bool" where
  "jstok_simple_escape c \<longleftrightarrow>
     c = C_QUOTE \<or> c = C_BSLASH \<or> c = C_SLASH \<or> c = 0x62 \<or> c = 0x66 \<or> c = 0x6E \<or> c = 0x72 \<or> c = 0x74"

text \<open>The \<open>\u\<close> loop: \<open>n\<close> hexadecimal digits are still to come.\<close>

fun jstok_scan_hex :: "nat \<Rightarrow> nat \<Rightarrow> byte list \<Rightarrow> (jstokerr \<times> nat) option" where
  "jstok_scan_hex 0 pos bs = None"
| "jstok_scan_hex (Suc n) pos [] = Some (JSTOK_ERROR_PART, pos)"
| "jstok_scan_hex (Suc n) pos (b # bs) =
     (if \<not> jstok_is_hex b then Some (JSTOK_ERROR_INVAL, pos) else jstok_scan_hex n (pos + 1) bs)"

lemma jstok_scan_hex_code [code]:
  "jstok_scan_hex n pos bs =
     (if n = 0 then None
      else case bs of [] \<Rightarrow> Some (JSTOK_ERROR_PART, pos)
      | b # bs' \<Rightarrow> if \<not> jstok_is_hex b then Some (JSTOK_ERROR_INVAL, pos) else jstok_scan_hex (n - 1) (pos + 1) bs')"
  by (cases n; cases bs) simp_all

text \<open>From behind the opening quote to the position of the closing one.\<close>

fun jstok_scan_string :: "nat \<Rightarrow> byte list \<Rightarrow> (jstokerr \<times> nat) + nat" where
  "jstok_scan_string pos [] = Inl (JSTOK_ERROR_PART, pos)"
| "jstok_scan_string pos (c # cs) =
     (if c < 0x20 then Inl (JSTOK_ERROR_INVAL, pos)
      else if c = C_QUOTE then Inr pos
      else if c = C_BSLASH then
        (case cs of
           [] \<Rightarrow> Inl (JSTOK_ERROR_PART, pos + 1)
         | e # es \<Rightarrow>
             if jstok_simple_escape e then jstok_scan_string (pos + 2) es
             else if e = 0x75 then
               (case jstok_scan_hex 4 (pos + 2) es of
                  Some err \<Rightarrow> Inl err
                | None \<Rightarrow> jstok_scan_string (pos + 6) (drop 4 es))
             else Inl (JSTOK_ERROR_INVAL, pos + 1))
      else jstok_scan_string (pos + 1) cs)"

fun jstok_scan_literal :: "nat \<Rightarrow> byte list \<Rightarrow> byte list \<Rightarrow> (jstokerr \<times> nat) + nat" where
  "jstok_scan_literal pos [] bs =
     (case bs of [] \<Rightarrow> Inr pos
      | b # _ \<Rightarrow> if \<not> jstok_is_delim b then Inl (JSTOK_ERROR_INVAL, pos) else Inr pos)"
| "jstok_scan_literal pos (l # ls) bs =
     (case bs of [] \<Rightarrow> Inl (JSTOK_ERROR_PART, pos)
      | b # bs' \<Rightarrow> if b \<noteq> l then Inl (JSTOK_ERROR_INVAL, pos) else jstok_scan_literal (pos + 1) ls bs')"

text \<open>The stages of \<open>jstok_parse_number_span\<close>, each from a position and the bytes there.\<close>

fun jstok_skip_digits :: "nat \<Rightarrow> byte list \<Rightarrow> nat \<times> byte list" where
  "jstok_skip_digits pos [] = (pos, [])"
| "jstok_skip_digits pos (b # bs) = (if is_digit b then jstok_skip_digits (pos + 1) bs else (pos, b # bs))"

type_synonym jscan = "(jstokerr \<times> nat) + nat \<times> byte list"

definition jstok_scan_minus :: "nat \<Rightarrow> byte list \<Rightarrow> jscan" where
  "jstok_scan_minus pos bs =
     (case bs of
        [] \<Rightarrow> Inl (JSTOK_ERROR_PART, pos)
      | b # bs' \<Rightarrow> if b = C_MINUS
                  then (if bs' = [] then Inl (JSTOK_ERROR_PART, pos + 1) else Inr (pos + 1, bs'))
                  else Inr (pos, bs))"

definition jstok_scan_int :: "bool \<Rightarrow> nat \<Rightarrow> byte list \<Rightarrow> jscan" where
  "jstok_scan_int strict pos bs =
     (case bs of
        [] \<Rightarrow> Inl (JSTOK_ERROR_INVAL, pos)
      | b # bs' \<Rightarrow>
          if b = C_0 then
            (if bs' \<noteq> [] \<and> is_digit (hd bs') \<and> strict then Inl (JSTOK_ERROR_INVAL, pos + 1)
             else Inr (pos + 1, bs'))
          else if C_1 \<le> b \<and> b \<le> C_9 then Inr (jstok_skip_digits (pos + 1) bs')
          else Inl (JSTOK_ERROR_INVAL, pos))"

text \<open>At least one digit must follow: the fraction and the exponent share this.\<close>

definition jstok_scan_digits1 :: "nat \<Rightarrow> byte list \<Rightarrow> jscan" where
  "jstok_scan_digits1 pos bs =
     (case bs of
        [] \<Rightarrow> Inl (JSTOK_ERROR_PART, pos)
      | b # _ \<Rightarrow> if \<not> is_digit b then Inl (JSTOK_ERROR_INVAL, pos) else Inr (jstok_skip_digits pos bs))"

definition jstok_scan_frac :: "nat \<Rightarrow> byte list \<Rightarrow> jscan" where
  "jstok_scan_frac pos bs =
     (case bs of
        b # bs' \<Rightarrow> if b = C_DOT then jstok_scan_digits1 (pos + 1) bs' else Inr (pos, bs)
      | [] \<Rightarrow> Inr (pos, bs))"

definition jstok_scan_exp :: "nat \<Rightarrow> byte list \<Rightarrow> jscan" where
  "jstok_scan_exp pos bs =
     (case bs of
        b # bs' \<Rightarrow>
          if b = 0x65 \<or> b = 0x45 then
            (case bs' of
               [] \<Rightarrow> Inl (JSTOK_ERROR_PART, pos + 1)
             | s # bs'' \<Rightarrow> if s = C_PLUS \<or> s = C_MINUS then jstok_scan_digits1 (pos + 2) bs''
                          else jstok_scan_digits1 (pos + 1) bs')
          else Inr (pos, bs)
      | [] \<Rightarrow> Inr (pos, bs))"

definition jstok_scan_number :: "bool \<Rightarrow> nat \<Rightarrow> byte list \<Rightarrow> (jstokerr \<times> nat) + nat" where
  "jstok_scan_number strict pos bs =
     (case jstok_scan_minus pos bs of Inl e \<Rightarrow> Inl e | Inr (pos1, bs1) \<Rightarrow>
      case jstok_scan_int strict pos1 bs1 of Inl e \<Rightarrow> Inl e | Inr (pos2, bs2) \<Rightarrow>
      case jstok_scan_frac pos2 bs2 of Inl e \<Rightarrow> Inl e | Inr (pos3, bs3) \<Rightarrow>
      case jstok_scan_exp pos3 bs3 of Inl e \<Rightarrow> Inl e | Inr (pos4, bs4) \<Rightarrow>
      case bs4 of
        [] \<Rightarrow> Inl (JSTOK_ERROR_PART, pos4)
      | b # _ \<Rightarrow> if \<not> jstok_is_delim b then Inl (JSTOK_ERROR_INVAL, pos4) else Inr pos4)"

definition jstok_scan_primitive :: "bool \<Rightarrow> nat \<Rightarrow> byte list \<Rightarrow> (jstokerr \<times> nat) + nat" where
  "jstok_scan_primitive strict pos bs =
     (case bs of
        [] \<Rightarrow> Inl (JSTOK_ERROR_PART, pos)
      | b # _ \<Rightarrow>
          if b = 0x74 then jstok_scan_literal pos (lit ''true'') bs
          else if b = 0x66 then jstok_scan_literal pos (lit ''false'') bs
          else if b = 0x6E then jstok_scan_literal pos (lit ''null'') bs
          else jstok_scan_number strict pos bs)"

section \<open>Tokens\<close>

text \<open>
  A string: a PART error rewinds to the opening quote, any other error leaves \<open>pos\<close> where it was found.
\<close>

definition jstok_parse_string_token ::
  "jstok_parser \<Rightarrow> byte list \<Rightarrow> jtoks \<Rightarrow> jstokerr option \<times> jstok_parser \<times> jtoks" where
  "jstok_parse_string_token p json toks =
     (if jp_pos p \<ge> length json \<or> json ! jp_pos p \<noteq> C_QUOTE
      then (case jstok_inval p of (e, q) \<Rightarrow> (e, q, toks))
      else
        case jstok_scan_string (jp_pos p + 1) (drop (jp_pos p + 1) json) of
          Inl (err, at) \<Rightarrow>
            (Some err,
             (jstok_set_error p err at)\<lparr>jp_pos := if err = JSTOK_ERROR_PART then jp_pos p else at\<rparr>, toks)
        | Inr close \<Rightarrow>
            (case jstok_new_token (p\<lparr>jp_pos := close\<rparr>) toks JSTOK_STRING (int (jp_pos p) + 1) (int close) of
               (Inl e, q, toks') \<Rightarrow> (Some e, q, toks')
             | (Inr i, q, toks') \<Rightarrow> (None, q\<lparr>jp_pos := close + 1\<rparr>, toks')))"

definition jstok_parse_primitive_token ::
  "bool \<Rightarrow> jstok_parser \<Rightarrow> byte list \<Rightarrow> jtoks \<Rightarrow> jstokerr option \<times> jstok_parser \<times> jtoks" where
  "jstok_parse_primitive_token strict p json toks =
     (case jstok_scan_primitive strict (jp_pos p) (drop (jp_pos p) json) of
        Inl (err, at) \<Rightarrow> (Some err, jstok_set_error p err at, toks)
      | Inr stop \<Rightarrow>
          (case jstok_new_token (p\<lparr>jp_pos := stop\<rparr>) toks JSTOK_PRIMITIVE (int (jp_pos p)) (int stop) of
             (Inl e, q, toks') \<Rightarrow> (Some e, q, toks')
           | (Inr i, q, toks') \<Rightarrow> (None, q, toks')))"

section \<open>Containers\<close>

definition jstok_start_container ::
  "bool \<Rightarrow> jstok_parser \<Rightarrow> jtoks \<Rightarrow> jstoktype \<Rightarrow> jstokerr option \<times> jstok_parser \<times> jtoks" where
  "jstok_start_container strict p toks type =
     (case jstok_accept_value strict p toks of
        (Some e, p1, toks1) \<Rightarrow> (Some e, p1, toks1)
      | (None, p1, toks1) \<Rightarrow>
          (case jstok_new_token p1 toks1 type (int (jp_pos p1)) (-1) of
             (Inl e, p2, toks2) \<Rightarrow> (Some e, p2, toks2)
           | (Inr i, p2, toks2) \<Rightarrow>
               (let st = (if type = JSTOK_OBJECT then ST_OBJ_KEY_OR_END else ST_ARR_VALUE_OR_END) in
                case jstok_push p2 type st (if toks = None then -1 else int i) of
                  (Some e, p3) \<Rightarrow> (Some e, p3, toks2)
                | (None, p3) \<Rightarrow> (None, p3\<lparr>jp_pos := jp_pos p3 + 1\<rparr>, toks2))))"

definition tok_close :: "jtoks \<Rightarrow> int \<Rightarrow> nat \<Rightarrow> jstoktype \<Rightarrow> jtoks" where
  "tok_close toks i pos type =
     (case toks of
        None \<Rightarrow> None
      | Some ts \<Rightarrow>
          if i < 0 then toks
          else (let t = ts ! nat i;
                    t1 = t\<lparr>tk_end := int pos + 1\<rparr>;
                    t2 = (if tk_start t1 < 0 then t1\<lparr>tk_start := int pos\<rparr> else t1);
                    t3 = (if tk_type t2 \<noteq> type then t2\<lparr>tk_type := type\<rparr> else t2)
                in Some (ts[nat i := t3])))"

definition jstok_end_container ::
  "jstok_parser \<Rightarrow> jtoks \<Rightarrow> jstoktype \<Rightarrow> jstokerr option \<times> jstok_parser \<times> jtoks" where
  "jstok_end_container p toks type =
     (let inval = (case jstok_inval p of (e, q) \<Rightarrow> (e, q, toks)) in
      case jstok_top p of
        None \<Rightarrow> inval
      | Some fr \<Rightarrow>
          if fr_type fr \<noteq> type then inval
          else if (if type = JSTOK_OBJECT
                   then fr_st fr = ST_OBJ_KEY_OR_END \<or> fr_st fr = ST_OBJ_COMMA_OR_END
                   else fr_st fr = ST_ARR_VALUE_OR_END \<or> fr_st fr = ST_ARR_COMMA_OR_END)
          then (let p1 = jstok_pop p
                in (None, p1\<lparr>jp_pos := jp_pos p1 + 1\<rparr>, tok_close toks (fr_tok fr) (jp_pos p) type))
          else inval)"

section \<open>The machine\<close>

text \<open>Undoing \<open>jstok_accept_value\<close> when the value that was to follow ran out of input.\<close>

definition jstok_rollback ::
  "jstok_parser \<Rightarrow> jstok_parser \<Rightarrow> jtoks \<Rightarrow> jstok_parser \<times> jtoks" where
  "jstok_rollback saved p toks =
     (case jstok_top saved of
        Some fr \<Rightarrow> (jstok_set_st p (fr_st fr), tok_add_size toks (fr_tok fr) (-1))
      | None \<Rightarrow> (p\<lparr>jp_root_done := jp_root_done saved\<rparr>, toks))"

text \<open>A value that is one token: accept it, parse it, roll back if it is incomplete.\<close>

definition jstok_simple_value ::
  "bool \<Rightarrow> (jstok_parser \<Rightarrow> jtoks \<Rightarrow> jstokerr option \<times> jstok_parser \<times> jtoks) \<Rightarrow> jstok_parser \<Rightarrow> jtoks
     \<Rightarrow> jstokerr option \<times> jstok_parser \<times> jtoks" where
  "jstok_simple_value strict parse p toks =
     (case jstok_accept_value strict p toks of
        (Some e, p1, toks1) \<Rightarrow> (Some e, p1, toks1)
      | (None, p1, toks1) \<Rightarrow>
          (case parse p1 toks1 of
             (Some e, p2, toks2) \<Rightarrow>
               if e = JSTOK_ERROR_PART
               then (case jstok_rollback p p2 toks2 of (p3, toks3) \<Rightarrow> (Some e, p3, toks3))
               else (Some e, p2, toks2)
           | (None, p2, toks2) \<Rightarrow> (None, p2, toks2)))"

definition jstok_colon :: "jstok_parser \<Rightarrow> jstokerr option \<times> jstok_parser" where
  "jstok_colon p =
     (case jstok_top p of
        None \<Rightarrow> jstok_inval p
      | Some fr \<Rightarrow>
          if fr_type fr \<noteq> JSTOK_OBJECT \<or> fr_st fr \<noteq> ST_OBJ_COLON then jstok_inval p
          else (None, (jstok_set_st p ST_OBJ_VALUE)\<lparr>jp_pos := jp_pos p + 1\<rparr>))"

definition jstok_comma :: "jstok_parser \<Rightarrow> jstokerr option \<times> jstok_parser" where
  "jstok_comma p =
     (case jstok_top p of
        None \<Rightarrow> jstok_inval p
      | Some fr \<Rightarrow>
          if fr_type fr = JSTOK_OBJECT then
            if fr_st fr \<noteq> ST_OBJ_COMMA_OR_END then jstok_inval p
            else (None, (jstok_set_st p ST_OBJ_KEY)\<lparr>jp_pos := jp_pos p + 1\<rparr>)
          else
            if fr_st fr \<noteq> ST_ARR_COMMA_OR_END then jstok_inval p
            else (None, (jstok_set_st p ST_ARR_VALUE)\<lparr>jp_pos := jp_pos p + 1\<rparr>))"

definition jstok_expects_key :: "jstok_parser \<Rightarrow> bool" where
  "jstok_expects_key p =
     (case jstok_top p of
        None \<Rightarrow> False
      | Some fr \<Rightarrow> fr_type fr = JSTOK_OBJECT \<and> (fr_st fr = ST_OBJ_KEY_OR_END \<or> fr_st fr = ST_OBJ_KEY))"

text \<open>One turn of the loop of \<open>jstok_parse\<close>, at a position within the input.\<close>

definition jstok_step ::
  "bool \<Rightarrow> byte list \<Rightarrow> jstok_parser \<Rightarrow> jtoks \<Rightarrow> jstokerr option \<times> jstok_parser \<times> jtoks" where
  "jstok_step strict json p toks =
     (let c = json ! jp_pos p in
      if jstok_is_space c then (None, p\<lparr>jp_pos := jp_pos p + 1\<rparr>, toks)
      else if c = C_LBRACE then jstok_start_container strict p toks JSTOK_OBJECT
      else if c = C_LBRACK then jstok_start_container strict p toks JSTOK_ARRAY
      else if c = C_RBRACE then jstok_end_container p toks JSTOK_OBJECT
      else if c = C_RBRACK then jstok_end_container p toks JSTOK_ARRAY
      else if c = C_COLON then (case jstok_colon p of (e, p1) \<Rightarrow> (e, p1, toks))
      else if c = C_COMMA then (case jstok_comma p of (e, p1) \<Rightarrow> (e, p1, toks))
      else if c = C_QUOTE then
        (if jstok_expects_key p then
           (case jstok_parse_string_token p json toks of
              (Some e, p1, toks1) \<Rightarrow> (Some e, p1, toks1)
            | (None, p1, toks1) \<Rightarrow> (case jstok_accept_key p1 of (e, p2) \<Rightarrow> (e, p2, toks1)))
         else jstok_simple_value strict (\<lambda>q ts. jstok_parse_string_token q json ts) p toks)
      else jstok_simple_value strict (\<lambda>q ts. jstok_parse_primitive_token strict q json ts) p toks)"

section \<open>Progress\<close>

text \<open>A scanner stage that went from \<open>pos\<close>, before \<open>bs\<close>, to \<open>pos'\<close>, before \<open>bs'\<close>.\<close>

definition advanced :: "nat \<Rightarrow> byte list \<Rightarrow> nat \<Rightarrow> byte list \<Rightarrow> bool" where
  "advanced pos bs pos' bs' \<longleftrightarrow> (\<exists>w. bs = w @ bs' \<and> pos' = pos + length w)"

lemma advanced_refl [simp]: "advanced pos bs pos bs"
  by (auto simp: advanced_def)

lemma advanced_trans: "advanced p bs q cs \<Longrightarrow> advanced q cs r ds \<Longrightarrow> advanced p bs r ds"
  by (auto simp: advanced_def)

lemma advanced_Cons: "advanced (p + 1) bs q cs \<Longrightarrow> advanced p (b # bs) q cs"
  unfolding advanced_def by (metis append_Cons add.assoc add.commute length_Cons plus_1_eq_Suc)

lemma advanced_step: "advanced p (b # bs) (p + 1) bs"
  by (auto simp: advanced_def intro: exI [of _ "[b]"])

lemma advanced_le: "advanced p bs q cs \<Longrightarrow> p \<le> q \<and> q + length cs = p + length bs"
  by (auto simp: advanced_def)

lemma jstok_skip_digits_advanced: "jstok_skip_digits pos bs = (pos', bs') \<Longrightarrow> advanced pos bs pos' bs'"
  by (induction pos bs rule: jstok_skip_digits.induct) (auto intro: advanced_Cons split: if_splits)

lemma jstok_scan_digits1_advanced:
  assumes "jstok_scan_digits1 pos bs = Inr (pos', bs')" shows "advanced pos bs pos' bs'"
  using assms jstok_skip_digits_advanced
  by (cases bs; cases "jstok_skip_digits pos bs") (auto simp: jstok_scan_digits1_def split: if_splits)

lemma jstok_scan_minus_advanced:
  "jstok_scan_minus pos bs = Inr (pos', bs') \<Longrightarrow> advanced pos bs pos' bs' \<and> bs' \<noteq> []"
  using advanced_step [of pos C_MINUS bs']
  by (auto simp: jstok_scan_minus_def split: list.splits if_splits)

lemma jstok_scan_int_advanced:
  assumes "jstok_scan_int strict pos bs = Inr (pos', bs')"
  shows "advanced pos bs pos' bs' \<and> pos < pos'"
proof -
  obtain b cs where bs: "bs = b # cs" using assms by (auto simp: jstok_scan_int_def split: list.splits)
  then have "(pos', bs') = (pos + 1, cs) \<or> (pos', bs') = jstok_skip_digits (pos + 1) cs"
    using assms by (auto simp: jstok_scan_int_def split: if_splits)
  then have "advanced (pos + 1) cs pos' bs'"
    using jstok_skip_digits_advanced by auto
  then show ?thesis using bs advanced_Cons advanced_le by fastforce
qed

lemma jstok_scan_frac_advanced:
  "jstok_scan_frac pos bs = Inr (pos', bs') \<Longrightarrow> advanced pos bs pos' bs'"
  using jstok_scan_digits1_advanced advanced_Cons
  by (fastforce simp: jstok_scan_frac_def split: list.splits if_splits)

lemma jstok_scan_exp_advanced:
  assumes "jstok_scan_exp pos bs = Inr (pos', bs')" shows "advanced pos bs pos' bs'"
proof (cases bs)
  case Nil
  with assms show ?thesis by (simp add: jstok_scan_exp_def)
next
  case (Cons b cs)
  show ?thesis
  proof (cases "b = 0x65 \<or> b = 0x45")
    case False
    with assms Cons show ?thesis by (auto simp: jstok_scan_exp_def)
  next
    case True
    with assms Cons obtain s ds where cs: "cs = s # ds" by (auto simp: jstok_scan_exp_def split: list.splits)
    have "jstok_scan_digits1 (pos + 2) ds = Inr (pos', bs') \<or> jstok_scan_digits1 (pos + 1) cs = Inr (pos', bs')"
      using assms Cons True cs by (auto simp: jstok_scan_exp_def split: if_splits)
    then show ?thesis
    proof
      assume "jstok_scan_digits1 (pos + 2) ds = Inr (pos', bs')"
      then have "advanced (pos + 1 + 1) ds pos' bs'" using jstok_scan_digits1_advanced by simp
      then show ?thesis unfolding Cons cs by (intro advanced_Cons)
    next
      assume "jstok_scan_digits1 (pos + 1) cs = Inr (pos', bs')"
      then show ?thesis unfolding Cons by (intro advanced_Cons jstok_scan_digits1_advanced)
    qed
  qed
qed

lemma jstok_scan_number_Inr:
  assumes "jstok_scan_number strict pos bs = Inr stop"
  obtains p1 b1 p2 b2 p3 b3 b4 where
    "jstok_scan_minus pos bs = Inr (p1, b1)" "jstok_scan_int strict p1 b1 = Inr (p2, b2)"
    "jstok_scan_frac p2 b2 = Inr (p3, b3)" "jstok_scan_exp p3 b3 = Inr (stop, b4)"
    "b4 \<noteq> []" "jstok_is_delim (hd b4)"
  using assms that
  by (auto simp: jstok_scan_number_def split: sum.splits prod.splits list.splits if_splits)

lemma jstok_scan_number_bounds:
  "jstok_scan_number strict pos bs = Inr stop \<Longrightarrow> pos < stop \<and> stop \<le> pos + length bs"
  by (elim jstok_scan_number_Inr)
    (fastforce dest!: jstok_scan_minus_advanced jstok_scan_int_advanced jstok_scan_frac_advanced
      jstok_scan_exp_advanced advanced_le)

lemma jstok_scan_literal_bounds:
  "jstok_scan_literal pos ls bs = Inr stop \<Longrightarrow> stop = pos + length ls \<and> stop \<le> pos + length bs"
  by (induction pos ls bs rule: jstok_scan_literal.induct) (auto split: list.splits if_splits)

lemma jstok_scan_primitive_bounds:
  assumes "jstok_scan_primitive strict pos bs = Inr stop" shows "pos < stop \<and> stop \<le> pos + length bs"
  using assms jstok_scan_literal_bounds jstok_scan_number_bounds [of strict pos bs stop]
  by (fastforce simp: jstok_scan_primitive_def split: list.splits if_splits)

lemma jstok_scan_string_bounds:
  "jstok_scan_string pos bs = Inr close \<Longrightarrow> pos \<le> close \<and> close < pos + length bs"
proof (induction pos bs rule: jstok_scan_string.induct)
  case (2 pos c cs)
  have hex: "jstok_scan_hex n q es = None \<Longrightarrow> n \<le> length es" for n q es
    by (induction n q es rule: jstok_scan_hex.induct) (auto split: if_splits)
  from 2 show ?case
    by (fastforce dest: hex split: if_splits list.splits option.splits)
qed simp

lemma jstok_new_token_pos:
  "jstok_new_token p toks ty a b = (r, p', toks') \<Longrightarrow> jp_pos p' = jp_pos p"
  by (auto simp: jstok_new_token_def jstok_set_error_def split: option.splits if_splits)

lemma jstok_set_st_pos [simp]: "jp_pos (jstok_set_st p st) = jp_pos p"
  by (simp add: jstok_set_st_def split: list.splits)

lemma jstok_accept_value_pos:
  "jstok_accept_value strict p toks = (r, p', toks') \<Longrightarrow> jp_pos p' = jp_pos p"
  by (auto simp: jstok_accept_value_def jstok_inval_def jstok_set_error_def Let_def
      split: option.splits if_splits)

lemma jstok_accept_key_pos: "jstok_accept_key p = (r, p') \<Longrightarrow> jp_pos p' = jp_pos p"
  by (auto simp: jstok_accept_key_def jstok_inval_def jstok_set_error_def split: option.splits if_splits)

lemma jstok_parse_string_token_pos:
  assumes "jstok_parse_string_token p json toks = (None, p', toks')"
  shows "jp_pos p < jp_pos p' \<and> jp_pos p' \<le> length json"
proof -
  let ?s = "jstok_scan_string (jp_pos p + 1) (drop (jp_pos p + 1) json)"
  have w: "jp_pos p < length json"
    using assms by (auto simp: jstok_parse_string_token_def jstok_inval_def split: if_splits)
  obtain close where c: "?s = Inr close"
    using assms by (auto simp: jstok_parse_string_token_def jstok_inval_def split: if_splits sum.splits)
  then have "jp_pos p' = close + 1"
    using assms by (auto simp: jstok_parse_string_token_def jstok_inval_def split: if_splits sum.splits prod.splits)
  then show ?thesis using jstok_scan_string_bounds [OF c] w by auto
qed

lemma jstok_parse_primitive_token_pos:
  assumes "jstok_parse_primitive_token strict p json toks = (None, p', toks')"
  shows "jp_pos p < jp_pos p' \<and> jp_pos p' \<le> max (jp_pos p) (length json)"
proof -
  obtain stop where c: "jstok_scan_primitive strict (jp_pos p) (drop (jp_pos p) json) = Inr stop"
    using assms by (auto simp: jstok_parse_primitive_token_def split: sum.splits)
  then have "jp_pos p' = stop"
    using assms by (auto simp: jstok_parse_primitive_token_def dest!: jstok_new_token_pos split: sum.splits prod.splits)
  then show ?thesis using jstok_scan_primitive_bounds [OF c] by auto
qed

lemma jstok_simple_value_pos:
  assumes "jstok_simple_value strict parse p toks = (None, p', toks')"
  obtains p1 toks1 where "jstok_accept_value strict p toks = (None, p1, toks1)" "jp_pos p1 = jp_pos p"
    "parse p1 toks1 = (None, p', toks')"
proof -
  obtain r p1 toks1 where a: "jstok_accept_value strict p toks = (r, p1, toks1)" by (metis prod_cases3)
  obtain r2 p2 toks2 where b: "parse p1 toks1 = (r2, p2, toks2)" by (metis prod_cases3)
  have "r = None" "r2 = None" "p2 = p'" "toks2 = toks'"
    using assms a b by (auto simp: jstok_simple_value_def split: option.splits if_splits prod.splits)
  with a b jstok_accept_value_pos [OF a] that show ?thesis by simp
qed

lemma jstok_start_container_pos:
  assumes "jstok_start_container strict p toks ty = (None, p', toks')"
  shows "jp_pos p' = jp_pos p + 1"
  using assms
  by (auto simp: jstok_start_container_def jstok_push_def Let_def dest!: jstok_accept_value_pos jstok_new_token_pos
      split: option.splits sum.splits prod.splits if_splits)

lemma jstok_end_container_pos:
  "jstok_end_container p toks ty = (None, p', toks') \<Longrightarrow> jp_pos p' = jp_pos p + 1"
  by (auto simp: jstok_end_container_def jstok_inval_def jstok_pop_def Let_def split: option.splits if_splits)

text \<open>What a turn does, by the byte it finds at \<open>pos\<close>.\<close>

definition jstok_structural :: "byte \<Rightarrow> bool" where
  "jstok_structural c \<longleftrightarrow> c = C_LBRACE \<or> c = C_LBRACK \<or> c = C_RBRACE \<or> c = C_RBRACK \<or>
     c = C_COLON \<or> c = C_COMMA \<or> c = C_QUOTE"

lemma jstok_byte_cases:
  obtains (space) "jstok_is_space c" | (obj) "c = C_LBRACE" | (arr) "c = C_LBRACK"
  | (objend) "c = C_RBRACE" | (arrend) "c = C_RBRACK" | (colon) "c = C_COLON" | (comma) "c = C_COMMA"
  | (quot) "c = C_QUOTE" | (prim) "\<not> jstok_is_space c" "\<not> jstok_structural c"
  by (auto simp: jstok_structural_def)

lemma jstok_step_eqs:
  "jstok_is_space (json ! jp_pos p) \<Longrightarrow> jstok_step strict json p toks = (None, p\<lparr>jp_pos := jp_pos p + 1\<rparr>, toks)"
  "json ! jp_pos p = C_LBRACE \<Longrightarrow> jstok_step strict json p toks = jstok_start_container strict p toks JSTOK_OBJECT"
  "json ! jp_pos p = C_LBRACK \<Longrightarrow> jstok_step strict json p toks = jstok_start_container strict p toks JSTOK_ARRAY"
  "json ! jp_pos p = C_RBRACE \<Longrightarrow> jstok_step strict json p toks = jstok_end_container p toks JSTOK_OBJECT"
  "json ! jp_pos p = C_RBRACK \<Longrightarrow> jstok_step strict json p toks = jstok_end_container p toks JSTOK_ARRAY"
  "json ! jp_pos p = C_COLON \<Longrightarrow> jstok_step strict json p toks = (fst (jstok_colon p), snd (jstok_colon p), toks)"
  "json ! jp_pos p = C_COMMA \<Longrightarrow> jstok_step strict json p toks = (fst (jstok_comma p), snd (jstok_comma p), toks)"
  "json ! jp_pos p = C_QUOTE \<Longrightarrow> \<not> jstok_expects_key p \<Longrightarrow> jstok_step strict json p toks =
     jstok_simple_value strict (\<lambda>q ts. jstok_parse_string_token q json ts) p toks"
  "json ! jp_pos p = C_QUOTE \<Longrightarrow> jstok_expects_key p \<Longrightarrow> jstok_step strict json p toks =
     (case jstok_parse_string_token p json toks of
        (Some e, p1, toks1) \<Rightarrow> (Some e, p1, toks1)
      | (None, p1, toks1) \<Rightarrow> (fst (jstok_accept_key p1), snd (jstok_accept_key p1), toks1))"
  "\<not> jstok_is_space (json ! jp_pos p) \<Longrightarrow> \<not> jstok_structural (json ! jp_pos p) \<Longrightarrow>
     jstok_step strict json p toks =
     jstok_simple_value strict (\<lambda>q ts. jstok_parse_primitive_token strict q json ts) p toks"
  by (simp_all add: jstok_step_def jstok_structural_def jstok_is_space_def case_prod_unfold cong: option.case_cong)

lemma jstok_colon_pos: "jstok_colon p = (None, q) \<Longrightarrow> jp_pos q = jp_pos p + 1"
  by (auto simp: jstok_colon_def jstok_inval_def split: option.splits if_splits)

lemma jstok_comma_pos: "jstok_comma p = (None, q) \<Longrightarrow> jp_pos q = jp_pos p + 1"
  by (auto simp: jstok_comma_def jstok_inval_def split: option.splits if_splits)

lemma jstok_step_progress:
  assumes s: "jstok_step strict json p toks = (None, p', toks')" and w: "jp_pos p < length json"
  shows "jp_pos p < jp_pos p' \<and> jp_pos p' \<le> length json"
proof (cases "json ! jp_pos p" rule: jstok_byte_cases)
  case space
  with s w show ?thesis by (auto simp: jstok_step_eqs)
next
  case obj
  with s w show ?thesis by (auto simp: jstok_step_eqs dest: jstok_start_container_pos)
next
  case arr
  with s w show ?thesis by (auto simp: jstok_step_eqs dest: jstok_start_container_pos)
next
  case objend
  with s w show ?thesis by (auto simp: jstok_step_eqs dest: jstok_end_container_pos)
next
  case arrend
  with s w show ?thesis by (auto simp: jstok_step_eqs dest: jstok_end_container_pos)
next
  case colon
  with s w jstok_colon_pos [of p p'] show ?thesis by (cases "jstok_colon p") (auto simp: jstok_step_eqs)
next
  case comma
  with s w jstok_comma_pos [of p p'] show ?thesis by (cases "jstok_comma p") (auto simp: jstok_step_eqs)
next
  case quot
  show ?thesis
  proof (cases "jstok_expects_key p")
    case True
    with quot s obtain p1 toks1 where "jstok_parse_string_token p json toks = (None, p1, toks1)"
      "jstok_accept_key p1 = (None, p')"
      by (auto simp: jstok_step_eqs split: prod.splits option.splits) (metis prod.collapse)
    then show ?thesis using jstok_parse_string_token_pos jstok_accept_key_pos by metis
  next
    case False
    with quot s show ?thesis
      by (auto simp: jstok_step_eqs elim!: jstok_simple_value_pos dest!: jstok_parse_string_token_pos)
  qed
next
  case prim
  with s w show ?thesis
    by (auto simp: jstok_step_eqs elim!: jstok_simple_value_pos dest!: jstok_parse_primitive_token_pos)
qed

section \<open>The loop and the entry point\<close>

function jstok_loop ::
  "bool \<Rightarrow> byte list \<Rightarrow> jstok_parser \<Rightarrow> jtoks \<Rightarrow> jstokerr option \<times> jstok_parser \<times> jtoks" where
  "jstok_loop strict json p toks =
     (if jp_pos p < length json then
        (case jstok_step strict json p toks of
           (Some e, p1, toks1) \<Rightarrow> (Some e, p1, toks1)
         | (None, p1, toks1) \<Rightarrow> jstok_loop strict json p1 toks1)
      else (None, p, toks))"
  by pat_completeness auto

termination
  by (relation "measure (\<lambda>(strict, json, p, toks). length json - jp_pos p)")
    (auto dest!: jstok_step_progress [OF sym])

declare jstok_loop.simps [simp del]

text \<open>
  \<open>json\<close> is \<open>None\<close> when the code is given a NULL buffer or a negative length. The result is the
  token count or the error.
\<close>

definition jstok_parse ::
  "bool \<Rightarrow> jstok_parser \<Rightarrow> byte list option \<Rightarrow> jtoks \<Rightarrow> (jstokerr + nat) \<times> jstok_parser \<times> jtoks" where
  "jstok_parse strict p json_buf toks =
     (case json_buf of
        None \<Rightarrow> (Inl JSTOK_ERROR_INVAL, jstok_set_error p JSTOK_ERROR_INVAL 0, toks)
      | Some json \<Rightarrow>
          (case jstok_loop strict json (p\<lparr>jp_error_pos := -1, jp_error_code := None\<rparr>) toks of
             (Some e, p1, toks1) \<Rightarrow> (Inl e, p1, toks1)
           | (None, p1, toks1) \<Rightarrow>
               if strict \<and> jp_stack p1 = [] \<and> \<not> jp_root_done p1
               then (Inl JSTOK_ERROR_PART, jstok_set_error p1 JSTOK_ERROR_PART (jp_pos p1), toks1)
               else if jp_stack p1 \<noteq> []
               then (Inl JSTOK_ERROR_PART, jstok_set_error p1 JSTOK_ERROR_PART (jp_pos p1), toks1)
               else (Inr (jp_toknext p1), p1, toks1)))"

end
