(* ===== verification/JstokLex.thy ===== *)
theory JstokLex
  imports Jstok
begin

text \<open>
  The lexical grammar of JSON (RFC 8259: the characters of a string, numbers, the three
  literals) stated on byte strings, and the proof that each scanner of \<open>Jstok\<close> recognises
  exactly the words of its grammar.
\<close>

section \<open>The grammar\<close>

text \<open>What may stand between the quotes of a string.\<close>

fun json_chars :: "byte list \<Rightarrow> bool" where
  "json_chars [] = True"
| "json_chars (c # cs) =
     (if c = C_BSLASH then
        (case cs of
           [] \<Rightarrow> False
         | e # es \<Rightarrow>
             if jstok_simple_escape e then json_chars es
             else e = 0x75 \<and> length es \<ge> 4 \<and> list_all jstok_is_hex (take 4 es) \<and> json_chars (drop 4 es))
      else c \<ge> 0x20 \<and> c \<noteq> C_QUOTE \<and> json_chars cs)"

definition json_int :: "byte list \<Rightarrow> bool" where
  "json_int i \<longleftrightarrow> i = [C_0] \<or> (i \<noteq> [] \<and> C_1 \<le> hd i \<and> hd i \<le> C_9 \<and> list_all is_digit (tl i))"

definition json_digits :: "byte list \<Rightarrow> bool" where
  "json_digits ds \<longleftrightarrow> ds \<noteq> [] \<and> list_all is_digit ds"

definition json_frac :: "byte list \<Rightarrow> bool" where
  "json_frac f \<longleftrightarrow> f = [] \<or> hd f = C_DOT \<and> json_digits (tl f)"

definition json_exp :: "byte list \<Rightarrow> bool" where
  "json_exp e \<longleftrightarrow> e = [] \<or>
     (\<exists>x s ds. e = x # s @ ds \<and> (x = 0x65 \<or> x = 0x45) \<and> s \<in> {[], [C_PLUS], [C_MINUS]} \<and> json_digits ds)"

definition json_number :: "byte list \<Rightarrow> bool" where
  "json_number w \<longleftrightarrow>
     (\<exists>m i f e. w = m @ i @ f @ e \<and> m \<in> {[], [C_MINUS]} \<and> json_int i \<and> json_frac f \<and> json_exp e)"

definition json_literal :: "byte list \<Rightarrow> bool" where
  "json_literal w \<longleftrightarrow> w \<in> {lit ''true'', lit ''false'', lit ''null''}"

text \<open>
  A primitive and what follows it: a delimiter, or for a literal the end of the input. A
  number at the very end of the input is not complete, more digits could come.
\<close>

definition json_primitive :: "byte list \<Rightarrow> byte list \<Rightarrow> bool" where
  "json_primitive w rest \<longleftrightarrow>
     (json_literal w \<and> (rest = [] \<or> jstok_is_delim (hd rest))) \<or>
     (json_number w \<and> rest \<noteq> [] \<and> jstok_is_delim (hd rest))"

section \<open>Strings\<close>

lemma jstok_scan_hex_None:
  "jstok_scan_hex n pos bs = None \<longleftrightarrow> n \<le> length bs \<and> list_all jstok_is_hex (take n bs)"
  by (induction n pos bs rule: jstok_scan_hex.induct) auto

lemma jstok_scan_string_sound:
  "jstok_scan_string pos bs = Inr q \<Longrightarrow>
     \<exists>w rest. bs = w @ C_QUOTE # rest \<and> q = pos + length w \<and> json_chars w"
proof (induction pos bs rule: jstok_scan_string.induct)
  case (2 pos c cs)
  show ?case
  proof (cases "c = C_BSLASH")
    case True
    with 2(4) obtain e es where cs: "cs = e # es" by (auto split: list.splits if_splits)
    show ?thesis
    proof (cases "jstok_simple_escape e")
      case simple: True
      with 2(4) True cs have r: "jstok_scan_string (pos + 2) es = Inr q" by (simp split: if_splits)
      from 2(1) [OF _ _ True cs simple r] True obtain w rest
        where w: "es = w @ C_QUOTE # rest" "q = pos + 2 + length w" "json_chars w" by auto
      with True cs simple show ?thesis
        by (intro exI [of _ "c # e # w"] exI [of _ rest]) simp
    next
      case False
      with 2(4) True cs have u: "e = 0x75" and h: "jstok_scan_hex 4 (pos + 2) es = None"
        and r: "jstok_scan_string (pos + 6) (drop 4 es) = Inr q"
        by (auto split: if_splits option.splits)
      have hx: "4 \<le> length es" "list_all jstok_is_hex (take 4 es)" using h jstok_scan_hex_None by auto
      from 2(2) [OF _ _ True cs False u h r] True obtain w rest
        where w: "drop 4 es = w @ C_QUOTE # rest" "q = pos + 6 + length w" "json_chars w" by auto
      have "es = take 4 es @ w @ C_QUOTE # rest" using w(1) append_take_drop_id [of 4 es] by simp
      with w True cs False u hx show ?thesis
        by (intro exI [of _ "c # e # take 4 es @ w"] exI [of _ rest]) simp
    qed
  next
    case False
    show ?thesis
    proof (cases "c = C_QUOTE")
      case True
      with 2(4) show ?thesis by (intro exI [of _ "[]"] exI [of _ cs]) simp
    next
      case nq: False
      with False 2(4) have c: "\<not> c < 0x20" and r: "jstok_scan_string (pos + 1) cs = Inr q"
        by (auto split: if_splits)
      from 2(3) [OF c nq False r] obtain w rest
        where w: "cs = w @ C_QUOTE # rest" "q = pos + 1 + length w" "json_chars w" by auto
      with False nq c show ?thesis
        by (intro exI [of _ "c # w"] exI [of _ rest]) (simp add: not_less)
    qed
  qed
qed simp

lemma jstok_scan_string_complete:
  "json_chars w \<Longrightarrow> jstok_scan_string pos (w @ C_QUOTE # rest) = Inr (pos + length w)"
proof (induction w arbitrary: pos rule: json_chars.induct)
  case (2 c cs)
  show ?case
  proof (cases "c = C_BSLASH")
    case True
    with 2(4) obtain e es where cs: "cs = e # es" by (auto split: list.splits)
    show ?thesis
    proof (cases "jstok_simple_escape e")
      case simple: True
      with 2(4) True cs have "json_chars es" by simp
      from 2(1) [OF True cs simple this] True cs simple show ?thesis by simp
    next
      case False
      with 2(4) True cs have u: "e = 0x75" "length es \<ge> 4" "list_all jstok_is_hex (take 4 es)"
        "json_chars (drop 4 es)" by auto
      have "jstok_scan_hex 4 (pos + 2) (es @ C_QUOTE # rest) = None"
        using u jstok_scan_hex_None by simp
      moreover have "jstok_scan_string (pos + 6) (drop 4 es @ C_QUOTE # rest) = Inr (pos + 6 + length (drop 4 es))"
        by (rule 2(2) [OF True cs False u(4)])
      ultimately show ?thesis using True cs False u(1,2) by simp
    qed
  next
    case False
    with 2 show ?thesis by (simp add: not_less)
  qed
qed simp

lemma jstok_scan_string_iff:
  "jstok_scan_string pos bs = Inr q \<longleftrightarrow>
     (\<exists>w rest. bs = w @ C_QUOTE # rest \<and> q = pos + length w \<and> json_chars w)"
  using jstok_scan_string_sound jstok_scan_string_complete by blast

section \<open>Numbers\<close>

lemma jstok_skip_digits_sound:
  "jstok_skip_digits pos bs = (pos', bs') \<Longrightarrow>
     \<exists>ds. bs = ds @ bs' \<and> pos' = pos + length ds \<and> list_all is_digit ds \<and> (bs' = [] \<or> \<not> is_digit (hd bs'))"
proof (induction pos bs rule: jstok_skip_digits.induct)
  case (2 pos b bs)
  show ?case
  proof (cases "is_digit b")
    case True
    with 2 obtain ds where "bs = ds @ bs'" "pos' = pos + 1 + length ds" "list_all is_digit ds"
      "bs' = [] \<or> \<not> is_digit (hd bs')" by auto
    with True show ?thesis by (intro exI [of _ "b # ds"]) simp
  next
    case False
    with 2 show ?thesis by auto
  qed
qed simp

lemma jstok_skip_digits_complete:
  "list_all is_digit ds \<Longrightarrow> bs = [] \<or> \<not> is_digit (hd bs) \<Longrightarrow>
     jstok_skip_digits pos (ds @ bs) = (pos + length ds, bs)"
proof (induction ds arbitrary: pos)
  case Nil
  then show ?case by (cases bs) auto
qed simp

lemma jstok_scan_digits1_sound:
  assumes "jstok_scan_digits1 pos bs = Inr (pos', bs')"
  shows "\<exists>ds. bs = ds @ bs' \<and> pos' = pos + length ds \<and> json_digits ds"
proof -
  obtain b cs where bs: "bs = b # cs" "is_digit b" and sk: "jstok_skip_digits pos bs = (pos', bs')"
    using assms by (auto simp: jstok_scan_digits1_def split: list.splits if_splits)
  from jstok_skip_digits_sound [OF sk] obtain ds where ds: "bs = ds @ bs'" "pos' = pos + length ds"
    "list_all is_digit ds" "bs' = [] \<or> \<not> is_digit (hd bs')" by blast
  with bs have "ds \<noteq> []" by auto
  with ds show ?thesis by (auto simp: json_digits_def)
qed

lemma jstok_scan_digits1_complete:
  "json_digits ds \<Longrightarrow> bs = [] \<or> \<not> is_digit (hd bs) \<Longrightarrow>
     jstok_scan_digits1 pos (ds @ bs) = Inr (pos + length ds, bs)"
  by (cases ds) (auto simp: jstok_scan_digits1_def json_digits_def jstok_skip_digits_complete)

lemma jstok_scan_minus_sound:
  "jstok_scan_minus pos bs = Inr (pos', bs') \<Longrightarrow> \<exists>m\<in>{[], [C_MINUS]}. bs = m @ bs' \<and> pos' = pos + length m"
  by (auto simp: jstok_scan_minus_def split: list.splits if_splits)

lemma jstok_scan_int_sound:
  assumes "jstok_scan_int strict pos bs = Inr (pos', bs')"
  shows "\<exists>i. bs = i @ bs' \<and> pos' = pos + length i \<and> json_int i"
proof -
  obtain b cs where bs: "bs = b # cs" using assms by (auto simp: jstok_scan_int_def split: list.splits)
  show ?thesis
  proof (cases "b = C_0")
    case True
    with assms bs show ?thesis
      by (intro exI [of _ "[C_0]"]) (auto simp: jstok_scan_int_def json_int_def split: if_splits)
  next
    case False
    with assms bs have d: "C_1 \<le> b" "b \<le> C_9" and sk: "jstok_skip_digits (pos + 1) cs = (pos', bs')"
      by (auto simp: jstok_scan_int_def split: if_splits)
    from jstok_skip_digits_sound [OF sk] obtain ds where
      "cs = ds @ bs'" "pos' = pos + 1 + length ds" "list_all is_digit ds" by blast
    with bs d show ?thesis by (intro exI [of _ "b # ds"]) (simp add: json_int_def)
  qed
qed

lemma jstok_scan_frac_sound:
  assumes "jstok_scan_frac pos bs = Inr (pos', bs')"
  shows "\<exists>f. bs = f @ bs' \<and> pos' = pos + length f \<and> json_frac f"
proof (cases "bs \<noteq> [] \<and> hd bs = C_DOT")
  case True
  with assms have "jstok_scan_digits1 (pos + 1) (tl bs) = Inr (pos', bs')"
    by (auto simp: jstok_scan_frac_def split: list.splits)
  from jstok_scan_digits1_sound [OF this] obtain ds where
    "tl bs = ds @ bs'" "pos' = pos + 1 + length ds" "json_digits ds" by blast
  with True show ?thesis
    by (intro exI [of _ "C_DOT # ds"]) (auto simp: json_frac_def neq_Nil_conv)
next
  case False
  with assms show ?thesis by (auto simp: jstok_scan_frac_def json_frac_def split: list.splits)
qed

lemma json_expI:
  "x = 0x65 \<or> x = 0x45 \<Longrightarrow> s \<in> {[], [C_PLUS], [C_MINUS]} \<Longrightarrow> json_digits ds \<Longrightarrow> json_exp (x # s @ ds)"
  unfolding json_exp_def by blast

lemma jstok_scan_exp_sound:
  assumes "jstok_scan_exp pos bs = Inr (pos', bs')"
  shows "\<exists>e. bs = e @ bs' \<and> pos' = pos + length e \<and> json_exp e"
proof (cases "bs \<noteq> [] \<and> (hd bs = 0x65 \<or> hd bs = 0x45)")
  case True
  with assms obtain x s cs where bs: "bs = x # s # cs" and x: "x = 0x65 \<or> x = 0x45"
    by (auto simp: jstok_scan_exp_def neq_Nil_conv split: list.splits)
  show ?thesis
  proof (cases "s = C_PLUS \<or> s = C_MINUS")
    case True
    with assms bs x have "jstok_scan_digits1 (pos + 2) cs = Inr (pos', bs')"
      by (auto simp: jstok_scan_exp_def)
    from jstok_scan_digits1_sound [OF this] obtain ds where
      "cs = ds @ bs'" "pos' = pos + 2 + length ds" "json_digits ds" by blast
    with True bs x show ?thesis
      using json_expI [OF x, of "[s]" ds] by (intro exI [of _ "x # [s] @ ds"]) auto
  next
    case False
    with assms bs x have "jstok_scan_digits1 (pos + 1) (s # cs) = Inr (pos', bs')"
      by (auto simp: jstok_scan_exp_def)
    from jstok_scan_digits1_sound [OF this] obtain ds where
      "s # cs = ds @ bs'" "pos' = pos + 1 + length ds" "json_digits ds" by blast
    with bs x show ?thesis
      using json_expI [OF x, of "[]" ds] by (intro exI [of _ "x # [] @ ds"]) auto
  qed
next
  case False
  with assms show ?thesis by (auto simp: jstok_scan_exp_def json_exp_def split: list.splits)
qed

lemma jstok_scan_number_sound:
  assumes "jstok_scan_number strict pos bs = Inr stop"
  shows "\<exists>w rest. bs = w @ rest \<and> stop = pos + length w \<and> json_number w \<and> rest \<noteq> [] \<and> jstok_is_delim (hd rest)"
  using assms
proof (rule jstok_scan_number_Inr)
  fix p1 b1 p2 b2 p3 b3 b4
  assume st: "jstok_scan_minus pos bs = Inr (p1, b1)" "jstok_scan_int strict p1 b1 = Inr (p2, b2)"
    "jstok_scan_frac p2 b2 = Inr (p3, b3)" "jstok_scan_exp p3 b3 = Inr (stop, b4)"
    and d: "b4 \<noteq> []" "jstok_is_delim (hd b4)"
  from jstok_scan_minus_sound [OF st(1)] obtain m where m: "m \<in> {[], [C_MINUS]}" "bs = m @ b1" "p1 = pos + length m" by blast
  from jstok_scan_int_sound [OF st(2)] obtain i where i: "b1 = i @ b2" "p2 = p1 + length i" "json_int i" by blast
  from jstok_scan_frac_sound [OF st(3)] obtain f where f: "b2 = f @ b3" "p3 = p2 + length f" "json_frac f" by blast
  from jstok_scan_exp_sound [OF st(4)] obtain e where e: "b3 = e @ b4" "stop = p3 + length e" "json_exp e" by blast
  have "json_number (m @ i @ f @ e)" using m i f e unfolding json_number_def by blast
  then show ?thesis using m i f e d by (intro exI [of _ "m @ i @ f @ e"] exI [of _ b4]) simp
qed

text \<open>The byte behind a stage that did not take it.\<close>

lemma delim_not:
  "jstok_is_delim b \<Longrightarrow> \<not> is_digit b \<and> b \<noteq> C_DOT \<and> b \<noteq> 0x65 \<and> b \<noteq> 0x45"
  by (auto simp: jstok_is_delim_def jstok_is_space_def is_digit_def)

lemma jstok_scan_exp_complete:
  assumes "json_exp e" "rest = [] \<or> jstok_is_delim (hd rest)"
  shows "jstok_scan_exp pos (e @ rest) = Inr (pos + length e, rest)"
proof (cases "e = []")
  case True
  with assms(2) delim_not show ?thesis by (cases rest) (auto simp: jstok_scan_exp_def)
next
  case False
  with assms(1) obtain x s ds where e: "e = x # s @ ds" "x = 0x65 \<or> x = 0x45"
    "s \<in> {[], [C_PLUS], [C_MINUS]}" "json_digits ds" by (auto simp: json_exp_def)
  have nd: "rest = [] \<or> \<not> is_digit (hd rest)" using assms(2) delim_not by blast
  obtain d ds' where d: "ds = d # ds'" "is_digit d" using e(4) by (cases ds) (auto simp: json_digits_def)
  then have "d \<noteq> C_PLUS" "d \<noteq> C_MINUS" by (auto simp: is_digit_def)
  then show ?thesis
    using e d jstok_scan_digits1_complete [OF e(4) nd, of "pos + 1"]
      jstok_scan_digits1_complete [OF e(4) nd, of "pos + 2"]
    by (auto simp: jstok_scan_exp_def)
qed

lemma jstok_scan_number_complete:
  assumes "json_number w" "rest \<noteq> []" "jstok_is_delim (hd rest)"
  shows "jstok_scan_number strict pos (w @ rest) = Inr (pos + length w)"
proof -
  obtain m i f e where w: "w = m @ i @ f @ e" "m \<in> {[], [C_MINUS]}" "json_int i" "json_frac f" "json_exp e"
    using assms(1) by (auto simp: json_number_def)
  obtain c cs where c: "i = c # cs" using w(3) by (cases i) (auto simp: json_int_def)
  have "c \<noteq> C_MINUS" using w(3) c by (auto simp: json_int_def)
  note i = c this
  have E: "jstok_scan_exp q (e @ rest) = Inr (q + length e, rest)" for q
    using jstok_scan_exp_complete [OF w(5)] assms(3) by blast
  have hd_e: "\<not> is_digit (hd (e @ rest)) \<and> hd (e @ rest) \<noteq> C_DOT"
    using w(5) assms(2) delim_not [OF assms(3)] by (auto simp: json_exp_def is_digit_def)
  have F: "jstok_scan_frac q (f @ e @ rest) = Inr (q + length f, e @ rest)" for q
  proof (cases f)
    case Nil
    then show ?thesis using hd_e assms(2) by (cases "e @ rest") (auto simp: jstok_scan_frac_def)
  next
    case (Cons d ds)
    with w(4) have "d = C_DOT" "json_digits ds" by (auto simp: json_frac_def)
    with Cons hd_e jstok_scan_digits1_complete [of ds "e @ rest" "q + 1"] show ?thesis
      by (simp add: jstok_scan_frac_def)
  qed
  have hd_f: "\<not> is_digit (hd (f @ e @ rest))"
    using w(4) hd_e by (cases f) (auto simp: json_frac_def is_digit_def)
  have I: "jstok_scan_int strict q (i @ f @ e @ rest) = Inr (q + length i, f @ e @ rest)" for q
  proof (cases "i = [C_0]")
    case True
    then show ?thesis using hd_f by (simp add: jstok_scan_int_def)
  next
    case False
    with w(3) i have "C_1 \<le> c" "c \<le> C_9" "list_all is_digit cs" "c \<noteq> C_0" by (auto simp: json_int_def)
    with i hd_f jstok_skip_digits_complete [of cs "f @ e @ rest" "q + 1"] show ?thesis
      by (simp add: jstok_scan_int_def)
  qed
  have M: "jstok_scan_minus pos (m @ i @ f @ e @ rest) = Inr (pos + length m, i @ f @ e @ rest)"
    using w(2) i by (auto simp: jstok_scan_minus_def)
  obtain r rs where rest: "rest = r # rs" using assms(2) by (cases rest) auto
  show ?thesis
    using M I F E assms(3) unfolding jstok_scan_number_def w(1) by (simp add: rest)
qed

section \<open>Primitives\<close>

lemma jstok_scan_literal_iff:
  "jstok_scan_literal pos ls bs = Inr q \<longleftrightarrow>
     (\<exists>rest. bs = ls @ rest \<and> q = pos + length ls \<and> (rest = [] \<or> jstok_is_delim (hd rest)))"
  by (induction pos ls bs rule: jstok_scan_literal.induct) (auto split: list.splits)

lemma json_number_hd:
  assumes "json_number w" shows "w \<noteq> [] \<and> (hd w = C_MINUS \<or> is_digit (hd w))"
proof -
  obtain m i f e where w: "w = m @ i @ f @ e" "m \<in> {[], [C_MINUS]}" "json_int i"
    using assms by (auto simp: json_number_def)
  have "i \<noteq> []" using w(3) by (auto simp: json_int_def)
  moreover have "C_0 \<le> hd i \<and> hd i \<le> C_9"
    using w(3) order.trans [of C_0 C_1 "hd i"] by (auto simp: json_int_def)
  ultimately show ?thesis using w(1,2) by (auto simp: is_digit_def)
qed

lemma jstok_scan_primitive_sound:
  assumes "jstok_scan_primitive strict pos bs = Inr q"
  shows "\<exists>w rest. bs = w @ rest \<and> q = pos + length w \<and> json_primitive w rest"
proof -
  obtain b cs where bs: "bs = b # cs" using assms by (auto simp: jstok_scan_primitive_def split: list.splits)
  consider "jstok_scan_literal pos (lit ''true'') bs = Inr q" | "jstok_scan_literal pos (lit ''false'') bs = Inr q"
    | "jstok_scan_literal pos (lit ''null'') bs = Inr q" | "jstok_scan_number strict pos bs = Inr q"
    using assms bs unfolding jstok_scan_primitive_def by (simp del: jstok_scan_literal.simps lit_Cons split: if_splits)
  then consider l where "json_literal l" "jstok_scan_literal pos l bs = Inr q" | "jstok_scan_number strict pos bs = Inr q"
    by cases (unfold json_literal_def, blast+)
  then show ?thesis
  proof cases
    case 1
    then obtain rest where "bs = l @ rest" "q = pos + length l" "rest = [] \<or> jstok_is_delim (hd rest)"
      using jstok_scan_literal_iff by blast
    with 1 show ?thesis unfolding json_primitive_def by blast
  next
    case 2
    from jstok_scan_number_sound [OF 2] show ?thesis unfolding json_primitive_def by blast
  qed
qed

lemma jstok_scan_primitive_complete:
  assumes "json_primitive w rest"
  shows "jstok_scan_primitive strict pos (w @ rest) = Inr (pos + length w)"
proof (cases "json_literal w")
  case True
  have "rest = [] \<or> jstok_is_delim (hd rest)" using assms by (auto simp: json_primitive_def)
  then have "jstok_scan_literal pos w (w @ rest) = Inr (pos + length w)" using jstok_scan_literal_iff by blast
  then show ?thesis
    using True unfolding json_literal_def
    by (elim insertE emptyE) (simp_all add: jstok_scan_primitive_def del: jstok_scan_literal.simps)
next
  case False
  with assms have n: "json_number w" "rest \<noteq> []" "jstok_is_delim (hd rest)" by (auto simp: json_primitive_def)
  obtain b bs where w: "w = b # bs" "b = C_MINUS \<or> is_digit b"
    using json_number_hd [OF n(1)] by (cases w) auto
  have "b \<noteq> 0x74" "b \<noteq> 0x66" "b \<noteq> 0x6E" using w(2) by (auto simp: is_digit_def)
  then show ?thesis
    using jstok_scan_number_complete [OF n] w(1) by (simp add: jstok_scan_primitive_def)
qed

lemma jstok_scan_primitive_iff:
  "jstok_scan_primitive strict pos bs = Inr q \<longleftrightarrow>
     (\<exists>w rest. bs = w @ rest \<and> q = pos + length w \<and> json_primitive w rest)"
  using jstok_scan_primitive_sound jstok_scan_primitive_complete by blast

end
