(* ===== verification/JstokGrammar.thy ===== *)
theory JstokGrammar
  imports JstokLex
begin

text \<open>
  The grammar of JSON over the positions of an input, its trees, the tokens a tree stands
  for, and the soundness of the tokenizer: whatever it accepts is a sequence of JSON values,
  and the tokens it wrote are exactly theirs, in document order, with the sizes and the
  boundaries the header of \<open>jstok.h\<close> documents.
\<close>

section \<open>Trees and tokens\<close>

text \<open>The numbers are the boundaries of the token; an object pairs a key's boundaries with a value.\<close>

datatype jtree =
    JStr nat nat
  | JPrim nat nat
  | JArr nat nat "jtree list"
  | JObj nat nat "((nat \<times> nat) \<times> jtree) list"

definition jtok :: "jstoktype \<Rightarrow> nat \<Rightarrow> nat \<Rightarrow> nat \<Rightarrow> jstoktok" where
  "jtok ty a b n = \<lparr>tk_type = ty, tk_start = int a, tk_end = int b, tk_size = int n\<rparr>"

fun flat :: "jtree \<Rightarrow> jstoktok list" where
  "flat (JStr a b) = [jtok JSTOK_STRING a b 0]"
| "flat (JPrim a b) = [jtok JSTOK_PRIMITIVE a b 0]"
| "flat (JArr a b ts) = jtok JSTOK_ARRAY a b (length ts) # concat (map flat ts)"
| "flat (JObj a b kvs) =
     jtok JSTOK_OBJECT a b (length kvs) #
     concat (map (\<lambda>kv. jtok JSTOK_STRING (fst (fst kv)) (snd (fst kv)) 0 # flat (snd kv)) kvs)"

definition flats :: "jtree list \<Rightarrow> jstoktok list" where
  "flats ts = concat (map flat ts)"

definition flat_members :: "((nat \<times> nat) \<times> jtree) list \<Rightarrow> jstoktok list" where
  "flat_members kvs = concat (map (\<lambda>((k, l), v). jtok JSTOK_STRING k l 0 # flat v) kvs)"

lemma flat_containers:
  "flat (JArr a b ts) = jtok JSTOK_ARRAY a b (length ts) # flats ts"
  "flat (JObj a b kvs) = jtok JSTOK_OBJECT a b (length kvs) # flat_members kvs"
  by (simp_all add: flats_def flat_members_def case_prod_unfold)

lemma flats_simps [simp]:
  "flats [] = []" "flats (t # ts) = flat t @ flats ts" "flats (ts @ us) = flats ts @ flats us"
  "flat_members [] = []" "flat_members (((k, l), v) # kvs) = jtok JSTOK_STRING k l 0 # flat v @ flat_members kvs"
  "flat_members (kvs @ kvs') = flat_members kvs @ flat_members kvs'"
  by (simp_all add: flats_def flat_members_def)

text \<open>How deeply containers are nested.\<close>

fun depth :: "jtree \<Rightarrow> nat" where
  "depth (JStr a b) = 0"
| "depth (JPrim a b) = 0"
| "depth (JArr a b ts) = Suc (fold max (map depth ts) 0)"
| "depth (JObj a b kvs) = Suc (fold max (map (\<lambda>kv. depth (snd kv)) kvs) 0)"

lemma fold_max_le: "fold max ns a \<le> (n :: nat) \<longleftrightarrow> a \<le> n \<and> (\<forall>x\<in>set ns. x \<le> n)"
  by (induction ns arbitrary: a) auto

lemma depth_le:
  "depth (JArr a b ts) \<le> Suc n \<longleftrightarrow> (\<forall>t\<in>set ts. depth t \<le> n)"
  "depth (JObj a b kvs) \<le> Suc n \<longleftrightarrow> (\<forall>kv\<in>set kvs. depth (snd kv) \<le> n)"
  by (auto simp: fold_max_le)

section \<open>The grammar\<close>

definition at_pos :: "byte list \<Rightarrow> nat \<Rightarrow> byte \<Rightarrow> bool" where
  "at_pos json q c \<longleftrightarrow> q < length json \<and> json ! q = c"

definition slice :: "byte list \<Rightarrow> nat \<Rightarrow> nat \<Rightarrow> byte list" where
  "slice json a b = take (b - a) (drop a json)"

definition ws :: "byte list \<Rightarrow> nat \<Rightarrow> nat \<Rightarrow> bool" where
  "ws json a b \<longleftrightarrow> a \<le> b \<and> b \<le> length json \<and> list_all jstok_is_space (slice json a b)"

text \<open>A string with its opening quote at \<open>a\<close> and its closing quote at \<open>b\<close>.\<close>

definition jstring :: "byte list \<Rightarrow> nat \<Rightarrow> nat \<Rightarrow> bool" where
  "jstring json a b \<longleftrightarrow> at_pos json a C_QUOTE \<and> a < b \<and> at_pos json b C_QUOTE \<and> json_chars (slice json (a + 1) b)"

definition jprim :: "byte list \<Rightarrow> nat \<Rightarrow> nat \<Rightarrow> bool" where
  "jprim json a b \<longleftrightarrow> a < b \<and> b \<le> length json \<and> json_primitive (slice json a b) (drop b json)"

inductive jvalue :: "byte list \<Rightarrow> nat \<Rightarrow> nat \<Rightarrow> jtree \<Rightarrow> bool"
  and jelems :: "byte list \<Rightarrow> nat \<Rightarrow> nat \<Rightarrow> jtree list \<Rightarrow> bool"
  and jmembers :: "byte list \<Rightarrow> nat \<Rightarrow> nat \<Rightarrow> ((nat \<times> nat) \<times> jtree) list \<Rightarrow> bool"
  for json :: "byte list" where
  v_str: "jstring json a b \<Longrightarrow> jvalue json a (b + 1) (JStr (a + 1) b)"
| v_prim: "jprim json a b \<Longrightarrow> jvalue json a b (JPrim a b)"
| v_arr_empty: "at_pos json a C_LBRACK \<Longrightarrow> ws json (a + 1) q \<Longrightarrow> at_pos json q C_RBRACK \<Longrightarrow>
    jvalue json a (q + 1) (JArr a (q + 1) [])"
| v_arr: "at_pos json a C_LBRACK \<Longrightarrow> jelems json (a + 1) q ts \<Longrightarrow> at_pos json q C_RBRACK \<Longrightarrow>
    jvalue json a (q + 1) (JArr a (q + 1) ts)"
| v_obj_empty: "at_pos json a C_LBRACE \<Longrightarrow> ws json (a + 1) q \<Longrightarrow> at_pos json q C_RBRACE \<Longrightarrow>
    jvalue json a (q + 1) (JObj a (q + 1) [])"
| v_obj: "at_pos json a C_LBRACE \<Longrightarrow> jmembers json (a + 1) q kvs \<Longrightarrow> at_pos json q C_RBRACE \<Longrightarrow>
    jvalue json a (q + 1) (JObj a (q + 1) kvs)"
| e_one: "ws json p a \<Longrightarrow> jvalue json a b t \<Longrightarrow> ws json b q \<Longrightarrow> jelems json p q [t]"
| e_more: "jelems json p c ts \<Longrightarrow> at_pos json c C_COMMA \<Longrightarrow> ws json (c + 1) a \<Longrightarrow>
    jvalue json a b t \<Longrightarrow> ws json b q \<Longrightarrow> jelems json p q (ts @ [t])"
| m_one: "ws json p a \<Longrightarrow> jstring json a b \<Longrightarrow> ws json (b + 1) c \<Longrightarrow> at_pos json c C_COLON \<Longrightarrow>
    ws json (c + 1) d \<Longrightarrow> jvalue json d e v \<Longrightarrow> ws json e q \<Longrightarrow> jmembers json p q [((a + 1, b), v)]"
| m_more: "jmembers json p c0 kvs \<Longrightarrow> at_pos json c0 C_COMMA \<Longrightarrow> ws json (c0 + 1) a \<Longrightarrow>
    jstring json a b \<Longrightarrow> ws json (b + 1) c \<Longrightarrow> at_pos json c C_COLON \<Longrightarrow> ws json (c + 1) d \<Longrightarrow>
    jvalue json d e v \<Longrightarrow> ws json e q \<Longrightarrow> jmembers json p q (kvs @ [((a + 1, b), v)])"

text \<open>
  A whole input: values with optional white space around them. Only strict mode insists on
  exactly one.
\<close>

inductive jtop :: "byte list \<Rightarrow> nat \<Rightarrow> nat \<Rightarrow> jtree list \<Rightarrow> bool" for json :: "byte list" where
  top_none: "ws json p q \<Longrightarrow> jtop json p q []"
| top_more: "jtop json p a ts \<Longrightarrow> jvalue json a b t \<Longrightarrow> ws json b q \<Longrightarrow> jtop json p q (ts @ [t])"

section \<open>White space and slices\<close>

lemma ws_refl [simp]: "a \<le> length json \<Longrightarrow> ws json a a"
  by (simp add: ws_def slice_def)

lemma slice_snoc: "a \<le> b \<Longrightarrow> b < length json \<Longrightarrow> slice json a (b + 1) = slice json a b @ [json ! b]"
  by (simp add: slice_def Suc_diff_le take_Suc_conv_app_nth)

lemma ws_snoc: "ws json a b \<Longrightarrow> b < length json \<Longrightarrow> jstok_is_space (json ! b) \<Longrightarrow> ws json a (b + 1)"
  using slice_snoc [of a b json] by (auto simp: ws_def)

lemma jelems_space:
  assumes j: "jelems json p q ts" and w: "q < length json" "jstok_is_space (json ! q)"
  shows "jelems json p (q + 1) ts"
  using j
proof cases
  case (e_one a b t)
  show ?thesis
    unfolding e_one(1) by (rule jvalue_jelems_jmembers.e_one [OF e_one(2,3) ws_snoc [OF e_one(4) w]])
next
  case (e_more c ts' a b t)
  show ?thesis
    unfolding e_more(1) by (rule jvalue_jelems_jmembers.e_more [OF e_more(2-5) ws_snoc [OF e_more(6) w]])
qed

lemma jmembers_space:
  assumes j: "jmembers json p q kvs" and w: "q < length json" "jstok_is_space (json ! q)"
  shows "jmembers json p (q + 1) kvs"
  using j
proof cases
  case (m_one a b c d e v)
  show ?thesis
    unfolding m_one(1) by (rule jvalue_jelems_jmembers.m_one [OF m_one(2-7) ws_snoc [OF m_one(8) w]])
next
  case (m_more c0 kvs' a b c d e v)
  show ?thesis
    unfolding m_more(1) by (rule jvalue_jelems_jmembers.m_more [OF m_more(2-9) ws_snoc [OF m_more(10) w]])
qed

lemma jtop_space:
  assumes j: "jtop json p q ts" and w: "q < length json" "jstok_is_space (json ! q)"
  shows "jtop json p (q + 1) ts"
  using j
proof cases
  case top_none
  show ?thesis unfolding top_none(1) by (rule jtop.top_none [OF ws_snoc [OF top_none(2) w]])
next
  case (top_more a ts' b t)
  show ?thesis
    unfolding top_more(1) by (rule jtop.top_more [OF top_more(2,3) ws_snoc [OF top_more(4) w]])
qed

section \<open>Open containers\<close>

text \<open>
  What the machine knows of a container it has not closed: where it started, its complete
  children and, in an object, the key whose value is awaited.
\<close>

datatype jopen =
    OArr nat "jtree list"
  | OObj nat "((nat \<times> nat) \<times> jtree) list" "(nat \<times> nat) option"

fun open_start :: "jopen \<Rightarrow> nat" where
  "open_start (OArr s ts) = s"
| "open_start (OObj s kvs k) = s"

fun open_type :: "jopen \<Rightarrow> jstoktype" where
  "open_type (OArr s ts) = JSTOK_ARRAY"
| "open_type (OObj s kvs k) = JSTOK_OBJECT"

fun open_accepted :: "jopen \<Rightarrow> jstok_state" where
  "open_accepted (OArr s ts) = ST_ARR_COMMA_OR_END"
| "open_accepted (OObj s kvs k) = ST_OBJ_COMMA_OR_END"

text \<open>The tokens of an open container; \<open>n\<close> counts a child accepted but not complete.\<close>

definition jtok_open :: "jstoktype \<Rightarrow> nat \<Rightarrow> nat \<Rightarrow> jstoktok" where
  "jtok_open ty a n = \<lparr>tk_type = ty, tk_start = int a, tk_end = -1, tk_size = int n\<rparr>"

fun open_toks :: "nat \<Rightarrow> jopen \<Rightarrow> jstoktok list" where
  "open_toks n (OArr s ts) = jtok_open JSTOK_ARRAY s (length ts + n) # flats ts"
| "open_toks n (OObj s kvs k) =
     jtok_open JSTOK_OBJECT s (length kvs + n) # flat_members kvs @
     (case k of None \<Rightarrow> [] | Some (a, b) \<Rightarrow> [jtok JSTOK_STRING a b 0])"

text \<open>All tokens, with a value pending in every open container, or in all but the innermost.\<close>

fun ctx_below :: "jtree list \<Rightarrow> jopen list \<Rightarrow> jstoktok list" where
  "ctx_below tops [] = flats tops"
| "ctx_below tops (c # cs) = ctx_below tops cs @ open_toks 1 c"

fun ctx :: "jtree list \<Rightarrow> jopen list \<Rightarrow> jstoktok list" where
  "ctx tops [] = flats tops"
| "ctx tops (c # cs) = ctx_below tops cs @ open_toks 0 c"

definition members_open :: "byte list \<Rightarrow> nat \<Rightarrow> nat \<Rightarrow> ((nat \<times> nat) \<times> jtree) list \<Rightarrow> bool" where
  "members_open json p a kvs \<longleftrightarrow>
     (kvs = [] \<and> ws json p a) \<or> (\<exists>c. jmembers json p c kvs \<and> at_pos json c C_COMMA \<and> ws json (c + 1) a)"

definition elems_open :: "byte list \<Rightarrow> nat \<Rightarrow> nat \<Rightarrow> jtree list \<Rightarrow> bool" where
  "elems_open json p a ts \<longleftrightarrow> (\<exists>c. jelems json p c ts \<and> at_pos json c C_COMMA \<and> ws json (c + 1) a)"

text \<open>What each state of a frame says of the bytes up to \<open>pos\<close>.\<close>

fun frame_at :: "byte list \<Rightarrow> jopen \<Rightarrow> jstok_state \<Rightarrow> nat \<Rightarrow> bool" where
  "frame_at json (OArr s ts) st pos \<longleftrightarrow> at_pos json s C_LBRACK \<and>
     (st = ST_ARR_VALUE_OR_END \<and> ts = [] \<and> ws json (s + 1) pos \<or>
      st = ST_ARR_VALUE \<and> elems_open json (s + 1) pos ts \<or>
      st = ST_ARR_COMMA_OR_END \<and> jelems json (s + 1) pos ts)"
| "frame_at json (OObj s kvs k) st pos \<longleftrightarrow> at_pos json s C_LBRACE \<and>
     (st = ST_OBJ_KEY_OR_END \<and> kvs = [] \<and> k = None \<and> ws json (s + 1) pos \<or>
      st = ST_OBJ_KEY \<and> k = None \<and> (\<exists>c. jmembers json (s + 1) c kvs \<and> at_pos json c C_COMMA \<and> ws json (c + 1) pos) \<or>
      st = ST_OBJ_COLON \<and> (\<exists>a b. k = Some (a + 1, b) \<and> members_open json (s + 1) a kvs \<and>
        jstring json a b \<and> ws json (b + 1) pos) \<or>
      st = ST_OBJ_VALUE \<and> (\<exists>a b c. k = Some (a + 1, b) \<and> members_open json (s + 1) a kvs \<and>
        jstring json a b \<and> ws json (b + 1) c \<and> at_pos json c C_COLON \<and> ws json (c + 1) pos) \<or>
      st = ST_OBJ_COMMA_OR_END \<and> k = None \<and> jmembers json (s + 1) pos kvs)"

text \<open>The complete children of a container with \<open>n\<close> open ones below it are not too deep.\<close>

fun kids :: "jopen \<Rightarrow> jtree list" where
  "kids (OArr s ts) = ts"
| "kids (OObj s kvs k) = map snd kvs"

definition kids_ok :: "jopen \<Rightarrow> nat \<Rightarrow> bool" where
  "kids_ok c n \<longleftrightarrow> n < JSTOK_MAX_DEPTH \<and> (\<forall>t\<in>set (kids c). n + 1 + depth t \<le> JSTOK_MAX_DEPTH)"

definition expects_value :: "jstok_state \<Rightarrow> bool" where
  "expects_value st \<longleftrightarrow> st = ST_ARR_VALUE_OR_END \<or> st = ST_ARR_VALUE \<or> st = ST_OBJ_VALUE"

text \<open>A value starts at \<open>s\<close> and every frame has accepted it.\<close>

fun below :: "byte list \<Rightarrow> jtree list \<Rightarrow> jopen list \<Rightarrow> jstok_frame list \<Rightarrow> nat \<Rightarrow> bool" where
  "below json tops [] [] s \<longleftrightarrow> jtop json 0 s tops \<and> (\<forall>t\<in>set tops. depth t \<le> JSTOK_MAX_DEPTH)"
| "below json tops (c # cs) (f # fs) s \<longleftrightarrow>
     kids_ok c (length cs) \<and> fr_type f = open_type c \<and> fr_st f = open_accepted c \<and> fr_tok f = int (length (ctx_below tops cs)) \<and>
     (\<exists>st. expects_value st \<and> frame_at json c st s) \<and> below json tops cs fs (open_start c)"
| "below json tops _ _ s \<longleftrightarrow> False"

fun upto :: "byte list \<Rightarrow> jtree list \<Rightarrow> jopen list \<Rightarrow> jstok_frame list \<Rightarrow> nat \<Rightarrow> bool" where
  "upto json tops [] [] pos \<longleftrightarrow> jtop json 0 pos tops \<and> (\<forall>t\<in>set tops. depth t \<le> JSTOK_MAX_DEPTH)"
| "upto json tops (c # cs) (f # fs) pos \<longleftrightarrow>
     kids_ok c (length cs) \<and> fr_type f = open_type c \<and> fr_tok f = int (length (ctx_below tops cs)) \<and>
     frame_at json c (fr_st f) pos \<and> below json tops cs fs (open_start c)"
| "upto json tops _ _ pos \<longleftrightarrow> False"

definition toks_are :: "jstoktok list \<Rightarrow> jstok_parser \<Rightarrow> jtoks \<Rightarrow> jstoktok list \<Rightarrow> bool" where
  "toks_are arr p toks c \<longleftrightarrow>
     jp_toknext p = length c \<and> length c \<le> length arr \<and> toks = Some (c @ drop (length c) arr)"

text \<open>The invariant between turns, and the one inside a turn once a value has been accepted.\<close>

definition turn_inv ::
  "bool \<Rightarrow> byte list \<Rightarrow> jstoktok list \<Rightarrow> jtree list \<Rightarrow> jopen list \<Rightarrow> jstok_parser \<Rightarrow> jtoks \<Rightarrow> bool" where
  "turn_inv strict json arr tops os p toks \<longleftrightarrow>
     upto json tops os (jp_stack p) (jp_pos p) \<and> toks_are arr p toks (ctx tops os) \<and>
     (jp_root_done p \<longleftrightarrow> tops \<noteq> [] \<or> os \<noteq> []) \<and> (strict \<longrightarrow> length tops + (if os = [] then 0 else 1) \<le> 1)"

definition value_inv ::
  "bool \<Rightarrow> byte list \<Rightarrow> jstoktok list \<Rightarrow> jtree list \<Rightarrow> jopen list \<Rightarrow> nat \<Rightarrow> jstok_parser \<Rightarrow> jtoks
     \<Rightarrow> jstoktok list \<Rightarrow> bool" where
  "value_inv strict json arr tops os s p toks extra \<longleftrightarrow>
     below json tops os (jp_stack p) s \<and> toks_are arr p toks (ctx_below tops os @ extra) \<and>
     jp_root_done p \<and> (strict \<longrightarrow> tops = [])"

end
