(* ===== verification/JstokSound.thy ===== *)
theory JstokSound
  imports JstokGrammar
begin

text \<open>
  Soundness of the tokenizer: every successful turn keeps the invariant of \<open>JstokGrammar\<close>,
  so an accepted input is a sequence of JSON values and the tokens are those of its trees.
\<close>

section \<open>White space, commas and colons\<close>

lemma frame_at_space:
  assumes f: "frame_at json c st pos" and l: "pos < length json" "jstok_is_space (json ! pos)"
  shows "frame_at json c st (pos + 1)"
proof -
  have w: "ws json a pos \<Longrightarrow> ws json a (Suc pos)" for a using ws_snoc [OF _ l] by simp
  show ?thesis
  proof (cases c)
    case (OArr s ts)
    have "jelems json (s + 1) pos ts \<Longrightarrow> jelems json (s + 1) (pos + 1) ts"
      using jelems_space [OF _ l] by blast
    with f OArr show ?thesis by (auto simp: elems_open_def intro: w)
  next
    case (OObj s kvs k)
    have "jmembers json (s + 1) pos kvs \<Longrightarrow> jmembers json (s + 1) (pos + 1) kvs"
      using jmembers_space [OF _ l] by blast
    with f OObj show ?thesis
      unfolding OObj frame_at.simps Suc_eq_plus1 [symmetric] by (elim conjE disjE exE) (blast intro: w)+
  qed
qed

lemma upto_space:
  assumes "upto json tops os fs pos" "pos < length json" "jstok_is_space (json ! pos)"
  shows "upto json tops os fs (pos + 1)"
  using assms jtop_space [of json 0 pos tops] frame_at_space
  by (cases os; cases fs) (auto simp del: frame_at.simps)

lemma upto_top:
  assumes "upto json tops os fs pos"
  shows "os = [] \<and> fs = [] \<and> jtop json 0 pos tops \<and> (\<forall>t\<in>set tops. depth t \<le> JSTOK_MAX_DEPTH) \<or>
    (\<exists>c cs f fs'. os = c # cs \<and> fs = f # fs' \<and> kids_ok c (length cs) \<and> fr_type f = open_type c \<and>
       fr_tok f = int (length (ctx_below tops cs)) \<and> frame_at json c (fr_st f) pos \<and>
       below json tops cs fs' (open_start c))"
  using assms by (cases os; cases fs) (auto simp del: frame_at.simps)

lemma frame_at_comma:
  "frame_at json c (open_accepted c) pos \<Longrightarrow> at_pos json pos C_COMMA \<Longrightarrow>
     frame_at json c (if open_type c = JSTOK_OBJECT then ST_OBJ_KEY else ST_ARR_VALUE) (pos + 1)"
  by (cases c) (auto simp: elems_open_def at_pos_def intro!: exI [of _ pos] ws_refl)

lemma frame_at_colon:
  "frame_at json c ST_OBJ_COLON pos \<Longrightarrow> at_pos json pos C_COLON \<Longrightarrow> frame_at json c ST_OBJ_VALUE (pos + 1)"
  by (cases c) (auto simp: at_pos_def intro!: exI [of "\<lambda>c. ws json _ c \<and> _ c" pos] ws_refl)

lemma upto_set_top:
  "upto json tops (c # cs) (f # fs) pos \<Longrightarrow> frame_at json c st pos' \<Longrightarrow>
     upto json tops (c # cs) (f\<lparr>fr_st := st\<rparr> # fs) pos'"
  by (simp del: frame_at.simps)

lemma turn_inv_move:
  assumes "turn_inv strict json arr tops os p toks" "upto json tops os fs pos"
  shows "turn_inv strict json arr tops os (p\<lparr>jp_stack := fs, jp_pos := pos\<rparr>) toks"
  using assms by (simp add: turn_inv_def toks_are_def)

lemma jstok_comma_inv:
  assumes inv: "turn_inv strict json arr tops os p toks" and c: "jstok_comma p = (None, p')"
    and a: "at_pos json (jp_pos p) C_COMMA"
  shows "turn_inv strict json arr tops os p' toks"
proof -
  have u: "upto json tops os (jp_stack p) (jp_pos p)" using inv by (simp add: turn_inv_def)
  obtain o1 cs f fs where os: "os = o1 # cs" "jp_stack p = f # fs" "fr_type f = open_type o1"
    "frame_at json o1 (fr_st f) (jp_pos p)"
    using upto_top [OF u] c by (auto simp: jstok_comma_def jstok_top_def jstok_inval_def)
  let ?st = "if open_type o1 = JSTOK_OBJECT then ST_OBJ_KEY else ST_ARR_VALUE"
  have acc: "fr_st f = open_accepted o1" and p': "p' = p\<lparr>jp_stack := f\<lparr>fr_st := ?st\<rparr> # fs, jp_pos := jp_pos p + 1\<rparr>"
    using c os by (cases o1; auto simp: jstok_comma_def jstok_top_def jstok_inval_def jstok_set_st_def split: if_splits)+
  have "upto json tops os (f\<lparr>fr_st := ?st\<rparr> # fs) (jp_pos p + 1)"
    using upto_set_top frame_at_comma [OF _ a] u os acc by metis
  from turn_inv_move [OF inv this] p' show ?thesis by simp
qed

lemma jstok_colon_inv:
  assumes inv: "turn_inv strict json arr tops os p toks" and c: "jstok_colon p = (None, p')"
    and a: "at_pos json (jp_pos p) C_COLON"
  shows "turn_inv strict json arr tops os p' toks"
proof -
  have u: "upto json tops os (jp_stack p) (jp_pos p)" using inv by (simp add: turn_inv_def)
  obtain o1 cs f fs where os: "os = o1 # cs" "jp_stack p = f # fs" "fr_type f = open_type o1"
    "frame_at json o1 (fr_st f) (jp_pos p)"
    using upto_top [OF u] c by (auto simp: jstok_colon_def jstok_top_def jstok_inval_def)
  have st: "fr_st f = ST_OBJ_COLON" and p': "p' = p\<lparr>jp_stack := f\<lparr>fr_st := ST_OBJ_VALUE\<rparr> # fs, jp_pos := jp_pos p + 1\<rparr>"
    using c os by (auto simp: jstok_colon_def jstok_top_def jstok_inval_def jstok_set_st_def split: if_splits)
  have "upto json tops os (f\<lparr>fr_st := ST_OBJ_VALUE\<rparr> # fs) (jp_pos p + 1)"
    using upto_set_top frame_at_colon [OF _ a] u os st by metis
  from turn_inv_move [OF inv this] p' show ?thesis by simp
qed

section \<open>Accepting a value\<close>

lemma tok_add_size_append:
  "tok_add_size (Some (xs @ t # ys)) (int (length xs)) d = Some (xs @ t\<lparr>tk_size := tk_size t + d\<rparr> # ys)"
  by (simp add: tok_add_size_def)

lemma open_toks_Suc:
  "\<exists>t ts. open_toks 0 c = t # ts \<and> open_toks 1 c = t\<lparr>tk_size := tk_size t + 1\<rparr> # ts"
  by (cases c) (auto simp: jtok_open_def)

lemma open_toks_length: "length (open_toks n c) = length (open_toks 0 c)"
  by (cases c) simp_all

lemma accepts_iff:
  assumes "frame_at json c st pos"
  shows "expects_value st \<longleftrightarrow>
    (case open_type c of JSTOK_ARRAY \<Rightarrow> st = ST_ARR_VALUE_OR_END \<or> st = ST_ARR_VALUE | _ \<Rightarrow> st = ST_OBJ_VALUE)"
  using assms by (cases c) (auto simp: expects_value_def)

lemma jstok_accept_value_inv:
  assumes inv: "turn_inv strict json arr tops os p toks"
    and a: "jstok_accept_value strict p toks = (None, p1, toks1)"
  shows "value_inv strict json arr tops os (jp_pos p) p1 toks1 [] \<and> jp_pos p1 = jp_pos p"
proof -
  have u: "upto json tops os (jp_stack p) (jp_pos p)" and t: "toks_are arr p toks (ctx tops os)"
    and r: "jp_root_done p \<longleftrightarrow> tops \<noteq> [] \<or> os \<noteq> []"
    and st: "strict \<longrightarrow> length tops + (if os = [] then 0 else 1) \<le> 1"
    using inv by (simp_all add: turn_inv_def)
  from upto_top [OF u] show ?thesis
  proof (elim disjE exE conjE)
    assume "os = []" "jp_stack p = []" "jtop json 0 (jp_pos p) tops" "\<forall>t\<in>set tops. depth t \<le> JSTOK_MAX_DEPTH"
    with a t r show ?thesis
      by (auto simp: jstok_accept_value_def jstok_top_def jstok_inval_def value_inv_def toks_are_def
          split: if_splits)
  next
    fix c cs f fs
    assume k: "kids_ok c (length cs)" and os: "os = c # cs" "jp_stack p = f # fs" "fr_type f = open_type c"
      "fr_tok f = int (length (ctx_below tops cs))" "frame_at json c (fr_st f) (jp_pos p)"
      "below json tops cs fs (open_start c)"
    have ac: "expects_value (fr_st f)" and p1: "p1 = jstok_set_st p (open_accepted c)"
      and t1: "toks1 = tok_add_size toks (fr_tok f) 1"
      using a os accepts_iff [OF os(5)]
      by (cases c; auto simp: jstok_accept_value_def jstok_top_def jstok_inval_def
          jstok_inc_container_size_def Let_def split: if_splits)+
    have p1': "p1 = p\<lparr>jp_stack := f\<lparr>fr_st := open_accepted c\<rparr> # fs\<rparr>"
      using p1 os(2) by (simp add: jstok_set_st_def)
    obtain h b where h: "open_toks 0 c = h # b" "open_toks 1 c = h\<lparr>tk_size := tk_size h + 1\<rparr> # b"
      using open_toks_Suc by blast
    have "toks_are arr p1 toks1 (ctx_below tops os)"
      using t os(1) h tok_add_size_append [of "ctx_below tops cs" h] os(4)
      by (simp add: toks_are_def t1 p1')
    moreover have "below json tops os (jp_stack p1) (jp_pos p)"
      using os ac p1' k by (auto simp del: frame_at.simps)
    moreover have "jp_root_done p1" "strict \<longrightarrow> tops = []" using r st os(1) p1' by auto
    ultimately show ?thesis using p1' by (simp add: value_inv_def)
  qed
qed

lemma jstok_new_token_toks:
  assumes t: "toks_are arr p toks c" and n: "jstok_new_token p toks ty a b = (Inr i, p', toks')"
  shows "toks_are arr p' toks' (c @ [\<lparr>tk_type = ty, tk_start = a, tk_end = b, tk_size = 0\<rparr>]) \<and>
    i = length c \<and> p' = p\<lparr>jp_toknext := jp_toknext p + 1\<rparr>"
proof -
  have lt: "length c < length arr" and p': "p' = p\<lparr>jp_toknext := length c + 1\<rparr>" "i = length c"
    and t': "toks' = Some ((c @ drop (length c) arr)[length c := \<lparr>tk_type = ty, tk_start = a, tk_end = b, tk_size = 0\<rparr>])"
    using t n by (auto simp: toks_are_def jstok_new_token_def split: if_splits)
  have "drop (length c) arr = arr ! length c # drop (length c + 1) arr"
    using lt take_drop_Cons by auto
  then have "toks' = Some (c @ \<lparr>tk_type = ty, tk_start = a, tk_end = b, tk_size = 0\<rparr> # drop (length c + 1) arr)"
    using list_update_length [of c] unfolding t' by simp
  with t lt p' show ?thesis by (simp add: toks_are_def)
qed

lemma jstok_new_token_inv:
  assumes "value_inv strict json arr tops os s p toks ex" "jstok_new_token p toks ty a b = (Inr i, p', toks')"
  shows "value_inv strict json arr tops os s p' toks'
      (ex @ [\<lparr>tk_type = ty, tk_start = a, tk_end = b, tk_size = 0\<rparr>]) \<and>
    i = length (ctx_below tops os @ ex) \<and> jp_pos p' = jp_pos p \<and> jp_stack p' = jp_stack p"
  using assms jstok_new_token_toks [OF _ assms(2), of arr "ctx_below tops os @ ex"]
  by (auto simp: value_inv_def)

section \<open>Completing a value\<close>

fun add_child :: "jtree \<Rightarrow> jopen \<Rightarrow> jopen" where
  "add_child t (OArr s ts) = OArr s (ts @ [t])"
| "add_child t (OObj s kvs k) = OObj s (kvs @ [(the k, t)]) None"

lemma add_child_simps [simp]:
  "open_start (add_child t c) = open_start c" "open_type (add_child t c) = open_type c"
  "open_accepted (add_child t c) = open_accepted c"
  by (cases c; simp)+

lemma add_child_toks:
  assumes "frame_at json c st s" "expects_value st"
  shows "open_toks 0 (add_child t c) = open_toks 1 c @ flat t"
  using assms by (cases c) (auto simp: expects_value_def)

lemma kids_ok_add:
  "kids_ok c n \<Longrightarrow> n + 1 + depth t \<le> JSTOK_MAX_DEPTH \<Longrightarrow> kids_ok (add_child t c) n"
  by (cases c) (auto simp: kids_ok_def)

lemma below_length:
  "below json tops os fs s \<Longrightarrow> length fs = length os \<and> length os \<le> JSTOK_MAX_DEPTH"
  by (induction json tops os fs s rule: below.induct) (auto simp: kids_ok_def simp del: frame_at.simps)

lemma elems_open_add:
  assumes "st = ST_ARR_VALUE_OR_END \<and> ts = [] \<and> ws json p s \<or> st = ST_ARR_VALUE \<and> elems_open json p s ts"
    and "jvalue json s e t" "e \<le> length json"
  shows "jelems json p e (ts @ [t])"
  using assms e_one [of json p s e t e] e_more [of json p _ ts s e t e] by (auto simp: elems_open_def)

lemma members_open_add:
  assumes "members_open json p a kvs" "jstring json a b" "ws json (b + 1) c" "at_pos json c C_COLON"
    "ws json (c + 1) s" "jvalue json s e t" "e \<le> length json"
  shows "jmembers json p e (kvs @ [((a + 1, b), t)])"
  using assms(1) unfolding members_open_def
proof
  assume "kvs = [] \<and> ws json p a"
  with m_one [OF _ assms(2-6) ws_refl [OF assms(7)]] show ?thesis by simp
next
  assume "\<exists>c. jmembers json p c kvs \<and> at_pos json c C_COMMA \<and> ws json (c + 1) a"
  with m_more [OF _ _ _ assms(2-6) ws_refl [OF assms(7)]] show ?thesis by blast
qed

lemma frame_at_add_child:
  assumes "frame_at json c st s" "expects_value st" "jvalue json s e t" "e \<le> length json"
  shows "frame_at json (add_child t c) (open_accepted c) e"
proof (cases c)
  case (OArr s0 ts)
  with assms elems_open_add [of st ts json "s0 + 1" s e t] show ?thesis
    by (auto simp: expects_value_def)
next
  case (OObj s0 kvs k)
  with assms members_open_add [of json "s0 + 1" _ kvs _ _ s e t] show ?thesis
    by (auto simp: expects_value_def)
qed

lemma complete_value:
  assumes inv: "value_inv strict json arr tops os s p toks (flat t)" and v: "jvalue json s e t"
    and e: "jp_pos p = e" "e \<le> length json" and d: "length os + depth t \<le> JSTOK_MAX_DEPTH"
  shows "\<exists>tops' os'. turn_inv strict json arr tops' os' p toks"
proof (cases os)
  case Nil
  with inv have "jp_stack p = []" "jtop json 0 s tops" "\<forall>t\<in>set tops. depth t \<le> JSTOK_MAX_DEPTH"
    by (cases "jp_stack p"; simp add: value_inv_def)+
  with inv top_more [OF _ v ws_refl [OF e(2)], of 0 tops] Nil e(1) d
  have "turn_inv strict json arr (tops @ [t]) [] p toks"
    by (simp add: value_inv_def turn_inv_def)
  then show ?thesis by blast
next
  case (Cons c cs)
  with inv obtain f fs st where k: "kids_ok c (length cs)" and st: "jp_stack p = f # fs" "fr_type f = open_type c" "fr_st f = open_accepted c"
    "fr_tok f = int (length (ctx_below tops cs))" "expects_value st" "frame_at json c st s"
    "below json tops cs fs (open_start c)"
    by (cases "jp_stack p") (auto simp: value_inv_def simp del: frame_at.simps)
  have "upto json tops (add_child t c # cs) (jp_stack p) (jp_pos p)"
    using st frame_at_add_child [OF st(6,5) v e(2)] e(1) kids_ok_add [OF k] d Cons by (simp del: frame_at.simps)
  moreover have "toks_are arr p toks (ctx tops (add_child t c # cs))"
    using inv Cons add_child_toks [OF st(6,5)] by (simp add: value_inv_def)
  ultimately have "turn_inv strict json arr tops (add_child t c # cs) p toks"
    using inv by (simp add: value_inv_def turn_inv_def)
  then show ?thesis by blast
qed

lemma value_inv_upd:
  "value_inv strict json arr tops os s (p\<lparr>jp_pos := q\<rparr>) toks ex = value_inv strict json arr tops os s p toks ex"
  by (simp add: value_inv_def toks_are_def)

section \<open>Single-token values and keys\<close>

lemma drop_split:
  assumes "drop a xs = w @ rest" "a \<le> length xs"
  shows "slice xs a (a + length w) = w" "drop (a + length w) xs = rest" "a + length w \<le> length xs"
proof -
  show "slice xs a (a + length w) = w" using assms(1) by (simp add: slice_def)
  have "drop (length w) (drop a xs) = rest" using assms(1) by simp
  then show "drop (a + length w) xs = rest" by (simp add: add.commute)
  have "length w \<le> length (drop a xs)" using assms(1) by simp
  then show "a + length w \<le> length xs" using assms(2) by simp
qed

lemma jstok_string_found:
  assumes q: "jp_pos p < length json" "json ! jp_pos p = C_QUOTE"
    and s: "jstok_scan_string (jp_pos p + 1) (drop (jp_pos p + 1) json) = Inr close"
  shows "jstring json (jp_pos p) close \<and> close + 1 \<le> length json"
proof -
  obtain w rest where w: "drop (jp_pos p + 1) json = w @ C_QUOTE # rest" "close = jp_pos p + 1 + length w"
    "json_chars w" using jstok_scan_string_sound [OF s] by blast
  have l: "jp_pos p + 1 \<le> length json" using q by simp
  note d = drop_split [OF w(1) l]
  have "drop close json = C_QUOTE # rest" using d(2) w(2) by simp
  then have "at_pos json close C_QUOTE"
    unfolding at_pos_def by (metis drop_eq_Nil2 hd_drop_conv_nth list.distinct(1) list.sel(1) not_less)
  then show ?thesis using d(1) w q by (simp add: jstring_def at_pos_def)
qed

lemma jstok_parse_string_token_OK:
  assumes "jstok_parse_string_token p json toks = (None, p', toks')"
  obtains close q i where "jstring json (jp_pos p) close" "close + 1 \<le> length json"
    "jstok_new_token (p\<lparr>jp_pos := close\<rparr>) toks JSTOK_STRING (int (jp_pos p + 1)) (int close) = (Inr i, q, toks')"
    "p' = q\<lparr>jp_pos := close + 1\<rparr>"
proof -
  have q: "jp_pos p < length json" "json ! jp_pos p = C_QUOTE"
    using assms by (auto simp: jstok_parse_string_token_def jstok_inval_def split: if_splits)
  obtain close where c: "jstok_scan_string (jp_pos p + 1) (drop (jp_pos p + 1) json) = Inr close"
    using assms q by (auto simp: jstok_parse_string_token_def split: sum.splits)
  obtain r q' toks1 where n: "jstok_new_token (p\<lparr>jp_pos := close\<rparr>) toks JSTOK_STRING (int (jp_pos p + 1)) (int close) = (r, q', toks1)"
    by (metis prod_cases3)
  have n': "jstok_new_token (p\<lparr>jp_pos := close\<rparr>) toks JSTOK_STRING (int (jp_pos p) + 1) (int close) = (r, q', toks1)"
    using n by (simp add: add.commute)
  obtain i where "r = Inr i" "p' = q'\<lparr>jp_pos := close + 1\<rparr>" "toks' = toks1"
    using assms q c n' by (auto simp: jstok_parse_string_token_def split: sum.splits)
  with jstok_string_found [OF q c] n that show thesis by blast
qed

lemma jstok_parse_primitive_token_OK:
  assumes "jstok_parse_primitive_token strict p json toks = (None, p', toks')" "jp_pos p < length json"
  obtains stop i where "jprim json (jp_pos p) stop" "stop \<le> length json"
    "jstok_new_token (p\<lparr>jp_pos := stop\<rparr>) toks JSTOK_PRIMITIVE (int (jp_pos p)) (int stop) = (Inr i, p', toks')"
proof -
  obtain stop where c: "jstok_scan_primitive strict (jp_pos p) (drop (jp_pos p) json) = Inr stop"
    using assms by (auto simp: jstok_parse_primitive_token_def split: sum.splits)
  obtain w rest where w: "drop (jp_pos p) json = w @ rest" "stop = jp_pos p + length w" "json_primitive w rest"
    using jstok_scan_primitive_sound [OF c] by blast
  note d = drop_split [OF w(1) less_imp_le [OF assms(2)]]
  have j: "jprim json (jp_pos p) stop"
    using d w jstok_scan_primitive_bounds [OF c] by (simp add: jprim_def)
  obtain i where "jstok_new_token (p\<lparr>jp_pos := stop\<rparr>) toks JSTOK_PRIMITIVE (int (jp_pos p)) (int stop) = (Inr i, p', toks')"
    using assms c by (auto simp: jstok_parse_primitive_token_def split: sum.splits prod.splits)
  with j d(3) w(2) that show thesis by simp
qed

lemma jstok_string_value_inv:
  assumes inv: "value_inv strict json arr tops os (jp_pos p) p toks []"
    and s: "jstok_parse_string_token p json toks = (None, p', toks')"
  shows "\<exists>tops' os'. turn_inv strict json arr tops' os' p' toks'"
  using s
proof (rule jstok_parse_string_token_OK)
  fix close q i
  assume j: "jstring json (jp_pos p) close" "close + 1 \<le> length json"
    and n: "jstok_new_token (p\<lparr>jp_pos := close\<rparr>) toks JSTOK_STRING (int (jp_pos p + 1)) (int close) = (Inr i, q, toks')"
    and p': "p' = q\<lparr>jp_pos := close + 1\<rparr>"
  have "value_inv strict json arr tops os (jp_pos p) (p\<lparr>jp_pos := close\<rparr>) toks []"
    using inv by (simp add: value_inv_upd)
  from jstok_new_token_inv [OF this n]
  have "value_inv strict json arr tops os (jp_pos p) p' toks' (flat (JStr (jp_pos p + 1) close))"
    by (simp add: p' value_inv_upd jtok_def)
  from complete_value [OF this v_str [OF j(1)]] j(2) p' below_length [of json tops os "jp_stack p" "jp_pos p"] inv
  show ?thesis by (simp add: value_inv_def)
qed

lemma jstok_primitive_value_inv:
  assumes inv: "value_inv strict json arr tops os (jp_pos p) p toks []" and w: "jp_pos p < length json"
    and s: "jstok_parse_primitive_token strict p json toks = (None, p', toks')"
  shows "\<exists>tops' os'. turn_inv strict json arr tops' os' p' toks'"
  using s w
proof (rule jstok_parse_primitive_token_OK)
  fix stop i
  assume j: "jprim json (jp_pos p) stop" "stop \<le> length json"
    and n: "jstok_new_token (p\<lparr>jp_pos := stop\<rparr>) toks JSTOK_PRIMITIVE (int (jp_pos p)) (int stop) = (Inr i, p', toks')"
  have "value_inv strict json arr tops os (jp_pos p) (p\<lparr>jp_pos := stop\<rparr>) toks []"
    using inv by (simp add: value_inv_upd)
  from jstok_new_token_inv [OF this n]
  have "value_inv strict json arr tops os (jp_pos p) p' toks' (flat (JPrim (jp_pos p) stop))" "jp_pos p' = stop"
    by (simp_all add: jtok_def)
  from complete_value [OF this(1) v_prim [OF j(1)] this(2) j(2)] below_length [of json tops os "jp_stack p" "jp_pos p"] inv
  show ?thesis by (simp add: value_inv_def)
qed

lemma toks_are_pos [simp]: "toks_are arr (p\<lparr>jp_pos := q\<rparr>) toks c = toks_are arr p toks c"
  by (simp add: toks_are_def)

lemma frame_at_key:
  assumes "frame_at json c st a" "st = ST_OBJ_KEY_OR_END \<or> st = ST_OBJ_KEY" "jstring json a b" "b + 1 \<le> length json"
  obtains s kvs where "c = OObj s kvs None" "frame_at json (OObj s kvs (Some (a + 1, b))) ST_OBJ_COLON (b + 1)"
proof (cases c)
  case (OArr s ts)
  with assms show ?thesis by auto
next
  case (OObj s kvs k)
  with assms have k: "k = None" "at_pos json s C_LBRACE" "members_open json (s + 1) a kvs"
    by (auto simp: members_open_def)
  have "frame_at json (OObj s kvs (Some (a + 1, b))) ST_OBJ_COLON (b + 1)"
    unfolding frame_at.simps using k assms(3) ws_refl [OF assms(4)] by blast
  with OObj k(1) that show ?thesis by blast
qed

lemma jstok_key_inv:
  assumes inv: "turn_inv strict json arr tops os p toks" and x: "jstok_expects_key p"
    and s: "jstok_parse_string_token p json toks = (None, p1, toks')" and k: "jstok_accept_key p1 = (None, p')"
  shows "\<exists>os'. turn_inv strict json arr tops os' p' toks'"
  using s
proof (rule jstok_parse_string_token_OK)
  fix close q i
  assume j: "jstring json (jp_pos p) close" "close + 1 \<le> length json"
    and n: "jstok_new_token (p\<lparr>jp_pos := close\<rparr>) toks JSTOK_STRING (int (jp_pos p + 1)) (int close) = (Inr i, q, toks')"
    and p1: "p1 = q\<lparr>jp_pos := close + 1\<rparr>"
  have u: "upto json tops os (jp_stack p) (jp_pos p)" and t: "toks_are arr (p\<lparr>jp_pos := close\<rparr>) toks (ctx tops os)"
    using inv by (simp_all add: turn_inv_def)
  obtain c cs f fs where os: "os = c # cs" "jp_stack p = f # fs" "fr_type f = open_type c"
    "fr_tok f = int (length (ctx_below tops cs))" "frame_at json c (fr_st f) (jp_pos p)"
    "below json tops cs fs (open_start c)" and kd: "kids_ok c (length cs)" and st: "fr_st f = ST_OBJ_KEY_OR_END \<or> fr_st f = ST_OBJ_KEY"
    using upto_top [OF u] x by (auto simp: jstok_expects_key_def jstok_top_def)
  obtain s kvs where c: "c = OObj s kvs None"
    and fr: "frame_at json (OObj s kvs (Some (jp_pos p + 1, close))) ST_OBJ_COLON (close + 1)"
    using frame_at_key [OF os(5) st j] by blast
  let ?os = "OObj s kvs (Some (jp_pos p + 1, close)) # cs"
  note nt = jstok_new_token_toks [OF t n]
  have p': "p' = p1\<lparr>jp_stack := f\<lparr>fr_st := ST_OBJ_COLON\<rparr> # fs\<rparr>" "jp_stack q = f # fs"
    using k p1 nt os(2) by (auto simp: jstok_accept_key_def jstok_inval_def jstok_top_def jstok_set_st_def
        split: if_splits)
  have "upto json tops ?os (jp_stack p') (jp_pos p')"
    using os c fr p' p1 kd by (simp add: kids_ok_def del: frame_at.simps)
  moreover have "toks_are arr p' toks' (ctx tops ?os)"
    using conjunct1 [OF nt] os(1) c p' p1 by (simp add: toks_are_def jtok_def add.commute)
  ultimately have "turn_inv strict json arr tops ?os p' toks'"
    using inv os(1) p' p1 nt by (simp add: turn_inv_def)
  then show ?thesis by blast
qed

section \<open>Containers\<close>

definition new_open :: "jstoktype \<Rightarrow> nat \<Rightarrow> jopen" where
  "new_open ty s = (if ty = JSTOK_OBJECT then OObj s [] None else OArr s [])"

lemma jstok_start_container_inv:
  assumes inv: "turn_inv strict json arr tops os p toks"
    and s: "jstok_start_container strict p toks ty = (None, p', toks')"
    and ty: "ty = JSTOK_OBJECT \<and> at_pos json (jp_pos p) C_LBRACE \<or> ty = JSTOK_ARRAY \<and> at_pos json (jp_pos p) C_LBRACK"
  shows "\<exists>os'. turn_inv strict json arr tops os' p' toks'"
proof -
  let ?st = "if ty = JSTOK_OBJECT then ST_OBJ_KEY_OR_END else ST_ARR_VALUE_OR_END"
  obtain p1 toks1 where a: "jstok_accept_value strict p toks = (None, p1, toks1)"
    using s by (auto simp: jstok_start_container_def split: prod.splits option.splits)
  note av = jstok_accept_value_inv [OF inv a]
  obtain i p2 where n: "jstok_new_token p1 toks1 ty (int (jp_pos p1)) (-1) = (Inr i, p2, toks')"
    using s a by (auto simp: jstok_start_container_def Let_def split: prod.splits sum.splits option.splits)
  have n': "jstok_new_token p1 toks1 ty (int (jp_pos p)) (-1) = (Inr i, p2, toks')" using n av by simp
  note nt = jstok_new_token_inv [OF conjunct1 [OF av] n']
  have ts: "toks \<noteq> None" using inv by (auto simp: turn_inv_def toks_are_def)
  have p': "p' = p2\<lparr>jp_stack := \<lparr>fr_type = ty, fr_st = ?st, fr_tok = int i\<rparr> # jp_stack p2, jp_pos := jp_pos p2 + 1\<rparr>"
    using s a n ts
    by (auto simp: jstok_start_container_def jstok_push_def jstok_set_error_def Let_def
        split: if_splits sum.splits option.splits)
  let ?os = "new_open ty (jp_pos p) # os"
  have pos: "jp_pos p2 = jp_pos p" "jp_pos p + 1 \<le> length json"
    using nt av ty by (auto simp: at_pos_def)
  have fr: "frame_at json (new_open ty (jp_pos p)) ?st (jp_pos p + 1)"
    using ty ws_refl [OF pos(2)] by (auto simp: new_open_def)
  have no: "open_type (new_open ty (jp_pos p)) = ty" "open_start (new_open ty (jp_pos p)) = jp_pos p"
    "open_toks 0 (new_open ty (jp_pos p)) = [jtok_open ty (jp_pos p) 0]"
    using ty by (auto simp: new_open_def)
  have "length (jp_stack p2) < JSTOK_MAX_DEPTH"
    using s a n by (auto simp: jstok_start_container_def jstok_push_def Let_def split: if_splits option.splits)
  then have kd: "kids_ok (new_open ty (jp_pos p)) (length os)"
    using below_length [of json tops os "jp_stack p2" "jp_pos p"] nt by (auto simp: kids_ok_def new_open_def value_inv_def)
  have "upto json tops ?os (jp_stack p') (jp_pos p')"
    using p' pos fr no nt kd by (auto simp: value_inv_def simp del: frame_at.simps)
  moreover have "toks_are arr p' toks' (ctx tops ?os)"
    using nt no p' by (simp add: value_inv_def toks_are_def jtok_open_def)
  ultimately have "turn_inv strict json arr tops ?os p' toks'"
    using nt p' by (simp add: turn_inv_def value_inv_def)
  then show ?thesis by blast
qed

text \<open>Closing a container completes the value that started with it.\<close>

lemma tok_close_append:
  "tok_close (Some (xs @ jtok_open ty s n # ys)) (int (length xs)) pos ty = Some (xs @ jtok ty s (pos + 1) n # ys)"
  by (simp add: tok_close_def jtok_open_def jtok_def)

definition closed_tree :: "jopen \<Rightarrow> nat \<Rightarrow> jtree" where
  "closed_tree c e = (case c of OArr s ts \<Rightarrow> JArr s e ts | OObj s kvs k \<Rightarrow> JObj s e kvs)"

lemma frame_at_close:
  assumes f: "frame_at json c st pos" and q: "at_pos json pos (if open_type c = JSTOK_OBJECT then C_RBRACE else C_RBRACK)"
    and st: "if open_type c = JSTOK_OBJECT then st = ST_OBJ_KEY_OR_END \<or> st = ST_OBJ_COMMA_OR_END
             else st = ST_ARR_VALUE_OR_END \<or> st = ST_ARR_COMMA_OR_END"
  shows "jvalue json (open_start c) (pos + 1) (closed_tree c (pos + 1))"
    and "\<exists>n ys. open_toks 0 c = jtok_open (open_type c) (open_start c) n # ys \<and>
      flat (closed_tree c (pos + 1)) = jtok (open_type c) (open_start c) (pos + 1) n # ys"
proof -
  show "jvalue json (open_start c) (pos + 1) (closed_tree c (pos + 1))"
  proof (cases c)
    case (OArr s ts)
    with assms v_arr_empty [of json s pos] v_arr [of json s pos ts] show ?thesis
      by (auto simp: closed_tree_def)
  next
    case (OObj s kvs k)
    with assms v_obj_empty [of json s pos] v_obj [of json s pos kvs] show ?thesis
      by (auto simp: closed_tree_def)
  qed
  show "\<exists>n ys. open_toks 0 c = jtok_open (open_type c) (open_start c) n # ys \<and>
      flat (closed_tree c (pos + 1)) = jtok (open_type c) (open_start c) (pos + 1) n # ys"
    using f st by (cases c) (auto simp: closed_tree_def flat_containers simp del: flat.simps)
qed

lemma jstok_end_container_inv:
  assumes inv: "turn_inv strict json arr tops os p toks"
    and s: "jstok_end_container p toks ty = (None, p', toks')"
    and ty: "ty = JSTOK_OBJECT \<and> at_pos json (jp_pos p) C_RBRACE \<or> ty = JSTOK_ARRAY \<and> at_pos json (jp_pos p) C_RBRACK"
  shows "\<exists>tops' os'. turn_inv strict json arr tops' os' p' toks'"
proof -
  have u: "upto json tops os (jp_stack p) (jp_pos p)" and t: "toks_are arr p toks (ctx tops os)"
    using inv by (simp_all add: turn_inv_def)
  obtain c cs f fs where os: "os = c # cs" "jp_stack p = f # fs" "fr_type f = open_type c"
    "fr_tok f = int (length (ctx_below tops cs))" "frame_at json c (fr_st f) (jp_pos p)"
    "below json tops cs fs (open_start c)" and kd: "kids_ok c (length cs)"
    using upto_top [OF u] s by (auto simp: jstok_end_container_def jstok_top_def jstok_inval_def Let_def)
  have eq: "open_type c = ty" and p': "p' = p\<lparr>jp_stack := fs, jp_pos := jp_pos p + 1\<rparr>"
    and t': "toks' = tok_close toks (fr_tok f) (jp_pos p) ty"
    and st: "if open_type c = JSTOK_OBJECT then fr_st f = ST_OBJ_KEY_OR_END \<or> fr_st f = ST_OBJ_COMMA_OR_END
             else fr_st f = ST_ARR_VALUE_OR_END \<or> fr_st f = ST_ARR_COMMA_OR_END"
    using s os by (auto simp: jstok_end_container_def jstok_top_def jstok_inval_def jstok_pop_def Let_def
        split: if_splits)
  have q: "at_pos json (jp_pos p) (if open_type c = JSTOK_OBJECT then C_RBRACE else C_RBRACK)"
    using ty eq by auto
  note cl = frame_at_close [OF os(5) q st]
  obtain n ys where n: "open_toks 0 c = jtok_open (open_type c) (open_start c) n # ys"
    "flat (closed_tree c (jp_pos p + 1)) = jtok (open_type c) (open_start c) (jp_pos p + 1) n # ys"
    using cl(2) by blast
  have "toks_are arr p' toks' (ctx_below tops cs @ flat (closed_tree c (jp_pos p + 1)))"
    using t os(1,4) n p' eq tok_close_append [of "ctx_below tops cs" ty "open_start c" n]
    by (simp add: toks_are_def t')
  then have "value_inv strict json arr tops cs (open_start c) p' toks' (flat (closed_tree c (jp_pos p + 1)))"
    using inv os p' by (simp add: value_inv_def turn_inv_def)
  moreover have "length cs + depth (closed_tree c (jp_pos p + 1)) \<le> JSTOK_MAX_DEPTH"
  proof -
    let ?n = "JSTOK_MAX_DEPTH - Suc (length cs)"
    have "\<forall>t\<in>set (kids c). depth t \<le> ?n" "length cs < JSTOK_MAX_DEPTH"
      using kd by (auto simp: kids_ok_def)
    moreover from this have "depth (closed_tree c (jp_pos p + 1)) \<le> Suc ?n"
      by (cases c) (simp_all add: closed_tree_def depth_le del: depth.simps)
    ultimately show ?thesis by simp
  qed
  ultimately show ?thesis using complete_value [OF _ cl(1)] q p' by (simp add: at_pos_def)
qed

section \<open>Turns and whole inputs\<close>

lemma jstok_step_inv:
  assumes inv: "turn_inv strict json arr tops os p toks" and w: "jp_pos p < length json"
    and s: "jstok_step strict json p toks = (None, p', toks')"
  shows "\<exists>tops' os'. turn_inv strict json arr tops' os' p' toks'"
proof (cases "json ! jp_pos p" rule: jstok_byte_cases)
  case space
  have "upto json tops os (jp_stack p) (jp_pos p + 1)"
    using upto_space [OF _ w space] inv by (simp add: turn_inv_def)
  from turn_inv_move [OF inv this] space s show ?thesis by (auto simp: jstok_step_eqs)
next
  case obj
  with s w jstok_start_container_inv [OF inv, of JSTOK_OBJECT] show ?thesis
    by (auto simp: jstok_step_eqs at_pos_def)
next
  case arr
  with s w jstok_start_container_inv [OF inv, of JSTOK_ARRAY] show ?thesis
    by (auto simp: jstok_step_eqs at_pos_def)
next
  case objend
  with s w jstok_end_container_inv [OF inv, of JSTOK_OBJECT] show ?thesis
    by (auto simp: jstok_step_eqs at_pos_def)
next
  case arrend
  with s w jstok_end_container_inv [OF inv, of JSTOK_ARRAY] show ?thesis
    by (auto simp: jstok_step_eqs at_pos_def)
next
  case colon
  with s w jstok_colon_inv [OF inv, of p'] show ?thesis
    by (cases "jstok_colon p") (auto simp: jstok_step_eqs at_pos_def)
next
  case comma
  with s w jstok_comma_inv [OF inv, of p'] show ?thesis
    by (cases "jstok_comma p") (auto simp: jstok_step_eqs at_pos_def)
next
  case quot
  show ?thesis
  proof (cases "jstok_expects_key p")
    case True
    with quot s obtain p1 toks1 where "jstok_parse_string_token p json toks = (None, p1, toks1)"
      "jstok_accept_key p1 = (None, p')" "toks1 = toks'"
      by (auto simp: jstok_step_eqs split: prod.splits option.splits) (metis prod.collapse)
    with jstok_key_inv [OF inv True] show ?thesis by metis
  next
    case False
    with quot s have "jstok_simple_value strict (\<lambda>q ts. jstok_parse_string_token q json ts) p toks = (None, p', toks')"
      by (simp add: jstok_step_eqs)
    then obtain p1 toks1 where a: "jstok_accept_value strict p toks = (None, p1, toks1)"
      "jstok_parse_string_token p1 json toks1 = (None, p', toks')" by (elim jstok_simple_value_pos)
    from jstok_accept_value_inv [OF inv a(1)] jstok_string_value_inv [OF _ a(2)] show ?thesis by metis
  qed
next
  case prim
  with s have "jstok_simple_value strict (\<lambda>q ts. jstok_parse_primitive_token strict q json ts) p toks = (None, p', toks')"
    by (simp add: jstok_step_eqs)
  then obtain p1 toks1 where a: "jstok_accept_value strict p toks = (None, p1, toks1)"
    "jstok_parse_primitive_token strict p1 json toks1 = (None, p', toks')" by (elim jstok_simple_value_pos)
  from jstok_accept_value_inv [OF inv a(1)] jstok_primitive_value_inv [OF _ _ a(2)] w show ?thesis by metis
qed

lemma jstok_loop_inv:
  assumes "turn_inv strict json arr tops os p toks" "jp_pos p \<le> length json"
    and "jstok_loop strict json p toks = (None, p', toks')"
  shows "\<exists>tops' os'. turn_inv strict json arr tops' os' p' toks' \<and> jp_pos p' = length json"
  using assms
proof (induction strict json p toks arbitrary: tops os rule: jstok_loop.induct)
  case (1 strict json p toks)
  show ?case
  proof (cases "jp_pos p < length json")
    case True
    obtain p1 toks1 where s: "jstok_step strict json p toks = (None, p1, toks1)"
      and l: "jstok_loop strict json p1 toks1 = (None, p', toks')"
      using 1(4) True jstok_loop.simps [of strict json p toks]
      by (auto split: prod.splits option.splits)
    obtain tops1 os1 where "turn_inv strict json arr tops1 os1 p1 toks1"
      using jstok_step_inv [OF 1(2) True s] by blast
    from 1(1) [OF True s [symmetric] refl refl this _ l] jstok_step_progress [OF s True] show ?thesis by simp
  next
    case False
    with 1(2-4) jstok_loop.simps [of strict json p toks] show ?thesis by auto
  qed
qed

lemma turn_inv_init:
  "turn_inv strict json arr [] [] (jstok_init\<lparr>jp_error_pos := -1, jp_error_code := None\<rparr>) (Some arr)"
  using top_none [OF ws_refl, of 0 json]
  by (simp add: turn_inv_def toks_are_def jstok_init_def)

lemma jstok_parse_sound:
  assumes "jstok_parse strict jstok_init (Some json) (Some arr) = (Inr n, p, toks)"
  shows "\<exists>ts. jtop json 0 (length json) ts \<and> (\<forall>t\<in>set ts. depth t \<le> JSTOK_MAX_DEPTH) \<and>
    n = length (flats ts) \<and> n \<le> length arr \<and>
    toks = Some (flats ts @ drop n arr) \<and> (strict \<longrightarrow> length ts = 1)"
proof -
  let ?p = "jstok_init\<lparr>jp_error_pos := -1, jp_error_code := None\<rparr>"
  obtain p1 where l: "jstok_loop strict json ?p (Some arr) = (None, p1, toks)" and p1: "p1 = p" "jp_stack p1 = []"
    "strict \<longrightarrow> jp_root_done p1" "n = jp_toknext p1"
    using assms by (auto simp: jstok_parse_def split: prod.splits option.splits if_splits)
  obtain tops os where inv: "turn_inv strict json arr tops os p1 toks" "jp_pos p1 = length json"
    using jstok_loop_inv [OF turn_inv_init _ l] by (auto simp: jstok_init_def)
  then have "os = []" using p1(2) upto_top [of json tops os "jp_stack p1"] by (auto simp: turn_inv_def)
  with inv p1 show ?thesis
    by (intro exI [of _ tops]) (auto simp: turn_inv_def toks_are_def le_Suc_eq)
qed

end
