(* ===== verification/JstokComplete.thy ===== *)
theory JstokComplete
  imports JstokSound
begin

text \<open>
  Completeness of the tokenizer: every sequence of JSON values nested at most
  \<open>JSTOK_MAX_DEPTH\<close> deep is accepted when the token array has room for it.
\<close>

section \<open>Single turns\<close>

lemma loop_step:
  "jp_pos p < length json \<Longrightarrow> jstok_step strict json p toks = (None, p1, toks1) \<Longrightarrow>
     jstok_loop strict json p toks = jstok_loop strict json p1 toks1"
  by (subst jstok_loop.simps) simp

lemma loop_space:
  assumes "ws json a b"
  shows "jstok_loop strict json (p\<lparr>jp_pos := a\<rparr>) toks = jstok_loop strict json (p\<lparr>jp_pos := b\<rparr>) toks"
  using assms
proof (induction "b - a" arbitrary: a)
  case 0
  then have "a = b" by (simp add: ws_def)
  then show ?case by simp
next
  case (Suc n)
  then have l: "a < b" "b \<le> length json" by (auto simp: ws_def)
  have d: "slice json a b = json ! a # slice json (a + 1) b"
    using l take_drop_Cons [of a json] by (simp add: slice_def take_Cons' Suc_diff_Suc flip: Suc_diff_Suc)
  then have "jstok_is_space (json ! a)" and w: "ws json (a + 1) b" using Suc.prems l by (auto simp: ws_def)
  then have "jstok_step strict json (p\<lparr>jp_pos := a\<rparr>) toks = (None, p\<lparr>jp_pos := a + 1\<rparr>, toks)"
    using jstok_step_eqs(1) [of json "p\<lparr>jp_pos := a\<rparr>"] by simp
  then have "jstok_loop strict json (p\<lparr>jp_pos := a\<rparr>) toks = jstok_loop strict json (p\<lparr>jp_pos := a + 1\<rparr>) toks"
    using loop_step [of "p\<lparr>jp_pos := a\<rparr>" json] l by simp
  with Suc.hyps(1) [of "a + 1"] Suc.hyps(2) w show ?case by simp
qed

text \<open>A new token where the array has room.\<close>

lemma new_token_room:
  assumes "jp_toknext p = length c" "r \<noteq> []"
  shows "jstok_new_token p (Some (c @ r)) ty a b =
    (Inr (length c), p\<lparr>jp_toknext := length c + 1\<rparr>,
     Some (c @ \<lparr>tk_type = ty, tk_start = a, tk_end = b, tk_size = 0\<rparr> # tl r))"
  using assms by (cases r) (auto simp: jstok_new_token_def list_update_append)

lemma slice_drop:
  assumes "a \<le> b" "b \<le> length json"
  shows "drop a json = slice json a b @ drop b json"
proof -
  have "drop a json = take (b - a) (drop a json) @ drop (b - a) (drop a json)"
    by (rule append_take_drop_id [symmetric])
  then show ?thesis using assms by (simp add: slice_def del: append_take_drop_id)
qed

lemma slice_length: "a \<le> b \<Longrightarrow> b \<le> length json \<Longrightarrow> length (slice json a b) = b - a"
  by (simp add: slice_def)

lemma parse_string_room:
  assumes j: "jstring json (jp_pos p) b" and "jp_toknext p = length c" "r \<noteq> []"
  shows "jstok_parse_string_token p json (Some (c @ r)) =
    (None, p\<lparr>jp_pos := b + 1, jp_toknext := length c + 1\<rparr>, Some (c @ jtok JSTOK_STRING (jp_pos p + 1) b 0 # tl r))"
proof -
  let ?s = "jp_pos p"
  have b: "?s + 1 \<le> b" "b < length json" "json ! b = C_QUOTE" "?s < length json" "json ! ?s = C_QUOTE"
    using j by (auto simp: jstring_def at_pos_def)
  have "drop (?s + 1) json = slice json (?s + 1) b @ C_QUOTE # drop (b + 1) json"
    using slice_drop [of "?s + 1" b json] b take_drop_Cons [of b json] by simp
  then have "jstok_scan_string (?s + 1) (drop (?s + 1) json) = Inr b"
    using jstok_scan_string_complete [of "slice json (?s + 1) b"] j b slice_length [of "?s + 1" b json]
    by (simp add: jstring_def)
  then show ?thesis
    using b new_token_room [of "p\<lparr>jp_pos := b\<rparr>" c r] assms(2,3)
    by (simp add: jstok_parse_string_token_def jtok_def add.commute)
qed

lemma parse_primitive_room:
  assumes j: "jprim json (jp_pos p) b" and "jp_toknext p = length c" "r \<noteq> []"
  shows "jstok_parse_primitive_token strict p json (Some (c @ r)) =
    (None, p\<lparr>jp_pos := b, jp_toknext := length c + 1\<rparr>, Some (c @ jtok JSTOK_PRIMITIVE (jp_pos p) b 0 # tl r))"
proof -
  let ?s = "jp_pos p"
  have b: "?s < b" "b \<le> length json" and pr: "json_primitive (slice json ?s b) (drop b json)"
    using j by (auto simp: jprim_def)
  have "jstok_scan_primitive strict ?s (drop ?s json) = Inr b"
    using jstok_scan_primitive_complete [OF pr, of strict ?s] slice_drop [of ?s b json]
      slice_length [of ?s b json] b by simp
  then show ?thesis
    using new_token_room [of "p\<lparr>jp_pos := b\<rparr>" c r] assms(2,3)
    by (simp add: jstok_parse_primitive_token_def jtok_def)
qed

lemma primitive_first:
  assumes "jprim json a b"
  shows "\<not> jstok_is_space (json ! a) \<and> \<not> jstok_structural (json ! a)"
proof -
  have ab: "a < b" "b \<le> length json" and pr: "json_primitive (slice json a b) (drop b json)"
    using assms by (auto simp: jprim_def)
  have "json ! a = hd (slice json a b)"
    using ab by (simp add: slice_def hd_drop_conv_nth)
  moreover have "json_literal (slice json a b) \<or> json_number (slice json a b)"
    using pr by (auto simp: json_primitive_def)
  then have "hd (slice json a b) \<in> {0x74, 0x66, 0x6E, C_MINUS} \<or> is_digit (hd (slice json a b))"
  proof
    assume "json_literal (slice json a b)"
    then show ?thesis unfolding json_literal_def by (elim insertE emptyE) simp_all
  next
    assume "json_number (slice json a b)"
    from json_number_hd [OF this] show ?thesis by blast
  qed
  ultimately show ?thesis
    by (auto simp: jstok_structural_def jstok_is_space_def is_digit_def)
qed

lemma accept_not_key:
  "jstok_accept_value strict p toks = (None, p1, toks1) \<Longrightarrow> \<not> jstok_expects_key p"
  by (auto simp: jstok_accept_value_def jstok_expects_key_def jstok_inval_def split: option.splits if_splits)

lemma accept_shape:
  "jstok_accept_value strict p toks = (None, p1, toks1) \<Longrightarrow>
     jp_pos p1 = jp_pos p \<and> length (jp_stack p1) = length (jp_stack p) \<and> jp_toknext p1 = jp_toknext p"
  by (auto simp: jstok_accept_value_def jstok_inval_def jstok_set_st_def Let_def
      split: option.splits if_splits list.splits)

section \<open>Runs of whole values\<close>

text \<open>Reading a value, from the turn that accepts it to the position behind it.\<close>

definition value_run :: "byte list \<Rightarrow> nat \<Rightarrow> nat \<Rightarrow> jtree \<Rightarrow> bool" where
  "value_run json s e t \<longleftrightarrow> (\<forall>strict p c1 c r p1.
     jp_pos p = s \<longrightarrow> jstok_accept_value strict p (Some (c @ r)) = (None, p1, Some (c1 @ r)) \<longrightarrow>
     length c1 = length c \<longrightarrow> jp_toknext p = length c \<longrightarrow> length (flat t) \<le> length r \<longrightarrow>
     length (jp_stack p) + depth t \<le> JSTOK_MAX_DEPTH \<longrightarrow>
     jstok_loop strict json p (Some (c @ r)) =
     jstok_loop strict json (p1\<lparr>jp_pos := e, jp_toknext := length c + length (flat t)\<rparr>)
       (Some (c1 @ flat t @ drop (length (flat t)) r)))"

text \<open>The state inside an array or object that is token \<open>k\<close>.\<close>

definition inside :: "jstok_parser \<Rightarrow> jstoktype \<Rightarrow> jstok_state \<Rightarrow> nat \<Rightarrow> jstok_frame list \<Rightarrow> nat \<Rightarrow> nat \<Rightarrow> jstok_parser" where
  "inside p ty st k fs pos n =
     p\<lparr>jp_stack := \<lparr>fr_type = ty, fr_st = st, fr_tok = int k\<rparr> # fs, jp_pos := pos, jp_toknext := n\<rparr>"

definition elems_run :: "byte list \<Rightarrow> nat \<Rightarrow> nat \<Rightarrow> jtree list \<Rightarrow> bool" where
  "elems_run json s q ts \<longleftrightarrow> (\<forall>strict p c b r fs.
     length (flats ts) \<le> length r \<longrightarrow>
     (\<forall>t\<in>set ts. Suc (length fs) + depth t \<le> JSTOK_MAX_DEPTH) \<longrightarrow>
     jstok_loop strict json (inside p JSTOK_ARRAY ST_ARR_VALUE_OR_END (length c) fs s (length c + 1))
       (Some (c @ jtok_open JSTOK_ARRAY b 0 # r)) =
     jstok_loop strict json (inside p JSTOK_ARRAY ST_ARR_COMMA_OR_END (length c) fs q (length c + 1 + length (flats ts)))
       (Some (c @ jtok_open JSTOK_ARRAY b (length ts) # flats ts @ drop (length (flats ts)) r)))"

definition members_run :: "byte list \<Rightarrow> nat \<Rightarrow> nat \<Rightarrow> ((nat \<times> nat) \<times> jtree) list \<Rightarrow> bool" where
  "members_run json s q kvs \<longleftrightarrow> (\<forall>strict p c b r fs.
     length (flat_members kvs) \<le> length r \<longrightarrow>
     (\<forall>kv\<in>set kvs. Suc (length fs) + depth (snd kv) \<le> JSTOK_MAX_DEPTH) \<longrightarrow>
     jstok_loop strict json (inside p JSTOK_OBJECT ST_OBJ_KEY_OR_END (length c) fs s (length c + 1))
       (Some (c @ jtok_open JSTOK_OBJECT b 0 # r)) =
     jstok_loop strict json (inside p JSTOK_OBJECT ST_OBJ_COMMA_OR_END (length c) fs q (length c + 1 + length (flat_members kvs)))
       (Some (c @ jtok_open JSTOK_OBJECT b (length kvs) # flat_members kvs @ drop (length (flat_members kvs)) r)))"

lemma value_run_string:
  assumes j: "jstring json s b" shows "value_run json s (b + 1) (JStr (s + 1) b)"
  unfolding value_run_def
proof (intro allI impI)
  fix strict p c1 c r p1
  assume a: "jp_pos p = s" "jstok_accept_value strict p (Some (c @ r)) = (None, p1, Some (c1 @ r))"
    "length c1 = length c" "jp_toknext p = length c" "length (flat (JStr (s + 1) b)) \<le> length r"
  then have r: "r \<noteq> []" by auto
  have pos: "jp_pos p < length json" "json ! jp_pos p = C_QUOTE"
    using j a(1) by (auto simp: jstring_def at_pos_def)
  note sh = accept_shape [OF a(2)]
  have "jstok_parse_string_token p1 json (Some (c1 @ r)) =
      (None, p1\<lparr>jp_pos := b + 1, jp_toknext := length c + 1\<rparr>, Some (c1 @ jtok JSTOK_STRING (s + 1) b 0 # tl r))"
    using parse_string_room [of json p1 b c1 r] j sh a(1,3,4) r by simp
  then have "jstok_step strict json p (Some (c @ r)) =
      (None, p1\<lparr>jp_pos := b + 1, jp_toknext := length c + 1\<rparr>, Some (c1 @ jtok JSTOK_STRING (s + 1) b 0 # tl r))"
    using jstok_step_eqs(8) [OF pos(2) accept_not_key [OF a(2)]] a(2) by (simp add: jstok_simple_value_def)
  from loop_step [OF pos(1) this] r show "jstok_loop strict json p (Some (c @ r)) =
     jstok_loop strict json (p1\<lparr>jp_pos := b + 1, jp_toknext := length c + length (flat (JStr (s + 1) b))\<rparr>)
       (Some (c1 @ flat (JStr (s + 1) b) @ drop (length (flat (JStr (s + 1) b))) r))"
    by (simp add: drop_Suc)
qed

lemma value_run_primitive:
  assumes j: "jprim json s b" shows "value_run json s b (JPrim s b)"
  unfolding value_run_def
proof (intro allI impI)
  fix strict p c1 c r p1
  assume a: "jp_pos p = s" "jstok_accept_value strict p (Some (c @ r)) = (None, p1, Some (c1 @ r))"
    "length c1 = length c" "jp_toknext p = length c" "length (flat (JPrim s b)) \<le> length r"
  then have r: "r \<noteq> []" by auto
  have pos: "jp_pos p < length json" using j a(1) by (auto simp: jprim_def)
  note sh = accept_shape [OF a(2)]
  have "jstok_parse_primitive_token strict p1 json (Some (c1 @ r)) =
      (None, p1\<lparr>jp_pos := b, jp_toknext := length c + 1\<rparr>, Some (c1 @ jtok JSTOK_PRIMITIVE s b 0 # tl r))"
    using parse_primitive_room [of json p1 b c1 r] j sh a(1,3,4) r by simp
  then have "jstok_step strict json p (Some (c @ r)) =
      (None, p1\<lparr>jp_pos := b, jp_toknext := length c + 1\<rparr>, Some (c1 @ jtok JSTOK_PRIMITIVE s b 0 # tl r))"
    using jstok_step_eqs(10) [of json p] primitive_first [OF j] a(1,2) by (simp add: jstok_simple_value_def)
  from loop_step [OF pos(1) this] r show "jstok_loop strict json p (Some (c @ r)) =
     jstok_loop strict json (p1\<lparr>jp_pos := b, jp_toknext := length c + length (flat (JPrim s b))\<rparr>)
       (Some (c1 @ flat (JPrim s b) @ drop (length (flat (JPrim s b))) r))"
    by (simp add: drop_Suc)
qed

section \<open>Containers\<close>

lemma inside_pos [simp]: "(inside p ty st k fs a n)\<lparr>jp_pos := b\<rparr> = inside p ty st k fs b n"
  by (simp add: inside_def)

lemma inside_space:
  "ws json a b \<Longrightarrow> jstok_loop strict json (inside p ty st k fs a n) toks = jstok_loop strict json (inside p ty st k fs b n) toks"
  using loop_space [of json a b strict "inside p ty st k fs a n"] by simp

lemma start_container_room:
  assumes a: "jstok_accept_value strict p (Some (c @ r)) = (None, p1, Some (c1 @ r))"
    and l: "length c1 = length c" "jp_toknext p = length c" "r \<noteq> []" "length (jp_stack p) < JSTOK_MAX_DEPTH"
  shows "jstok_start_container strict p (Some (c @ r)) ty =
    (None, inside p1 ty (if ty = JSTOK_OBJECT then ST_OBJ_KEY_OR_END else ST_ARR_VALUE_OR_END) (length c)
       (jp_stack p1) (jp_pos p + 1) (length c + 1),
     Some (c1 @ jtok_open ty (jp_pos p) 0 # tl r))"
proof -
  note sh = accept_shape [OF a]
  have "jstok_new_token p1 (Some (c1 @ r)) ty (int (jp_pos p1)) (-1) =
      (Inr (length c), p1\<lparr>jp_toknext := length c + 1\<rparr>, Some (c1 @ jtok_open ty (jp_pos p) 0 # tl r))"
    using new_token_room [of p1 c1 r] sh l by (simp add: jtok_open_def)
  then show ?thesis
    using a sh l by (simp add: jstok_start_container_def jstok_push_def Let_def inside_def)
qed

lemma end_container_inside:
  assumes "if ty = JSTOK_OBJECT then st = ST_OBJ_KEY_OR_END \<or> st = ST_OBJ_COMMA_OR_END
           else st = ST_ARR_VALUE_OR_END \<or> st = ST_ARR_COMMA_OR_END"
  shows "jstok_end_container (inside p ty st (length c) fs q n) (Some (c @ jtok_open ty b m # r)) ty =
    (None, p\<lparr>jp_stack := fs, jp_pos := q + 1, jp_toknext := n\<rparr>, Some (c @ jtok ty b (q + 1) m # r))"
  using assms tok_close_append [of c ty b m]
  by (simp add: jstok_end_container_def jstok_top_def inside_def jstok_pop_def Let_def)

lemma accept_inside:
  assumes "ty = JSTOK_ARRAY \<and> (st = ST_ARR_VALUE_OR_END \<or> st = ST_ARR_VALUE) \<and> st' = ST_ARR_COMMA_OR_END \<or>
    ty = JSTOK_OBJECT \<and> st = ST_OBJ_VALUE \<and> st' = ST_OBJ_COMMA_OR_END"
  shows "jstok_accept_value strict (inside p ty st (length c) fs a n) (Some ((c @ jtok_open ty b m # ys) @ r)) =
    (None, inside p ty st' (length c) fs a n, Some ((c @ jtok_open ty b (m + 1) # ys) @ r))"
  using assms tok_add_size_append [of c "jtok_open ty b m" "ys @ r" 1]
  by (auto simp: jstok_accept_value_def jstok_top_def inside_def jstok_inc_container_size_def
      jstok_set_st_def jtok_open_def)

text \<open>A value inside a container: from the state that expects it to the one that has it.\<close>

lemma value_inside:
  assumes v: "value_run json a e t"
    and st: "ty = JSTOK_ARRAY \<and> (st = ST_ARR_VALUE_OR_END \<or> st = ST_ARR_VALUE) \<and> st' = ST_ARR_COMMA_OR_END \<or>
      ty = JSTOK_OBJECT \<and> st = ST_OBJ_VALUE \<and> st' = ST_OBJ_COMMA_OR_END"
    and l: "length (flat t) \<le> length r" "Suc (length fs) + depth t \<le> JSTOK_MAX_DEPTH"
    and n: "n = length c + 1 + length ys"
  shows "jstok_loop strict json (inside p ty st (length c) fs a n) (Some (c @ jtok_open ty b m # ys @ r)) =
    jstok_loop strict json (inside p ty st' (length c) fs e (n + length (flat t)))
      (Some (c @ jtok_open ty b (m + 1) # ys @ flat t @ drop (length (flat t)) r))"
proof -
  let ?p = "inside p ty st (length c) fs a n" and ?c = "c @ jtok_open ty b m # ys"
  have "jstok_loop strict json ?p (Some (?c @ r)) =
      jstok_loop strict json ((inside p ty st' (length c) fs a n)
          \<lparr>jp_pos := e, jp_toknext := length ?c + length (flat t)\<rparr>)
        (Some ((c @ jtok_open ty b (m + 1) # ys) @ flat t @ drop (length (flat t)) r))"
    by (rule v [unfolded value_run_def, rule_format, OF _ accept_inside [OF st]])
      (use l n in \<open>simp_all add: inside_def\<close>)
  moreover have "(inside p ty st' (length c) fs a n)\<lparr>jp_pos := e, jp_toknext := length ?c + length (flat t)\<rparr> =
      inside p ty st' (length c) fs e (n + length (flat t))" using n by (simp add: inside_def)
  ultimately show ?thesis by simp
qed

lemma comma_inside:
  assumes "at_pos json q C_COMMA"
    and "ty = JSTOK_ARRAY \<and> st = ST_ARR_COMMA_OR_END \<and> st' = ST_ARR_VALUE \<or>
         ty = JSTOK_OBJECT \<and> st = ST_OBJ_COMMA_OR_END \<and> st' = ST_OBJ_KEY"
  shows "jstok_loop strict json (inside p ty st k fs q n) toks = jstok_loop strict json (inside p ty st' k fs (q + 1) n) toks"
proof (rule loop_step)
  show "jp_pos (inside p ty st k fs q n) < length json" using assms(1) by (simp add: inside_def at_pos_def)
  show "jstok_step strict json (inside p ty st k fs q n) toks = (None, inside p ty st' k fs (q + 1) n, toks)"
    using assms jstok_step_eqs(7) [of json "inside p ty st k fs q n"]
    by (auto simp: at_pos_def inside_def jstok_comma_def jstok_top_def jstok_set_st_def)
qed

lemma colon_inside:
  assumes "at_pos json q C_COLON"
  shows "jstok_loop strict json (inside p JSTOK_OBJECT ST_OBJ_COLON k fs q n) toks =
    jstok_loop strict json (inside p JSTOK_OBJECT ST_OBJ_VALUE k fs (q + 1) n) toks"
proof (rule loop_step)
  let ?p = "inside p JSTOK_OBJECT ST_OBJ_COLON k fs q n"
  show "jp_pos ?p < length json" using assms(1) by (simp add: inside_def at_pos_def)
  show "jstok_step strict json ?p toks = (None, inside p JSTOK_OBJECT ST_OBJ_VALUE k fs (q + 1) n, toks)"
    using assms jstok_step_eqs(6) [of json ?p]
    by (auto simp: at_pos_def inside_def jstok_colon_def jstok_top_def jstok_set_st_def)
qed

lemma key_inside:
  assumes j: "jstring json a b" and st: "st = ST_OBJ_KEY_OR_END \<or> st = ST_OBJ_KEY" and r: "r \<noteq> []"
    and n: "n = length c"
  shows "jstok_loop strict json (inside p JSTOK_OBJECT st k fs a n) (Some (c @ r)) =
    jstok_loop strict json (inside p JSTOK_OBJECT ST_OBJ_COLON k fs (b + 1) (n + 1))
      (Some (c @ jtok JSTOK_STRING (a + 1) b 0 # tl r))"
proof (rule loop_step)
  let ?p = "inside p JSTOK_OBJECT st k fs a n"
  have pos: "jp_pos ?p < length json" "json ! jp_pos ?p = C_QUOTE"
    using j by (auto simp: jstring_def at_pos_def inside_def)
  show "jp_pos ?p < length json" by (rule pos)
  have x: "jstok_expects_key ?p" using st by (simp add: jstok_expects_key_def jstok_top_def inside_def)
  have "jstok_parse_string_token ?p json (Some (c @ r)) =
      (None, ?p\<lparr>jp_pos := b + 1, jp_toknext := length c + 1\<rparr>, Some (c @ jtok JSTOK_STRING (a + 1) b 0 # tl r))"
    using parse_string_room [of json ?p b c r] j r n by (simp add: inside_def)
  then show "jstok_step strict json ?p (Some (c @ r)) =
      (None, inside p JSTOK_OBJECT ST_OBJ_COLON k fs (b + 1) (n + 1), Some (c @ jtok JSTOK_STRING (a + 1) b 0 # tl r))"
    using jstok_step_eqs(9) [OF pos(2) x] st n
    by (auto simp: jstok_accept_key_def jstok_top_def jstok_set_st_def inside_def)
qed

lemma member_inside:
  assumes "ws json s a" "jstring json a b" "ws json (b + 1) c0" "at_pos json c0 C_COLON" "ws json (c0 + 1) d"
    "value_run json d e v" "ws json e q"
    and st: "st = ST_OBJ_KEY_OR_END \<or> st = ST_OBJ_KEY"
    and l: "Suc (length (flat v)) \<le> length r" "Suc (length fs) + depth v \<le> JSTOK_MAX_DEPTH"
    and n: "n = length c + 1 + length ys"
  shows "jstok_loop strict json (inside p JSTOK_OBJECT st (length c) fs s n)
      (Some (c @ jtok_open JSTOK_OBJECT b0 m # ys @ r)) =
    jstok_loop strict json (inside p JSTOK_OBJECT ST_OBJ_COMMA_OR_END (length c) fs q (n + 1 + length (flat v)))
      (Some (c @ jtok_open JSTOK_OBJECT b0 (m + 1) # ys @ jtok JSTOK_STRING (a + 1) b 0 # flat v @
         drop (Suc (length (flat v))) r))" (is "?lhs = ?rhs")
proof -
  let ?k = "jtok JSTOK_STRING (a + 1) b 0"
  have r: "r \<noteq> []" using l(1) by auto
  have "?lhs = jstok_loop strict json (inside p JSTOK_OBJECT ST_OBJ_COLON (length c) fs (b + 1) (n + 1))
      (Some ((c @ jtok_open JSTOK_OBJECT b0 m # ys) @ ?k # tl r))"
    using inside_space [OF assms(1)]
      key_inside [OF assms(2) st r, of n "c @ jtok_open JSTOK_OBJECT b0 m # ys" strict p "length c" fs] n
    by simp
  also have "\<dots> = jstok_loop strict json (inside p JSTOK_OBJECT ST_OBJ_VALUE (length c) fs d (n + 1))
      (Some (c @ jtok_open JSTOK_OBJECT b0 m # (ys @ [?k]) @ tl r))"
    using inside_space [OF assms(3)] colon_inside [OF assms(4)] inside_space [OF assms(5)] by simp
  also have "\<dots> = jstok_loop strict json (inside p JSTOK_OBJECT ST_OBJ_COMMA_OR_END (length c) fs e (n + 1 + length (flat v)))
      (Some (c @ jtok_open JSTOK_OBJECT b0 (m + 1) # (ys @ [?k]) @ flat v @ drop (length (flat v)) (tl r)))"
    by (rule value_inside [OF assms(6)]) (use l r n in \<open>simp_all\<close>)
  also have "\<dots> = ?rhs" using inside_space [OF assms(7)] by (simp add: drop_Suc)
  finally show ?thesis .
qed

lemma value_run_container:
  assumes o1: "at_pos json s (if ty = JSTOK_OBJECT then C_LBRACE else C_LBRACK)"
    and q: "at_pos json q (if ty = JSTOK_OBJECT then C_RBRACE else C_RBRACK)"
    and ty: "ty = JSTOK_OBJECT \<and> st0 = ST_OBJ_KEY_OR_END \<and> (st = st0 \<or> st = ST_OBJ_COMMA_OR_END) \<or>
      ty = JSTOK_ARRAY \<and> st0 = ST_ARR_VALUE_OR_END \<and> (st = st0 \<or> st = ST_ARR_COMMA_OR_END)"
    and t: "flat t = jtok ty s (q + 1) m # body"
    and d: "depth t > 0"
    and run: "\<And>strict p c r fs. length body \<le> length r \<Longrightarrow> length fs + depth t \<le> JSTOK_MAX_DEPTH \<Longrightarrow>
      jstok_loop strict json (inside p ty st0 (length c) fs (s + 1) (length c + 1)) (Some (c @ jtok_open ty s 0 # r)) =
      jstok_loop strict json (inside p ty st (length c) fs q (length c + 1 + length body))
        (Some (c @ jtok_open ty s m # body @ drop (length body) r))"
  shows "value_run json s (q + 1) t"
  unfolding value_run_def
proof (intro allI impI)
  fix strict p c1 c r p1
  assume a: "jp_pos p = s" "jstok_accept_value strict p (Some (c @ r)) = (None, p1, Some (c1 @ r))"
    "length c1 = length c" "jp_toknext p = length c" "length (flat t) \<le> length r"
    "length (jp_stack p) + depth t \<le> JSTOK_MAX_DEPTH"
  have r: "r \<noteq> []" "length body \<le> length (tl r)" using a(5) t by auto
  note sh = accept_shape [OF a(2)]
  have pos: "jp_pos p < length json" using o1 a(1) by (simp add: at_pos_def)
  have "jstok_step strict json p (Some (c @ r)) = jstok_start_container strict p (Some (c @ r)) ty"
    using o1 ty a(1) jstok_step_eqs(2,3) [of json p] by (auto simp: at_pos_def)
  also have "\<dots> = (None, inside p1 ty st0 (length c1) (jp_stack p1) (s + 1) (length c1 + 1),
      Some (c1 @ jtok_open ty s 0 # tl r))"
    using start_container_room [OF a(2,3,4) r(1), of ty] a(1,3,6) d ty by auto
  finally have "jstok_loop strict json p (Some (c @ r)) =
      jstok_loop strict json (inside p1 ty st0 (length c1) (jp_stack p1) (s + 1) (length c1 + 1))
        (Some (c1 @ jtok_open ty s 0 # tl r))"
    by (rule loop_step [OF pos])
  also have "\<dots> = jstok_loop strict json (inside p1 ty st (length c1) (jp_stack p1) q (length c1 + 1 + length body))
      (Some (c1 @ jtok_open ty s m # body @ drop (length body) (tl r)))" (is "_ = jstok_loop _ _ ?p ?t")
    by (rule run) (use r a(6) sh in simp_all)
  also have "\<dots> = jstok_loop strict json (p1\<lparr>jp_stack := jp_stack p1, jp_pos := q + 1, jp_toknext := length c1 + 1 + length body\<rparr>)
      (Some (c1 @ jtok ty s (q + 1) m # body @ drop (length body) (tl r)))"
  proof (rule loop_step)
    show "jp_pos ?p < length json" using q by (simp add: inside_def at_pos_def)
    have "jstok_step strict json ?p ?t = jstok_end_container ?p ?t ty"
      using q ty jstok_step_eqs(4,5) [of json ?p] by (auto simp: at_pos_def inside_def)
    also have "\<dots> = (None, p1\<lparr>jp_stack := jp_stack p1, jp_pos := q + 1, jp_toknext := length c1 + 1 + length body\<rparr>,
      Some (c1 @ jtok ty s (q + 1) m # body @ drop (length body) (tl r)))"
      by (rule end_container_inside) (use ty in auto)
    finally show "jstok_step strict json ?p ?t = (None, p1\<lparr>jp_stack := jp_stack p1, jp_pos := q + 1, jp_toknext := length c1 + 1 + length body\<rparr>,
      Some (c1 @ jtok ty s (q + 1) m # body @ drop (length body) (tl r)))" .
  qed
  also have "p1\<lparr>jp_stack := jp_stack p1, jp_pos := q + 1, jp_toknext := length c1 + 1 + length body\<rparr> =
      p1\<lparr>jp_pos := q + 1, jp_toknext := length c + length (flat t)\<rparr>"
    using a(3) t by (cases p1) simp
  finally show "jstok_loop strict json p (Some (c @ r)) =
     jstok_loop strict json (p1\<lparr>jp_pos := q + 1, jp_toknext := length c + length (flat t)\<rparr>)
       (Some (c1 @ flat t @ drop (length (flat t)) r))"
    using t r(1) by (simp add: drop_Suc)
qed

section \<open>All values\<close>

lemma elems_run_one:
  assumes "ws json s a" "value_run json a e t" "ws json e q" shows "elems_run json s q [t]"
  unfolding elems_run_def
proof (intro allI impI)
  fix strict p b and c r :: "jstoktok list" and fs :: "jstok_frame list"
  assume l: "length (flats [t]) \<le> length r" "\<forall>u\<in>set [t]. Suc (length fs) + depth u \<le> JSTOK_MAX_DEPTH"
  have d: "length (flat t) \<le> length r" "Suc (length fs) + depth t \<le> JSTOK_MAX_DEPTH" using l by auto
  have "jstok_loop strict json (inside p JSTOK_ARRAY ST_ARR_VALUE_OR_END (length c) fs a (length c + 1))
      (Some (c @ jtok_open JSTOK_ARRAY b 0 # [] @ r)) =
    jstok_loop strict json (inside p JSTOK_ARRAY ST_ARR_COMMA_OR_END (length c) fs e (length c + 1 + length (flat t)))
      (Some (c @ jtok_open JSTOK_ARRAY b (0 + 1) # [] @ flat t @ drop (length (flat t)) r))"
    by (rule value_inside [OF assms(2) _ d]) simp_all
  then show "jstok_loop strict json (inside p JSTOK_ARRAY ST_ARR_VALUE_OR_END (length c) fs s (length c + 1))
       (Some (c @ jtok_open JSTOK_ARRAY b 0 # r)) =
     jstok_loop strict json (inside p JSTOK_ARRAY ST_ARR_COMMA_OR_END (length c) fs q (length c + 1 + length (flats [t])))
       (Some (c @ jtok_open JSTOK_ARRAY b (length [t]) # flats [t] @ drop (length (flats [t])) r))"
    using inside_space [OF assms(1)] inside_space [OF assms(3)] by simp
qed

lemma elems_run_more:
  assumes "elems_run json s c0 ts" "at_pos json c0 C_COMMA" "ws json (c0 + 1) a" "value_run json a e t" "ws json e q"
  shows "elems_run json s q (ts @ [t])"
  unfolding elems_run_def
proof (intro allI impI)
  fix strict p b and c r :: "jstoktok list" and fs :: "jstok_frame list"
  assume l: "length (flats (ts @ [t])) \<le> length r" "\<forall>u\<in>set (ts @ [t]). Suc (length fs) + depth u \<le> JSTOK_MAX_DEPTH"
  let ?n = "length c + 1 + length (flats ts)"
  have d: "length (flat t) \<le> length (drop (length (flats ts)) r)" "Suc (length fs) + depth t \<le> JSTOK_MAX_DEPTH"
    using l by auto
  have "jstok_loop strict json (inside p JSTOK_ARRAY ST_ARR_VALUE_OR_END (length c) fs s (length c + 1))
       (Some (c @ jtok_open JSTOK_ARRAY b 0 # r)) =
     jstok_loop strict json (inside p JSTOK_ARRAY ST_ARR_COMMA_OR_END (length c) fs c0 ?n)
       (Some (c @ jtok_open JSTOK_ARRAY b (length ts) # flats ts @ drop (length (flats ts)) r))"
    using assms(1) l unfolding elems_run_def by simp
  also have "\<dots> = jstok_loop strict json (inside p JSTOK_ARRAY ST_ARR_VALUE (length c) fs a ?n)
       (Some (c @ jtok_open JSTOK_ARRAY b (length ts) # flats ts @ drop (length (flats ts)) r))"
    using comma_inside [OF assms(2), of JSTOK_ARRAY ST_ARR_COMMA_OR_END ST_ARR_VALUE] inside_space [OF assms(3)]
    by simp
  also have "\<dots> = jstok_loop strict json (inside p JSTOK_ARRAY ST_ARR_COMMA_OR_END (length c) fs e (?n + length (flat t)))
       (Some (c @ jtok_open JSTOK_ARRAY b (length ts + 1) # flats ts @ flat t @
          drop (length (flat t)) (drop (length (flats ts)) r)))"
    by (rule value_inside [OF assms(4) _ d]) simp_all
  finally show "jstok_loop strict json (inside p JSTOK_ARRAY ST_ARR_VALUE_OR_END (length c) fs s (length c + 1))
       (Some (c @ jtok_open JSTOK_ARRAY b 0 # r)) =
     jstok_loop strict json (inside p JSTOK_ARRAY ST_ARR_COMMA_OR_END (length c) fs q (length c + 1 + length (flats (ts @ [t]))))
       (Some (c @ jtok_open JSTOK_ARRAY b (length (ts @ [t])) # flats (ts @ [t]) @ drop (length (flats (ts @ [t]))) r))"
    using inside_space [OF assms(5)] by (simp add: add.commute add.left_commute)
qed

lemma members_run_one:
  assumes m: "ws json s a" "jstring json a b" "ws json (b + 1) c0" "at_pos json c0 C_COLON" "ws json (c0 + 1) d"
    "value_run json d e v" "ws json e q"
  shows "members_run json s q [((a + 1, b), v)]"
  unfolding members_run_def
proof (intro allI impI)
  fix strict p b0 and c r :: "jstoktok list" and fs :: "jstok_frame list"
  let ?kvs = "[((a + 1, b), v)]"
  assume l: "length (flat_members ?kvs) \<le> length r" "\<forall>kv\<in>set ?kvs. Suc (length fs) + depth (snd kv) \<le> JSTOK_MAX_DEPTH"
  have d: "Suc (length (flat v)) \<le> length r" "Suc (length fs) + depth v \<le> JSTOK_MAX_DEPTH" using l by auto
  show "jstok_loop strict json (inside p JSTOK_OBJECT ST_OBJ_KEY_OR_END (length c) fs s (length c + 1))
       (Some (c @ jtok_open JSTOK_OBJECT b0 0 # r)) =
     jstok_loop strict json (inside p JSTOK_OBJECT ST_OBJ_COMMA_OR_END (length c) fs q (length c + 1 + length (flat_members ?kvs)))
       (Some (c @ jtok_open JSTOK_OBJECT b0 (length ?kvs) # flat_members ?kvs @ drop (length (flat_members ?kvs)) r))"
    using member_inside [OF m _ d, of ST_OBJ_KEY_OR_END "length c + 1" c "[]" strict p b0 0] by simp
qed

lemma members_run_more:
  assumes ms: "members_run json s c1 kvs" "at_pos json c1 C_COMMA"
    and m: "ws json (c1 + 1) a" "jstring json a b" "ws json (b + 1) c0" "at_pos json c0 C_COLON" "ws json (c0 + 1) d"
    "value_run json d e v" "ws json e q"
  shows "members_run json s q (kvs @ [((a + 1, b), v)])"
  unfolding members_run_def
proof (intro allI impI)
  fix strict p b0 and c r :: "jstoktok list" and fs :: "jstok_frame list"
  let ?kv = "((a + 1, b), v)" and ?n = "length c + 1 + length (flat_members kvs)"
  assume l: "length (flat_members (kvs @ [?kv])) \<le> length r"
    "\<forall>kv\<in>set (kvs @ [?kv]). Suc (length fs) + depth (snd kv) \<le> JSTOK_MAX_DEPTH"
  have d: "Suc (length (flat v)) \<le> length (drop (length (flat_members kvs)) r)"
    "Suc (length fs) + depth v \<le> JSTOK_MAX_DEPTH" using l by auto
  have "jstok_loop strict json (inside p JSTOK_OBJECT ST_OBJ_KEY_OR_END (length c) fs s (length c + 1))
       (Some (c @ jtok_open JSTOK_OBJECT b0 0 # r)) =
     jstok_loop strict json (inside p JSTOK_OBJECT ST_OBJ_COMMA_OR_END (length c) fs c1 ?n)
       (Some (c @ jtok_open JSTOK_OBJECT b0 (length kvs) # flat_members kvs @ drop (length (flat_members kvs)) r))"
    using ms(1) l unfolding members_run_def by simp
  also have "\<dots> = jstok_loop strict json (inside p JSTOK_OBJECT ST_OBJ_KEY (length c) fs (c1 + 1) ?n)
       (Some (c @ jtok_open JSTOK_OBJECT b0 (length kvs) # flat_members kvs @ drop (length (flat_members kvs)) r))"
    using comma_inside [OF ms(2), of JSTOK_OBJECT ST_OBJ_COMMA_OR_END ST_OBJ_KEY] by simp
  also have "\<dots> = jstok_loop strict json (inside p JSTOK_OBJECT ST_OBJ_COMMA_OR_END (length c) fs q (?n + 1 + length (flat v)))
       (Some (c @ jtok_open JSTOK_OBJECT b0 (length kvs + 1) # flat_members kvs @ jtok JSTOK_STRING (a + 1) b 0 # flat v @
          drop (Suc (length (flat v))) (drop (length (flat_members kvs)) r)))"
    by (rule member_inside [OF m _ d]) simp_all
  finally show "jstok_loop strict json (inside p JSTOK_OBJECT ST_OBJ_KEY_OR_END (length c) fs s (length c + 1))
       (Some (c @ jtok_open JSTOK_OBJECT b0 0 # r)) =
     jstok_loop strict json (inside p JSTOK_OBJECT ST_OBJ_COMMA_OR_END (length c) fs q
         (length c + 1 + length (flat_members (kvs @ [?kv]))))
       (Some (c @ jtok_open JSTOK_OBJECT b0 (length (kvs @ [?kv])) # flat_members (kvs @ [?kv]) @
          drop (length (flat_members (kvs @ [?kv]))) r))"
    by (simp add: add.commute add.left_commute)
qed

lemma value_run_arr:
  assumes "at_pos json a C_LBRACK" "elems_run json (a + 1) q ts" "at_pos json q C_RBRACK"
  shows "value_run json a (q + 1) (JArr a (q + 1) ts)"
proof (rule value_run_container [where ty = JSTOK_ARRAY and ?st0.0 = ST_ARR_VALUE_OR_END and st = ST_ARR_COMMA_OR_END
      and m = "length ts" and body = "flats ts"])
  fix strict p and c :: "jstoktok list" and r :: "jstoktok list" and fs :: "jstok_frame list"
  assume l: "length (flats ts) \<le> length r" "length fs + depth (JArr a (q + 1) ts) \<le> JSTOK_MAX_DEPTH"
  then have "\<forall>t\<in>set ts. Suc (length fs) + depth t \<le> JSTOK_MAX_DEPTH"
    using depth_le(1) [of a "q + 1" ts "JSTOK_MAX_DEPTH - Suc (length fs)"] by fastforce
  with l assms(2) show "jstok_loop strict json (inside p JSTOK_ARRAY ST_ARR_VALUE_OR_END (length c) fs (a + 1) (length c + 1))
       (Some (c @ jtok_open JSTOK_ARRAY a 0 # r)) =
     jstok_loop strict json (inside p JSTOK_ARRAY ST_ARR_COMMA_OR_END (length c) fs q (length c + 1 + length (flats ts)))
       (Some (c @ jtok_open JSTOK_ARRAY a (length ts) # flats ts @ drop (length (flats ts)) r))"
    unfolding elems_run_def by blast
qed (use assms in \<open>simp_all add: flats_def\<close>)

lemma value_run_obj:
  assumes "at_pos json a C_LBRACE" "members_run json (a + 1) q kvs" "at_pos json q C_RBRACE"
  shows "value_run json a (q + 1) (JObj a (q + 1) kvs)"
proof (rule value_run_container [where ty = JSTOK_OBJECT and ?st0.0 = ST_OBJ_KEY_OR_END and st = ST_OBJ_COMMA_OR_END
      and m = "length kvs" and body = "flat_members kvs"])
  fix strict p and c :: "jstoktok list" and r :: "jstoktok list" and fs :: "jstok_frame list"
  assume l: "length (flat_members kvs) \<le> length r" "length fs + depth (JObj a (q + 1) kvs) \<le> JSTOK_MAX_DEPTH"
  then have "\<forall>kv\<in>set kvs. Suc (length fs) + depth (snd kv) \<le> JSTOK_MAX_DEPTH"
    using depth_le(2) [of a "q + 1" kvs "JSTOK_MAX_DEPTH - Suc (length fs)"] by fastforce
  with l assms(2) show "jstok_loop strict json (inside p JSTOK_OBJECT ST_OBJ_KEY_OR_END (length c) fs (a + 1) (length c + 1))
       (Some (c @ jtok_open JSTOK_OBJECT a 0 # r)) =
     jstok_loop strict json (inside p JSTOK_OBJECT ST_OBJ_COMMA_OR_END (length c) fs q (length c + 1 + length (flat_members kvs)))
       (Some (c @ jtok_open JSTOK_OBJECT a (length kvs) # flat_members kvs @ drop (length (flat_members kvs)) r))"
    unfolding members_run_def by blast
qed (use assms in \<open>simp_all add: flat_containers(2) del: flat.simps\<close>)

lemma value_run_empty:
  "at_pos json a C_LBRACK \<Longrightarrow> ws json (a + 1) q \<Longrightarrow> at_pos json q C_RBRACK \<Longrightarrow>
     value_run json a (q + 1) (JArr a (q + 1) [])"
  "at_pos json a C_LBRACE \<Longrightarrow> ws json (a + 1) q \<Longrightarrow> at_pos json q C_RBRACE \<Longrightarrow>
     value_run json a (q + 1) (JObj a (q + 1) [])"
  by (rule value_run_container [where ty = JSTOK_ARRAY and ?st0.0 = ST_ARR_VALUE_OR_END and st = ST_ARR_VALUE_OR_END
        and m = 0 and body = "[]"]; simp add: inside_space)
    (rule value_run_container [where ty = JSTOK_OBJECT and ?st0.0 = ST_OBJ_KEY_OR_END and st = ST_OBJ_KEY_OR_END
        and m = 0 and body = "[]"]; simp add: inside_space)

lemma jvalue_runs:
  "jvalue json a e t \<Longrightarrow> value_run json a e t"
  "jelems json s q ts \<Longrightarrow> elems_run json s q ts"
  "jmembers json s q' kvs \<Longrightarrow> members_run json s q' kvs"
proof (induction rule: jvalue_jelems_jmembers.inducts)
  case (v_str a b) then show ?case by (rule value_run_string)
next
  case (v_prim a b) then show ?case by (rule value_run_primitive)
next
  case (v_arr_empty a q) then show ?case by (rule value_run_empty(1))
next
  case (v_arr a q ts) then show ?case by (intro value_run_arr)
next
  case (v_obj_empty a q) then show ?case by (rule value_run_empty(2))
next
  case (v_obj a q kvs) then show ?case by (intro value_run_obj)
next
  case (e_one p a b t q) then show ?case by (intro elems_run_one)
next
  case (e_more p c ts a b t q) then show ?case by (intro elems_run_more)
next
  case (m_one p a b c d e v q) then show ?case by (intro members_run_one)
next
  case (m_more p c0 kvs a b c d e v q) then show ?case by (intro members_run_more)
qed

section \<open>Whole inputs\<close>

lemma jtop_runs:
  assumes "jtop json 0 q ts" "length (flats ts) \<le> length arr" "\<forall>t\<in>set ts. depth t \<le> JSTOK_MAX_DEPTH"
    "strict \<longrightarrow> length ts \<le> 1" "p = jstok_init\<lparr>jp_error_pos := -1, jp_error_code := None\<rparr>"
  shows "jstok_loop strict json p (Some arr) =
    jstok_loop strict json (p\<lparr>jp_root_done := (ts \<noteq> []), jp_pos := q, jp_toknext := length (flats ts)\<rparr>)
      (Some (flats ts @ drop (length (flats ts)) arr))"
  using assms
proof (induction "0 :: nat" q ts rule: jtop.induct)
  case (top_none q)
  then show ?case using loop_space [of json 0 q strict p "Some arr"] by (simp add: jstok_init_def)
next
  case (top_more a ts b t q)
  let ?q = "p\<lparr>jp_root_done := (ts \<noteq> []), jp_pos := a, jp_toknext := length (flats ts)\<rparr>"
  let ?q1 = "p\<lparr>jp_root_done := True, jp_pos := a, jp_toknext := length (flats ts)\<rparr>"
  let ?r = "drop (length (flats ts)) arr"
  have swap: "x\<lparr>jp_pos := i, jp_toknext := n\<rparr> = x\<lparr>jp_toknext := n, jp_pos := i\<rparr>" for x :: jstok_parser and i n
    by simp
  have "jstok_loop strict json p (Some arr) = jstok_loop strict json ?q (Some (flats ts @ ?r))"
    using top_more by simp
  also have "\<dots> = jstok_loop strict json (?q1\<lparr>jp_pos := b, jp_toknext := length (flats ts) + length (flat t)\<rparr>)
      (Some (flats ts @ flat t @ drop (length (flat t)) ?r))"
  proof (rule jvalue_runs(1) [OF top_more(3), unfolded value_run_def, rule_format])
    show "jstok_accept_value strict ?q (Some (flats ts @ ?r)) = (None, ?q1, Some (flats ts @ ?r))"
      using top_more(7,8) by (cases ts) (auto simp: jstok_accept_value_def jstok_top_def jstok_init_def)
  qed (use top_more in \<open>simp_all add: jstok_init_def\<close>)
  also have "\<dots> = jstok_loop strict json (?q1\<lparr>jp_pos := q, jp_toknext := length (flats ts) + length (flat t)\<rparr>)
      (Some (flats ts @ flat t @ drop (length (flat t)) ?r))"
    using loop_space [OF top_more(4), of strict "?q1\<lparr>jp_toknext := length (flats ts) + length (flat t)\<rparr>"]
    unfolding swap .
  finally show ?case by (simp add: add.commute)
qed

lemma jstok_parse_complete:
  assumes "jtop json 0 (length json) ts" "length (flats ts) \<le> length arr"
    "\<forall>t\<in>set ts. depth t \<le> JSTOK_MAX_DEPTH" "strict \<longrightarrow> length ts = 1"
  shows "\<exists>p. jstok_parse strict jstok_init (Some json) (Some arr) =
    (Inr (length (flats ts)), p, Some (flats ts @ drop (length (flats ts)) arr))"
proof -
  let ?p = "jstok_init\<lparr>jp_error_pos := -1, jp_error_code := None\<rparr>"
  have "jstok_loop strict json ?p (Some arr) =
    (None, ?p\<lparr>jp_root_done := (ts \<noteq> []), jp_pos := length json, jp_toknext := length (flats ts)\<rparr>,
     Some (flats ts @ drop (length (flats ts)) arr))"
    using jtop_runs [OF assms(1-3) _ refl, of strict] assms(4) jstok_loop.simps [of strict json "_\<lparr>jp_pos := length json, jp_toknext := _\<rparr>"]
    by simp
  then show ?thesis using assms(4) by (cases ts) (auto simp: jstok_parse_def jstok_init_def)
qed

end
