(* ===== verification/JstokCount.thy ===== *)
theory JstokCount
  imports JstokComplete
begin

text \<open>
  Count-only mode against a run that writes tokens: both take the same turns until the array
  is full, so the count is exactly the number of tokens needed.
\<close>

section \<open>The same parser without token indices\<close>

definition erase_frame :: "jstok_frame \<Rightarrow> jstok_frame" where
  "erase_frame f = f\<lparr>fr_tok := -1\<rparr>"

definition erase :: "jstok_parser \<Rightarrow> jstok_parser" where
  "erase p = p\<lparr>jp_stack := map erase_frame (jp_stack p)\<rparr>"

lemma erase_simps [simp]:
  "jp_pos (erase p) = jp_pos p" "jp_toknext (erase p) = jp_toknext p"
  "jp_root_done (erase p) = jp_root_done p" "jp_error_pos (erase p) = jp_error_pos p"
  "jp_error_code (erase p) = jp_error_code p" "jp_stack (erase p) = map erase_frame (jp_stack p)"
  "fr_type (erase_frame f) = fr_type f" "fr_st (erase_frame f) = fr_st f"
  "(erase p)\<lparr>jp_pos := q\<rparr> = erase (p\<lparr>jp_pos := q\<rparr>)" "jstok_set_error (erase p) e q = erase (jstok_set_error p e q)"
  "(erase p)\<lparr>jp_toknext := n\<rparr> = erase (p\<lparr>jp_toknext := n\<rparr>)"
  "(erase p)\<lparr>jp_root_done := d\<rparr> = erase (p\<lparr>jp_root_done := d\<rparr>)"
  by (simp_all add: erase_def erase_frame_def jstok_set_error_def)

lemma erase_top: "jstok_top (erase p) = map_option erase_frame (jstok_top p)"
  by (simp add: jstok_top_def split: list.splits)

lemma erase_set_st: "jstok_set_st (erase p) st = erase (jstok_set_st p st)"
  by (simp add: jstok_set_st_def erase_def erase_frame_def split: list.splits)

lemma erase_inval: "jstok_inval (erase p) = apsnd erase (jstok_inval p)"
  by (simp add: jstok_inval_def)

definition same_length :: "jstoktok list \<Rightarrow> jtoks \<Rightarrow> bool" where
  "same_length a toks \<longleftrightarrow> (\<exists>a'. toks = Some a' \<and> length a' = length a)"

text \<open>The counting run and the writing run after the same piece of code.\<close>

definition agree ::
  "jstoktok list \<Rightarrow> jstokerr option \<times> jstok_parser \<times> jtoks \<Rightarrow> jstokerr option \<times> jstok_parser \<times> jtoks \<Rightarrow> bool" where
  "agree a rc rw \<longleftrightarrow> snd (snd rc) = None \<and> same_length a (snd (snd rw)) \<and>
     (fst rw = fst rc \<and> fst (snd rc) = erase (fst (snd rw)) \<and> jp_toknext (fst (snd rw)) \<le> length a \<or>
      fst rw = Some JSTOK_ERROR_NOMEM \<and> jp_toknext (fst (snd rc)) > length a)"

lemma tok_add_size_None [simp]: "tok_add_size None i d = None"
  by (simp add: tok_add_size_def)

lemma tok_add_size_length: "same_length a toks \<Longrightarrow> same_length a (tok_add_size toks i d)"
  by (auto simp: same_length_def tok_add_size_def)

lemma inc_container_size_None [simp]: "jstok_inc_container_size p None = None"
  by (simp add: jstok_inc_container_size_def split: option.splits)

lemma accept_value_erase:
  "jstok_accept_value strict (erase p) None =
     (case jstok_accept_value strict p toks of (e, q, _) \<Rightarrow> (e, erase q, None))"
  by (simp add: jstok_accept_value_def erase_top erase_inval erase_set_st Let_def jstok_inval_def split: option.splits)

lemma accept_value_length:
  "jstok_accept_value strict p toks = (e, q, toks') \<Longrightarrow> same_length a toks \<Longrightarrow>
     same_length a toks' \<and> jp_toknext q = jp_toknext p"
  by (auto simp: jstok_accept_value_def jstok_inval_def jstok_set_error_def jstok_inc_container_size_def
      jstok_set_st_def tok_add_size_length Let_def split: option.splits if_splits list.splits)

lemma new_token_agree:
  assumes "same_length a toks" "jp_toknext p \<le> length a"
  shows "jstok_new_token (erase p) None ty s t = (Inr (jp_toknext p), erase (p\<lparr>jp_toknext := jp_toknext p + 1\<rparr>), None)"
    and "jp_toknext p < length a \<Longrightarrow> \<exists>toks'. same_length a toks' \<and>
      jstok_new_token p toks ty s t = (Inr (jp_toknext p), p\<lparr>jp_toknext := jp_toknext p + 1\<rparr>, toks')"
    and "\<not> jp_toknext p < length a \<Longrightarrow>
      jstok_new_token p toks ty s t = (Inl JSTOK_ERROR_NOMEM, jstok_set_error p JSTOK_ERROR_NOMEM (jp_pos p), toks)"
  using assms by (auto simp: jstok_new_token_def same_length_def)

lemma parse_string_agree:
  assumes "same_length a toks" "jp_toknext p \<le> length a"
  shows "agree a (jstok_parse_string_token (erase p) json None) (jstok_parse_string_token p json toks)"
proof (cases "jp_pos p \<ge> length json \<or> json ! jp_pos p \<noteq> C_QUOTE")
  case True
  with assms show ?thesis by (auto simp: jstok_parse_string_token_def agree_def erase_inval jstok_inval_def jstok_set_error_def)
next
  case False
  show ?thesis
  proof (cases "jstok_scan_string (jp_pos p + 1) (drop (jp_pos p + 1) json)")
    case (Inl err)
    with False assms show ?thesis
      by (cases err) (auto simp: jstok_parse_string_token_def agree_def jstok_set_error_def simp flip: erase_def)
  next
    case (Inr close)
    let ?q = "p\<lparr>jp_pos := close\<rparr>"
    have q: "jp_toknext ?q \<le> length a" using assms(2) by simp
    note nt = new_token_agree [OF assms(1) q, of JSTOK_STRING "int (jp_pos p) + 1" "int close"]
    show ?thesis
    proof (cases "jp_toknext ?q < length a")
      case True
      with nt(1,2) False Inr show ?thesis by (auto simp: jstok_parse_string_token_def agree_def)
    next
      case f: False
      with nt(1,3) False Inr assms show ?thesis by (auto simp: jstok_parse_string_token_def agree_def)
    qed
  qed
qed

lemma parse_primitive_agree:
  assumes "same_length a toks" "jp_toknext p \<le> length a"
  shows "agree a (jstok_parse_primitive_token strict (erase p) json None) (jstok_parse_primitive_token strict p json toks)"
proof (cases "jstok_scan_primitive strict (jp_pos p) (drop (jp_pos p) json)")
  case (Inl err)
  with assms show ?thesis
    by (cases err) (auto simp: jstok_parse_primitive_token_def agree_def jstok_set_error_def simp flip: erase_def)
next
  case (Inr stop)
  let ?q = "p\<lparr>jp_pos := stop\<rparr>"
  have q: "jp_toknext ?q \<le> length a" using assms(2) by simp
  note nt = new_token_agree [OF assms(1) q, of JSTOK_PRIMITIVE "int (jp_pos p)" "int stop"]
  show ?thesis
  proof (cases "jp_toknext ?q < length a")
    case True
    with nt(1,2) Inr show ?thesis by (auto simp: jstok_parse_primitive_token_def agree_def)
  next
    case f: False
    with nt(1,3) Inr assms show ?thesis by (auto simp: jstok_parse_primitive_token_def agree_def)
  qed
qed

lemma rollback_agree:
  "jstok_rollback (erase p) (erase q) None = (erase (fst (jstok_rollback p q toks)), None)"
  by (auto simp: jstok_rollback_def erase_top erase_set_st split: option.splits)

lemma rollback_length:
  "same_length a toks \<Longrightarrow> same_length a (snd (jstok_rollback p q toks)) \<and>
     jp_toknext (fst (jstok_rollback p q toks)) = jp_toknext q"
  by (auto simp: jstok_rollback_def tok_add_size_length jstok_set_st_def split: option.splits list.splits)

lemma simple_value_agree:
  assumes l: "same_length a toks" "jp_toknext p \<le> length a"
    and f: "\<And>q ts. same_length a ts \<Longrightarrow> jp_toknext q \<le> length a \<Longrightarrow> agree a (parse (erase q) None) (parse q ts)"
  shows "agree a (jstok_simple_value strict parse (erase p) None) (jstok_simple_value strict parse p toks)"
proof -
  obtain e q ts where a: "jstok_accept_value strict p toks = (e, q, ts)" by (metis prod_cases3)
  note len = accept_value_length [OF a l(1)]
  have c: "jstok_accept_value strict (erase p) None = (e, erase q, None)"
    using accept_value_erase [of strict p toks] a by simp
  show ?thesis
  proof (cases e)
    case (Some x)
    with a c len l(2) show ?thesis by (simp add: jstok_simple_value_def agree_def)
  next
    case None
    obtain e1 q1 t1 where p1: "parse (erase q) None = (e1, q1, t1)" by (metis prod_cases3)
    obtain e2 q2 t2 where p2: "parse q ts = (e2, q2, t2)" by (metis prod_cases3)
    have ag: "agree a (e1, q1, t1) (e2, q2, t2)" using f [of ts q] len l(2) p1 p2 by simp
    have rb: "jp_toknext (fst (jstok_rollback (erase p) q1 None)) = jp_toknext q1"
      by (auto simp: jstok_rollback_def jstok_set_st_def split: option.splits list.splits)
    show ?thesis
    proof (cases "e2 = e1")
      case True
      then show ?thesis
        using ag a c None p1 p2 rollback_agree [of p q2 t2] rollback_length [of a t2 p q2] rb
        by (auto simp: agree_def jstok_simple_value_def case_prod_unfold split: option.splits)
    next
      case False
      then have "e2 = Some JSTOK_ERROR_NOMEM" "jp_toknext q1 > length a" "same_length a t2" "t1 = None"
        using ag by (auto simp: agree_def)
      moreover have "snd (jstok_rollback (erase p) q1 None) = None"
        by (auto simp: jstok_rollback_def split: option.splits)
      ultimately show ?thesis
        using a c None p1 p2 rb
        by (auto simp: agree_def jstok_simple_value_def case_prod_unfold split: option.splits)
    qed
  qed
qed

lemma start_container_agree:
  assumes l: "same_length a toks" "jp_toknext p \<le> length a"
  shows "agree a (jstok_start_container strict (erase p) None ty) (jstok_start_container strict p toks ty)"
proof -
  obtain e q ts where a: "jstok_accept_value strict p toks = (e, q, ts)" by (metis prod_cases3)
  note len = accept_value_length [OF a l(1)]
  have c: "jstok_accept_value strict (erase p) None = (e, erase q, None)"
    using accept_value_erase [of strict p toks] a by simp
  show ?thesis
  proof (cases e)
    case (Some x)
    with a c len l(2) show ?thesis by (simp add: jstok_start_container_def agree_def)
  next
    case None
    have q: "same_length a ts" "jp_toknext q \<le> length a" using len l(2) by simp_all
    note nt = new_token_agree [OF q, of ty "int (jp_pos q)" "-1"]
    obtain st where st: "(if ty = JSTOK_OBJECT then ST_OBJ_KEY_OR_END else ST_ARR_VALUE_OR_END) = st" by simp
    let ?q1 = "q\<lparr>jp_toknext := jp_toknext q + 1\<rparr>"
    obtain a' where tok: "toks = Some a'" using l(1) by (auto simp: same_length_def)
    have push: "jstok_push (erase ?q1) ty st (-1) = apsnd erase (jstok_push ?q1 ty st (int (jp_toknext q)))"
      by (simp add: jstok_push_def erase_def erase_frame_def jstok_set_error_def)
    have tn: "jp_toknext (snd (jstok_push x ty st k)) = jp_toknext x" for x k
      by (simp add: jstok_push_def jstok_set_error_def)
    obtain e3 q3 where p3: "jstok_push ?q1 ty st (int (jp_toknext q)) = (e3, q3)" by fastforce
    have n3: "jp_toknext q3 = jp_toknext q + 1"
      using tn [of ?q1 "int (jp_toknext q)"] unfolding p3 by simp
    show ?thesis
    proof (cases "jp_toknext q < length a")
      case True
      with nt(2) obtain ts' where ts': "same_length a ts'"
        "jstok_new_token q ts ty (int (jp_pos q)) (-1) = (Inr (jp_toknext q), ?q1, ts')" by blast
      show ?thesis
        using nt(1) None a c push p3 n3 True ts' unfolding jstok_start_container_def st tok
        by (cases e3) (simp_all add: agree_def)
    next
      case False
      then show ?thesis
        using nt(1,3) None a c q push p3 n3 unfolding jstok_start_container_def st tok
        by (cases e3) (simp_all add: agree_def)
    qed
  qed
qed

lemma end_container_agree:
  assumes "same_length a toks" "jp_toknext p \<le> length a"
  shows "agree a (jstok_end_container (erase p) None ty) (jstok_end_container p toks ty)"
proof -
  have tc: "same_length a (tok_close toks i q ty')" for i q ty'
    using assms(1) by (auto simp: tok_close_def same_length_def Let_def)
  have pop: "jstok_pop (erase p) = erase (jstok_pop p)" by (simp add: jstok_pop_def erase_def map_tl)
  have tn: "jp_toknext (jstok_pop p) = jp_toknext p" by (simp add: jstok_pop_def)
  show ?thesis
  proof (cases "jstok_top p")
    case None
    with assms show ?thesis
      by (simp add: jstok_end_container_def erase_top agree_def erase_inval jstok_inval_def Let_def)
        (simp add: jstok_set_error_def)
  next
    case (Some fr)
    with assms tc pop tn show ?thesis
      by (simp add: jstok_end_container_def erase_top agree_def erase_inval jstok_inval_def Let_def tok_close_def [of None])
        (simp add: jstok_set_error_def)
  qed
qed

lemma small_agree:
  "jstok_colon (erase p) = apsnd erase (jstok_colon p)"
  "jstok_comma (erase p) = apsnd erase (jstok_comma p)"
  "jstok_accept_key (erase p) = apsnd erase (jstok_accept_key p)"
  "jstok_expects_key (erase p) = jstok_expects_key p"
  by (auto simp: jstok_colon_def jstok_comma_def jstok_accept_key_def jstok_expects_key_def erase_top
      erase_inval erase_set_st split: option.splits)

lemma small_toknext:
  "jp_toknext (snd (jstok_colon p)) = jp_toknext p" "jp_toknext (snd (jstok_comma p)) = jp_toknext p"
  "jp_toknext (snd (jstok_accept_key p)) = jp_toknext p"
  by (auto simp: jstok_colon_def jstok_comma_def jstok_accept_key_def jstok_inval_def jstok_set_error_def
      jstok_set_st_def split: option.splits list.splits)

section \<open>Turns, loops and calls\<close>

lemma step_agree:
  assumes l: "same_length a toks" "jp_toknext p \<le> length a"
  shows "agree a (jstok_step strict json (erase p) None) (jstok_step strict json p toks)"
proof (cases "json ! jp_pos p" rule: jstok_byte_cases)
  case space
  with l show ?thesis by (simp add: jstok_step_eqs agree_def)
next
  case obj
  with start_container_agree [OF l] show ?thesis by (simp add: jstok_step_eqs)
next
  case arr
  with start_container_agree [OF l] show ?thesis by (simp add: jstok_step_eqs)
next
  case objend
  with end_container_agree [OF l] show ?thesis by (simp add: jstok_step_eqs)
next
  case arrend
  with end_container_agree [OF l] show ?thesis by (simp add: jstok_step_eqs)
next
  case colon
  with l show ?thesis by (simp add: jstok_step_eqs agree_def small_agree small_toknext)
next
  case comma
  with l show ?thesis by (simp add: jstok_step_eqs agree_def small_agree small_toknext)
next
  case quot
  show ?thesis
  proof (cases "jstok_expects_key p")
    case True
    obtain e1 q1 t1 where p1: "jstok_parse_string_token (erase p) json None = (e1, q1, t1)" by (metis prod_cases3)
    obtain e2 q2 t2 where p2: "jstok_parse_string_token p json toks = (e2, q2, t2)" by (metis prod_cases3)
    have ag: "agree a (e1, q1, t1) (e2, q2, t2)" using parse_string_agree [OF l, of json] p1 p2 by simp
    have "jp_toknext (snd (jstok_accept_key q1)) = jp_toknext q1" by (rule small_toknext)
    with ag show ?thesis
      using quot True p1 p2 small_toknext(3) [of q2]
      by (cases e1; cases e2) (auto simp: jstok_step_eqs small_agree agree_def)
  next
    case False
    with simple_value_agree [OF l, of "\<lambda>q ts. jstok_parse_string_token q json ts"] parse_string_agree quot
    show ?thesis by (simp add: jstok_step_eqs small_agree)
  qed
next
  case prim
  with simple_value_agree [OF l, of "\<lambda>q ts. jstok_parse_primitive_token strict q json ts"] parse_primitive_agree
  show ?thesis by (simp add: jstok_step_eqs)
qed

lemma count_step_mono:
  assumes "jstok_step strict json p None = (e, p', t)"
  shows "jp_toknext p \<le> jp_toknext p' \<and> t = None"
proof -
  note defs = jstok_set_error_def jstok_inval_def
  have nt: "jstok_new_token q None ty i j = (Inr (jp_toknext q), q\<lparr>jp_toknext := jp_toknext q + 1\<rparr>, None)" for q ty i j
    by (simp add: jstok_new_token_def)
  have str: "jp_toknext q \<le> jp_toknext q' \<and> t' = None"
    if "jstok_parse_string_token q json None = (e', q', t')" for q e' q' t'
    using that by (auto simp: jstok_parse_string_token_def nt defs split: if_splits sum.splits)
  have prim: "jp_toknext q \<le> jp_toknext q' \<and> t' = None"
    if "jstok_parse_primitive_token strict q json None = (e', q', t')" for q e' q' t'
    using that by (auto simp: jstok_parse_primitive_token_def nt defs split: sum.splits)
  have acc: "jp_toknext q' = jp_toknext q \<and> t' = None"
    if "jstok_accept_value strict q None = (e', q', t')" for q e' q' t'
    using that by (auto simp: jstok_accept_value_def defs jstok_set_st_def Let_def split: option.splits if_splits list.splits)
  have sv: "jp_toknext q \<le> jp_toknext q' \<and> t' = None"
    if s: "jstok_simple_value strict parse q None = (e', q', t')"
      and f: "\<And>q e' q' t'. parse q None = (e', q', t') \<Longrightarrow> jp_toknext q \<le> jp_toknext q' \<and> t' = None"
    for parse q e' q' t'
  proof -
    obtain e1 q1 t1 where a: "jstok_accept_value strict q None = (e1, q1, t1)" by (metis prod_cases3)
    obtain e2 q2 t2 where b: "parse q1 None = (e2, q2, t2)" by (metis prod_cases3)
    have rb: "jp_toknext (fst (jstok_rollback q q2 None)) = jp_toknext q2 \<and> snd (jstok_rollback q q2 None) = None"
      by (auto simp: jstok_rollback_def jstok_set_st_def split: option.splits list.splits)
    show ?thesis
      using s a b acc [OF a] f [OF b] rb
      by (auto simp: jstok_simple_value_def case_prod_unfold split: option.splits if_splits)
  qed
  have sc: "jp_toknext q \<le> jp_toknext q' \<and> t' = None"
    if "jstok_start_container strict q None ty = (e', q', t')" for q e' q' t' ty
    using that by (auto simp: jstok_start_container_def nt Let_def jstok_push_def defs dest!: acc
        split: option.splits if_splits prod.splits)
  have ec: "jp_toknext q \<le> jp_toknext q' \<and> t' = None"
    if "jstok_end_container q None ty = (e', q', t')" for q e' q' t' ty
    using that by (auto simp: jstok_end_container_def Let_def jstok_pop_def tok_close_def defs
        split: option.splits if_splits)
  show ?thesis
  proof (cases "json ! jp_pos p" rule: jstok_byte_cases)
    case space
    with assms show ?thesis by (auto simp: jstok_step_eqs)
  next
    case quot
    then show ?thesis
      using assms sv [of "\<lambda>q ts. jstok_parse_string_token q json ts"] str small_toknext(3)
      by (cases "jstok_expects_key p"; cases "jstok_parse_string_token p json None")
        (fastforce simp: jstok_step_eqs split: option.splits)+
  next
    case prim
    with assms sv [of "\<lambda>q ts. jstok_parse_primitive_token strict q json ts"] \<open>\<And>t' q' q e'. jstok_parse_primitive_token strict q json None = (e', q', t') \<Longrightarrow> jp_toknext q \<le> jp_toknext q' \<and> t' = None\<close>
    show ?thesis by (simp add: jstok_step_eqs)
  next
    case colon
    with assms small_toknext(1) [of p] show ?thesis by (auto simp: jstok_step_eqs)
  next
    case comma
    with assms small_toknext(2) [of p] show ?thesis by (auto simp: jstok_step_eqs)
  qed (use assms sc ec in \<open>auto simp: jstok_step_eqs\<close>)
qed

lemma count_loop_mono:
  "jstok_loop strict json p toks = (e, p', t) \<Longrightarrow> toks = None \<Longrightarrow> jp_toknext p \<le> jp_toknext p' \<and> t = None"
proof (induction strict json p toks rule: jstok_loop.induct)
  case (1 strict json p toks)
  obtain e1 p1 t1 where s: "jstok_step strict json p toks = (e1, p1, t1)" by (metis prod_cases3)
  then have m: "jp_toknext p \<le> jp_toknext p1" "t1 = None" using count_step_mono 1(3) by blast+
  show ?case
  proof (cases "jp_pos p < length json \<and> e1 = None")
    case True
    then have l: "jp_pos p < length json" and n: "(None, p1, t1) = jstok_step strict json p toks" using s by simp_all
    have "jstok_loop strict json p1 t1 = (e, p', t)"
      using 1(2) l n [symmetric] jstok_loop.simps [of strict json p toks] by simp
    from 1(1) [OF l n refl refl this m(2)] m(1) show ?thesis by simp
  next
    case False
    with 1(2,3) s m jstok_loop.simps [of strict json p toks] show ?thesis
      by (auto split: if_splits option.splits)
  qed
qed

lemma count_parse_None:
  "jstok_parse strict p (Some json) None = (r, q, t) \<Longrightarrow> t = None"
  using count_loop_mono
  by (auto simp: jstok_parse_def split: prod.splits option.splits if_splits)

lemma loop_agree:
  assumes "same_length a toks" "jp_toknext p \<le> length a"
  shows "agree a (jstok_loop strict json (erase p) None) (jstok_loop strict json p toks)"
  using assms
proof (induction strict json p toks rule: jstok_loop.induct)
  case (1 strict json p toks)
  show ?case
  proof (cases "jp_pos p < length json")
    case False
    with 1(2,3) jstok_loop.simps [of strict json p toks] jstok_loop.simps [of strict json "erase p" None]
    show ?thesis by (simp add: agree_def)
  next
    case True
    obtain e1 q1 t1 where s1: "jstok_step strict json (erase p) None = (e1, q1, t1)" by (metis prod_cases3)
    obtain e2 q2 t2 where s2: "jstok_step strict json p toks = (e2, q2, t2)" by (metis prod_cases3)
    have ag: "agree a (e1, q1, t1) (e2, q2, t2)" using step_agree [OF 1(2,3), of strict json] s1 s2 by simp
    have l1: "jstok_loop strict json (erase p) None = (case e1 of Some e \<Rightarrow> (Some e, q1, t1) | None \<Rightarrow> jstok_loop strict json q1 t1)"
      using True s1 jstok_loop.simps [of strict json "erase p" None] by (simp split: option.splits)
    have l2: "jstok_loop strict json p toks = (case e2 of Some e \<Rightarrow> (Some e, q2, t2) | None \<Rightarrow> jstok_loop strict json q2 t2)"
      using True s2 jstok_loop.simps [of strict json p toks] by (simp split: option.splits)
    obtain e3 q3 t3 where c: "jstok_loop strict json q1 None = (e3, q3, t3)" by (metis prod_cases3)
    note m = count_loop_mono [OF c refl]
    show ?thesis
    proof (cases "e2 = e1 \<and> q1 = erase q2 \<and> jp_toknext q2 \<le> length a")
      case same: True
      have t: "t1 = None" "same_length a t2" using ag by (simp_all add: agree_def)
      show ?thesis
      proof (cases e2)
        case (Some x)
        with same ag l1 l2 show ?thesis by auto
      next
        case None
        then have n: "(None, q2, t2) = jstok_step strict json p toks" using s2 by simp
        from 1(1) [OF True n refl refl t(2)] same None t l1 l2 show ?thesis by auto
      qed
    next
      case False
      with ag have "e2 = Some JSTOK_ERROR_NOMEM" "jp_toknext q1 > length a" "t1 = None" "same_length a t2"
        by (auto simp: agree_def)
      with l1 l2 c m show ?thesis by (auto simp: agree_def split: option.splits)
    qed
  qed
qed

lemma jstok_parse_agree:
  assumes c: "jstok_parse strict jstok_init (Some json) None = (r, pc, t)"
    and w: "jstok_parse strict jstok_init (Some json) (Some arr) = (r', pw, toks)"
  shows "if jp_toknext pc \<le> length arr
    then r' = r \<and> jp_pos pw = jp_pos pc \<and> jp_error_pos pw = jp_error_pos pc \<and> jp_toknext pw = jp_toknext pc
    else r' = Inl JSTOK_ERROR_NOMEM"
proof -
  let ?p = "jstok_init\<lparr>jp_error_pos := -1, jp_error_code := None\<rparr>"
  have e: "erase ?p = ?p" by (simp add: erase_def jstok_init_def)
  obtain e1 q1 t1 where l1: "jstok_loop strict json ?p None = (e1, q1, t1)" by (metis prod_cases3)
  obtain e2 q2 t2 where l2: "jstok_loop strict json ?p (Some arr) = (e2, q2, t2)" by (metis prod_cases3)
  have ag: "agree arr (e1, q1, t1) (e2, q2, t2)"
  proof -
    have "same_length arr (Some arr)" "jp_toknext ?p \<le> length arr" by (simp_all add: same_length_def jstok_init_def)
    from loop_agree [OF this, of strict json] show ?thesis unfolding e l1 l2 .
  qed
  then consider "e2 = e1" "q1 = erase q2" "jp_toknext q2 \<le> length arr"
    | "e2 = Some JSTOK_ERROR_NOMEM" "jp_toknext q1 > length arr"
    by (auto simp: agree_def)
  then show ?thesis
  proof cases
    case 1
    then show ?thesis
      using c w l1 l2 by (cases e1) (auto simp: jstok_parse_def jstok_set_error_def split: if_splits)
  next
    case 2
    then show ?thesis
      using c w l1 l2 by (cases e1) (auto simp: jstok_parse_def jstok_set_error_def split: if_splits)
  qed
qed

end
