(* ===== verification/JstokSafe.thy ===== *)
theory JstokSafe
  imports Jstok
begin

text \<open>
  What the tokenizer keeps whatever bytes it is given and however often it is resumed: the
  stack stays within its 64 frames, every token index it stores or writes lies inside the
  caller's array, a frame's state fits the container it belongs to, and the error fields
  say what the call returned.
\<close>

section \<open>The invariant\<close>

definition frame_wf :: "nat \<Rightarrow> jstok_frame \<Rightarrow> bool" where
  "frame_wf n f \<longleftrightarrow> -1 \<le> fr_tok f \<and> fr_tok f < int n \<and>
     (if fr_type f = JSTOK_OBJECT
      then fr_st f \<in> {ST_OBJ_KEY_OR_END, ST_OBJ_KEY, ST_OBJ_COLON, ST_OBJ_VALUE, ST_OBJ_COMMA_OR_END}
      else fr_type f = JSTOK_ARRAY \<and> fr_st f \<in> {ST_ARR_VALUE_OR_END, ST_ARR_VALUE, ST_ARR_COMMA_OR_END})"

definition jstok_wf :: "jstok_parser \<Rightarrow> jtoks \<Rightarrow> bool" where
  "jstok_wf p toks \<longleftrightarrow> length (jp_stack p) \<le> JSTOK_MAX_DEPTH \<and> list_all (frame_wf (jp_toknext p)) (jp_stack p) \<and>
     (case toks of None \<Rightarrow> True | Some ts \<Rightarrow> jp_toknext p \<le> length ts)"

definition same_size :: "jtoks \<Rightarrow> jtoks \<Rightarrow> bool" where
  "same_size toks toks' \<longleftrightarrow> map_option length toks' = map_option length toks"

text \<open>The outcome of an operation started at \<open>p\<close> on an input of \<open>n\<close> bytes.\<close>

definition good_outcome ::
  "nat \<Rightarrow> jstok_parser \<Rightarrow> jtoks \<Rightarrow> jstokerr option \<times> jstok_parser \<times> jtoks \<Rightarrow> bool" where
  "good_outcome n p toks res \<longleftrightarrow>
     (case res of (e, p', toks') \<Rightarrow>
        jstok_wf p' toks' \<and> same_size toks toks' \<and> jp_pos p \<le> jp_pos p' \<and> jp_pos p' \<le> n \<and>
        (case e of
           None \<Rightarrow> jp_error_code p' = jp_error_code p \<and> jp_error_pos p' = jp_error_pos p
         | Some err \<Rightarrow> jp_error_code p' = Some err \<and> 0 \<le> jp_error_pos p' \<and> jp_error_pos p' \<le> int n))"

lemma good_outcome_trans:
  assumes "good_outcome n p toks (None, p1, toks1)" "good_outcome n p1 toks1 res"
  shows "good_outcome n p toks res"
  using assms by (cases res) (auto simp: good_outcome_def same_size_def split: option.splits)

lemma frame_wf_mono: "list_all (frame_wf n) fs \<Longrightarrow> n \<le> m \<Longrightarrow> list_all (frame_wf m) fs"
  by (auto simp: frame_wf_def list_all_iff)

lemma same_size_refl [simp]: "same_size toks toks"
  by (simp add: same_size_def)

lemma tok_add_size_size [simp]: "same_size toks (tok_add_size toks i d)"
  by (simp add: same_size_def tok_add_size_def split: option.splits)

lemma jstok_wf_same_size: "same_size toks toks' \<Longrightarrow> jstok_wf p toks \<Longrightarrow> jstok_wf p toks'"
  by (auto simp: same_size_def jstok_wf_def split: option.splits)

lemma jstok_wf_pos [simp]:
  "jstok_wf (p\<lparr>jp_pos := q\<rparr>) toks = jstok_wf p toks"
  "jstok_wf (p\<lparr>jp_root_done := d\<rparr>) toks = jstok_wf p toks"
  "jstok_wf (jstok_set_error p e q) toks = jstok_wf p toks"
  "jstok_wf (p\<lparr>jp_error_pos := i, jp_error_code := c\<rparr>) toks = jstok_wf p toks"
  by (simp_all add: jstok_wf_def jstok_set_error_def split: option.split)

lemma jstok_inval_good:
  "jstok_wf p toks \<Longrightarrow> jp_pos p \<le> n \<Longrightarrow> jstok_inval p = (e, q) \<Longrightarrow> good_outcome n p toks (e, q, toks)"
  by (auto simp: good_outcome_def jstok_inval_def) (auto simp: jstok_set_error_def)

lemma jstok_set_st_wf:
  assumes "jstok_wf p toks" "jstok_top p = Some fr"
    "frame_wf (jp_toknext p) (fr\<lparr>fr_st := st\<rparr>)"
  shows "jstok_wf (jstok_set_st p st) toks"
  using assms by (auto simp: jstok_wf_def jstok_set_st_def jstok_top_def split: list.splits option.splits)

lemma jstok_set_st_fields [simp]:
  "jp_toknext (jstok_set_st p st) = jp_toknext p" "jp_error_pos (jstok_set_st p st) = jp_error_pos p"
  "jp_error_code (jstok_set_st p st) = jp_error_code p" "jp_root_done (jstok_set_st p st) = jp_root_done p"
  by (simp_all add: jstok_set_st_def split: list.splits)

lemma jstok_top_wf: "jstok_wf p toks \<Longrightarrow> jstok_top p = Some fr \<Longrightarrow> frame_wf (jp_toknext p) fr"
  by (auto simp: jstok_wf_def jstok_top_def split: list.splits)

section \<open>Every operation keeps it\<close>

lemma jstok_accept_value_good:
  assumes w: "jstok_wf p toks" and n: "jp_pos p \<le> n"
  shows "good_outcome n p toks (jstok_accept_value strict p toks)"
proof -
  have iv: "good_outcome n p toks (case jstok_inval p of (e, q) \<Rightarrow> (e, q, toks))"
    using jstok_inval_good [OF w n] by (auto split: prod.splits)
  have st: "good_outcome n p toks (None, jstok_set_st p s, jstok_inc_container_size p toks)"
    if t: "jstok_top p = Some fr" and f: "frame_wf (jp_toknext p) (fr\<lparr>fr_st := s\<rparr>)" for fr s
  proof -
    have "same_size toks (jstok_inc_container_size p toks)" by (simp add: jstok_inc_container_size_def split: option.splits)
    with jstok_wf_same_size [OF this jstok_set_st_wf [OF w t f]] n show ?thesis by (simp add: good_outcome_def)
  qed
  show ?thesis
  proof (cases "jstok_top p")
    case None
    with w n iv show ?thesis by (auto simp: jstok_accept_value_def good_outcome_def)
  next
    case (Some fr)
    note f = jstok_top_wf [OF w Some]
    show ?thesis
      using Some f iv st [OF Some, of ST_ARR_COMMA_OR_END] st [OF Some, of ST_OBJ_COMMA_OR_END]
      by (simp add: jstok_accept_value_def frame_wf_def Let_def)
  qed
qed

lemma jstok_accept_key_good:
  assumes w: "jstok_wf p toks" and n: "jp_pos p \<le> n" and a: "jstok_accept_key p = (e, q)"
  shows "good_outcome n p toks (e, q, toks)"
proof (cases "jstok_top p")
  case None
  with a jstok_inval_good [OF w n] show ?thesis by (simp add: jstok_accept_key_def)
next
  case (Some fr)
  note f = jstok_top_wf [OF w Some]
  show ?thesis
    using a f n jstok_inval_good [OF w n] jstok_set_st_wf [OF w Some, of ST_OBJ_COLON]
    by (auto simp: jstok_accept_key_def Some frame_wf_def good_outcome_def split: if_splits)
qed

lemma jstok_colon_good:
  assumes w: "jstok_wf p toks" and n: "jp_pos p < n" and a: "jstok_colon p = (e, q)"
  shows "good_outcome n p toks (e, q, toks)"
proof (cases "jstok_top p")
  case None
  with a n jstok_inval_good [OF w, of n] show ?thesis by (simp add: jstok_colon_def)
next
  case (Some fr)
  note f = jstok_top_wf [OF w Some]
  show ?thesis
    using a f n jstok_inval_good [OF w, of n] jstok_set_st_wf [OF w Some, of ST_OBJ_VALUE]
    by (auto simp: jstok_colon_def Some frame_wf_def good_outcome_def split: if_splits)
qed

lemma jstok_comma_good:
  assumes w: "jstok_wf p toks" and n: "jp_pos p < n" and a: "jstok_comma p = (e, q)"
  shows "good_outcome n p toks (e, q, toks)"
proof (cases "jstok_top p")
  case None
  with a n jstok_inval_good [OF w, of n] show ?thesis by (simp add: jstok_comma_def)
next
  case (Some fr)
  note f = jstok_top_wf [OF w Some]
  show ?thesis
    using a f n jstok_inval_good [OF w, of n] jstok_set_st_wf [OF w Some, of ST_OBJ_KEY]
      jstok_set_st_wf [OF w Some, of ST_ARR_VALUE]
    by (auto simp: jstok_comma_def Some frame_wf_def good_outcome_def split: if_splits)
qed

lemma jstok_new_token_good:
  assumes w: "jstok_wf p toks" and n: "jp_pos p \<le> n" and t: "jstok_new_token p toks ty a b = (r, q, toks')"
  shows "good_outcome n p toks ((case r of Inl e \<Rightarrow> Some e | Inr i \<Rightarrow> None), q, toks') \<and>
    (\<forall>i. r = Inr i \<longrightarrow> i < jp_toknext q \<and> jp_stack q = jp_stack p)"
  using w n t frame_wf_mono [of "jp_toknext p" "jp_stack p" "Suc (jp_toknext p)"]
  by (auto simp: jstok_new_token_def good_outcome_def jstok_wf_def same_size_def jstok_set_error_def
      split: option.splits if_splits sum.splits)

lemma jstok_scan_hex_at: "jstok_scan_hex n pos bs = Some (e, q) \<Longrightarrow> pos \<le> q \<and> q \<le> pos + length bs"
  by (induction n pos bs rule: jstok_scan_hex.induct) (fastforce split: if_splits)+

lemma jstok_scan_hex_len: "jstok_scan_hex n pos bs = None \<Longrightarrow> n \<le> length bs"
  by (induction n pos bs rule: jstok_scan_hex.induct) (auto split: if_splits)

lemma jstok_scan_string_at: "jstok_scan_string pos bs = Inl (e, q) \<Longrightarrow> pos \<le> q \<and> q \<le> pos + length bs"
proof (induction pos bs rule: jstok_scan_string.induct)
  case (2 pos c cs)
  from 2 show ?case
    by (fastforce dest!: jstok_scan_hex_at jstok_scan_hex_len split: if_splits list.splits option.splits)
qed simp

lemma jstok_skip_digits_at: "jstok_skip_digits pos bs = (q, cs) \<Longrightarrow> pos \<le> q \<and> q + length cs = pos + length bs"
  using jstok_skip_digits_advanced advanced_le by blast

lemma jstok_scan_literal_at: "jstok_scan_literal pos ls bs = Inl (e, q) \<Longrightarrow> q \<le> pos + length bs"
  by (induction pos ls bs rule: jstok_scan_literal.induct) (auto split: list.splits if_splits)

lemma jstok_scan_digits1_at: "jstok_scan_digits1 pos bs = Inl (e, q) \<Longrightarrow> q \<le> pos + length bs"
  by (auto simp: jstok_scan_digits1_def split: list.splits if_splits)

lemma jstok_scan_number_at:
  assumes "jstok_scan_number strict pos bs = Inl (e, q)" shows "q \<le> pos + length bs"
proof -
  have m: "q \<le> pos + length bs" if "jstok_scan_minus pos bs = Inl (e, q)"
    using that by (auto simp: jstok_scan_minus_def split: list.splits if_splits)
  have i: "q \<le> p1 + length b1" if "jstok_scan_int strict p1 b1 = Inl (e, q)" for p1 b1
    using that by (auto simp: jstok_scan_int_def split: list.splits if_splits)
  have f: "q \<le> p1 + length b1" if "jstok_scan_frac p1 b1 = Inl (e, q)" for p1 b1
    using that by (auto simp: jstok_scan_frac_def dest: jstok_scan_digits1_at split: list.splits if_splits)
  have x: "q \<le> p1 + length b1" if "jstok_scan_exp p1 b1 = Inl (e, q)" for p1 b1
    using that by (fastforce simp: jstok_scan_exp_def dest: jstok_scan_digits1_at split: list.splits if_splits)
  show ?thesis
    using assms m i f x
    by (fastforce simp: jstok_scan_number_def dest!: jstok_scan_minus_advanced jstok_scan_int_advanced
        jstok_scan_frac_advanced jstok_scan_exp_advanced advanced_le split: sum.splits list.splits if_splits)
qed

lemma jstok_scan_primitive_at: "jstok_scan_primitive strict pos bs = Inl (e, q) \<Longrightarrow> q \<le> pos + length bs"
  using jstok_scan_literal_at jstok_scan_number_at
  by (fastforce simp: jstok_scan_primitive_def split: list.splits if_splits)

lemma jstok_parse_string_token_good:
  assumes w: "jstok_wf p toks" and n: "jp_pos p \<le> length json"
  shows "good_outcome (length json) p toks (jstok_parse_string_token p json toks)"
proof (cases "jp_pos p \<ge> length json \<or> json ! jp_pos p \<noteq> C_QUOTE")
  case True
  with jstok_inval_good [OF w n] show ?thesis by (simp add: jstok_parse_string_token_def split: prod.splits)
next
  case False
  show ?thesis
  proof (cases "jstok_scan_string (jp_pos p + 1) (drop (jp_pos p + 1) json)")
    case (Inl a)
    obtain err at where a: "a = (err, at)" by (cases a)
    have "jp_pos p + 1 \<le> at \<and> at \<le> length json" using jstok_scan_string_at [OF Inl [unfolded a]] False by auto
    with False Inl a w show ?thesis
      by (auto simp: jstok_parse_string_token_def good_outcome_def) (auto simp: jstok_set_error_def)
  next
    case (Inr close)
    then have c: "jp_pos p < close \<and> close < length json" using jstok_scan_string_bounds [OF Inr] False by auto
    let ?t = "jstok_new_token (p\<lparr>jp_pos := close\<rparr>) toks JSTOK_STRING (int (jp_pos p) + 1) (int close)"
    obtain r q ts where t: "?t = (r, q, ts)" by (metis prod_cases3)
    have "good_outcome (length json) (p\<lparr>jp_pos := close\<rparr>) toks ((case r of Inl e \<Rightarrow> Some e | Inr i \<Rightarrow> None), q, ts)"
      using jstok_new_token_good [OF _ _ t, of "length json"] w c by simp
    with False Inr t c jstok_new_token_pos [OF t] show ?thesis
      by (auto simp: jstok_parse_string_token_def good_outcome_def split: sum.splits)
  qed
qed

lemma jstok_parse_primitive_token_good:
  assumes w: "jstok_wf p toks" and n: "jp_pos p \<le> length json"
  shows "good_outcome (length json) p toks (jstok_parse_primitive_token strict p json toks)"
proof (cases "jstok_scan_primitive strict (jp_pos p) (drop (jp_pos p) json)")
  case (Inl a)
  obtain err at where a: "a = (err, at)" by (cases a)
  have "at \<le> length json" using jstok_scan_primitive_at [OF Inl [unfolded a]] n by simp
  with Inl a w n show ?thesis
    by (auto simp: jstok_parse_primitive_token_def good_outcome_def) (auto simp: jstok_set_error_def)
next
  case (Inr stop)
  then have c: "jp_pos p < stop \<and> stop \<le> length json" using jstok_scan_primitive_bounds [OF Inr] n by auto
  let ?t = "jstok_new_token (p\<lparr>jp_pos := stop\<rparr>) toks JSTOK_PRIMITIVE (int (jp_pos p)) (int stop)"
  obtain r q ts where t: "?t = (r, q, ts)" by (metis prod_cases3)
  have "good_outcome (length json) (p\<lparr>jp_pos := stop\<rparr>) toks ((case r of Inl e \<Rightarrow> Some e | Inr i \<Rightarrow> None), q, ts)"
    using jstok_new_token_good [OF _ _ t, of "length json"] w c by simp
  with Inr t c show ?thesis
    by (auto simp: jstok_parse_primitive_token_def good_outcome_def split: sum.splits)
qed

text \<open>A one-token value that fails leaves the stack alone, so the roll-back finds its frame.\<close>

definition error_keeps_stack ::
  "(jstok_parser \<Rightarrow> jtoks \<Rightarrow> jstokerr option \<times> jstok_parser \<times> jtoks) \<Rightarrow> bool" where
  "error_keeps_stack parse \<longleftrightarrow> (\<forall>p toks e p' toks'. parse p toks = (Some e, p', toks') \<longrightarrow>
     jp_stack p' = jp_stack p \<and> jp_toknext p' = jp_toknext p)"

lemma jstok_new_token_stack:
  "jstok_new_token p toks ty a b = (Inl e, q, toks') \<Longrightarrow> jp_stack q = jp_stack p \<and> jp_toknext q = jp_toknext p"
  by (auto simp: jstok_new_token_def jstok_set_error_def split: option.splits if_splits)

lemma parse_token_keeps_stack:
  "error_keeps_stack (\<lambda>q ts. jstok_parse_string_token q json ts)"
  "error_keeps_stack (\<lambda>q ts. jstok_parse_primitive_token strict q json ts)"
  by (auto simp: error_keeps_stack_def jstok_parse_string_token_def jstok_parse_primitive_token_def jstok_inval_def
      jstok_set_error_def dest!: jstok_new_token_stack split: if_splits sum.splits prod.splits)

lemma jstok_accept_value_stack:
  assumes "jstok_accept_value strict p toks = (None, p1, toks1)"
  shows "case jp_stack p of [] \<Rightarrow> jp_stack p1 = [] | fr # fs \<Rightarrow> \<exists>st. jp_stack p1 = fr\<lparr>fr_st := st\<rparr> # fs"
    and "jp_toknext p1 = jp_toknext p"
  using assms
  by (auto simp: jstok_accept_value_def jstok_inval_def jstok_set_st_def jstok_top_def Let_def
      split: list.splits if_splits)

lemma jstok_rollback_good:
  assumes w: "jstok_wf p toks" and a: "jstok_accept_value strict p toks = (None, p1, toks1)"
    and w2: "jstok_wf p2 toks2" and s: "jp_stack p2 = jp_stack p1" "jp_toknext p2 = jp_toknext p1"
    and r: "jstok_rollback p p2 toks2 = (p3, toks3)"
  shows "jstok_wf p3 toks3 \<and> same_size toks2 toks3 \<and> jp_pos p3 = jp_pos p2 \<and>
    jp_error_code p3 = jp_error_code p2 \<and> jp_error_pos p3 = jp_error_pos p2"
proof (cases "jp_stack p")
  case Nil
  then have "jstok_top p = None" by (simp add: jstok_top_def)
  with r w2 show ?thesis by (auto simp: jstok_rollback_def)
next
  case (Cons fr fs)
  then have t: "jstok_top p = Some fr" by (simp add: jstok_top_def)
  obtain st where st: "jp_stack p1 = fr\<lparr>fr_st := st\<rparr> # fs" and k: "jp_toknext p1 = jp_toknext p"
    using jstok_accept_value_stack [OF a] Cons by auto
  have "jstok_top p2 = Some (fr\<lparr>fr_st := st\<rparr>)" using s st by (simp add: jstok_top_def)
  from jstok_set_st_wf [OF w2 this, of "fr_st fr"] jstok_top_wf [OF w t] k s
  have w3: "jstok_wf (jstok_set_st p2 (fr_st fr)) toks2" by simp
  with r t jstok_wf_same_size [OF tok_add_size_size w3] show ?thesis by (auto simp: jstok_rollback_def)
qed

lemma jstok_simple_value_good:
  assumes w: "jstok_wf p toks" and n: "jp_pos p \<le> n" and k: "error_keeps_stack parse"
    and g: "\<And>q ts. jstok_wf q ts \<Longrightarrow> jp_pos q \<le> n \<Longrightarrow> good_outcome n q ts (parse q ts)"
  shows "good_outcome n p toks (jstok_simple_value strict parse p toks)"
proof -
  obtain e p1 toks1 where a: "jstok_accept_value strict p toks = (e, p1, toks1)" by (metis prod_cases3)
  note ga = jstok_accept_value_good [OF w n, of strict, unfolded a]
  show ?thesis
  proof (cases e)
    case (Some x)
    with ga a show ?thesis by (simp add: jstok_simple_value_def)
  next
    case None
    obtain e2 p2 toks2 where b: "parse p1 toks1 = (e2, p2, toks2)" by (metis prod_cases3)
    have w1: "jstok_wf p1 toks1" "jp_pos p1 \<le> n" using ga None by (simp_all add: good_outcome_def)
    have gb: "good_outcome n p toks (e2, p2, toks2)"
      using good_outcome_trans [OF ga [unfolded None] g [OF w1]] b by simp
    show ?thesis
    proof (cases "e2 = Some JSTOK_ERROR_PART")
      case False
      with a None b gb show ?thesis by (auto simp: jstok_simple_value_def split: option.splits)
    next
      case True
      obtain p3 toks3 where r: "jstok_rollback p p2 toks2 = (p3, toks3)" by fastforce
      have s: "jp_stack p2 = jp_stack p1" "jp_toknext p2 = jp_toknext p1"
        using k b unfolding error_keeps_stack_def True by blast+
      have w2: "jstok_wf p2 toks2" using gb by (simp add: good_outcome_def)
      from jstok_rollback_good [OF w a [unfolded None] w2 s r] a None b gb True r show ?thesis
        by (simp add: jstok_simple_value_def good_outcome_def same_size_def)
    qed
  qed
qed

lemma jstok_start_container_good:
  assumes w: "jstok_wf p toks" and n: "jp_pos p < n" and ty: "ty = JSTOK_OBJECT \<or> ty = JSTOK_ARRAY"
  shows "good_outcome n p toks (jstok_start_container strict p toks ty)"
proof -
  obtain e p1 toks1 where a: "jstok_accept_value strict p toks = (e, p1, toks1)" by (metis prod_cases3)
  have ga: "good_outcome n p toks (e, p1, toks1)" using jstok_accept_value_good [OF w, of n strict] n a by simp
  show ?thesis
  proof (cases e)
    case (Some x)
    with ga a show ?thesis by (simp add: jstok_start_container_def)
  next
    case None
    have pos1: "jp_pos p1 = jp_pos p" by (rule jstok_accept_value_pos [OF a])
    have w1: "jstok_wf p1 toks1" "jp_pos p1 \<le> n" using ga None by (simp_all add: good_outcome_def)
    obtain r p2 toks2 where b: "jstok_new_token p1 toks1 ty (int (jp_pos p1)) (-1) = (r, p2, toks2)" by (metis prod_cases3)
    note gt = jstok_new_token_good [OF w1 b]
    have gb: "good_outcome n p toks ((case r of Inl e \<Rightarrow> Some e | Inr i \<Rightarrow> None), p2, toks2)"
      using good_outcome_trans [OF ga [unfolded None]] gt by blast
    have pos2: "jp_pos p2 = jp_pos p" using jstok_new_token_pos [OF b] pos1 by simp
    show ?thesis
    proof (cases r)
      case (Inl x)
      with a None b gb show ?thesis by (simp add: jstok_start_container_def)
    next
      case (Inr i)
      have i: "i < jp_toknext p2" using gt Inr by blast
      let ?st = "if ty = JSTOK_OBJECT then ST_OBJ_KEY_OR_END else ST_ARR_VALUE_OR_END"
      let ?tok = "if toks = None then -1 else int i"
      obtain e3 p3 where c: "jstok_push p2 ty ?st ?tok = (e3, p3)" by fastforce
      have res: "jstok_start_container strict p toks ty =
          (case e3 of None \<Rightarrow> (None, p3\<lparr>jp_pos := jp_pos p3 + 1\<rparr>, toks2) | Some e \<Rightarrow> (Some e, p3, toks2))"
        using a None b Inr c by (simp add: jstok_start_container_def Let_def)
      have f: "frame_wf (jp_toknext p2) \<lparr>fr_type = ty, fr_st = ?st, fr_tok = ?tok\<rparr>"
        using i ty by (auto simp: frame_wf_def)
      show ?thesis
      proof (cases "length (jp_stack p2) \<ge> JSTOK_MAX_DEPTH")
        case True
        with c have "e3 = Some JSTOK_ERROR_DEPTH" "p3 = jstok_set_error p2 JSTOK_ERROR_DEPTH (jp_pos p2)"
          by (auto simp: jstok_push_def)
        with gb n pos2 Inr show ?thesis unfolding res
          by (auto simp: good_outcome_def) (auto simp: jstok_set_error_def)
      next
        case False
        with c have "e3 = None" "p3 = p2\<lparr>jp_stack := \<lparr>fr_type = ty, fr_st = ?st, fr_tok = ?tok\<rparr> # jp_stack p2\<rparr>"
          by (auto simp: jstok_push_def)
        with gb n pos2 f False Inr show ?thesis unfolding res
          by (auto simp: good_outcome_def jstok_wf_def split: option.splits)
      qed
    qed
  qed
qed

lemma tok_close_size [simp]: "same_size toks (tok_close toks i q ty)"
  by (simp add: same_size_def tok_close_def Let_def split: option.splits)

lemma jstok_end_container_good:
  assumes w: "jstok_wf p toks" and n: "jp_pos p < n"
  shows "good_outcome n p toks (jstok_end_container p toks ty)"
proof -
  have iv: "good_outcome n p toks (case jstok_inval p of (e, q) \<Rightarrow> (e, q, toks))"
    using jstok_inval_good [OF w, of n] n by (auto split: prod.splits)
  have "jstok_wf (jstok_pop p) toks"
    using w by (cases "jp_stack p") (auto simp: jstok_wf_def jstok_pop_def split: option.splits)
  then have ok: "good_outcome n p toks
      (None, (jstok_pop p)\<lparr>jp_pos := jp_pos (jstok_pop p) + 1\<rparr>, tok_close toks (fr_tok fr) (jp_pos p) ty)" for fr
    using n jstok_wf_same_size [OF tok_close_size] by (auto simp: good_outcome_def) (auto simp: jstok_pop_def)
  show ?thesis
    using iv ok by (auto simp: jstok_end_container_def Let_def split: option.split)
qed

lemma jstok_step_good:
  assumes w: "jstok_wf p toks" and n: "jp_pos p < length json"
  shows "good_outcome (length json) p toks (jstok_step strict json p toks)"
proof -
  have n': "jp_pos p \<le> length json" using n by simp
  note sv = jstok_simple_value_good [OF w n']
  show ?thesis
  proof (cases "json ! jp_pos p" rule: jstok_byte_cases)
    case space
    with w n show ?thesis by (simp add: jstok_step_eqs good_outcome_def)
  next
    case quot
    show ?thesis
    proof (cases "jstok_expects_key p")
      case True
      obtain e p1 toks1 where a: "jstok_parse_string_token p json toks = (e, p1, toks1)" by (metis prod_cases3)
      note ga = jstok_parse_string_token_good [OF w n', unfolded a]
      show ?thesis
      proof (cases e)
        case None
        obtain e2 p2 where k: "jstok_accept_key p1 = (e2, p2)" by fastforce
        have w1: "jstok_wf p1 toks1" "jp_pos p1 \<le> length json" using ga None by (simp_all add: good_outcome_def)
        from good_outcome_trans [OF ga [unfolded None] jstok_accept_key_good [OF w1 k]] quot True a None k
        show ?thesis by (simp add: jstok_step_eqs)
      qed (use quot True a ga in \<open>simp add: jstok_step_eqs\<close>)
    next
      case False
      with quot sv [OF parse_token_keeps_stack(1) jstok_parse_string_token_good] show ?thesis
        by (simp add: jstok_step_eqs)
    qed
  next
    case prim
    with sv [OF parse_token_keeps_stack(2) jstok_parse_primitive_token_good] show ?thesis by (simp add: jstok_step_eqs)
  qed (use jstok_start_container_good [OF w n] jstok_end_container_good [OF w n] jstok_colon_good [OF w n]
      jstok_comma_good [OF w n] in \<open>simp_all add: jstok_step_eqs\<close>)
qed

lemma jstok_loop_good:
  assumes "jstok_wf p toks" "jp_pos p \<le> length json"
  shows "good_outcome (length json) p toks (jstok_loop strict json p toks)"
  using assms
proof (induction strict json p toks rule: jstok_loop.induct)
  case (1 strict json p toks)
  note l = jstok_loop.simps [of strict json p toks]
  show ?case
  proof (cases "jp_pos p < length json")
    case False
    with 1(2,3) l show ?thesis by (simp add: good_outcome_def)
  next
    case True
    obtain e p1 toks1 where s: "jstok_step strict json p toks = (e, p1, toks1)" by (metis prod_cases3)
    note g = jstok_step_good [OF 1(2) True, of strict, unfolded s]
    show ?thesis
    proof (cases e)
      case (Some x)
      with g s True l show ?thesis by simp
    next
      case None
      have w1: "jstok_wf p1 toks1" "jp_pos p1 \<le> length json" using g None by (simp_all add: good_outcome_def)
      from good_outcome_trans [OF g [unfolded None] 1(1) [OF True s [unfolded None, symmetric] refl refl w1]] l s None True
      show ?thesis by simp
    qed
  qed
qed

end
