(* ===== verification/JstokProps.thy ===== *)
theory JstokProps
  imports JstokCount JstokSafe
begin

text \<open>
  The properties of the tokenizer: it accepts exactly JSON, its tokens are those of the
  tree, counting and writing agree, the parser stays within its bounds however it is
  resumed, and its error fields report what it returned.
\<close>

text \<open>
  C8: with an array of tokens, \<open>jstok_parse\<close> succeeds exactly on the inputs that are
  sequences of JSON values (one value in strict mode), nested at most 64 deep, whose tokens
  fit the array. A top-level number is a value of the grammar only where a delimiter
  follows it, as the scanner has it.
\<close>

theorem jstok_accepts_iff:
  "(\<exists>n p toks. jstok_parse strict jstok_init (Some json) (Some arr) = (Inr n, p, toks)) =
   (\<exists>ts. jtop json 0 (length json) ts \<and> list_all (\<lambda>t. depth t \<le> JSTOK_MAX_DEPTH) ts \<and>
      length (flats ts) \<le> length arr \<and> (if strict then length ts = 1 else True))"
proof
  assume "\<exists>n p toks. jstok_parse strict jstok_init (Some json) (Some arr) = (Inr n, p, toks)"
  then obtain n p toks where "jstok_parse strict jstok_init (Some json) (Some arr) = (Inr n, p, toks)" by blast
  from jstok_parse_sound [OF this]
  show "\<exists>ts. jtop json 0 (length json) ts \<and> list_all (\<lambda>t. depth t \<le> JSTOK_MAX_DEPTH) ts \<and>
      length (flats ts) \<le> length arr \<and> (if strict then length ts = 1 else True)"
    by (auto simp: list_all_iff)
next
  assume "\<exists>ts. jtop json 0 (length json) ts \<and> list_all (\<lambda>t. depth t \<le> JSTOK_MAX_DEPTH) ts \<and>
      length (flats ts) \<le> length arr \<and> (if strict then length ts = 1 else True)"
  then obtain ts where "jtop json 0 (length json) ts" "length (flats ts) \<le> length arr"
    "\<forall>t\<in>set ts. depth t \<le> JSTOK_MAX_DEPTH" "strict \<longrightarrow> length ts = 1"
    by (auto simp: list_all_iff split: if_splits)
  from jstok_parse_complete [OF this]
  show "\<exists>n p toks. jstok_parse strict jstok_init (Some json) (Some arr) = (Inr n, p, toks)" by blast
qed

text \<open>
  C9: when the input parses as the trees \<open>ts\<close>, \<open>jstok_parse\<close> writes exactly their tokens in
  document order, with the boundaries and child counts of the trees, returns their number
  and leaves the rest of the array untouched.
\<close>

theorem jstok_tokens_exact:
  assumes "jtop json 0 (length json) ts" "length (flats ts) \<le> length arr"
    "list_all (\<lambda>t. depth t \<le> JSTOK_MAX_DEPTH) ts" "if strict then length ts = 1 else True"
  shows "\<exists>p. jstok_parse strict jstok_init (Some json) (Some arr) =
    (Inr (length (flats ts)), p, Some (flats ts @ drop (length (flats ts)) arr))"
  by (rule jstok_parse_complete) (use assms in \<open>auto simp: list_all_iff split: if_splits\<close>)

text \<open>An input the witnesses run on, and an array of tokens for it.\<close>

definition demo_json :: "byte list" where
  "demo_json = lit ''{'' @ [C_QUOTE, 0x61, C_QUOTE] @ lit '': [1, true, '' @ [C_QUOTE, C_QUOTE] @ lit '', {} ]}''"

definition blank_tok :: jstoktok where
  "blank_tok = \<lparr>tk_type = JSTOK_UNDEFINED, tk_start = 0, tk_end = 0, tk_size = 0\<rparr>"

lemma demo_json_accepted:
  "\<exists>p toks. jstok_parse True jstok_init (Some demo_json) (Some (replicate 9 blank_tok)) = (Inr 7, p, toks)"
proof -
  have "fst (jstok_parse True jstok_init (Some demo_json) (Some (replicate 9 blank_tok))) = Inr 7" by code_simp
  then show ?thesis by (metis prod.collapse)
qed

theorem jstok_tokens_exact_witness:
  "\<exists>ts. jtop demo_json 0 (length demo_json) ts \<and> length (flats ts) = 7 \<and>
     (\<exists>p. jstok_parse True jstok_init (Some demo_json) (Some (replicate 9 blank_tok)) =
        (Inr 7, p, Some (flats ts @ drop 7 (replicate 9 blank_tok))))"
proof -
  obtain p toks where "jstok_parse True jstok_init (Some demo_json) (Some (replicate 9 blank_tok)) = (Inr 7, p, toks)"
    using demo_json_accepted by blast
  from jstok_parse_sound [OF this] obtain ts where ts: "jtop demo_json 0 (length demo_json) ts"
    "\<forall>t\<in>set ts. depth t \<le> JSTOK_MAX_DEPTH" "7 = length (flats ts)" "length ts = 1"
    by auto
  have "\<exists>p. jstok_parse True jstok_init (Some demo_json) (Some (replicate 9 blank_tok)) =
    (Inr (length (flats ts)), p, Some (flats ts @ drop (length (flats ts)) (replicate 9 blank_tok)))"
    by (rule jstok_tokens_exact) (use ts in \<open>simp_all add: list_all_iff\<close>)
  with ts show ?thesis by metis
qed

text \<open>
  C10: a count-only call (no token array) foretells the writing call. If the array has room
  for the tokens counted, the writing call returns the same result, error included, at the
  same position; if it has not, the writing call reports \<open>NOMEM\<close>. The two-pass scheme of
  \<open>tokenize\<close> therefore never runs out of tokens.
\<close>

theorem jstok_count_exact:
  "case jstok_parse strict jstok_init (Some json) None of (r, pc, _) \<Rightarrow>
   case jstok_parse strict jstok_init (Some json) (Some arr) of (r', pw, _) \<Rightarrow>
     if jp_toknext pc \<le> length arr
     then r' = r \<and> jp_pos pw = jp_pos pc \<and> jp_error_pos pw = jp_error_pos pc \<and> jp_toknext pw = jp_toknext pc
     else r' = Inl JSTOK_ERROR_NOMEM"
proof -
  obtain r pc t where c: "jstok_parse strict jstok_init (Some json) None = (r, pc, t)" by (metis prod_cases3)
  obtain r' pw toks where w: "jstok_parse strict jstok_init (Some json) (Some arr) = (r', pw, toks)"
    by (metis prod_cases3)
  from jstok_parse_agree [OF c w] c w show ?thesis by simp
qed

text \<open>
  C11: from every well-formed parser, on arbitrary bytes, whether the call succeeds or fails:
  the stack keeps at most 64 frames, every stored token index lies below \<open>toknext\<close> and so
  inside the array, every frame's state belongs to its container, the array keeps its
  length and \<open>pos\<close> only moves forward within the input. So no access of the tokenizer is out
  of range, and the parser may be called again with more input.
\<close>

theorem jstok_invariant:
  assumes "jstok_wf p toks" "jp_pos p \<le> length json"
  shows "case jstok_parse strict p (Some json) toks of (r, p', toks') \<Rightarrow>
    jstok_wf p' toks' \<and> map_option length toks' = map_option length toks \<and>
    jp_pos p \<le> jp_pos p' \<and> jp_pos p' \<le> length json"
proof -
  let ?p = "p\<lparr>jp_error_pos := -1, jp_error_code := None\<rparr>"
  obtain e p1 toks1 where l: "jstok_loop strict json ?p toks = (e, p1, toks1)" by (metis prod_cases3)
  have "good_outcome (length json) ?p toks (e, p1, toks1)"
    using jstok_loop_good [of ?p toks json strict] assms unfolding l by simp
  with l show ?thesis
    by (cases e) (auto simp: jstok_parse_def good_outcome_def same_size_def, auto simp: jstok_set_error_def)
qed

theorem jstok_invariant_witness:
  "jstok_wf jstok_init (Some [blank_tok]) \<and>
   (case jstok_parse False jstok_init (Some (lit ''[[1'')) (Some [blank_tok]) of (r, p', toks') \<Rightarrow>
      jstok_wf p' toks' \<and> map_option length toks' = map_option length (Some [blank_tok]) \<and>
      jp_pos jstok_init \<le> jp_pos p' \<and> jp_pos p' \<le> length (lit ''[[1''))"
proof
  show w: "jstok_wf jstok_init (Some [blank_tok])" by (simp add: jstok_wf_def jstok_init_def)
  show "case jstok_parse False jstok_init (Some (lit ''[[1'')) (Some [blank_tok]) of (r, p', toks') \<Rightarrow>
      jstok_wf p' toks' \<and> map_option length toks' = map_option length (Some [blank_tok]) \<and>
      jp_pos jstok_init \<le> jp_pos p' \<and> jp_pos p' \<le> length (lit ''[[1'')"
    by (rule jstok_invariant [OF w]) (simp add: jstok_init_def)
qed

text \<open>
  The parser's error fields say what the call returned: after an error \<open>error_code\<close> is the
  code returned and \<open>error_pos\<close> is an offset of the input (its end included); after success
  both are cleared, no container is open and the result is \<open>toknext\<close>.
\<close>

theorem jstok_reports_error:
  assumes "jstok_wf p toks" "jp_pos p \<le> length json"
  shows "case jstok_parse strict p (Some json) toks of
      (Inl e, p', _) \<Rightarrow> jp_error_code p' = Some e \<and> 0 \<le> jp_error_pos p' \<and> jp_error_pos p' \<le> int (length json)
    | (Inr n, p', _) \<Rightarrow> jp_error_code p' = None \<and> jp_error_pos p' = -1 \<and> jp_stack p' = [] \<and> n = jp_toknext p'"
proof -
  let ?p = "p\<lparr>jp_error_pos := -1, jp_error_code := None\<rparr>"
  obtain e p1 toks1 where l: "jstok_loop strict json ?p toks = (e, p1, toks1)" by (metis prod_cases3)
  have "good_outcome (length json) ?p toks (e, p1, toks1)"
    using jstok_loop_good [of ?p toks json strict] assms unfolding l by simp
  with l show ?thesis
    by (cases e) (auto simp: jstok_parse_def good_outcome_def, auto simp: jstok_set_error_def)
qed

theorem jstok_reports_error_witness:
  "jstok_wf jstok_init None \<and> jp_pos jstok_init \<le> length (lit ''[1,]'') \<and>
   fst (jstok_parse False jstok_init (Some (lit ''[1,]'')) None) = Inl JSTOK_ERROR_INVAL \<and>
   jp_error_code (fst (snd (jstok_parse False jstok_init (Some (lit ''[1,]'')) None))) = Some JSTOK_ERROR_INVAL"
proof -
  have w: "jstok_wf jstok_init None" "jp_pos jstok_init \<le> length (lit ''[1,]'')"
    by (simp_all add: jstok_wf_def jstok_init_def)
  have r: "fst (jstok_parse False jstok_init (Some (lit ''[1,]'')) None) = Inl JSTOK_ERROR_INVAL" by code_simp
  with w jstok_reports_error [OF w, of False] show ?thesis
    by (cases "jstok_parse False jstok_init (Some (lit ''[1,]'')) None") simp
qed

end
