(* ===== verification/JstokNav.thy ===== *)
theory JstokNav
  imports JstokComplete
begin

text \<open>
  The helpers of \<open>src/include/jstok.h\<close> that clients use on the tokens of a parsed input: spans,
  comparison, skipping a subtree, indexing arrays and objects, following a path.

  The token array with its \<open>count\<close> is a list, so the pointer is never NULL here (every caller
  passes the array it has just filled); token indices and sizes stay \<open>int\<close>, since the code
  tests them for being negative. A span is the bytes between the token's boundaries, or
  \<open>None\<close> for the null span. Key and comparison strings are C strings: the list holds the
  bytes before the NUL.
\<close>

section \<open>Spans and comparison\<close>

definition jstok_span :: "byte list \<Rightarrow> jstoktok \<Rightarrow> byte list option" where
  "jstok_span json t =
     (if tk_start t < 0 \<or> tk_end t < tk_start t then None
      else Some (slice json (nat (tk_start t)) (nat (tk_end t))))"

fun jstok_eq_bytes :: "byte list \<Rightarrow> byte list \<Rightarrow> bool" where
  "jstok_eq_bytes (a # as) (b # bs) = (if a \<noteq> b then False else jstok_eq_bytes as bs)"
| "jstok_eq_bytes _ _ = True"

definition jstok_eq :: "byte list \<Rightarrow> jstoktok \<Rightarrow> byte list \<Rightarrow> int" where
  "jstok_eq json t s =
     (case jstok_span json t of
        None \<Rightarrow> 0
      | Some sp \<Rightarrow> if length sp \<noteq> length s then 0
                   else if jstok_eq_bytes sp s then 1 else 0)"

lemma jstok_eq_bytes_iff: "length xs = length ys \<Longrightarrow> jstok_eq_bytes xs ys \<longleftrightarrow> xs = ys"
  by (induction xs ys rule: jstok_eq_bytes.induct) auto

lemma jstok_eq_iff: "jstok_eq json t s = (if jstok_span json t = Some s then 1 else 0)"
  by (auto simp: jstok_eq_def jstok_eq_bytes_iff split: option.splits)

lemma jstok_span_jtok: "a \<le> b \<Longrightarrow> jstok_span json (jtok ty a b n) = Some (slice json a b)"
  by (simp add: jstok_span_def jtok_def)

section \<open>Skipping a subtree\<close>

abbreviation is_leaf :: "jstoktype \<Rightarrow> bool" where
  "is_leaf ty \<equiv> ty = JSTOK_STRING \<or> ty = JSTOK_PRIMITIVE"

text \<open>
  The loop of \<open>jstok_skip\<close>: the head of \<open>rem\<close> is \<open>rem[sp - 1]\<close>, what is left of the innermost
  container.
\<close>

function jstok_skip_loop :: "jstoktok list \<Rightarrow> int list \<Rightarrow> nat \<Rightarrow> nat" where
  "jstok_skip_loop toks [] idx = idx"
| "jstok_skip_loop toks (r # rem) idx =
     (if r = 0 then jstok_skip_loop toks rem idx
      else if idx \<ge> length toks then length toks
      else
        (let t = toks ! idx; rem1 = (r - 1) # rem in
         if is_leaf (tk_type t) then jstok_skip_loop toks rem1 (idx + 1)
         else if length rem1 \<ge> JSTOK_MAX_DEPTH then length toks
         else if tk_type t = JSTOK_ARRAY then jstok_skip_loop toks (tk_size t # rem1) (idx + 1)
         else if tk_type t = JSTOK_OBJECT then jstok_skip_loop toks (tk_size t * 2 # rem1) (idx + 1)
         else jstok_skip_loop toks rem1 (idx + 1)))"
  by pat_completeness auto

termination
  by (relation "measures [\<lambda>(toks, rem, idx). length toks - idx, \<lambda>(toks, rem, idx). length rem]")
    (auto simp: Let_def)

declare jstok_skip_loop.simps [simp del]

definition jstok_skip :: "jstoktok list \<Rightarrow> int \<Rightarrow> int" where
  "jstok_skip toks i =
     (if i < 0 \<or> i \<ge> int (length toks) then int (length toks)
      else
        (let t = toks ! nat i in
         if is_leaf (tk_type t) then i + 1
         else if tk_type t = JSTOK_ARRAY then int (jstok_skip_loop toks [tk_size t] (nat i + 1))
         else if tk_type t = JSTOK_OBJECT then int (jstok_skip_loop toks [tk_size t * 2] (nat i + 1))
         else i + 1))"

section \<open>Arrays, objects, paths\<close>

fun jstok_array_at_loop :: "jstoktok list \<Rightarrow> nat \<Rightarrow> int \<Rightarrow> int" where
  "jstok_array_at_loop toks 0 cur = cur"
| "jstok_array_at_loop toks (Suc n) cur =
     (let cur1 = jstok_skip toks cur in
      if cur1 \<ge> int (length toks) then -1 else jstok_array_at_loop toks n cur1)"

definition jstok_array_at :: "jstoktok list \<Rightarrow> int \<Rightarrow> int \<Rightarrow> int" where
  "jstok_array_at toks arr_tok idx =
     (if arr_tok < 0 \<or> arr_tok \<ge> int (length toks) then -1
      else if tk_type (toks ! nat arr_tok) \<noteq> JSTOK_ARRAY then -1
      else if idx < 0 \<or> idx \<ge> tk_size (toks ! nat arr_tok) then -1
      else jstok_array_at_loop toks (nat idx) (arr_tok + 1))"

fun jstok_object_get_loop :: "byte list \<Rightarrow> jstoktok list \<Rightarrow> byte list \<Rightarrow> nat \<Rightarrow> int \<Rightarrow> int" where
  "jstok_object_get_loop json toks key 0 cur = -1"
| "jstok_object_get_loop json toks key (Suc n) cur =
     (let k = cur; v = k + 1 in
      if v \<ge> int (length toks) then -1
      else if tk_type (toks ! nat k) = JSTOK_STRING \<and> jstok_eq json (toks ! nat k) key \<noteq> 0 then v
      else
        (let cur1 = jstok_skip toks v in
         if cur1 \<ge> int (length toks) then -1 else jstok_object_get_loop json toks key n cur1))"

definition jstok_object_get :: "byte list \<Rightarrow> jstoktok list \<Rightarrow> int \<Rightarrow> byte list \<Rightarrow> int" where
  "jstok_object_get json toks obj_tok key =
     (if obj_tok < 0 \<or> obj_tok \<ge> int (length toks) then -1
      else if tk_type (toks ! nat obj_tok) \<noteq> JSTOK_OBJECT then -1
      else jstok_object_get_loop json toks key (nat (tk_size (toks ! nat obj_tok))) (obj_tok + 1))"

lemma jstok_array_at_loop_code [code]:
  "jstok_array_at_loop toks n cur =
     (if n = 0 then cur
      else let cur1 = jstok_skip toks cur in
        if cur1 \<ge> int (length toks) then -1 else jstok_array_at_loop toks (n - 1) cur1)"
  by (cases n) (simp_all add: Let_def)

lemma jstok_object_get_loop_code [code]:
  "jstok_object_get_loop json toks key n cur =
     (if n = 0 then -1
      else let k = cur; v = k + 1 in
        if v \<ge> int (length toks) then -1
        else if tk_type (toks ! nat k) = JSTOK_STRING \<and> jstok_eq json (toks ! nat k) key \<noteq> 0 then v
        else let cur1 = jstok_skip toks v in
          if cur1 \<ge> int (length toks) then -1 else jstok_object_get_loop json toks key (n - 1) cur1)"
  by (cases n) (simp_all add: Let_def)

text \<open>
  The variable arguments of \<open>jstok_path\<close>: keys and indices, a NULL key ending the list. Reading
  an argument that is not there, or as the wrong type, is undefined in C and \<open>None\<close> here.
\<close>

datatype jstok_path_arg =
    PathKey "byte list"
  | PathNull
  | PathIdx int

function jstok_path_loop :: "byte list \<Rightarrow> jstoktok list \<Rightarrow> jstok_path_arg list \<Rightarrow> int \<Rightarrow> int option" where
  "jstok_path_loop json toks args at =
     (if at \<ge> 0 \<and> at < int (length toks) then
        (let type = tk_type (toks ! nat at) in
         if type = JSTOK_OBJECT then
           (case args of
              PathNull # _ \<Rightarrow> Some at
            | PathKey key # args1 \<Rightarrow> jstok_path_loop json toks args1 (jstok_object_get json toks at key)
            | _ \<Rightarrow> None)
         else if type = JSTOK_ARRAY then
           (case args of
              PathIdx idx # args1 \<Rightarrow> jstok_path_loop json toks args1 (jstok_array_at toks at idx)
            | _ \<Rightarrow> None)
         else Some at)
      else Some at)"
  by pat_completeness auto

termination
  by (relation "measure (\<lambda>(json, toks, args, at). length args)") auto

declare jstok_path_loop.simps [simp del]

definition jstok_path :: "byte list \<Rightarrow> jstoktok list \<Rightarrow> int \<Rightarrow> jstok_path_arg list \<Rightarrow> int option" where
  "jstok_path json toks root args =
     (if root < 0 \<or> root \<ge> int (length toks) then Some (-1)
      else jstok_path_loop json toks args root)"

section \<open>Trees in a token array\<close>

text \<open>The tokens of the tree \<open>t\<close> stand at index \<open>i\<close>.\<close>

definition tok_at :: "jstoktok list \<Rightarrow> nat \<Rightarrow> jtree \<Rightarrow> bool" where
  "tok_at toks i t \<longleftrightarrow> (\<exists>pre post. toks = pre @ flat t @ post \<and> length pre = i)"

declare flat.simps(3,4) [simp del] flat_containers [simp]

lemma flat_not_Nil [simp]: "flat t \<noteq> []" "0 < length (flat t)"
  by (cases t; simp)+

lemma tok_at_bound: "tok_at toks i t \<Longrightarrow> i + length (flat t) \<le> length toks"
  by (auto simp: tok_at_def)

lemma tok_at_head: "tok_at toks i t \<Longrightarrow> i < length toks \<and> toks ! i = hd (flat t)"
  by (cases "flat t") (auto simp: tok_at_def nth_append)

text \<open>A forest, and the members of an object read as one.\<close>

definition toks_at :: "jstoktok list \<Rightarrow> nat \<Rightarrow> jtree list \<Rightarrow> bool" where
  "toks_at toks i ts \<longleftrightarrow> (\<exists>pre post. toks = pre @ flats ts @ post \<and> length pre = i)"

lemma toks_at_Cons: "toks_at toks i (t # ts) \<longleftrightarrow> tok_at toks i t \<and> toks_at toks (i + length (flat t)) ts"
proof
  assume "toks_at toks i (t # ts)"
  then obtain pre post where a: "toks = pre @ flat t @ flats ts @ post" "length pre = i" by (auto simp: toks_at_def)
  then have "tok_at toks i t" unfolding tok_at_def by blast
  moreover have "toks_at toks (i + length (flat t)) ts"
    unfolding toks_at_def using a by (intro exI [of _ "pre @ flat t"] exI [of _ post]) simp
  ultimately show "tok_at toks i t \<and> toks_at toks (i + length (flat t)) ts" by blast
next
  assume "tok_at toks i t \<and> toks_at toks (i + length (flat t)) ts"
  then have t: "tok_at toks i t" and u: "toks_at toks (i + length (flat t)) ts" by simp_all
  obtain pre post where a: "toks = pre @ flat t @ post" "length pre = i" using t unfolding tok_at_def by blast
  obtain pre' post' where b: "toks = pre' @ flats ts @ post'" "length pre' = i + length (flat t)"
    using u unfolding toks_at_def by blast
  have "post = drop (length pre') toks" using a b(2) by simp
  then have "post = flats ts @ post'" using b by simp
  with a show "toks_at toks i (t # ts)" by (auto simp: toks_at_def)
qed

definition members_forest :: "((nat \<times> nat) \<times> jtree) list \<Rightarrow> jtree list" where
  "members_forest kvs = concat (map (\<lambda>((k, l), v). [JStr k l, v]) kvs)"

lemma members_forest_simps [simp]:
  "members_forest [] = []" "members_forest (((k, l), v) # kvs) = JStr k l # v # members_forest kvs"
  by (simp_all add: members_forest_def)

lemma flats_members_forest: "flats (members_forest kvs) = flat_members kvs"
  by (induction kvs) auto

lemma length_members_forest: "length (members_forest kvs) = 2 * length kvs"
  by (induction kvs) auto

lemma members_forest_depth:
  "(\<forall>t\<in>set (members_forest kvs). depth t \<le> n) \<longleftrightarrow> (\<forall>kv\<in>set kvs. depth (snd kv) \<le> n)"
  by (induction kvs) auto

lemma toks_at_kids:
  assumes "tok_at toks i t" "flat t = h # flats ts" shows "toks_at toks (i + 1) ts"
proof -
  obtain pre post where "toks = pre @ flat t @ post" "length pre = i" using assms(1) unfolding tok_at_def by blast
  with assms(2) show ?thesis
    unfolding toks_at_def by (intro exI [of _ "pre @ [h]"] exI [of _ post]) simp
qed

lemma tok_at_arr: "tok_at toks i (JArr a b ts) \<Longrightarrow> toks_at toks (i + 1) ts"
  by (erule toks_at_kids) simp

lemma tok_at_obj: "tok_at toks i (JObj a b kvs) \<Longrightarrow> toks_at toks (i + 1) (members_forest kvs)"
  by (erule toks_at_kids) (simp add: flats_members_forest)

lemma toks_at_flats: "toks_at toks i ts \<Longrightarrow> i + length (flats ts) \<le> length toks"
  by (auto simp: toks_at_def)

section \<open>Skipping goes past exactly one tree\<close>

text \<open>One item of the innermost container is consumed with its whole subtree.\<close>

definition skips :: "jtree \<Rightarrow> bool" where
  "skips t \<longleftrightarrow> (\<forall>toks i r rem. tok_at toks i t \<longrightarrow> 0 < r \<longrightarrow> length rem + 1 + depth t \<le> JSTOK_MAX_DEPTH \<longrightarrow>
     jstok_skip_loop toks (r # rem) i = jstok_skip_loop toks ((r - 1) # rem) (i + length (flat t)))"

lemma skip_forest:
  assumes "\<forall>t\<in>set ts. skips t" "toks_at toks i ts"
    "\<forall>t\<in>set ts. length rem + 1 + depth t \<le> JSTOK_MAX_DEPTH"
  shows "jstok_skip_loop toks (int (length ts) # rem) i = jstok_skip_loop toks rem (i + length (flats ts))"
  using assms
proof (induction ts arbitrary: i)
  case Nil
  then show ?case by (simp add: jstok_skip_loop.simps)
next
  case (Cons t ts)
  have t: "tok_at toks i t" "toks_at toks (i + length (flat t)) ts" using Cons(3) by (simp_all add: toks_at_Cons)
  have "jstok_skip_loop toks (int (length (t # ts)) # rem) i =
      jstok_skip_loop toks (int (length ts) # rem) (i + length (flat t))"
    using Cons(2,4) t(1) unfolding skips_def by simp
  also have "\<dots> = jstok_skip_loop toks rem (i + length (flat t) + length (flats ts))"
    by (rule Cons(1)) (use Cons(2,4) t in auto)
  finally show ?case by (simp add: add.assoc)
qed

lemma skips_leaf: "flat t = [h] \<Longrightarrow> is_leaf (tk_type h) \<Longrightarrow> skips t"
  unfolding skips_def by (auto simp: jstok_skip_loop.simps dest!: tok_at_head)

lemma skips_JStr: "skips (JStr k l)"
  by (rule skips_leaf [OF flat.simps(1)]) (simp add: jtok_def)

lemma skips_all: "skips t"
proof (induction t)
  case (JStr a b)
  show ?case by (rule skips_JStr)
next
  case (JPrim a b)
  show ?case by (rule skips_leaf [OF flat.simps(2)]) (simp add: jtok_def)
next
  case (JArr a b ts)
  show ?case unfolding skips_def
  proof (intro allI impI)
    fix toks i r and rem :: "int list"
    assume t: "tok_at toks i (JArr a b ts)" and r: "0 < (r::int)"
      and d: "length rem + 1 + depth (JArr a b ts) \<le> JSTOK_MAX_DEPTH"
    have dt: "\<forall>t\<in>set ts. length ((r - 1) # rem) + 1 + depth t \<le> JSTOK_MAX_DEPTH"
      using d depth_le(1) [of a b ts "JSTOK_MAX_DEPTH - length rem - 2"] by fastforce
    have "jstok_skip_loop toks (r # rem) i = jstok_skip_loop toks (int (length ts) # (r - 1) # rem) (i + 1)"
      using tok_at_head [OF t] r d by (simp add: jstok_skip_loop.simps(2) [of toks r] jtok_def Let_def)
    also have "\<dots> = jstok_skip_loop toks ((r - 1) # rem) (i + 1 + length (flats ts))"
      by (rule skip_forest [OF _ tok_at_arr [OF t] dt]) (use JArr in blast)
    finally show "jstok_skip_loop toks (r # rem) i =
        jstok_skip_loop toks ((r - 1) # rem) (i + length (flat (JArr a b ts)))"
      by (simp add: flat_containers)
  qed
next
  case (JObj a b kvs)
  show ?case unfolding skips_def
  proof (intro allI impI)
    fix toks i r and rem :: "int list"
    assume t: "tok_at toks i (JObj a b kvs)" and r: "0 < (r::int)"
      and d: "length rem + 1 + depth (JObj a b kvs) \<le> JSTOK_MAX_DEPTH"
    let ?ts = "members_forest kvs"
    have "\<forall>kv\<in>set kvs. depth (snd kv) \<le> JSTOK_MAX_DEPTH - length rem - 2"
      using d depth_le(2) [of a b kvs "JSTOK_MAX_DEPTH - length rem - 2"] by fastforce
    then have dt: "\<forall>t\<in>set ?ts. length ((r - 1) # rem) + 1 + depth t \<le> JSTOK_MAX_DEPTH"
      using d members_forest_depth [of kvs "JSTOK_MAX_DEPTH - length rem - 2"] by fastforce
    have s: "\<forall>t\<in>set ?ts. skips t"
    proof -
      have "\<forall>kv\<in>set kvs. skips (snd kv)" using JObj by (metis snds.simps surjective_pairing)
      then show ?thesis by (auto simp: members_forest_def skips_JStr)
    qed
    have "jstok_skip_loop toks (r # rem) i = jstok_skip_loop toks (int (length ?ts) # (r - 1) # rem) (i + 1)"
      using tok_at_head [OF t] r d
      by (simp add: jstok_skip_loop.simps(2) [of toks r] jtok_def Let_def length_members_forest mult.commute)
    also have "\<dots> = jstok_skip_loop toks ((r - 1) # rem) (i + 1 + length (flats ?ts))"
      by (rule skip_forest [OF s tok_at_obj [OF t] dt])
    finally show "jstok_skip_loop toks (r # rem) i =
        jstok_skip_loop toks ((r - 1) # rem) (i + length (flat (JObj a b kvs)))"
      by (simp add: flat_containers flats_members_forest)
  qed
qed

lemma jstok_skip_tree:
  assumes t: "tok_at toks i t" and d: "depth t \<le> JSTOK_MAX_DEPTH"
  shows "jstok_skip toks (int i) = int (i + length (flat t))"
proof -
  note h = tok_at_head [OF t]
  show ?thesis
  proof (cases t)
    case (JStr a b)
    with h show ?thesis by (simp add: jstok_skip_def jtok_def)
  next
    case (JPrim a b)
    with h show ?thesis by (simp add: jstok_skip_def jtok_def)
  next
    case (JArr a b ts)
    have dt: "\<forall>t\<in>set ts. length [] + 1 + depth t \<le> JSTOK_MAX_DEPTH"
      using d JArr depth_le(1) [of a b ts "JSTOK_MAX_DEPTH - 1"] by (auto simp: JSTOK_MAX_DEPTH_def)
    have "jstok_skip_loop toks [int (length ts)] (i + 1) = jstok_skip_loop toks [] (i + 1 + length (flats ts))"
      by (rule skip_forest [OF _ tok_at_arr [OF t [unfolded JArr]] dt]) (use skips_all in blast)
    with h JArr show ?thesis
      by (simp add: jstok_skip_def jtok_def flat_containers jstok_skip_loop.simps nat_add_distrib)
  next
    case (JObj a b kvs)
    have "\<forall>kv\<in>set kvs. depth (snd kv) \<le> JSTOK_MAX_DEPTH - 1"
      using d JObj depth_le(2) [of a b kvs "JSTOK_MAX_DEPTH - 1"] by (auto simp: JSTOK_MAX_DEPTH_def)
    then have dt: "\<forall>t\<in>set (members_forest kvs). length [] + 1 + depth t \<le> JSTOK_MAX_DEPTH"
      using members_forest_depth [of kvs "JSTOK_MAX_DEPTH - 1"] by (fastforce simp: JSTOK_MAX_DEPTH_def)
    have "jstok_skip_loop toks [int (length (members_forest kvs))] (i + 1) =
        jstok_skip_loop toks [] (i + 1 + length (flats (members_forest kvs)))"
      by (rule skip_forest [OF _ tok_at_obj [OF t [unfolded JObj]] dt]) (use skips_all in blast)
    with h JObj show ?thesis
      by (simp add: jstok_skip_def jtok_def flat_containers flats_members_forest length_members_forest
          jstok_skip_loop.simps nat_add_distrib mult.commute)
  qed
qed

section \<open>Indexing\<close>

lemma array_at_loop_tree:
  assumes "toks_at toks i ts" "n < length ts" "\<forall>t\<in>set ts. depth t \<le> JSTOK_MAX_DEPTH"
  shows "\<exists>j. jstok_array_at_loop toks n (int i) = int j \<and> tok_at toks j (ts ! n)"
  using assms
proof (induction n arbitrary: i ts)
  case 0
  then show ?case by (cases ts) (auto simp: toks_at_Cons)
next
  case (Suc n)
  obtain t us where ts: "ts = t # us" using Suc(3) by (cases ts) auto
  have t: "tok_at toks i t" "toks_at toks (i + length (flat t)) us" using Suc(2) ts by (simp_all add: toks_at_Cons)
  have s: "jstok_skip toks (int i) = int (i + length (flat t))" using jstok_skip_tree [OF t(1)] Suc(4) ts by simp
  have "us \<noteq> []" using Suc(3) ts by auto
  then obtain u vs where us: "us = u # vs" by (cases us) auto
  have "i + length (flat t) < length toks"
    using t(2) tok_at_head [of toks "i + length (flat t)" u] us by (simp add: toks_at_Cons)
  with s Suc(1) [OF t(2)] Suc(3,4) ts show ?case by simp
qed

lemma jstok_array_at_tree:
  assumes t: "tok_at toks i (JArr a b ts)" and d: "depth (JArr a b ts) \<le> JSTOK_MAX_DEPTH"
  shows "if 0 \<le> n \<and> n < int (length ts)
    then \<exists>j. jstok_array_at toks (int i) n = int j \<and> tok_at toks j (ts ! nat n)
    else jstok_array_at toks (int i) n = -1"
proof -
  have "\<forall>t\<in>set ts. depth t \<le> JSTOK_MAX_DEPTH"
    using d depth_le(1) [of a b ts "JSTOK_MAX_DEPTH - 1"] by (auto simp: JSTOK_MAX_DEPTH_def)
  with array_at_loop_tree [OF tok_at_arr [OF t], of "nat n"] tok_at_head [OF t] show ?thesis
    by (auto simp: jstok_array_at_def jtok_def add.commute nat_less_iff)
qed

definition key_is :: "byte list \<Rightarrow> byte list \<Rightarrow> (nat \<times> nat) \<times> jtree \<Rightarrow> bool" where
  "key_is json key kv \<longleftrightarrow> slice json (fst (fst kv)) (snd (fst kv)) = key"

lemma object_get_loop_tree:
  assumes "toks_at toks i (members_forest kvs)" "\<forall>kv\<in>set kvs. depth (snd kv) \<le> JSTOK_MAX_DEPTH"
    "\<forall>kv\<in>set kvs. fst (fst kv) \<le> snd (fst kv)"
  shows "case find (key_is json key) kvs of
      None \<Rightarrow> jstok_object_get_loop json toks key (length kvs) (int i) = -1
    | Some kv \<Rightarrow> \<exists>j. jstok_object_get_loop json toks key (length kvs) (int i) = int j \<and> tok_at toks j (snd kv)"
  using assms
proof (induction kvs arbitrary: i)
  case Nil
  then show ?case by simp
next
  case (Cons kv kvs)
  obtain k l v where kv: "kv = ((k, l), v)" by (metis prod.collapse)
  have h: "tok_at toks i (JStr k l)" "tok_at toks (i + 1) v" "toks_at toks (i + 1 + length (flat v)) (members_forest kvs)"
    using Cons(2) kv by (auto simp: toks_at_Cons)
  have i1: "int i + 1 = int (i + 1)" by simp
  have b: "i + 1 < length toks" using tok_at_head [OF h(2)] by simp
  have eq: "tk_type (toks ! i) = JSTOK_STRING" "jstok_eq json (toks ! i) key \<noteq> 0 \<longleftrightarrow> slice json k l = key"
    using tok_at_head [OF h(1)] Cons(4) kv by (auto simp: jstok_eq_iff jstok_span_jtok) (simp add: jtok_def)
  have s: "jstok_skip toks (int (i + 1)) = int (i + 1 + length (flat v))"
    by (rule jstok_skip_tree [OF h(2)]) (use Cons(3) kv in simp)
  show ?case
  proof (cases "slice json k l = key")
    case True
    with eq b kv h(2) show ?thesis by (auto simp: key_is_def i1 simp del: of_nat_add intro!: exI [of _ "i + 1"])
  next
    case False
    then have l: "jstok_object_get_loop json toks key (length (kv # kvs)) (int i) =
        (if i + 1 + length (flat v) \<ge> length toks then -1
         else jstok_object_get_loop json toks key (length kvs) (int (i + 1 + length (flat v))))"
      using eq b s by (simp add: Let_def i1 del: of_nat_add)
    have f: "find (key_is json key) (kv # kvs) = find (key_is json key) kvs" using False kv by (simp add: key_is_def)
    show ?thesis
    proof (cases "i + 1 + length (flat v) \<ge> length toks")
      case True
      have "kvs = []"
      proof (rule ccontr)
        assume "kvs \<noteq> []"
        then have "0 < length (flats (members_forest kvs))" by (cases kvs) auto
        with toks_at_flats [OF h(3)] True show False by linarith
      qed
      with True l f show ?thesis by simp
    next
      case False
      then have l': "jstok_object_get_loop json toks key (length (kv # kvs)) (int i) =
         jstok_object_get_loop json toks key (length kvs) (int (i + 1 + length (flat v)))" using l by simp
      have "case find (key_is json key) kvs of
          None \<Rightarrow> jstok_object_get_loop json toks key (length kvs) (int (i + 1 + length (flat v))) = -1
        | Some kv \<Rightarrow> \<exists>j. jstok_object_get_loop json toks key (length kvs) (int (i + 1 + length (flat v))) = int j \<and>
            tok_at toks j (snd kv)"
        by (rule Cons(1) [OF h(3)]) (use Cons(3,4) in simp_all)
      then show ?thesis unfolding f l' .
    qed
  qed
qed

fun well_bounded :: "jtree \<Rightarrow> bool" where
  "well_bounded (JStr a b) = (a \<le> b)"
| "well_bounded (JPrim a b) = (a \<le> b)"
| "well_bounded (JArr a b ts) = (a \<le> b \<and> list_all well_bounded ts)"
| "well_bounded (JObj a b kvs) =
     (a \<le> b \<and> list_all (\<lambda>kv. fst (fst kv) \<le> snd (fst kv) \<and> well_bounded (snd kv)) kvs)"

lemma jstok_object_get_tree:
  assumes t: "tok_at toks i (JObj a b kvs)" and d: "depth (JObj a b kvs) \<le> JSTOK_MAX_DEPTH"
    and w: "well_bounded (JObj a b kvs)"
  shows "case find (key_is json key) kvs of
      None \<Rightarrow> jstok_object_get json toks (int i) key = -1
    | Some kv \<Rightarrow> \<exists>j. jstok_object_get json toks (int i) key = int j \<and> tok_at toks j (snd kv)"
proof -
  have "\<forall>kv\<in>set kvs. depth (snd kv) \<le> JSTOK_MAX_DEPTH"
    using d depth_le(2) [of a b kvs "JSTOK_MAX_DEPTH - 1"] by (auto simp: JSTOK_MAX_DEPTH_def)
  moreover have "\<forall>kv\<in>set kvs. fst (fst kv) \<le> snd (fst kv)" using w by (auto simp: list_all_iff)
  moreover have "jstok_object_get json toks (int i) key = jstok_object_get_loop json toks key (length kvs) (int (i + 1))"
    using tok_at_head [OF t] by (simp add: jstok_object_get_def jtok_def add.commute)
  ultimately show ?thesis using object_get_loop_tree [OF tok_at_obj [OF t], of json key] by metis
qed

end
