(* ===== verification/JstokText.thy ===== *)
theory JstokText
  imports JstokNav Utf8
begin

text \<open>
  The helpers of \<open>src/include/jstok.h\<close> that read the text of one token: integers, booleans,
  the unescaping of strings, and the pull scanner for the data lines of an event stream.
\<close>

section \<open>Integers and booleans\<close>

definition LLONG_MAX :: int where
  "LLONG_MAX = 2 ^ 63 - 1"

text \<open>
  \<open>jstok_atoi64\<close> accumulates in a \<open>long long\<close> without a test for overflow, which is undefined
  in C: \<open>AtoiOverflow\<close>. \<open>AtoiFail\<close> is the return value -1.
\<close>

datatype jstok_atoi =
    AtoiOk int
  | AtoiFail
  | AtoiOverflow

fun jstok_atoi64_loop :: "int \<Rightarrow> byte list \<Rightarrow> jstok_atoi" where
  "jstok_atoi64_loop val [] = AtoiOk val"
| "jstok_atoi64_loop val (c # cs) =
     (if \<not> is_digit c then AtoiFail
      else if val * 10 > LLONG_MAX \<or> val * 10 + int (digit_val c) > LLONG_MAX then AtoiOverflow
      else jstok_atoi64_loop (val * 10 + int (digit_val c)) cs)"

definition jstok_atoi64 :: "byte list \<Rightarrow> jstoktok \<Rightarrow> jstok_atoi" where
  "jstok_atoi64 json t =
     (if tk_type t \<noteq> JSTOK_PRIMITIVE then AtoiFail
      else case jstok_span json t of
        None \<Rightarrow> AtoiFail
      | Some sp \<Rightarrow>
          (case sp of
             [] \<Rightarrow> AtoiFail
           | c # cs \<Rightarrow>
               if c = C_MINUS then
                 (if cs = [] then AtoiFail
                  else case jstok_atoi64_loop 0 cs of AtoiOk v \<Rightarrow> AtoiOk (v * -1) | r \<Rightarrow> r)
               else jstok_atoi64_loop 0 sp))"

definition jstok_atob :: "byte list \<Rightarrow> jstoktok \<Rightarrow> bool option" where
  "jstok_atob json t =
     (if tk_type t \<noteq> JSTOK_PRIMITIVE then None
      else if jstok_eq json t (lit ''true'') \<noteq> 0 then Some True
      else if jstok_eq json t (lit ''false'') \<noteq> 0 then Some False
      else None)"

text \<open>The value of a string of decimal digits, and its minimal numeral.\<close>

definition dec_val :: "byte list \<Rightarrow> nat" where
  "dec_val ds = foldl (\<lambda>v c. v * 10 + digit_val c) 0 ds"

fun dec :: "nat \<Rightarrow> byte list" where
  "dec n = (if n < 10 then [of_nat (48 + n)] else dec (n div 10) @ [of_nat (48 + n mod 10)])"

declare dec.simps [simp del]

lemma dec_val_snoc: "dec_val (ds @ [c]) = dec_val ds * 10 + digit_val c"
  by (simp add: dec_val_def)

lemma unat_dec_digit: "n < 10 \<Longrightarrow> unat (of_nat (48 + n) :: byte) = 48 + n"
  by (rule unat_of_nat8) simp

lemma digit_of_nat: "n < 10 \<Longrightarrow> is_digit (of_nat (48 + n)) \<and> digit_val (of_nat (48 + n)) = n"
proof -
  assume n: "n < 10"
  have u: "unat (of_nat (48 + n) :: byte) = 48 + n" by (rule unat_dec_digit [OF n])
  have "(0x30::byte) \<le> of_nat (48 + n)" "of_nat (48 + n) \<le> (0x39::byte)"
    using n unfolding word_le_nat_alt u by simp_all
  moreover have "unat (of_nat (48 + n) - 0x30 :: byte) = n"
    using unat_of_nat8 [of n] n by simp
  ultimately show ?thesis by (simp add: is_digit_def digit_val_def)
qed

lemma dec_digits: "list_all is_digit (dec n) \<and> dec n \<noteq> []"
proof (induction n rule: dec.induct)
  case (1 n)
  then show ?case using digit_of_nat [of n] digit_of_nat [of "n mod 10"] by (cases "n < 10") (simp_all add: dec.simps)
qed

lemma dec_val_dec: "dec_val (dec n) = n"
proof (induction n rule: dec.induct)
  case (1 n)
  show ?case
  proof (cases "n < 10")
    case True
    then show ?thesis using digit_of_nat [of n] by (simp add: dec.simps dec_val_def)
  next
    case False
    then have "dec n = dec (n div 10) @ [of_nat (48 + n mod 10)]" by (simp add: dec.simps)
    then show ?thesis using 1 False digit_of_nat [of "n mod 10"] by (simp add: dec_val_snoc del: of_nat_add)
  qed
qed

lemma foldl_dec_ge: "v \<le> foldl (\<lambda>v c. v * 10 + digit_val c) v ds"
proof (induction ds arbitrary: v)
  case (Cons c cs)
  have "v \<le> v * 10 + digit_val c" by simp
  also have "\<dots> \<le> foldl (\<lambda>v c. v * 10 + digit_val c) (v * 10 + digit_val c) cs" by (rule Cons)
  finally show ?case by simp
qed simp

text \<open>The loop computes the value, or reports the first value that does not fit.\<close>

lemma jstok_atoi64_loop_digits:
  assumes "list_all is_digit ds" "int v \<le> LLONG_MAX"
  shows "jstok_atoi64_loop (int v) ds =
    (let r = foldl (\<lambda>v c. v * 10 + digit_val c) v ds in if int r \<le> LLONG_MAX then AtoiOk (int r) else AtoiOverflow)"
  using assms
proof (induction ds arbitrary: v)
  case Nil
  then show ?case by simp
next
  case (Cons c cs)
  let ?w = "v * 10 + digit_val c"
  have w: "int ?w = int v * 10 + int (digit_val c)" by simp
  show ?case
  proof (cases "int ?w \<le> LLONG_MAX")
    case True
    then have "\<not> int v * 10 > LLONG_MAX" "\<not> int v * 10 + int (digit_val c) > LLONG_MAX" by simp_all
    then have "jstok_atoi64_loop (int v) (c # cs) = jstok_atoi64_loop (int ?w) cs"
      using Cons(2) by simp
    also have "\<dots> = (let r = foldl (\<lambda>v c. v * 10 + digit_val c) ?w cs in
        if int r \<le> LLONG_MAX then AtoiOk (int r) else AtoiOverflow)"
      by (rule Cons(1)) (use Cons(2) True in simp_all)
    finally show ?thesis by simp
  next
    case False
    with foldl_dec_ge [of ?w cs] have "\<not> int (foldl (\<lambda>v c. v * 10 + digit_val c) ?w cs) \<le> LLONG_MAX" by linarith
    with False Cons(2) show ?thesis by (simp add: Let_def)
  qed
qed

lemma jstok_atoi64_loop_nondigit:
  assumes "\<not> list_all is_digit ds" shows "\<forall>z. jstok_atoi64_loop v ds \<noteq> AtoiOk z"
  using assms by (induction v ds rule: jstok_atoi64_loop.induct) auto

section \<open>Unescaping\<close>

definition jstok_hexval :: "byte \<Rightarrow> int" where
  "jstok_hexval c =
     (if is_digit c then int (unat (c - C_0))
      else if 0x61 \<le> c \<and> c \<le> 0x66 then int (unat (c - 0x61)) + 10
      else if 0x41 \<le> c \<and> c \<le> 0x46 then int (unat (c - 0x41)) + 10
      else -1)"

text \<open>The UTF-8 encoding the code emits for a 16-bit value, one to three bytes.\<close>

definition jstok_utf8 :: "nat \<Rightarrow> byte list" where
  "jstok_utf8 code =
     (if code \<le> 0x7F then [of_nat code]
      else if code \<le> 0x7FF then
        [of_nat (0xC0 + code div 2 ^ 6 mod 2 ^ 5), of_nat (0x80 + code mod 2 ^ 6)]
      else
        [of_nat (0xE0 + code div 2 ^ 12 mod 2 ^ 4), of_nat (0x80 + code div 2 ^ 6 mod 2 ^ 6),
         of_nat (0x80 + code mod 2 ^ 6)])"

definition jstok_escape_char :: "byte \<Rightarrow> byte option" where
  "jstok_escape_char c =
     (if c = C_QUOTE \<or> c = C_BSLASH \<or> c = C_SLASH then Some c
      else if c = 0x62 then Some C_BS
      else if c = 0x66 then Some C_FF
      else if c = 0x6E then Some C_LF
      else if c = 0x72 then Some C_CR
      else if c = 0x74 then Some C_TAB
      else None)"

text \<open>Appending to the output of \<open>cap\<close> bytes; \<open>None\<close> when it does not fit.\<close>

definition jstok_emit :: "nat \<Rightarrow> byte list \<Rightarrow> byte list \<Rightarrow> byte list option" where
  "jstok_emit cap out bs = (if length out + length bs > cap then None else Some (out @ bs))"

fun jstok_unescape_loop :: "nat \<Rightarrow> byte list \<Rightarrow> byte list \<Rightarrow> byte list option" where
  "jstok_unescape_loop cap out [] = Some out"
| "jstok_unescape_loop cap out (c # cs) =
     (if c \<noteq> C_BSLASH then
        (case jstok_emit cap out [c] of None \<Rightarrow> None | Some out1 \<Rightarrow> jstok_unescape_loop cap out1 cs)
      else
        (case cs of
           [] \<Rightarrow> None
         | e # es \<Rightarrow>
             (case jstok_escape_char e of
                Some b \<Rightarrow>
                  (case jstok_emit cap out [b] of None \<Rightarrow> None | Some out1 \<Rightarrow> jstok_unescape_loop cap out1 es)
              | None \<Rightarrow>
                  if e = 0x75 then
                    (case es of
                       h0 # h1 # h2 # h3 # es' \<Rightarrow>
                         (let v0 = jstok_hexval h0; v1 = jstok_hexval h1;
                              v2 = jstok_hexval h2; v3 = jstok_hexval h3 in
                          if v0 < 0 \<or> v1 < 0 \<or> v2 < 0 \<or> v3 < 0 then None
                          else
                            (case jstok_emit cap out (jstok_utf8 (nat (v0 * 2 ^ 12 + v1 * 2 ^ 8 + v2 * 2 ^ 4 + v3))) of
                               None \<Rightarrow> None
                             | Some out1 \<Rightarrow> jstok_unescape_loop cap out1 es'))
                     | _ \<Rightarrow> None)
                  else None)))"

definition jstok_unescape :: "byte list \<Rightarrow> jstoktok \<Rightarrow> nat \<Rightarrow> byte list option" where
  "jstok_unescape json t out_cap =
     (if tk_type t \<noteq> JSTOK_STRING then None
      else case jstok_span json t of None \<Rightarrow> None | Some sp \<Rightarrow> jstok_unescape_loop out_cap [] sp)"

text \<open>
  The same loop when input and output are one buffer, as the client calls it: \<open>mem\<close> is that
  buffer, read at \<open>i\<close> below \<open>n\<close> and written at \<open>w\<close> below \<open>cap\<close>.
\<close>

definition jstok_store :: "byte list \<Rightarrow> nat \<Rightarrow> byte list \<Rightarrow> byte list" where
  "jstok_store mem w bs = take w mem @ bs @ drop (w + length bs) mem"

function jstok_unescape_mem :: "nat \<Rightarrow> nat \<Rightarrow> byte list \<Rightarrow> nat \<Rightarrow> nat \<Rightarrow> (byte list \<times> nat) option" where
  "jstok_unescape_mem n cap mem i w =
     (if i \<ge> n then Some (mem, w)
      else
        (let c = mem ! i in
         if c \<noteq> C_BSLASH then
           (if w \<ge> cap then None else jstok_unescape_mem n cap (jstok_store mem w [c]) (i + 1) (w + 1))
         else if i + 1 \<ge> n then None
         else
           (let e = mem ! (i + 1) in
            case jstok_escape_char e of
              Some b \<Rightarrow>
                if w \<ge> cap then None else jstok_unescape_mem n cap (jstok_store mem w [b]) (i + 2) (w + 1)
            | None \<Rightarrow>
                if e = 0x75 then
                  if i + 1 + 4 \<ge> n then None
                  else
                    (let v0 = jstok_hexval (mem ! (i + 2)); v1 = jstok_hexval (mem ! (i + 3));
                         v2 = jstok_hexval (mem ! (i + 4)); v3 = jstok_hexval (mem ! (i + 5)) in
                     if v0 < 0 \<or> v1 < 0 \<or> v2 < 0 \<or> v3 < 0 then None
                     else
                       (let bs = jstok_utf8 (nat (v0 * 2 ^ 12 + v1 * 2 ^ 8 + v2 * 2 ^ 4 + v3)) in
                        if w + length bs > cap then None
                        else jstok_unescape_mem n cap (jstok_store mem w bs) (i + 6) (w + length bs)))
                else None)))"
  by pat_completeness auto

termination
  by (relation "measure (\<lambda>(n, cap, mem, i, w). n - i)") auto

declare jstok_unescape_mem.simps [simp del]

section \<open>What unescaping means\<close>

text \<open>The bytes that a JSON string's characters denote, each escaped unit on its own.\<close>

definition hex4 :: "byte list \<Rightarrow> nat" where
  "hex4 hs = nat (foldl (\<lambda>v h. v * 16 + jstok_hexval h) 0 (take 4 hs))"

fun json_text :: "byte list \<Rightarrow> byte list" where
  "json_text [] = []"
| "json_text (c # cs) =
     (if c = C_BSLASH then
        (case cs of
           [] \<Rightarrow> []
         | e # es \<Rightarrow>
             (case jstok_escape_char e of
                Some b \<Rightarrow> b # json_text es
              | None \<Rightarrow> jstok_utf8 (hex4 es) @ json_text (drop 4 es)))
      else c # json_text cs)"

lemma escape_char_iff: "(jstok_escape_char e \<noteq> None) = jstok_simple_escape e"
  by (auto simp: jstok_escape_char_def jstok_simple_escape_def)

lemma jstok_hexval_iff: "(0 \<le> jstok_hexval c) = jstok_is_hex c"
  by (auto simp: jstok_hexval_def jstok_is_hex_def)

lemma emit_Some: "jstok_emit cap out bs = (if length out + length bs \<le> cap then Some (out @ bs) else None)"
  by (auto simp: jstok_emit_def)

lemma unescape_text:
  "json_chars w \<Longrightarrow> length out \<le> cap \<Longrightarrow> jstok_unescape_loop cap out w =
     (if length out + length (json_text w) \<le> cap then Some (out @ json_text w) else None)"
proof (induction cap out w rule: jstok_unescape_loop.induct)
  case (1 cap out)
  then show ?case by simp
next
  case (2 cap out c cs)
  show ?case
  proof (cases "c = C_BSLASH")
    case False
    then have "json_chars cs" using 2(4) by simp
    with 2(1) [OF False] False 2(5) show ?thesis by (auto simp: emit_Some)
  next
    case True
    then obtain e es where cs: "cs = e # es" using 2(4) by (cases cs) auto
    show ?thesis
    proof (cases "jstok_escape_char e")
      case (Some b)
      then have "jstok_simple_escape e" using escape_char_iff by auto
      then have "json_chars es" using 2(4) True cs by simp
      with 2(3) [OF _ cs Some] True cs Some 2(5) show ?thesis by (auto simp: emit_Some)
    next
      case None
      then have ns: "\<not> jstok_simple_escape e" using escape_char_iff by blast
      then have u: "e = 0x75" "4 \<le> length es" "list_all jstok_is_hex (take 4 es)" "json_chars (drop 4 es)"
        using 2(4) True cs by auto
      then obtain h0 h1 h2 h3 es' where es: "es = h0 # h1 # h2 # h3 # es'"
        by (auto simp: Suc_le_length_iff numeral_eq_Suc)
      have nn: "0 \<le> jstok_hexval h0" "0 \<le> jstok_hexval h1" "0 \<le> jstok_hexval h2" "0 \<le> jstok_hexval h3"
        using u(3) es jstok_hexval_iff by auto
      have hx: "hex4 es = nat (jstok_hexval h0 * 2 ^ 12 + jstok_hexval h1 * 2 ^ 8 + jstok_hexval h2 * 2 ^ 4 + jstok_hexval h3)"
        using es by (simp add: hex4_def algebra_simps)
      have js: "json_chars es'" using u(4) es by simp
      show ?thesis
        using 2(2) [OF _ cs None u(1) es refl refl refl refl refl refl refl] True cs None u(1) es nn hx js 2(5)
        by (auto simp: emit_Some Let_def)
    qed
  qed
qed

lemma jstok_utf8_length: "length (jstok_utf8 code) \<le> 3"
  by (simp add: jstok_utf8_def)

lemma json_text_length: "json_chars w \<Longrightarrow> length (json_text w) \<le> length w"
proof (induction w rule: json_text.induct)
  case (2 c cs)
  show ?case
  proof (cases "c = C_BSLASH")
    case False
    with 2 show ?thesis by simp
  next
    case True
    then obtain e es where cs: "cs = e # es" using 2(4) by (cases cs) auto
    show ?thesis
    proof (cases "jstok_escape_char e")
      case (Some b)
      then have "json_chars es" using 2(4) True cs escape_char_iff [of e] by auto
      with 2(2) [OF True cs Some] True cs Some show ?thesis by simp
    next
      case None
      then have "4 \<le> length es" "json_chars (drop 4 es)" using 2(4) True cs escape_char_iff [of e] by auto
      with 2(1) [OF True cs None] True cs None jstok_utf8_length [of "hex4 es"] show ?thesis by simp
    qed
  qed
qed simp

section \<open>The pull scanner for event streams\<close>

datatype jstok_sse_res =
    JSTOK_SSE_NEED_MORE
  | JSTOK_SSE_DATA

text \<open>
  The loop from \<open>cur\<close> on, which sees the rest of the buffer. The result carries the new \<open>*pos\<close>
  and the span stored into \<open>*out\<close>.
\<close>

definition sse_line_end :: "byte list \<Rightarrow> byte list" where
  "sse_line_end line = (if line \<noteq> [] \<and> last line = C_CR then butlast line else line)"

definition sse_payload :: "byte list \<Rightarrow> byte list" where
  "sse_payload line = (let p = drop 5 line in if p \<noteq> [] \<and> hd p = C_SP then tl p else p)"

definition sse_is_data :: "byte list \<Rightarrow> bool" where
  "sse_is_data line \<longleftrightarrow> length line \<ge> 5 \<and> take 5 line = lit ''data:''"

function jstok_sse_loop :: "byte list \<Rightarrow> nat \<Rightarrow> jstok_sse_res \<times> nat \<times> byte list option" where
  "jstok_sse_loop rest cur =
     (if rest = [] then (JSTOK_SSE_NEED_MORE, cur, None)
      else case memchr rest C_LF of
        None \<Rightarrow> (JSTOK_SSE_NEED_MORE, cur, None)
      | Some n \<Rightarrow>
          (let line = sse_line_end (take n rest) in
           if sse_is_data line then (JSTOK_SSE_DATA, cur + (n + 1), Some (sse_payload line))
           else jstok_sse_loop (drop (n + 1) rest) (cur + (n + 1))))"
  by pat_completeness auto

termination
  by (relation "measure (\<lambda>(rest, cur). length rest)") (auto dest: memchr_SomeD)

declare jstok_sse_loop.simps [simp del]

definition jstok_sse_next :: "byte list \<Rightarrow> nat \<Rightarrow> jstok_sse_res \<times> nat \<times> byte list option" where
  "jstok_sse_next buf pos =
     (let pos1 = min pos (length buf) in
      if pos1 \<ge> length buf then (JSTOK_SSE_NEED_MORE, pos1, None)
      else jstok_sse_loop (drop pos1 buf) pos1)"

end
