(* ===== verification/JstokTextProps.thy ===== *)
theory JstokTextProps
  imports JstokText JstokCount
begin

text \<open>
  Properties of the token helpers: navigation finds exactly the subtrees of the parsed
  document, integers are read up to the width of \<open>long long\<close>, unescaping computes the text a
  string denotes, in place as well, and the pull scanner returns exactly the data lines.
\<close>

section \<open>Navigation\<close>

text \<open>
  C13: on the tokens of an object, \<open>jstok_object_get\<close> returns the index where the tokens of the
  first member with that (unescaped) key begin, and -1 if there is none.
\<close>

theorem jstok_object_get_finds:
  assumes "tok_at toks i (JObj a b kvs)" "depth (JObj a b kvs) \<le> JSTOK_MAX_DEPTH" "well_bounded (JObj a b kvs)"
  shows "case find (key_is json key) kvs of
      None \<Rightarrow> jstok_object_get json toks (int i) key = -1
    | Some kv \<Rightarrow> \<exists>j. jstok_object_get json toks (int i) key = int j \<and> tok_at toks j (snd kv)"
  using assms by (rule jstok_object_get_tree)

definition demo_obj_json :: "byte list" where
  "demo_obj_json = lit ''{'' @ [C_QUOTE, 0x61, C_QUOTE] @ lit '':[1,2],'' @ [C_QUOTE, 0x62, C_QUOTE] @ lit '':3}''"

definition demo_obj :: "((nat \<times> nat) \<times> jtree) list" where
  "demo_obj = [((2, 3), JArr 5 10 [JPrim 6 7, JPrim 8 9]), ((12, 13), JPrim 15 16)]"

theorem jstok_object_get_finds_witness:
  "tok_at (flat (JObj 0 17 demo_obj)) 0 (JObj 0 17 demo_obj) \<and>
   jstok_object_get demo_obj_json (flat (JObj 0 17 demo_obj)) 0 (lit ''b'') = 6 \<and>
   (\<exists>j. jstok_object_get demo_obj_json (flat (JObj 0 17 demo_obj)) (int 0) (lit ''b'') = int j \<and>
      tok_at (flat (JObj 0 17 demo_obj)) j (JPrim 15 16))"
proof -
  have t: "tok_at (flat (JObj 0 17 demo_obj)) 0 (JObj 0 17 demo_obj)"
    unfolding tok_at_def by (intro exI [of _ "[]"]) simp
  have f: "find (key_is demo_obj_json (lit ''b'')) demo_obj = Some ((12, 13), JPrim 15 16)"
    and d: "depth (JObj 0 17 demo_obj) \<le> JSTOK_MAX_DEPTH" and w: "well_bounded (JObj 0 17 demo_obj)"
    and v: "jstok_object_get demo_obj_json (flat (JObj 0 17 demo_obj)) 0 (lit ''b'') = 6"
    by code_simp+
  show ?thesis using t v jstok_object_get_finds [OF t d w, of demo_obj_json "lit ''b''"] unfolding f by simp
qed

text \<open>
  On the tokens of an array, \<open>jstok_array_at\<close> returns the index where the tokens of the
  element begin, and -1 for every index outside the array.
\<close>

theorem jstok_array_at_finds:
  assumes "tok_at toks i (JArr a b ts)" "depth (JArr a b ts) \<le> JSTOK_MAX_DEPTH"
  shows "if 0 \<le> n \<and> n < int (length ts)
    then \<exists>j. jstok_array_at toks (int i) n = int j \<and> tok_at toks j (ts ! nat n)
    else jstok_array_at toks (int i) n = -1"
  using assms by (rule jstok_array_at_tree)

theorem jstok_array_at_finds_witness:
  "(\<exists>j. jstok_array_at (flat (JArr 0 9 [JArr 1 4 [JPrim 2 3], JPrim 5 8])) (int 0) 1 = int j \<and>
      tok_at (flat (JArr 0 9 [JArr 1 4 [JPrim 2 3], JPrim 5 8])) j (JPrim 5 8)) \<and>
   jstok_array_at (flat (JArr 0 9 [JArr 1 4 [JPrim 2 3], JPrim 5 8])) (int 0) 2 = -1"
proof -
  let ?t = "JArr 0 9 [JArr 1 4 [JPrim 2 3], JPrim 5 8]"
  have t: "tok_at (flat ?t) 0 ?t" unfolding tok_at_def by (intro exI [of _ "[]"]) simp
  have d: "depth ?t \<le> JSTOK_MAX_DEPTH" by (simp add: JSTOK_MAX_DEPTH_def)
  show ?thesis using jstok_array_at_finds [OF t d, of 1] jstok_array_at_finds [OF t d, of 2] by simp
qed

section \<open>Integers\<close>

text \<open>
  On a primitive token that reads as a decimal integer, \<open>jstok_atoi64\<close> returns its value
  when the absolute value fits \<open>long long\<close>, and overflows (undefined behaviour) otherwise;
  the most negative value is among those that overflow.
\<close>

theorem jstok_atoi64_reads:
  assumes "a \<le> b" "slice json a b = (if neg then [C_MINUS] else []) @ dec n"
  shows "jstok_atoi64 json (jtok JSTOK_PRIMITIVE a b 0) =
    (if int n \<le> LLONG_MAX then AtoiOk (if neg then - int n else int n) else AtoiOverflow)"
proof -
  have v: "foldl (\<lambda>v c. v * 10 + digit_val c) 0 (dec n) = n" using dec_val_dec [of n] by (simp add: dec_val_def)
  have l: "jstok_atoi64_loop 0 (dec n) = (if int n \<le> LLONG_MAX then AtoiOk (int n) else AtoiOverflow)"
    using jstok_atoi64_loop_digits [of "dec n" 0] dec_digits [of n] v by (simp add: Let_def LLONG_MAX_def)
  obtain d ds where d: "dec n = d # ds" using dec_digits [of n] by (cases "dec n") auto
  then have "d \<noteq> C_MINUS" using dec_digits [of n] by (auto simp: is_digit_def word_le_nat_alt)
  with l d assms show ?thesis by (auto simp: jstok_atoi64_def jstok_span_jtok) (simp_all add: jtok_def)
qed

theorem jstok_atoi64_reads_witness:
  "jstok_atoi64 (lit ''[-12]'') (jtok JSTOK_PRIMITIVE 1 4 0) = AtoiOk (-12)"
proof -
  have "slice (lit ''[-12]'') 1 4 = [C_MINUS] @ dec 12" by code_simp
  then show ?thesis using jstok_atoi64_reads [of 1 4 "lit ''[-12]''" True 12] by (simp add: LLONG_MAX_def)
qed

text \<open>
  The tokenizer accepts a number whose accumulation in \<open>jstok_atoi64\<close> overflows
  \<open>long long\<close>: nothing between the two checks its size.
\<close>

theorem jstok_atoi64_overflows:
  "fst (jstok_parse True jstok_init (Some (lit ''[9223372036854775808]'')) None) = Inr 2 \<and>
   jstok_atoi64 (lit ''[9223372036854775808]'') (jtok JSTOK_PRIMITIVE 1 20 0) = AtoiOverflow"
  by code_simp

section \<open>Unescaping\<close>



lemma store_length: "w + length bs \<le> length mem \<Longrightarrow> length (jstok_store mem w bs) = length mem"
  by (simp add: jstok_store_def)

lemma store_take: "w + length bs \<le> length mem \<Longrightarrow> take (w + length bs) (jstok_store mem w bs) = take w mem @ bs"
  by (simp add: jstok_store_def)

lemma store_drop: "w + length bs \<le> i \<Longrightarrow> i \<le> length mem \<Longrightarrow> drop i (jstok_store mem w bs) = drop i mem"
  by (simp add: jstok_store_def min_absorb1 min_absorb2)

text \<open>What a run on one buffer says of the run on two, from the same point.\<close>

definition same_unescape :: "nat \<Rightarrow> nat \<Rightarrow> byte list \<Rightarrow> nat \<Rightarrow> nat \<Rightarrow> bool" where
  "same_unescape n cap mem i w \<longleftrightarrow>
     jstok_unescape_loop cap (take w mem) (drop i mem) =
       map_option (\<lambda>(m, v). take v m) (jstok_unescape_mem n cap mem i w) \<and>
     (\<forall>m v. jstok_unescape_mem n cap mem i w = Some (m, v) \<longrightarrow> length m = n)"

lemma same_unescape_step:
  assumes "length mem = n" "w + length bs \<le> j" "j \<le> n"
    and "jstok_unescape_loop cap (take w mem) (drop i mem) = jstok_unescape_loop cap (take w mem @ bs) (drop j mem)"
    and "jstok_unescape_mem n cap mem i w = jstok_unescape_mem n cap (jstok_store mem w bs) j (w + length bs)"
    and "same_unescape n cap (jstok_store mem w bs) j (w + length bs)"
  shows "same_unescape n cap mem i w"
  using assms by (simp add: same_unescape_def store_take store_drop)

lemma unescape_mem_loop:
  "w \<le> i \<Longrightarrow> i \<le> n \<Longrightarrow> length mem = n \<Longrightarrow> same_unescape n cap mem i w"
proof (induction n cap mem i w rule: jstok_unescape_mem.induct)
  case (1 n cap mem i w)
  note S = jstok_unescape_mem.simps [of n cap mem i w]
  have len: "length (take w mem) = w" using 1(4-6) by simp
  note sl = store_length [where w = w and mem = mem]
  show ?case
  proof (cases "i \<ge> n")
    case True
    with S 1(6) show ?thesis by (simp add: same_unescape_def)
  next
    case False
    then have d: "drop i mem = mem ! i # drop (i + 1) mem" using 1(6) by (simp add: Cons_nth_drop_Suc)
    show ?thesis
    proof (cases "mem ! i = C_BSLASH")
      case nb: False
      show ?thesis
      proof (cases "cap \<le> w")
        case True
        with S False nb d len show ?thesis by (simp add: same_unescape_def jstok_emit_def Let_def)
      next
        case wn: False
        show ?thesis
        proof (rule same_unescape_step [of mem n w "[mem ! i]" "i + 1"])
          show "same_unescape n cap (jstok_store mem w [mem ! i]) (i + 1) (w + length [mem ! i])"
            using 1(1) [OF False refl nb wn] 1(4-6) False sl [of "[mem ! i]"] by simp
        qed (use 1(4-6) False nb wn d len S in \<open>simp_all add: jstok_emit_def Let_def\<close>)
      qed
    next
      case bs: True
      show ?thesis
      proof (cases "i + 1 \<ge> n")
        case True
        with S False bs d 1(6) show ?thesis by (simp add: same_unescape_def Let_def)
      next
        case e: False
        then have d1: "drop (i + 1) mem = mem ! (i + 1) # drop (i + 2) mem" using 1(6) by (simp add: Cons_nth_drop_Suc)
        have nb: "\<not> mem ! i \<noteq> C_BSLASH" using bs by simp
        show ?thesis
        proof (cases "jstok_escape_char (mem ! (i + 1))")
          case (Some b)
          show ?thesis
          proof (cases "cap \<le> w")
            case True
            with S False bs e Some d d1 len show ?thesis by (simp add: same_unescape_def jstok_emit_def Let_def)
          next
            case wn: False
            show ?thesis
            proof (rule same_unescape_step [of mem n w "[b]" "i + 2"])
              show "same_unescape n cap (jstok_store mem w [b]) (i + 2) (w + length [b])"
                using 1(3) [OF False refl nb e refl Some wn] 1(4-6) e sl [of "[b]"] by simp
            qed (use 1(4-6) False bs e Some wn d d1 len S in \<open>simp_all add: jstok_emit_def Let_def\<close>)
          qed
        next
          case None
          show ?thesis
          proof (cases "mem ! (i + 1) = 0x75 \<and> \<not> i + 1 + 4 \<ge> n")
            case ex: False
            have "length (drop (i + 2) mem) = n - (i + 2)" using 1(6) by simp
            then have "length (drop (i + 2) mem) < 4 \<or> mem ! (i + 1) \<noteq> 0x75" using ex e by auto
            then have "jstok_unescape_loop cap (take w mem) (drop i mem) = None"
              using d d1 bs None by (auto split: list.splits dest: arg_cong [where f = length])
            moreover have "jstok_unescape_mem n cap mem i w = None"
              using S False bs e None ex by (auto simp: Let_def)
            ultimately show ?thesis by (simp add: same_unescape_def)
          next
            case u: True
            then have u1: "mem ! (i + 1) = 0x75" and u2: "\<not> i + 1 + 4 \<ge> n" by simp_all
            have d2: "drop (i + 2) mem = mem ! (i + 2) # mem ! (i + 3) # mem ! (i + 4) # mem ! (i + 5) # drop (i + 6) mem"
              using u2 1(6) by (simp add: Cons_nth_drop_Suc eval_nat_numeral)
            let ?neg = "jstok_hexval (mem ! (i + 2)) < 0 \<or> jstok_hexval (mem ! (i + 3)) < 0 \<or>
              jstok_hexval (mem ! (i + 4)) < 0 \<or> jstok_hexval (mem ! (i + 5)) < 0"
            let ?code = "jstok_utf8 (nat (jstok_hexval (mem ! (i + 2)) * 2 ^ 12 + jstok_hexval (mem ! (i + 3)) * 2 ^ 8 +
              jstok_hexval (mem ! (i + 4)) * 2 ^ 4 + jstok_hexval (mem ! (i + 5))))"
            have M: "jstok_unescape_mem n cap mem i w =
                (if ?neg then None
                 else if w + length ?code > cap then None
                 else jstok_unescape_mem n cap (jstok_store mem w ?code) (i + 6) (w + length ?code))"
              unfolding S Let_def using False bs e None u1 u2 by simp
            have L: "jstok_unescape_loop cap (take w mem) (drop i mem) =
                (if ?neg then None
                 else if w + length ?code > cap then None
                 else jstok_unescape_loop cap (take w mem @ ?code) (drop (i + 6) mem))"
              unfolding d [unfolded d1, unfolded d2] using bs None u1 len by (simp add: Let_def jstok_emit_def)
            show ?thesis
            proof (cases "?neg \<or> w + length ?code > cap")
              case True
              with M L show ?thesis by (auto simp: same_unescape_def)
            next
              case ok: False
              then have ng: "\<not> ?neg" and fits: "\<not> cap < w + length ?code" by simp_all
              have "length ?code \<le> 3" by (rule jstok_utf8_length)
              then have x: "w + length ?code \<le> i + 6" "i + 6 \<le> n" using u2 1(4) by linarith+
              show ?thesis
              proof (rule same_unescape_step [of mem n w ?code "i + 6"])
                show "same_unescape n cap (jstok_store mem w ?code) (i + 6) (w + length ?code)"
                  using 1(2) [OF False refl nb e refl None u1 u2 refl refl refl refl ng refl fits] x 1(6) sl [of ?code]
                  by simp
                show "jstok_unescape_loop cap (take w mem) (drop i mem) =
                    jstok_unescape_loop cap (take w mem @ ?code) (drop (i + 6) mem)"
                  unfolding L using ng fits by simp
                show "jstok_unescape_mem n cap mem i w =
                    jstok_unescape_mem n cap (jstok_store mem w ?code) (i + 6) (w + length ?code)"
                  unfolding M using ng fits by simp
              qed (use x 1(6) in simp_all)
            qed
          qed
        qed
      qed
    qed
  qed
qed

text \<open>
  C15: unescaping into the very buffer that is being read, as the client does for tool
  arguments, gives the same result as unescaping into a separate one: the write position
  never overtakes the read position, and nothing outside the buffer is written.
\<close>

theorem jstok_unescape_in_place:
  "jstok_unescape_loop (length buf) [] buf =
     (case jstok_unescape_mem (length buf) (length buf) buf 0 0 of
        None \<Rightarrow> None
      | Some (m, w) \<Rightarrow> Some (take w m)) \<and>
   (case jstok_unescape_mem (length buf) (length buf) buf 0 0 of
        None \<Rightarrow> True
      | Some (m, w) \<Rightarrow> length m = length buf)"
  using unescape_mem_loop [of 0 0 "length buf" buf "length buf"]
  by (cases "jstok_unescape_mem (length buf) (length buf) buf 0 0") (auto simp: same_unescape_def)

text \<open>
  A pair of surrogate escapes is encoded half by half, so that \<open>jstok_unescape\<close> turns
  valid JSON text into bytes that are not valid UTF-8.
\<close>

theorem jstok_unescape_surrogates:
  "fst (jstok_parse True jstok_init (Some ([C_QUOTE] @ [C_BSLASH] @ lit ''ud83d'' @ [C_BSLASH] @ lit ''ude00'' @ [C_QUOTE])) None) = Inr 1 \<and>
   jstok_unescape ([C_QUOTE] @ [C_BSLASH] @ lit ''ud83d'' @ [C_BSLASH] @ lit ''ude00'' @ [C_QUOTE]) (jtok JSTOK_STRING 1 13 0) 12 =
     Some [0xED, 0xA0, 0xBD, 0xED, 0xB8, 0x80] \<and>
   utf8_valid [0xED, 0xA0, 0xBD, 0xED, 0xB8, 0x80] = False"
  by code_simp

section \<open>The pull scanner\<close>

text \<open>The caller's loop: collect payloads until more input is needed.\<close>

lemma jstok_sse_loop_progress:
  "jstok_sse_loop rest cur = (JSTOK_SSE_DATA, q, out) \<Longrightarrow> cur < q \<and> q \<le> cur + length rest"
proof (induction rest cur rule: jstok_sse_loop.induct)
  case (1 rest cur)
  show ?case
  proof (cases "memchr rest C_LF")
    case None
    with 1(2) show ?thesis by (auto simp: jstok_sse_loop.simps [of rest cur] split: if_splits)
  next
    case (Some n)
    note n = memchr_SomeD(1) [OF Some]
    then have r: "rest \<noteq> []" by auto
    show ?thesis
    proof (cases "sse_is_data (sse_line_end (take n rest))")
      case True
      with 1(2) r Some n show ?thesis by (auto simp: jstok_sse_loop.simps [of rest cur] Let_def)
    next
      case False
      with 1(2) r Some have "jstok_sse_loop (drop (n + 1) rest) (cur + (n + 1)) = (JSTOK_SSE_DATA, q, out)"
        by (simp add: jstok_sse_loop.simps [of rest cur] Let_def)
      from 1(1) [OF r Some refl False this]
      have "cur + (n + 1) < q \<and> q \<le> cur + (n + 1) + (length rest - (n + 1))" by simp
      with n show ?thesis by linarith
    qed
  qed
qed

lemma jstok_sse_next_progress:
  "jstok_sse_next buf pos = (JSTOK_SSE_DATA, q, out) \<Longrightarrow> pos < q \<and> q \<le> length buf"
  using jstok_sse_loop_progress [of "drop pos buf" pos q out]
  by (auto simp: jstok_sse_next_def Let_def min_def split: if_splits)

function jstok_sse_pull :: "byte list \<Rightarrow> nat \<Rightarrow> byte list list \<times> nat" where
  "jstok_sse_pull buf pos =
     (case jstok_sse_next buf pos of
        (JSTOK_SSE_NEED_MORE, q, _) \<Rightarrow> ([], q)
      | (JSTOK_SSE_DATA, q, out) \<Rightarrow>
          (case jstok_sse_pull buf q of (ps, r) \<Rightarrow> (case out of None \<Rightarrow> ps | Some p \<Rightarrow> p # ps, r)))"
  by pat_completeness auto

termination
  by (relation "measure (\<lambda>(buf, pos). length buf - pos)") (auto dest!: jstok_sse_next_progress [OF sym])

declare jstok_sse_pull.simps [simp del]

text \<open>The complete lines of a text and what follows the last line feed.\<close>

fun lf_lines :: "byte list \<Rightarrow> byte list list \<times> byte list" where
  "lf_lines [] = ([], [])"
| "lf_lines (b # bs) =
     (case lf_lines bs of (ls, r) \<Rightarrow>
        if b = C_LF then ([] # ls, r)
        else (case ls of [] \<Rightarrow> ([], b # r) | l # ls' \<Rightarrow> ((b # l) # ls', r)))"

lemma lf_lines_none: "C_LF \<notin> set bs \<Longrightarrow> lf_lines bs = ([], bs)"
  by (induction bs) auto

lemma lf_lines_line:
  "C_LF \<notin> set xs \<Longrightarrow> lf_lines (xs @ C_LF # ys) = (xs # fst (lf_lines ys), snd (lf_lines ys))"
  by (induction xs) (auto simp: case_prod_unfold)

definition data_payloads :: "byte list list \<Rightarrow> byte list list" where
  "data_payloads ls = map sse_payload (filter sse_is_data (map sse_line_end ls))"

lemma jstok_sse_loop_lines:
  "(case jstok_sse_loop rest cur of
      (JSTOK_SSE_NEED_MORE, q, _) \<Rightarrow>
        data_payloads (fst (lf_lines rest)) = [] \<and> q + length (snd (lf_lines rest)) = cur + length rest
    | (JSTOK_SSE_DATA, q, out) \<Rightarrow>
        \<exists>p. out = Some p \<and> data_payloads (fst (lf_lines rest)) = p # data_payloads (fst (lf_lines (drop (q - cur) rest))) \<and>
          snd (lf_lines (drop (q - cur) rest)) = snd (lf_lines rest))"
proof (induction rest cur rule: jstok_sse_loop.induct)
  case (1 rest cur)
  show ?case
  proof (cases "memchr rest C_LF")
    case None
    then have "lf_lines rest = ([], rest)" using lf_lines_none memchr_None_iff by blast
    with None show ?thesis by (simp add: jstok_sse_loop.simps [of rest cur] data_payloads_def)
  next
    case (Some n)
    note n = memchr_SomeD [OF Some]
    then have r: "rest \<noteq> []" by auto
    have "rest = take n rest @ C_LF # drop (n + 1) rest" using id_take_nth_drop [OF n(1)] n(2) by simp
    then have l: "lf_lines rest = (take n rest # fst (lf_lines (drop (n + 1) rest)), snd (lf_lines (drop (n + 1) rest)))"
      using lf_lines_line [OF n(3)] by metis
    show ?thesis
    proof (cases "sse_is_data (sse_line_end (take n rest))")
      case True
      with r Some l show ?thesis by (simp add: jstok_sse_loop.simps [of rest cur] Let_def data_payloads_def)
    next
      case False
      have sl: "snd (lf_lines rest) = snd (lf_lines (drop (n + 1) rest))" using l by simp
      have e: "jstok_sse_loop rest cur = jstok_sse_loop (drop (n + 1) rest) (cur + (n + 1))"
        using False r Some by (simp add: jstok_sse_loop.simps [of rest cur] Let_def)
      have d: "data_payloads (fst (lf_lines rest)) = data_payloads (fst (lf_lines (drop (n + 1) rest)))"
        using False l by (simp add: data_payloads_def)
      obtain res q out where c: "jstok_sse_loop (drop (n + 1) rest) (cur + (n + 1)) = (res, q, out)" by (metis prod_cases3)
      note IH = 1(1) [OF r Some refl False, unfolded c]
      show ?thesis
      proof (cases res)
        case JSTOK_SSE_NEED_MORE
        with IH have "data_payloads (fst (lf_lines (drop (n + 1) rest))) = []"
          "q + length (snd (lf_lines (drop (n + 1) rest))) = cur + (n + 1) + (length rest - (n + 1))" by simp_all
        moreover from this(2) n(1) have "q + length (snd (lf_lines (drop (n + 1) rest))) = cur + length rest" by linarith
        ultimately show ?thesis unfolding e c d sl JSTOK_SSE_NEED_MORE by simp
      next
        case JSTOK_SSE_DATA
        then have "cur + (n + 1) < q" using jstok_sse_loop_progress c by blast
        then have "q - (cur + (n + 1)) + (n + 1) = q - cur" by linarith
        then have "drop (q - (cur + (n + 1))) (drop (n + 1) rest) = drop (q - cur) rest" by (simp only: drop_drop)
        with IH JSTOK_SSE_DATA show ?thesis unfolding e c d sl by simp
      qed
    qed
  qed
qed

text \<open>
  Pulling until the scanner asks for more returns the payload of every complete data
  line, in order and without its line end and optional space, skips every other line, and
  leaves the position at the first byte of the incomplete last line.
\<close>

theorem jstok_sse_pull_exact:
  "jstok_sse_pull buf pos =
     (map sse_payload (filter sse_is_data (map sse_line_end (fst (lf_lines (drop pos buf))))),
      length buf - length (snd (lf_lines (drop pos buf))))"
proof (induction buf pos rule: jstok_sse_pull.induct)
  case (1 buf pos)
  show ?case
  proof (cases "pos \<ge> length buf")
    case True
    then have "jstok_sse_next buf pos = (JSTOK_SSE_NEED_MORE, length buf, None)" by (simp add: jstok_sse_next_def min_def)
    with True show ?thesis by (simp add: jstok_sse_pull.simps [of buf pos])
  next
    case False
    obtain res q out where c: "jstok_sse_loop (drop pos buf) pos = (res, q, out)" by (metis prod_cases3)
    have n: "jstok_sse_next buf pos = (res, q, out)" using False c by (simp add: jstok_sse_next_def min_def)
    note L = jstok_sse_loop_lines [of "drop pos buf" pos, unfolded c]
    show ?thesis
    proof (cases res)
      case JSTOK_SSE_NEED_MORE
      with L False have "data_payloads (fst (lf_lines (drop pos buf))) = []"
        "q + length (snd (lf_lines (drop pos buf))) = length buf" by simp_all
      moreover from this(2) have "q = length buf - length (snd (lf_lines (drop pos buf)))" by linarith
      ultimately show ?thesis using n JSTOK_SSE_NEED_MORE
        by (simp add: jstok_sse_pull.simps [of buf pos] data_payloads_def)
    next
      case JSTOK_SSE_DATA
      then have q: "pos < q" using jstok_sse_loop_progress c by blast
      then have dq: "drop (q - pos) (drop pos buf) = drop q buf" by simp
      from L JSTOK_SSE_DATA obtain p where p: "out = Some p"
        "data_payloads (fst (lf_lines (drop pos buf))) = p # data_payloads (fst (lf_lines (drop q buf)))"
        "snd (lf_lines (drop q buf)) = snd (lf_lines (drop pos buf))"
        using dq by (auto simp del: drop_drop)
      have "jstok_sse_pull buf q = (data_payloads (fst (lf_lines (drop q buf))), length buf - length (snd (lf_lines (drop q buf))))"
        using 1 [OF n [symmetric, unfolded JSTOK_SSE_DATA]] by (simp add: data_payloads_def JSTOK_SSE_DATA)
      with p n JSTOK_SSE_DATA show ?thesis by (simp add: jstok_sse_pull.simps [of buf pos] data_payloads_def)
    qed
  qed
qed

end
