(* ===== verification/Buffers.thy ===== *)
theory Buffers
  imports Prelude
begin

text \<open>
  The two byte buffers of the client: the growing \<open>struct growbuf\<close> of
  \<open>src/include/llm/internal.h\<close>, whose caller may bound its size, and the \<open>struct fixedbuf\<close> of
  \<open>src/src/json_build.c\<close> over memory of the caller. Both are appended to piece by piece and keep
  an error flag that makes later appends fail; what their clients rely on is the locale
  \<open>append_buffer\<close>.

  \<open>data\<close> with \<open>len\<close> is the list of the bytes written. The bytes of a growing buffer all lie in
  memory, so \<open>len + len\<close> and the doubling of the capacity stay below \<open>SIZE_MAX\<close>. An allocation
  of \<open>n\<close> bytes succeeds when the oracle \<open>gb_alloc n\<close> says so.
\<close>

section \<open>The interface\<close>

locale append_buffer =
  fixes append :: "'b \<Rightarrow> byte list \<Rightarrow> bool \<times> 'b"
    and contents :: "'b \<Rightarrow> byte list"
    and broken :: "'b \<Rightarrow> bool"
  assumes append_ok: "append b bs = (True, b') \<Longrightarrow> contents b' = contents b @ bs \<and> \<not> broken b'"
    and append_fail: "append b bs = (False, b') \<Longrightarrow> contents b' = contents b \<and> broken b'"
    and append_broken: "broken b \<Longrightarrow> append b bs = (False, b)"
begin

text \<open>Appending without looking at the results, as the request builders do.\<close>

definition puts :: "'b \<Rightarrow> byte list list \<Rightarrow> 'b" where
  "puts b chunks = foldl (\<lambda>b c. snd (append b c)) b chunks"

lemma puts_simps [simp]:
  "puts b [] = b" "puts b (c # cs) = puts (snd (append b c)) cs" "puts b (cs @ ds) = puts (puts b cs) ds"
  by (simp_all add: puts_def)

lemma broken_append: "broken b \<Longrightarrow> snd (append b c) = b"
  using append_broken by simp

lemma broken_puts: "broken b \<Longrightarrow> puts b cs = b"
  by (induction cs) (simp_all add: broken_append)

text \<open>One look at the flag in the end is enough: if it is clear, everything was written.\<close>

lemma puts_contents: "\<not> broken (puts b cs) \<Longrightarrow> contents (puts b cs) = contents b @ concat cs"
proof (induction cs arbitrary: b)
  case (Cons c cs)
  obtain r b' where a: "append b c = (r, b')" by fastforce
  show ?case
  proof (cases r)
    case True
    with a append_ok [of b c b'] Cons show ?thesis by simp
  next
    case False
    with a append_fail [of b c b'] broken_puts [of b' cs] Cons(2) show ?thesis by simp
  qed
qed simp

text \<open>Appending and stopping at the first failure, as the fixed-size writers do.\<close>

fun puts_checked :: "'b \<Rightarrow> byte list list \<Rightarrow> bool \<times> 'b" where
  "puts_checked b [] = (True, b)"
| "puts_checked b (c # cs) =
     (case append b c of (r, b1) \<Rightarrow> if r then puts_checked b1 cs else (False, b1))"

lemma puts_checked_contents:
  "puts_checked b cs = (True, b') \<Longrightarrow> contents b' = contents b @ concat cs"
  by (induction b cs rule: puts_checked.induct) (auto split: prod.splits if_splits dest: append_ok)

lemma puts_checked_append:
  "puts_checked b (cs @ ds) = (case puts_checked b cs of (r, b1) \<Rightarrow> if r then puts_checked b1 ds else (False, b1))"
  by (induction b cs rule: puts_checked.induct) (auto split: prod.splits)

end

section \<open>The growing buffer\<close>

record growbuf =
  gb_data :: "byte list"
  gb_cap :: nat
  gb_nomem :: bool
  gb_alloc :: "nat \<Rightarrow> bool"

definition growbuf_init :: "(nat \<Rightarrow> bool) \<Rightarrow> nat \<Rightarrow> growbuf" where
  "growbuf_init alloc initial_cap =
     \<lparr>gb_data = [], gb_cap = initial_cap,
      gb_nomem = (initial_cap \<noteq> 0 \<and> \<not> alloc initial_cap), gb_alloc = alloc\<rparr>"

text \<open>Doubling until the need is covered; a capacity of 0 has been replaced by 64 before.\<close>

function growbuf_double :: "nat \<Rightarrow> nat \<Rightarrow> nat" where
  "growbuf_double next_cap need =
     (if next_cap \<noteq> 0 \<and> next_cap < need then growbuf_double (next_cap * 2) need else next_cap)"
  by pat_completeness auto

termination
  by (relation "measure (\<lambda>(next_cap, need). need - next_cap)") auto

declare growbuf_double.simps [simp del]

definition growbuf_append :: "growbuf \<Rightarrow> byte list \<Rightarrow> nat \<Rightarrow> bool \<times> growbuf" where
  "growbuf_append b data max_cap =
     (let need = length (gb_data b) + length data in
      if gb_nomem b then (False, b)
      else if data = [] then (True, b)
      else if max_cap \<noteq> 0 \<and> need > max_cap then (False, b)
      else if need > gb_cap b then
        (let next_cap = growbuf_double (if gb_cap b \<noteq> 0 then gb_cap b * 2 else 64) need;
             next_cap = (if max_cap \<noteq> 0 \<and> next_cap > max_cap then max_cap else next_cap) in
         if \<not> gb_alloc b next_cap then (False, b\<lparr>gb_nomem := True\<rparr>)
         else (True, b\<lparr>gb_cap := next_cap, gb_data := gb_data b @ data\<rparr>))
      else (True, b\<lparr>gb_data := gb_data b @ data\<rparr>))"

definition growbuf_free :: "growbuf \<Rightarrow> growbuf" where
  "growbuf_free b = b\<lparr>gb_data := [], gb_cap := 0\<rparr>"

lemma growbuf_double_ge: "next_cap \<noteq> 0 \<Longrightarrow> need \<le> growbuf_double next_cap need"
proof (induction next_cap need rule: growbuf_double.induct)
  case (1 next_cap need)
  show ?case
  proof (cases "next_cap < need")
    case True
    with 1 growbuf_double.simps [of next_cap need] show ?thesis by simp
  next
    case False
    with growbuf_double.simps [of next_cap need] show ?thesis by simp
  qed
qed

lemma growbuf_append_True:
  "growbuf_append b data m = (True, b') \<Longrightarrow> gb_data b' = gb_data b @ data \<and> \<not> gb_nomem b \<and>
     \<not> gb_nomem b' \<and> gb_alloc b' = gb_alloc b"
  by (auto simp: growbuf_append_def Let_def split: if_splits)

lemma growbuf_append_False:
  "growbuf_append b data m = (False, b') \<Longrightarrow> gb_data b' = gb_data b \<and> gb_cap b' = gb_cap b \<and> gb_alloc b' = gb_alloc b \<and>
     (gb_nomem b' \<or> m \<noteq> 0 \<and> length (gb_data b) + length data > m)"
  by (auto simp: growbuf_append_def Let_def split: if_splits)

text \<open>The bytes lie within the capacity, and within the caller's bound.\<close>

definition growbuf_ok :: "growbuf \<Rightarrow> bool" where
  "growbuf_ok b \<longleftrightarrow> length (gb_data b) \<le> gb_cap b"

lemma growbuf_append_ok:
  assumes "growbuf_ok b" shows "growbuf_ok (snd (growbuf_append b data m))"
proof -
  have "need \<le> growbuf_double (if gb_cap b \<noteq> 0 then gb_cap b * 2 else 64) need" for need
    by (rule growbuf_double_ge) simp
  with assms show ?thesis by (auto simp: growbuf_append_def growbuf_ok_def Let_def not_less)
qed

lemma growbuf_append_bound:
  "growbuf_append b data m = (r, b') \<Longrightarrow> m \<noteq> 0 \<Longrightarrow> length (gb_data b) \<le> m \<Longrightarrow> length (gb_data b') \<le> m"
  by (auto simp: growbuf_append_def Let_def split: if_splits)

text \<open>Without a bound the only failure is running out of memory.\<close>

definition growbuf_put :: "growbuf \<Rightarrow> byte list \<Rightarrow> bool \<times> growbuf" where
  "growbuf_put b data = growbuf_append b data 0"

interpretation gb: append_buffer growbuf_put gb_data gb_nomem
proof
  fix b bs b'
  show "growbuf_put b bs = (True, b') \<Longrightarrow> gb_data b' = gb_data b @ bs \<and> \<not> gb_nomem b'"
    using growbuf_append_True [of b bs 0 b'] by (simp add: growbuf_put_def)
  show "growbuf_put b bs = (False, b') \<Longrightarrow> gb_data b' = gb_data b \<and> gb_nomem b'"
    using growbuf_append_False [of b bs 0 b'] by (simp add: growbuf_put_def)
  show "gb_nomem b \<Longrightarrow> growbuf_put b bs = (False, b)"
    by (simp add: growbuf_put_def growbuf_append_def)
qed

section \<open>The fixed buffer\<close>

record fixedbuf =
  fb_data :: "byte list"
  fb_cap :: nat
  fb_overflow :: bool

definition fixedbuf_init :: "nat \<Rightarrow> fixedbuf" where
  "fixedbuf_init cap = \<lparr>fb_data = [], fb_cap = cap, fb_overflow = False\<rparr>"

definition fixedbuf_append :: "fixedbuf \<Rightarrow> byte list \<Rightarrow> bool \<times> fixedbuf" where
  "fixedbuf_append b data =
     (if fb_overflow b then (False, b)
      else if data = [] then (True, b)
      else if length (fb_data b) + length data > fb_cap b then (False, b\<lparr>fb_overflow := True\<rparr>)
      else (True, b\<lparr>fb_data := fb_data b @ data\<rparr>))"

interpretation fb: append_buffer fixedbuf_append fb_data fb_overflow
  by unfold_locales (auto simp: fixedbuf_append_def split: if_splits)

lemma fixedbuf_append_bound:
  "length (fb_data b) \<le> fb_cap b \<Longrightarrow> length (fb_data (snd (fixedbuf_append b data))) \<le> fb_cap (snd (fixedbuf_append b data)) \<and>
     fb_cap (snd (fixedbuf_append b data)) = fb_cap b"
  by (auto simp: fixedbuf_append_def)

lemma fixedbuf_append_eq:
  "\<not> fb_overflow b \<Longrightarrow> length (fb_data b) \<le> fb_cap b \<Longrightarrow> fixedbuf_append b data =
     (if length (fb_data b) + length data \<le> fb_cap b then (True, b\<lparr>fb_data := fb_data b @ data\<rparr>)
      else (False, b\<lparr>fb_overflow := True\<rparr>))"
  by (auto simp: fixedbuf_append_def)

lemma fixedbuf_puts_checked:
  assumes "\<not> fb_overflow b" "length (fb_data b) \<le> fb_cap b"
  shows "fst (fb.puts_checked b cs) = (length (fb_data b) + length (concat cs) \<le> fb_cap b)"
  using assms
proof (induction cs arbitrary: b)
  case Nil
  then show ?case by simp
next
  case (Cons c cs)
  show ?case
  proof (cases "length (fb_data b) + length c \<le> fb_cap b")
    case True
    with Cons.prems have a: "fixedbuf_append b c = (True, b\<lparr>fb_data := fb_data b @ c\<rparr>)" by (simp add: fixedbuf_append_eq)
    from Cons.IH [of "b\<lparr>fb_data := fb_data b @ c\<rparr>"] True Cons.prems show ?thesis unfolding fb.puts_checked.simps a by (simp add: add.assoc)
  next
    case False
    with Cons.prems have "fixedbuf_append b c = (False, b\<lparr>fb_overflow := True\<rparr>)" by (simp add: fixedbuf_append_eq)
    with False show ?thesis by simp
  qed
qed

end
