(* ===== verification/JsonBuild.thy ===== *)
theory JsonBuild
  imports Buffers JstokText
begin

text \<open>
  The request builders of \<open>src/src/json_build.c\<close>: JSON strings with their escapes, request
  options and tool calls written into a caller's buffer, and the bodies of chat,
  completions and embeddings requests written into a growing buffer.

  A pointer with a length is a \<open>cspan\<close> (\<open>Prelude\<close>). C strings are the bytes before the NUL. Formatting and
  classifying a \<open>double\<close> belongs to the C library: the functions \<open>fmt\<close> (\<open>snprintf\<close> with
  \<open>%.17g\<close>) and \<open>finite_d\<close> (\<open>isfinite\<close>) are parameters over an abstract type of doubles.
\<close>

section \<open>Input types\<close>

datatype llm_role =
    LLM_ROLE_SYSTEM
  | LLM_ROLE_USER
  | LLM_ROLE_ASSISTANT
  | LLM_ROLE_TOOL

record llm_message =
  msg_role :: llm_role
  msg_content :: cspan
  msg_tool_call_id :: cspan
  msg_name :: cspan
  msg_tool_calls_json :: cspan
  msg_content_json :: cspan

record llm_tool_call_build =
  tb_id :: cspan
  tb_name :: cspan
  tb_arguments_json :: cspan

text \<open>
  \<open>ro_stop_list\<close> holds the array of stop strings, each cut to its entry of \<open>stop_lens\<close>;
  \<open>ro_stop_lens\<close> says whether that second array was given.
\<close>

record 'd llm_request_opts =
  ro_temperature :: "'d option"
  ro_top_p :: "'d option"
  ro_max_tokens :: "int option"
  ro_stop :: cspan
  ro_stop_list :: "byte list option list option"
  ro_stop_lens :: bool
  ro_stop_count :: nat
  ro_frequency_penalty :: "'d option"
  ro_presence_penalty :: "'d option"
  ro_seed :: "int option"

record llm_embedding_input =
  ei_text :: cspan

section \<open>JSON strings\<close>

text \<open>The two hexadecimal digits of \<open>%04x\<close> that are not zero for a byte.\<close>

definition hex_digit :: "nat \<Rightarrow> byte" where
  "hex_digit n = (if n < 10 then of_nat (48 + n) else of_nat (87 + n))"

text \<open>The \<open>switch\<close> shared by both string writers.\<close>

definition json_escape_char :: "byte \<Rightarrow> byte list" where
  "json_escape_char c =
     (if c = C_QUOTE then [C_BSLASH, C_QUOTE]
      else if c = C_BSLASH then [C_BSLASH, C_BSLASH]
      else if c = C_BS then [C_BSLASH, 0x62]
      else if c = C_FF then [C_BSLASH, 0x66]
      else if c = C_LF then [C_BSLASH, 0x6E]
      else if c = C_CR then [C_BSLASH, 0x72]
      else if c = C_TAB then [C_BSLASH, 0x74]
      else if c < 0x20 then
        [C_BSLASH, 0x75, C_0, C_0, hex_digit (unat c div 16), hex_digit (unat c mod 16)]
      else [c])"

definition json_escape :: "byte list \<Rightarrow> byte list" where
  "json_escape str = concat (map json_escape_char str)"

definition json_string :: "byte list \<Rightarrow> byte list" where
  "json_string str = [C_QUOTE] @ json_escape str @ [C_QUOTE]"

text \<open>The writers ignore the results of the appends and rely on the \<open>nomem\<close> flag.\<close>

definition append_lit :: "growbuf \<Rightarrow> byte list \<Rightarrow> growbuf" where
  "append_lit b s = snd (growbuf_append b s 0)"

definition append_char :: "growbuf \<Rightarrow> byte \<Rightarrow> growbuf" where
  "append_char b c = snd (growbuf_append b [c] 0)"

definition append_json_string :: "growbuf \<Rightarrow> byte list \<Rightarrow> growbuf" where
  "append_json_string b str =
     append_char (foldl (\<lambda>b c. append_lit b (json_escape_char c)) (append_char b C_QUOTE) str) C_QUOTE"

definition append_json_raw :: "growbuf \<Rightarrow> byte list \<Rightarrow> growbuf" where
  "append_json_raw b json = (if json \<noteq> [] then append_lit b json else append_lit b (lit ''null''))"

section \<open>Raw content arrays\<close>

definition JSTOKTOK_SIZE :: nat where
  "JSTOKTOK_SIZE = 16"

text \<open>
  The tokenizer in the library's build (\<open>JSTOK_STRICT\<close> undefined). \<open>alloc\<close> grants the memory of
  the token array; the new array's contents are irrelevant.
\<close>

definition fresh_toks :: "nat \<Rightarrow> jstoktok list" where
  "fresh_toks n = replicate n \<lparr>tk_type = JSTOK_UNDEFINED, tk_start = 0, tk_end = 0, tk_size = 0\<rparr>"

definition validate_content_json_array :: "(nat \<Rightarrow> bool) \<Rightarrow> byte list \<Rightarrow> nat \<Rightarrow> nat \<Rightarrow> bool" where
  "validate_content_json_array alloc json max_parts max_bytes =
     (if json = [] \<or> length json > INT_MAX then False
      else if max_bytes \<noteq> 0 \<and> length json > max_bytes then False
      else
        (case fst (jstok_parse False jstok_init (Some json) None) of
           Inl e \<Rightarrow> False
         | Inr needed \<Rightarrow>
             if needed = 0 then False
             else if needed > SIZE_MAX div JSTOKTOK_SIZE then False
             else if \<not> alloc (needed * JSTOKTOK_SIZE) then False
             else
               (case jstok_parse False jstok_init (Some json) (Some (fresh_toks needed)) of
                  (Inr parsed, _, Some tokens) \<Rightarrow>
                    parsed > 0 \<and> tk_type (tokens ! 0) = JSTOK_ARRAY \<and>
                    \<not> (max_parts \<noteq> 0 \<and> (tk_size (tokens ! 0) < 0 \<or> tk_size (tokens ! 0) > int max_parts))
                | _ \<Rightarrow> False)))"

section \<open>Writing into a caller's buffer\<close>

text \<open>Steps that stop the writer as soon as one of them fails.\<close>

type_synonym fstep = "fixedbuf \<Rightarrow> bool \<times> fixedbuf"

fun fb_all :: "fstep list \<Rightarrow> fstep" where
  "fb_all [] b = (True, b)"
| "fb_all (f # fs) b = (case f b of (r, b1) \<Rightarrow> if r then fb_all fs b1 else (False, b1))"

definition fixedbuf_append_char :: "byte \<Rightarrow> fstep" where
  "fixedbuf_append_char c b = fixedbuf_append b [c]"

definition fixedbuf_append_lit :: "byte list \<Rightarrow> fstep" where
  "fixedbuf_append_lit s b = fixedbuf_append b s"

definition fixedbuf_append_json_string :: "byte list \<Rightarrow> fstep" where
  "fixedbuf_append_json_string str =
     fb_all ([fixedbuf_append_char C_QUOTE] @ map (\<lambda>c. fixedbuf_append_lit (json_escape_char c)) str @
       [fixedbuf_append_char C_QUOTE])"

text \<open>\<open>first\<close> is passed in; the caller's variable is False afterwards.\<close>

definition fixedbuf_append_key :: "byte list \<Rightarrow> bool \<Rightarrow> fstep" where
  "fixedbuf_append_key key first =
     fb_all ((if \<not> first then [fixedbuf_append_char C_COMMA] else []) @
       [fixedbuf_append_char C_QUOTE, fixedbuf_append_lit key, fixedbuf_append_lit [C_QUOTE, C_COLON]])"

definition fixedbuf_append_double :: "('d \<Rightarrow> byte list) \<Rightarrow> 'd \<Rightarrow> fstep" where
  "fixedbuf_append_double fmt value b =
     (let buf = fmt value in
      if buf = [] \<or> length buf \<ge> 64 then (False, b) else fixedbuf_append b buf)"

definition fmt_int :: "int \<Rightarrow> byte list" where
  "fmt_int v = (if v < 0 then [C_MINUS] @ dec (nat (- v)) else dec (nat v))"

definition fixedbuf_append_int64 :: "int \<Rightarrow> fstep" where
  "fixedbuf_append_int64 value b =
     (let buf = fmt_int value in
      if buf = [] \<or> length buf \<ge> 32 then (False, b) else fixedbuf_append b buf)"

text \<open>A comma before every entry but the first.\<close>

fun fb_commas :: "bool \<Rightarrow> fstep list \<Rightarrow> fstep" where
  "fb_commas first [] b = (True, b)"
| "fb_commas first (f # fs) b =
     (case fb_all ((if \<not> first then [fixedbuf_append_char C_COMMA] else []) @ [f]) b of
        (r, b1) \<Rightarrow> if r then fb_commas False fs b1 else (False, b1))"

definition fixedbuf_append_string_array :: "byte list list \<Rightarrow> fstep" where
  "fixedbuf_append_string_array items =
     fb_all [fixedbuf_append_char C_LBRACK, fb_commas True (map fixedbuf_append_json_string items),
       fixedbuf_append_char C_RBRACK]"

definition tool_call_valid :: "nat \<Rightarrow> llm_tool_call_build \<Rightarrow> bool" where
  "tool_call_valid max_args tc \<longleftrightarrow>
     \<not> (sp_null (tb_name tc) \<or> sp_len (tb_name tc) = 0) \<and> \<not> sp_null (tb_arguments_json tc) \<and>
     \<not> (sp_null (tb_id tc) \<and> sp_len (tb_id tc) \<noteq> 0) \<and>
     \<not> (max_args \<noteq> 0 \<and> sp_len (tb_arguments_json tc) > max_args)"

definition tool_call_write :: "bool \<Rightarrow> llm_tool_call_build \<Rightarrow> fstep" where
  "tool_call_write first tc =
     fb_all ((if \<not> first then [fixedbuf_append_char C_COMMA] else []) @
       [fixedbuf_append_char C_LBRACE] @
       (if \<not> sp_null (tb_id tc)
        then [fixedbuf_append_lit ([C_QUOTE] @ lit ''id'' @ [C_QUOTE, C_COLON]),
              fixedbuf_append_json_string (sp_bytes (tb_id tc)), fixedbuf_append_char C_COMMA]
        else []) @
       [fixedbuf_append_lit ([C_QUOTE] @ lit ''type'' @ [C_QUOTE, C_COLON, C_QUOTE] @ lit ''function'' @
          [C_QUOTE, C_COMMA, C_QUOTE] @ lit ''function'' @ [C_QUOTE, C_COLON, C_LBRACE]),
        fixedbuf_append_lit ([C_QUOTE] @ lit ''name'' @ [C_QUOTE, C_COLON]),
        fixedbuf_append_json_string (sp_bytes (tb_name tc)),
        fixedbuf_append_lit ([C_COMMA, C_QUOTE] @ lit ''arguments'' @ [C_QUOTE, C_COLON]),
        fixedbuf_append_json_string (sp_bytes (tb_arguments_json tc)),
        fixedbuf_append_lit [C_RBRACE, C_RBRACE]])"

fun tool_calls_loop :: "nat \<Rightarrow> bool \<Rightarrow> llm_tool_call_build list \<Rightarrow> fstep" where
  "tool_calls_loop max_args first [] b = (True, b)"
| "tool_calls_loop max_args first (tc # tcs) b =
     (if \<not> tool_call_valid max_args tc then (False, b)
      else case tool_call_write first tc b of
        (r, b1) \<Rightarrow> if r then tool_calls_loop max_args False tcs b1 else (False, b1))"

text \<open>The bytes written, or \<open>None\<close> for the result false. \<open>calls\<close> is \<open>None\<close> for a null array.\<close>

definition llm_tool_calls_json_write ::
  "llm_tool_call_build list option \<Rightarrow> nat \<Rightarrow> nat \<Rightarrow> nat \<Rightarrow> byte list option" where
  "llm_tool_calls_json_write calls calls_count out_cap max_args =
     (if out_cap = 0 then None
      else if calls_count > 0 \<and> calls = None then None
      else
        (case fb_all [fixedbuf_append_char C_LBRACK,
             tool_calls_loop max_args True (case calls of None \<Rightarrow> [] | Some cs \<Rightarrow> take calls_count cs),
             fixedbuf_append_char C_RBRACK] (fixedbuf_init out_cap) of
           (r, b) \<Rightarrow> if \<not> r then None else if fb_overflow b then None else Some (fb_data b)))"

section \<open>Request options\<close>

fun stop_list_ok :: "nat \<Rightarrow> nat \<Rightarrow> byte list option list \<Rightarrow> bool" where
  "stop_list_ok max_bytes total_bytes [] = True"
| "stop_list_ok max_bytes total_bytes (s # ss) =
     (case s of
        None \<Rightarrow> False
      | Some str \<Rightarrow>
          if max_bytes \<noteq> 0 \<and> length str > max_bytes - total_bytes then False
          else stop_list_ok max_bytes (total_bytes + length str) ss)"

definition opts_stop_ok :: "nat \<Rightarrow> nat \<Rightarrow> 'd llm_request_opts \<Rightarrow> bool" where
  "opts_stop_ok max_strings max_bytes opts =
     (if sp_null (ro_stop opts) \<and> sp_len (ro_stop opts) \<noteq> 0 then False
      else if ro_stop_count opts > 0 then
        (if \<not> sp_null (ro_stop opts) \<or> sp_len (ro_stop opts) \<noteq> 0 then False
         else if ro_stop_list opts = None \<or> \<not> ro_stop_lens opts then False
         else if max_strings \<noteq> 0 \<and> ro_stop_count opts > max_strings then False
         else stop_list_ok max_bytes 0 (take (ro_stop_count opts) (the (ro_stop_list opts))))
      else
        (if ro_stop_list opts \<noteq> None \<or> ro_stop_lens opts then False
         else if \<not> sp_null (ro_stop opts) then
           \<not> (max_strings \<noteq> 0 \<and> max_strings < 1) \<and> \<not> (max_bytes \<noteq> 0 \<and> sp_len (ro_stop opts) > max_bytes)
         else True))"

text \<open>The fields present, in the order of the code, each with the step that writes its value.\<close>

definition opts_fields :: "('d \<Rightarrow> byte list) \<Rightarrow> 'd llm_request_opts \<Rightarrow> (byte list \<times> fstep) list" where
  "opts_fields fmt opts =
     (case ro_temperature opts of None \<Rightarrow> [] | Some d \<Rightarrow> [(lit ''temperature'', fixedbuf_append_double fmt d)]) @
     (case ro_top_p opts of None \<Rightarrow> [] | Some d \<Rightarrow> [(lit ''top_p'', fixedbuf_append_double fmt d)]) @
     (case ro_max_tokens opts of None \<Rightarrow> [] | Some n \<Rightarrow> [(lit ''max_tokens'', fixedbuf_append_int64 n)]) @
     (if ro_stop_count opts > 0
      then [(lit ''stop'', fixedbuf_append_string_array
               (map the (take (ro_stop_count opts) (the (ro_stop_list opts)))))]
      else if \<not> sp_null (ro_stop opts)
      then [(lit ''stop'', fixedbuf_append_json_string (sp_bytes (ro_stop opts)))]
      else []) @
     (case ro_frequency_penalty opts of None \<Rightarrow> []
        | Some d \<Rightarrow> [(lit ''frequency_penalty'', fixedbuf_append_double fmt d)]) @
     (case ro_presence_penalty opts of None \<Rightarrow> []
        | Some d \<Rightarrow> [(lit ''presence_penalty'', fixedbuf_append_double fmt d)]) @
     (case ro_seed opts of None \<Rightarrow> [] | Some n \<Rightarrow> [(lit ''seed'', fixedbuf_append_int64 n)])"

text \<open>
  Writing the fields: the variables \<open>any\<close> and \<open>first\<close> of the code change together, at the first
  field.
\<close>

fun opts_write_fields :: "bool \<Rightarrow> (byte list \<times> fstep) list \<Rightarrow> fstep" where
  "opts_write_fields any [] b = (True, b)"
| "opts_write_fields any ((key, value) # fs) b =
     (case fb_all ((if \<not> any then [fixedbuf_append_char C_LBRACE] else []) @
             [fixedbuf_append_key key (\<not> any), value]) b of
        (r, b1) \<Rightarrow> if r then opts_write_fields True fs b1 else (False, b1))"

definition opts_doubles_ok :: "('d \<Rightarrow> bool) \<Rightarrow> 'd llm_request_opts \<Rightarrow> bool" where
  "opts_doubles_ok finite_d opts \<longleftrightarrow>
     (\<forall>f\<in>{ro_temperature opts, ro_top_p opts, ro_frequency_penalty opts, ro_presence_penalty opts}.
        case f of None \<Rightarrow> True | Some d \<Rightarrow> finite_d d)"

text \<open>The text written before the NUL, whose length is \<open>*out_len\<close>; \<open>None\<close> for the result false.\<close>

definition llm_request_opts_json_write ::
  "('d \<Rightarrow> byte list) \<Rightarrow> ('d \<Rightarrow> bool) \<Rightarrow> 'd llm_request_opts option \<Rightarrow> nat \<Rightarrow> nat \<Rightarrow> nat \<Rightarrow> byte list option" where
  "llm_request_opts_json_write fmt finite_d opts_ptr out_cap max_strings max_bytes =
     (if out_cap = 0 then None
      else case opts_ptr of
        None \<Rightarrow> Some []
      | Some opts \<Rightarrow>
          if \<not> opts_doubles_ok finite_d opts then None
          else if \<not> opts_stop_ok max_strings max_bytes opts then None
          else
            (case opts_write_fields False (opts_fields fmt opts) (fixedbuf_init (out_cap - 1)) of
               (r, b) \<Rightarrow>
                 if \<not> r then None
                 else if opts_fields fmt opts = [] then Some []
                 else
                   (case fixedbuf_append_char C_RBRACE b of
                      (r, b) \<Rightarrow> if \<not> r then None else if fb_overflow b then None else Some (fb_data b))))"

section \<open>Request bodies\<close>

fun role_str :: "llm_role \<Rightarrow> byte list" where
  "role_str LLM_ROLE_SYSTEM = lit ''system''"
| "role_str LLM_ROLE_USER = lit ''user''"
| "role_str LLM_ROLE_ASSISTANT = lit ''assistant''"
| "role_str LLM_ROLE_TOOL = lit ''tool''"

text \<open>A member name as the code writes it: comma, quoted name, colon.\<close>

definition key_lit :: "string \<Rightarrow> byte list" where
  "key_lit k = [C_COMMA, C_QUOTE] @ lit k @ [C_QUOTE, C_COLON]"

text \<open>
  The content of one message: \<open>None\<close> when the builder gives up. Here \<open>alloc\<close> grants the token
  array of the validation.
\<close>

definition chat_content ::
  "(nat \<Rightarrow> bool) \<Rightarrow> nat \<Rightarrow> nat \<Rightarrow> llm_message \<Rightarrow> growbuf \<Rightarrow> growbuf option" where
  "chat_content alloc max_parts max_bytes m b =
     (if \<not> sp_null (msg_content_json m) then
        (if \<not> sp_null (msg_content m) \<or> sp_len (msg_content_json m) = 0 then None
         else if \<not> validate_content_json_array alloc (sp_bytes (msg_content_json m)) max_parts max_bytes then None
         else Some (append_lit (append_lit b (key_lit ''content'')) (sp_bytes (msg_content_json m))))
      else if sp_len (msg_content_json m) \<noteq> 0 then None
      else if \<not> sp_null (msg_content m)
      then Some (append_json_string (append_lit b (key_lit ''content'')) (sp_bytes (msg_content m)))
      else Some (append_lit b (key_lit ''content'' @ lit ''null'')))"

definition chat_message ::
  "(nat \<Rightarrow> bool) \<Rightarrow> nat \<Rightarrow> nat \<Rightarrow> bool \<Rightarrow> llm_message \<Rightarrow> growbuf \<Rightarrow> growbuf option" where
  "chat_message alloc max_parts max_bytes first m b =
     (let b = (if \<not> first then append_char b C_COMMA else b);
          b = append_lit b ([C_LBRACE, C_QUOTE] @ lit ''role'' @ [C_QUOTE, C_COLON]);
          b = append_json_string b (role_str (msg_role m)) in
      case chat_content alloc max_parts max_bytes m b of
        None \<Rightarrow> None
      | Some b \<Rightarrow>
          (let b = (if msg_role m = LLM_ROLE_ASSISTANT \<and> \<not> sp_null (msg_tool_calls_json m) \<and>
                       sp_len (msg_tool_calls_json m) > 0
                    then append_lit (append_lit b (key_lit ''tool_calls'')) (sp_bytes (msg_tool_calls_json m))
                    else b);
               b = (if msg_role m = LLM_ROLE_TOOL \<and> \<not> sp_null (msg_tool_call_id m)
                    then append_json_string (append_lit b (key_lit ''tool_call_id'')) (sp_bytes (msg_tool_call_id m))
                    else b);
               b = (if \<not> sp_null (msg_name m)
                    then append_json_string (append_lit b (key_lit ''name'')) (sp_bytes (msg_name m))
                    else b) in
           Some (append_char b C_RBRACE)))"

fun chat_messages ::
  "(nat \<Rightarrow> bool) \<Rightarrow> nat \<Rightarrow> nat \<Rightarrow> bool \<Rightarrow> llm_message list \<Rightarrow> growbuf \<Rightarrow> growbuf option" where
  "chat_messages alloc max_parts max_bytes first [] b = Some b"
| "chat_messages alloc max_parts max_bytes first (m # ms) b =
     (case chat_message alloc max_parts max_bytes first m b of
        None \<Rightarrow> None
      | Some b1 \<Rightarrow> chat_messages alloc max_parts max_bytes False ms b1)"

text \<open>Splicing in a list of members, with or without its braces; shared by all three builders.\<close>

definition append_params :: "growbuf \<Rightarrow> byte list option \<Rightarrow> growbuf" where
  "append_params b params_json =
     (case params_json of
        None \<Rightarrow> b
      | Some p \<Rightarrow>
          if length p > 2 \<and> p ! 0 = C_LBRACE \<and> p ! (length p - 1) = C_RBRACE
          then append_lit (append_char b C_COMMA) (take (length p - 2) (drop 1 p))
          else if length p > 0 then append_lit (append_char b C_COMMA) p
          else b)"

definition append_stream :: "growbuf \<Rightarrow> bool \<Rightarrow> bool \<Rightarrow> growbuf" where
  "append_stream b stream include_usage =
     (if stream then
        (let b = append_lit b (key_lit ''stream'' @ lit ''true'') in
         if include_usage
         then append_lit b (key_lit ''stream_options'' @ [C_LBRACE, C_QUOTE] @ lit ''include_usage'' @
                [C_QUOTE, C_COLON] @ lit ''true}'')
         else b)
      else b)"

text \<open>The finished body with its NUL, or \<open>None\<close> for NULL.\<close>

definition build_finish :: "growbuf \<Rightarrow> byte list option" where
  "build_finish b =
     (let b = append_char (append_char b C_RBRACE) C_NUL in
      if gb_nomem b then None else Some (gb_data b))"

definition build_chat_request ::
  "(nat \<Rightarrow> bool) \<Rightarrow> (nat \<Rightarrow> bool) \<Rightarrow> byte list \<Rightarrow> llm_message list \<Rightarrow> bool \<Rightarrow> bool \<Rightarrow> byte list option \<Rightarrow>
     byte list option \<Rightarrow> byte list option \<Rightarrow> nat \<Rightarrow> nat \<Rightarrow> byte list option" where
  "build_chat_request balloc alloc model messages stream include_usage params_json tooling_json
     response_format_json max_content_parts max_content_bytes =
     (let b = growbuf_init balloc 4096;
          b = append_lit b ([C_LBRACE, C_QUOTE] @ lit ''model'' @ [C_QUOTE, C_COLON]);
          b = append_json_string b model;
          b = append_lit b (key_lit ''messages'' @ [C_LBRACK]) in
      case chat_messages alloc max_content_parts max_content_bytes True messages b of
        None \<Rightarrow> None
      | Some b \<Rightarrow>
          (let b = append_char b C_RBRACK;
               b = append_stream b stream include_usage;
               b = append_params b params_json;
               b = append_params b tooling_json;
               b = (case response_format_json of
                      None \<Rightarrow> b
                    | Some r \<Rightarrow> append_json_raw (append_lit b (key_lit ''response_format'')) r) in
           build_finish b))"

definition build_completions_request ::
  "(nat \<Rightarrow> bool) \<Rightarrow> byte list \<Rightarrow> byte list \<Rightarrow> bool \<Rightarrow> bool \<Rightarrow> byte list option \<Rightarrow> byte list option" where
  "build_completions_request balloc model prompt stream include_usage params_json =
     (let b = growbuf_init balloc 4096;
          b = append_lit b ([C_LBRACE, C_QUOTE] @ lit ''model'' @ [C_QUOTE, C_COLON]);
          b = append_json_string b model;
          b = append_lit b (key_lit ''prompt'');
          b = append_json_string b prompt;
          b = append_stream b stream include_usage;
          b = append_params b params_json in
      build_finish b)"

fun embedding_inputs :: "bool \<Rightarrow> llm_embedding_input list \<Rightarrow> growbuf \<Rightarrow> growbuf" where
  "embedding_inputs first [] b = b"
| "embedding_inputs first (i # is) b =
     embedding_inputs False is
       (append_json_string (if \<not> first then append_char b C_COMMA else b) (sp_bytes (ei_text i)))"

definition build_embeddings_request ::
  "(nat \<Rightarrow> bool) \<Rightarrow> byte list option \<Rightarrow> llm_embedding_input list option \<Rightarrow> nat \<Rightarrow> byte list option \<Rightarrow>
     nat \<Rightarrow> nat \<Rightarrow> byte list option" where
  "build_embeddings_request balloc model_ptr inputs inputs_count params_json max_input_bytes max_inputs =
     (case model_ptr of
        None \<Rightarrow> None
      | Some model \<Rightarrow>
          if inputs_count = 0 then None
          else case inputs of
            None \<Rightarrow> None
          | Some all_inputs \<Rightarrow>
              (let ins = take inputs_count all_inputs in
               if max_inputs \<noteq> 0 \<and> inputs_count > max_inputs then None
               else if \<exists>i\<in>set ins. sp_null (ei_text i) \<or> max_input_bytes \<noteq> 0 \<and> sp_len (ei_text i) > max_input_bytes
               then None
               else
                 (let b = growbuf_init balloc 4096;
                      b = append_lit b ([C_LBRACE, C_QUOTE] @ lit ''model'' @ [C_QUOTE, C_COLON]);
                      b = append_json_string b model;
                      b = append_lit b (key_lit ''input'' @ [C_LBRACK]);
                      b = embedding_inputs True ins b;
                      b = append_char b C_RBRACK;
                      b = append_params b params_json in
                  build_finish b)))"

end
