(* ===== verification/JsonText.thy ===== *)
theory JsonText
  imports JstokCount JsonBuild
begin

text \<open>
  JSON texts that can be put together: what a byte string must be so that it reads as a
  value, as the elements of an array or as the members of an object wherever it is pasted.
  The writers of \<open>JsonBuild\<close> are shown to produce such texts by these rules.
\<close>

section \<open>Positions in a concatenation\<close>

lemma at_pos_here [simp]: "at_pos (pre @ c # post) (length pre) c"
  by (simp add: at_pos_def)

lemma slice_here: "slice (pre @ w @ post) (length pre) (length pre + length w) = w"
  by (simp add: slice_def)

definition delimited :: "byte list \<Rightarrow> bool" where
  "delimited post \<longleftrightarrow> post \<noteq> [] \<and> jstok_is_delim (hd post)"

lemma delimited_simps [simp]:
  "delimited (C_COMMA # post)" "delimited (C_RBRACK # post)" "delimited (C_RBRACE # post)"
  by (simp_all add: delimited_def jstok_is_delim_def)

lemma jstring_here:
  assumes "json_chars s"
  shows "jstring (pre @ C_QUOTE # s @ C_QUOTE # post) (length pre) (length pre + 1 + length s)"
proof -
  have "at_pos ((pre @ C_QUOTE # s) @ C_QUOTE # post) (length (pre @ C_QUOTE # s)) C_QUOTE" by (rule at_pos_here)
  moreover have "slice ((pre @ [C_QUOTE]) @ s @ C_QUOTE # post) (length (pre @ [C_QUOTE])) (length (pre @ [C_QUOTE]) + length s) = s"
    by (rule slice_here)
  ultimately show ?thesis using assms by (simp add: jstring_def add.commute add.left_commute)
qed

section \<open>Texts of values, elements and members\<close>

definition jval :: "nat \<Rightarrow> byte list \<Rightarrow> bool" where
  "jval d w \<longleftrightarrow> (\<forall>pre post. delimited post \<longrightarrow>
     (\<exists>t. jvalue (pre @ w @ post) (length pre) (length pre + length w) t \<and> depth t \<le> d))"

text \<open>An array or an object needs no delimiter behind it.\<close>

definition jclosed :: "nat \<Rightarrow> byte list \<Rightarrow> bool" where
  "jclosed d w \<longleftrightarrow> (\<forall>pre post.
     (\<exists>t. jvalue (pre @ w @ post) (length pre) (length pre + length w) t \<and> depth t \<le> d))"

definition jelts :: "nat \<Rightarrow> byte list \<Rightarrow> bool" where
  "jelts d w \<longleftrightarrow> (\<forall>pre post. delimited post \<longrightarrow>
     (\<exists>ts. jelems (pre @ w @ post) (length pre) (length pre + length w) ts \<and> (\<forall>t\<in>set ts. depth t \<le> d)))"

definition jmems :: "nat \<Rightarrow> byte list \<Rightarrow> bool" where
  "jmems d w \<longleftrightarrow> (\<forall>pre post. delimited post \<longrightarrow>
     (\<exists>kvs. jmembers (pre @ w @ post) (length pre) (length pre + length w) kvs \<and>
        (\<forall>kv\<in>set kvs. depth (snd kv) \<le> d)))"

lemma jclosed_val: "jclosed d w \<Longrightarrow> jval d w"
  by (simp add: jclosed_def jval_def)

lemma jval_mono: "jval d w \<Longrightarrow> d \<le> e \<Longrightarrow> jval e w"
  unfolding jval_def by (meson le_trans)

lemma jmems_mono: "jmems d w \<Longrightarrow> d \<le> e \<Longrightarrow> jmems e w"
  unfolding jmems_def by (meson le_trans)

lemma jval_string: "json_chars s \<Longrightarrow> jval d ([C_QUOTE] @ s @ [C_QUOTE])"
  unfolding jval_def
proof (intro allI impI)
  fix pre post :: "byte list"
  assume s: "json_chars s"
  from v_str [OF jstring_here [OF s, of pre post]]
  show "\<exists>t. jvalue (pre @ ([C_QUOTE] @ s @ [C_QUOTE]) @ post) (length pre) (length pre + length ([C_QUOTE] @ s @ [C_QUOTE])) t \<and>
      depth t \<le> d"
    by (intro exI [of _ "JStr (length pre + 1) (length pre + 1 + length s)"]) (simp add: add.commute add.left_commute)
qed

lemma jval_primitive:
  assumes "\<And>rest. delimited rest \<Longrightarrow> json_primitive w rest" "w \<noteq> []"
  shows "jval d w"
  unfolding jval_def
proof (intro allI impI)
  fix pre post :: "byte list"
  assume p: "delimited post"
  have "jprim (pre @ w @ post) (length pre) (length pre + length w)"
    using assms(1) [OF p] assms(2) by (simp add: jprim_def slice_def)
  from v_prim [OF this]
  show "\<exists>t. jvalue (pre @ w @ post) (length pre) (length pre + length w) t \<and> depth t \<le> d"
    by (intro exI [of _ "JPrim (length pre) (length pre + length w)"]) simp
qed

lemma jval_literal: "json_literal w \<Longrightarrow> jval d w"
  by (rule jval_primitive) (auto simp: json_primitive_def delimited_def json_literal_def)

lemma jval_number: "json_number w \<Longrightarrow> jval d w"
  using json_number_hd [of w] by (intro jval_primitive) (auto simp: json_primitive_def delimited_def)

section \<open>Arrays\<close>

lemma jelts_one: assumes "jval d w" shows "jelts d w"
  unfolding jelts_def
proof (intro allI impI)
  fix pre post :: "byte list"
  assume "delimited post"
  then obtain t where t: "jvalue (pre @ w @ post) (length pre) (length pre + length w) t" "depth t \<le> d"
    using assms unfolding jval_def by blast
  have "jelems (pre @ w @ post) (length pre) (length pre + length w) [t]"
    by (rule e_one [OF ws_refl t(1) ws_refl]) simp_all
  with t(2) show "\<exists>ts. jelems (pre @ w @ post) (length pre) (length pre + length w) ts \<and> (\<forall>t\<in>set ts. depth t \<le> d)"
    by auto
qed

lemma jelts_more: assumes "jelts d w" "jval d v" shows "jelts d (w @ [C_COMMA] @ v)"
  unfolding jelts_def
proof (intro allI impI)
  fix pre post :: "byte list"
  assume p: "delimited post"
  let ?j = "pre @ (w @ [C_COMMA] @ v) @ post"
  let ?c = "length pre + length w"
  obtain ts where ts: "jelems ?j (length pre) ?c ts" "\<forall>t\<in>set ts. depth t \<le> d"
    using assms(1) unfolding jelts_def by (metis append.assoc append_Cons append_Nil delimited_simps(1))
  obtain t where t: "jvalue ?j (?c + 1) (?c + 1 + length v) t" "depth t \<le> d"
    using assms(2) p unfolding jval_def
    by (metis (no_types) append.assoc length_append length_append_singleton Suc_eq_plus1)
  have c: "at_pos ?j ?c C_COMMA" using at_pos_here [of "pre @ w" C_COMMA "v @ post"] by simp
  have "jelems ?j (length pre) (?c + 1 + length v) (ts @ [t])"
    by (rule e_more [OF ts(1) c ws_refl t(1) ws_refl]) simp_all
  with ts(2) t(2) show "\<exists>ts. jelems ?j (length pre) (length pre + length (w @ [C_COMMA] @ v)) ts \<and>
      (\<forall>t\<in>set ts. depth t \<le> d)"
    by (intro exI [of _ "ts @ [t]"]) (auto simp: add.commute add.left_commute)
qed

lemma jclosed_array: assumes "jelts d w" shows "jclosed (Suc d) ([C_LBRACK] @ w @ [C_RBRACK])"
  unfolding jclosed_def
proof (intro allI)
  fix pre post :: "byte list"
  let ?j = "pre @ ([C_LBRACK] @ w @ [C_RBRACK]) @ post"
  let ?q = "length pre + 1 + length w"
  obtain ts where ts: "jelems ?j (length pre + 1) ?q ts" "\<forall>t\<in>set ts. depth t \<le> d"
    using assms unfolding jelts_def
    by (metis (no_types) append.assoc append_Cons append_Nil delimited_simps(2) length_append_singleton Suc_eq_plus1)
  have o: "at_pos ?j (length pre) C_LBRACK" by simp
  have c: "at_pos ?j ?q C_RBRACK" using at_pos_here [of "pre @ [C_LBRACK] @ w" C_RBRACK post] by simp
  from v_arr [OF o ts(1) c] ts(2) depth_le(1)
  show "\<exists>t. jvalue ?j (length pre) (length pre + length ([C_LBRACK] @ w @ [C_RBRACK])) t \<and> depth t \<le> Suc d"
    by (intro exI [of _ "JArr (length pre) (?q + 1) ts"]) (auto simp: add.commute add.left_commute fold_max_le)
qed

lemma jclosed_empty_array: "jclosed (Suc d) [C_LBRACK, C_RBRACK]"
  unfolding jclosed_def
proof (intro allI)
  fix pre post :: "byte list"
  let ?j = "pre @ [C_LBRACK, C_RBRACK] @ post"
  have c: "at_pos ?j (length pre + 1) C_RBRACK" using at_pos_here [of "pre @ [C_LBRACK]" C_RBRACK post] by simp
  have o: "at_pos ?j (length pre) C_LBRACK" by simp
  from v_arr_empty [OF o ws_refl c]
  show "\<exists>t. jvalue ?j (length pre) (length pre + length [C_LBRACK, C_RBRACK]) t \<and> depth t \<le> Suc d"
    by (intro exI [of _ "JArr (length pre) (length pre + 1 + 1) []"]) simp
qed

text \<open>Any number of values, separated by commas.\<close>

fun commas :: "byte list list \<Rightarrow> byte list" where
  "commas [] = []"
| "commas [w] = w"
| "commas (w # vs) = w @ [C_COMMA] @ commas vs"

lemma commas_snoc: "vs \<noteq> [] \<Longrightarrow> commas (vs @ [w]) = commas vs @ [C_COMMA] @ w"
  by (induction vs rule: commas.induct) auto

lemma jelts_commas: "vs \<noteq> [] \<Longrightarrow> \<forall>w\<in>set vs. jval d w \<Longrightarrow> jelts d (commas vs)"
proof (induction vs rule: rev_induct)
  case (snoc w vs)
  show ?case
  proof (cases "vs = []")
    case True
    with snoc show ?thesis by (simp add: jelts_one)
  next
    case False
    with snoc have "jelts d (commas vs @ [C_COMMA] @ w)" by (intro jelts_more) auto
    then show ?thesis by (simp only: commas_snoc [OF False])
  qed
qed simp

lemma jclosed_list: "\<forall>w\<in>set vs. jval d w \<Longrightarrow> jclosed (Suc d) ([C_LBRACK] @ commas vs @ [C_RBRACK])"
  using jclosed_array [OF jelts_commas] jclosed_empty_array by (cases "vs = []") auto

section \<open>Objects\<close>

text \<open>One member: a quoted name, a colon and a value.\<close>

definition member :: "byte list \<Rightarrow> byte list \<Rightarrow> byte list" where
  "member k v = [C_QUOTE] @ k @ [C_QUOTE, C_COLON] @ v"

lemma member_here:
  fixes pre :: "byte list"
  assumes "json_chars k" "jval d v" "delimited post"
  defines "a \<equiv> length pre" and "b \<equiv> length pre + 1 + length k"
  shows "jstring (pre @ member k v @ post) a b"
    "at_pos (pre @ member k v @ post) (b + 1) C_COLON"
    "\<exists>t. jvalue (pre @ member k v @ post) (b + 2) (b + 2 + length v) t \<and> depth t \<le> d"
    "length pre + length (member k v) = b + 2 + length v"
proof -
  show "jstring (pre @ member k v @ post) a b"
    using jstring_here [OF assms(1), of pre "C_COLON # v @ post"] by (simp add: a_def b_def member_def)
  show "at_pos (pre @ member k v @ post) (b + 1) C_COLON"
    using at_pos_here [of "pre @ [C_QUOTE] @ k @ [C_QUOTE]" C_COLON "v @ post"] by (simp add: b_def member_def)
  have "\<exists>t. jvalue ((pre @ [C_QUOTE] @ k @ [C_QUOTE, C_COLON]) @ v @ post)
      (length (pre @ [C_QUOTE] @ k @ [C_QUOTE, C_COLON])) (length (pre @ [C_QUOTE] @ k @ [C_QUOTE, C_COLON]) + length v) t \<and>
      depth t \<le> d"
    using assms(2,3) unfolding jval_def by blast
  then show "\<exists>t. jvalue (pre @ member k v @ post) (b + 2) (b + 2 + length v) t \<and> depth t \<le> d"
    by (simp add: b_def member_def)
  show "length pre + length (member k v) = b + 2 + length v" by (simp add: b_def member_def)
qed

lemma jmems_one:
  assumes "json_chars k" "jval d v" shows "jmems d (member k v)"
  unfolding jmems_def
proof (intro allI impI)
  fix pre post :: "byte list"
  assume p: "delimited post"
  let ?j = "pre @ member k v @ post" and ?b = "length pre + 1 + length k"
  note M = member_here [OF assms p, of pre]
  obtain t where t: "jvalue ?j (?b + 2) (?b + 2 + length v) t" "depth t \<le> d" using M(3) by blast
  have l: "?b + 2 + length v \<le> length ?j" using M(4) by simp
  have "jmembers ?j (length pre) (?b + 2 + length v) [((length pre + 1, ?b), t)]"
    by (rule m_one [OF ws_refl M(1) ws_refl M(2) ws_refl _ ws_refl]) (use t l in simp_all)
  with t(2) show "\<exists>kvs. jmembers ?j (length pre) (length pre + length (member k v)) kvs \<and>
      (\<forall>kv\<in>set kvs. depth (snd kv) \<le> d)"
    unfolding M(4) by (intro exI [of _ "[((length pre + 1, ?b), t)]"]) simp
qed

lemma jmems_more:
  assumes "jmems d w" "json_chars k" "jval d v" shows "jmems d (w @ [C_COMMA] @ member k v)"
  unfolding jmems_def
proof (intro allI impI)
  fix pre post :: "byte list"
  assume p: "delimited post"
  let ?j = "pre @ (w @ [C_COMMA] @ member k v) @ post"
  let ?pre = "pre @ w @ [C_COMMA]" and ?c = "length pre + length w"
  let ?b = "length ?pre + 1 + length k"
  have j: "?j = ?pre @ member k v @ post" by simp
  note M = member_here [OF assms(2,3) p, of ?pre, folded j]
  obtain kvs where kvs: "jmembers ?j (length pre) ?c kvs" "\<forall>kv\<in>set kvs. depth (snd kv) \<le> d"
    using assms(1) unfolding jmems_def by (metis append.assoc append_Cons append_Nil delimited_simps(1))
  obtain t where t: "jvalue ?j (?b + 2) (?b + 2 + length v) t" "depth t \<le> d" using M(3) by blast
  have c: "at_pos ?j ?c C_COMMA" using at_pos_here [of "pre @ w" C_COMMA "member k v @ post"] by simp
  have l: "?b + 2 + length v \<le> length ?j" using M(4) unfolding j by simp
  have lp: "length ?pre = ?c + 1" by simp
  have "jmembers ?j (length pre) (?b + 2 + length v) (kvs @ [((length ?pre + 1, ?b), t)])"
    by (rule m_more [OF kvs(1) c _ M(1) ws_refl M(2) ws_refl _ ws_refl]) (use t l lp in simp_all)
  moreover have e: "length pre + length (w @ [C_COMMA] @ member k v) = ?b + 2 + length v" using M(4) by simp
  ultimately show "\<exists>kvs. jmembers ?j (length pre) (length pre + length (w @ [C_COMMA] @ member k v)) kvs \<and>
      (\<forall>kv\<in>set kvs. depth (snd kv) \<le> d)"
    unfolding e using t(2) kvs(2) by (intro exI [of _ "kvs @ [((length ?pre + 1, ?b), t)]"]) auto
qed

lemma jmembers_append:
  assumes "jmembers json p c kvs" "at_pos json c C_COMMA"
  shows "jvalue json x y t \<Longrightarrow> True" "jelems json x y ts \<Longrightarrow> True"
    "jmembers json c1 q kvs' \<Longrightarrow> c1 = c + 1 \<Longrightarrow> jmembers json p q (kvs @ kvs')"
proof (induction rule: jvalue_jelems_jmembers.inducts)
  case (m_one c1 a b c' d e v q)
  then show ?case
    using jvalue_jelems_jmembers.m_more [OF assms(1,2), of a b c' d e v q] by simp
next
  case (m_more c1 c0 kvs1 a b c' d e v q)
  then show ?case
    using jvalue_jelems_jmembers.m_more [of json p c0 "kvs @ kvs1" a b c' d e v q] by simp
qed simp_all

lemma jmems_append:
  assumes "jmems d w" "jmems d v" shows "jmems d (w @ [C_COMMA] @ v)"
  unfolding jmems_def
proof (intro allI impI)
  fix pre post :: "byte list"
  assume p: "delimited post"
  let ?j = "pre @ (w @ [C_COMMA] @ v) @ post" and ?c = "length pre + length w"
  obtain kvs where kvs: "jmembers ?j (length pre) ?c kvs" "\<forall>kv\<in>set kvs. depth (snd kv) \<le> d"
    using assms(1) unfolding jmems_def by (metis append.assoc append_Cons append_Nil delimited_simps(1))
  have "\<exists>kvs. jmembers ((pre @ w @ [C_COMMA]) @ v @ post) (length (pre @ w @ [C_COMMA])) (length (pre @ w @ [C_COMMA]) + length v) kvs \<and>
      (\<forall>kv\<in>set kvs. depth (snd kv) \<le> d)"
    using assms(2) p unfolding jmems_def by blast
  then obtain kvs' where kvs': "jmembers ?j (?c + 1) (?c + 1 + length v) kvs'" "\<forall>kv\<in>set kvs'. depth (snd kv) \<le> d"
    by auto
  have c: "at_pos ?j ?c C_COMMA" using at_pos_here [of "pre @ w" C_COMMA "v @ post"] by simp
  from jmembers_append(3) [OF kvs(1) c kvs'(1) refl] kvs(2) kvs'(2)
  show "\<exists>kvs. jmembers ?j (length pre) (length pre + length (w @ [C_COMMA] @ v)) kvs \<and>
      (\<forall>kv\<in>set kvs. depth (snd kv) \<le> d)"
    by (intro exI [of _ "kvs @ kvs'"]) (auto simp: add.commute add.left_commute)
qed

lemma jclosed_object: assumes "jmems d w" shows "jclosed (Suc d) ([C_LBRACE] @ w @ [C_RBRACE])"
  unfolding jclosed_def
proof (intro allI)
  fix pre post :: "byte list"
  let ?j = "pre @ ([C_LBRACE] @ w @ [C_RBRACE]) @ post"
  let ?q = "length pre + 1 + length w"
  have "\<exists>kvs. jmembers ((pre @ [C_LBRACE]) @ w @ (C_RBRACE # post)) (length (pre @ [C_LBRACE]))
      (length (pre @ [C_LBRACE]) + length w) kvs \<and> (\<forall>kv\<in>set kvs. depth (snd kv) \<le> d)"
    using assms unfolding jmems_def by (metis delimited_simps(3))
  then obtain kvs where kvs: "jmembers ?j (length pre + 1) ?q kvs" "\<forall>kv\<in>set kvs. depth (snd kv) \<le> d" by auto
  have o: "at_pos ?j (length pre) C_LBRACE" by simp
  have c: "at_pos ?j ?q C_RBRACE" using at_pos_here [of "pre @ [C_LBRACE] @ w" C_RBRACE post] by simp
  from v_obj [OF o kvs(1) c] kvs(2)
  show "\<exists>t. jvalue ?j (length pre) (length pre + length ([C_LBRACE] @ w @ [C_RBRACE])) t \<and> depth t \<le> Suc d"
    by (intro exI [of _ "JObj (length pre) (?q + 1) kvs"]) (auto simp: add.commute add.left_commute fold_max_le)
qed

section \<open>Acceptance\<close>

text \<open>A closed text that is not too deep is accepted by the tokenizer as one value, in both modes.\<close>

lemma jclosed_accepted:
  assumes "jclosed d w" "d \<le> JSTOK_MAX_DEPTH"
  shows "\<exists>n p. jstok_parse strict jstok_init (Some w) None = (Inr n, p, None)"
proof -
  from assms obtain t where t: "jvalue w 0 (length w) t" "depth t \<le> JSTOK_MAX_DEPTH"
    unfolding jclosed_def by (metis append.left_neutral append.right_neutral le_trans list.size(3) plus_nat.add_0)
  have top: "jtop w 0 (length w) [t]"
    using top_more [OF top_none [OF ws_refl, of 0 w] t(1) ws_refl] by simp
  let ?arr = "fresh_toks (length (flats [t]))"
  have "\<exists>p. jstok_parse strict jstok_init (Some w) (Some ?arr) =
      (Inr (length (flats [t])), p, Some (flats [t] @ drop (length (flats [t])) ?arr))"
    by (rule jstok_parse_complete [OF top]) (use t in \<open>simp_all add: fresh_toks_def\<close>)
  then obtain pw toks where w: "jstok_parse strict jstok_init (Some w) (Some ?arr) = (Inr (length (flats [t])), pw, toks)"
    by blast
  obtain r pc tc where c: "jstok_parse strict jstok_init (Some w) None = (r, pc, tc)" by (metis prod_cases3)
  have "tc = None" "r = Inr (length (flats [t]))"
    using jstok_parse_agree [OF c w] c count_parse_None [OF c] by (auto split: if_splits)
  with c show ?thesis by blast
qed

end
