(* ===== verification/JsonBuildText.thy ===== *)
theory JsonBuildText
  imports JsonText
begin

text \<open>
  The texts the builders of \<open>JsonBuild\<close> write, as plain functions of their inputs, and the
  proof that the buffer code writes exactly them.
\<close>

section \<open>Escaping\<close>

lemma unat_hex_digit: "n < 16 \<Longrightarrow> unat (hex_digit n) = (if n < 10 then 48 + n else 87 + n)"
  by (simp add: hex_digit_def unat_of_nat8 del: of_nat_add)

lemma hexval_hex_digit: "n < 16 \<Longrightarrow> jstok_hexval (hex_digit n) = int n"
proof -
  assume n: "n < 16"
  note u = unat_hex_digit [OF n]
  show ?thesis
  proof (cases "n < 10")
    case True
    have "(0x30::byte) \<le> hex_digit n" "hex_digit n \<le> 0x39" using True u unfolding word_le_nat_alt by simp_all
    moreover from this(1) have "unat (hex_digit n - 0x30) = n" using True u by (simp add: unat_sub)
    ultimately show ?thesis by (simp add: jstok_hexval_def is_digit_def)
  next
    case False
    have "(0x61::byte) \<le> hex_digit n" "hex_digit n \<le> 0x66" "\<not> hex_digit n \<le> 0x39"
      using False n u unfolding word_le_nat_alt by simp_all
    moreover from this(1) have "unat (hex_digit n - 0x61) = n - 10" using False u by (simp add: unat_sub)
    ultimately show ?thesis using False by (simp add: jstok_hexval_def is_digit_def)
  qed
qed

lemma hex_digit_is_hex: "n < 16 \<Longrightarrow> jstok_is_hex (hex_digit n)"
  using jstok_hexval_iff [of "hex_digit n"] by (simp add: hexval_hex_digit)

lemma u_not_escape: "jstok_escape_char 0x75 = None" "\<not> jstok_simple_escape 0x75"
  by (simp_all add: jstok_escape_char_def jstok_simple_escape_def)

lemma jstok_is_hex_0: "jstok_is_hex C_0" "jstok_hexval C_0 = 0"
  by (simp_all add: jstok_is_hex_def is_digit_def jstok_hexval_def)

text \<open>One character: what it becomes is a unit of a JSON string and denotes it.\<close>

lemma json_escape_char_unit:
  "json_chars (json_escape_char c @ w) = json_chars w \<and> json_text (json_escape_char c @ w) = c # json_text w"
proof -
  consider (q) "c = C_QUOTE" | (b) "c = C_BSLASH" | (bs) "c = C_BS" | (ff) "c = C_FF" | (lf) "c = C_LF"
    | (cr) "c = C_CR" | (tab) "c = C_TAB"
    | (ctl) "c \<notin> {C_QUOTE, C_BSLASH, C_BS, C_FF, C_LF, C_CR, C_TAB}" "c < 0x20"
    | (plain) "c \<notin> {C_QUOTE, C_BSLASH, C_BS, C_FF, C_LF, C_CR, C_TAB}" "\<not> c < 0x20"
    by blast
  then show ?thesis
  proof cases
    case ctl
    let ?h = "hex_digit (unat c div 16)" and ?l = "hex_digit (unat c mod 16)"
    have e: "json_escape_char c = [C_BSLASH, 0x75, C_0, C_0, ?h, ?l]" using ctl by (simp add: json_escape_char_def)
    have lt: "unat c div 16 < 16" "unat c mod 16 < 16" "unat c < 32" using ctl(2) by (simp_all add: word_less_nat_alt)
    have "hex4 (C_0 # C_0 # ?h # ?l # w) = unat c"
      using hexval_hex_digit [OF lt(1)] hexval_hex_digit [OF lt(2)] by (simp add: hex4_def jstok_is_hex_0)
        (metis div_mult_mod_eq nat_int of_nat_add of_nat_mult of_nat_numeral)
    moreover have "jstok_utf8 (unat c) = [c]" using lt(3) by (simp add: jstok_utf8_def)
    ultimately show ?thesis
      unfolding e using hex_digit_is_hex [OF lt(1)] hex_digit_is_hex [OF lt(2)]
      by (simp add: u_not_escape jstok_is_hex_0 drop_Cons')
  next
    case plain
    then have e: "json_escape_char c = [c]" and le: "0x20 \<le> c" by (simp_all add: json_escape_char_def)
    show ?thesis unfolding e using plain le by simp
  qed (simp_all add: json_escape_char_def jstok_escape_char_def jstok_simple_escape_def)
qed

lemma json_escape_ok: "json_chars (json_escape s)" "json_text (json_escape s) = s"
  by (induction s) (simp_all add: json_escape_def json_escape_char_unit)

lemma jval_json_string: "jval d (json_string s)"
  using jval_string [OF json_escape_ok(1)] by (simp add: json_string_def)

section \<open>Writing into a growing buffer\<close>

definition wrote :: "growbuf \<Rightarrow> growbuf \<Rightarrow> byte list \<Rightarrow> bool" where
  "wrote b b' w \<longleftrightarrow> (\<exists>cs. b' = gb.puts b cs \<and> concat cs = w)"

lemma wrote_refl: "wrote b b []"
  unfolding wrote_def by (intro exI [of _ "[]"]) simp

lemma wrote_trans: "wrote b b1 v \<Longrightarrow> wrote b1 b2 w \<Longrightarrow> wrote b b2 (v @ w)"
  unfolding wrote_def by (metis concat_append gb.puts_simps(3))

lemma wrote_lit: "wrote b (append_lit b s) s"
  unfolding wrote_def append_lit_def by (intro exI [of _ "[s]"]) (simp add: growbuf_put_def)

lemma wrote_char: "wrote b (append_char b c) [c]"
  unfolding wrote_def append_char_def by (intro exI [of _ "[[c]]"]) (simp add: growbuf_put_def)

lemma wrote_escapes: "wrote b (foldl (\<lambda>b c. append_lit b (json_escape_char c)) b s) (json_escape s)"
proof (induction s rule: rev_induct)
  case Nil
  show ?case by (simp add: json_escape_def wrote_refl)
next
  case (snoc c s)
  from wrote_trans [OF snoc wrote_lit [of _ "json_escape_char c"]] show ?case by (simp add: json_escape_def)
qed

lemma wrote_json_string: "wrote b (append_json_string b s) (json_string s)"
  using wrote_trans [OF wrote_trans [OF wrote_char wrote_escapes] wrote_char]
  by (simp add: append_json_string_def json_string_def)

lemma wrote_lit_then: "wrote b b1 v \<Longrightarrow> wrote b (append_lit b1 s) (v @ s)"
  by (rule wrote_trans [OF _ wrote_lit])

lemma wrote_char_then: "wrote b b1 v \<Longrightarrow> wrote b (append_char b1 c) (v @ [c])"
  by (rule wrote_trans [OF _ wrote_char])

lemma wrote_string_then: "wrote b b1 v \<Longrightarrow> wrote b (append_json_string b1 s) (v @ json_string s)"
  by (rule wrote_trans [OF _ wrote_json_string])

lemma build_finish_text:
  assumes "build_finish b = Some body" "wrote (growbuf_init alloc n) b w"
  shows "body = w @ [C_RBRACE] @ [C_NUL]"
proof -
  have "wrote (growbuf_init alloc n) (append_char (append_char b C_RBRACE) C_NUL) (w @ [C_RBRACE] @ [C_NUL])"
    using wrote_char_then [OF wrote_char_then [OF assms(2)]] by simp
  then obtain cs where cs: "append_char (append_char b C_RBRACE) C_NUL = gb.puts (growbuf_init alloc n) cs"
    "concat cs = w @ [C_RBRACE] @ [C_NUL]" unfolding wrote_def by blast
  have "\<not> gb_nomem (gb.puts (growbuf_init alloc n) cs)" "body = gb_data (gb.puts (growbuf_init alloc n) cs)"
    using assms(1) unfolding build_finish_def Let_def cs(1) by (simp_all split: if_splits)
  with gb.puts_contents [of "growbuf_init alloc n" cs] cs(2) show ?thesis by (simp add: growbuf_init_def)
qed

section \<open>The texts\<close>

lemma commas_Cons: "commas (w # vs) = w @ concat (map (\<lambda>v. [C_COMMA] @ v) vs)"
  by (induction vs arbitrary: w) simp_all

definition content_text :: "llm_message \<Rightarrow> byte list" where
  "content_text m =
     (if \<not> sp_null (msg_content_json m) then sp_bytes (msg_content_json m)
      else if \<not> sp_null (msg_content m) then json_string (sp_bytes (msg_content m))
      else lit ''null'')"

definition message_members :: "llm_message \<Rightarrow> byte list list" where
  "message_members m =
     [member (lit ''role'') (json_string (role_str (msg_role m))), member (lit ''content'') (content_text m)] @
     (if msg_role m = LLM_ROLE_ASSISTANT \<and> \<not> sp_null (msg_tool_calls_json m) \<and> sp_len (msg_tool_calls_json m) > 0
      then [member (lit ''tool_calls'') (sp_bytes (msg_tool_calls_json m))] else []) @
     (if msg_role m = LLM_ROLE_TOOL \<and> \<not> sp_null (msg_tool_call_id m)
      then [member (lit ''tool_call_id'') (json_string (sp_bytes (msg_tool_call_id m)))] else []) @
     (if \<not> sp_null (msg_name m) then [member (lit ''name'') (json_string (sp_bytes (msg_name m)))] else [])"

definition message_text :: "llm_message \<Rightarrow> byte list" where
  "message_text m = [C_LBRACE] @ commas (message_members m) @ [C_RBRACE]"

text \<open>The members spliced in from a caller's string, if any.\<close>

definition params_members :: "byte list option \<Rightarrow> byte list list" where
  "params_members params =
     (case params of
        None \<Rightarrow> []
      | Some p \<Rightarrow>
          if length p > 2 \<and> p ! 0 = C_LBRACE \<and> p ! (length p - 1) = C_RBRACE then [take (length p - 2) (drop 1 p)]
          else if length p > 0 then [p] else [])"

definition stream_members :: "bool \<Rightarrow> bool \<Rightarrow> byte list list" where
  "stream_members stream include_usage =
     (if stream then
        [member (lit ''stream'') (lit ''true'')] @
        (if include_usage
         then [member (lit ''stream_options'') ([C_LBRACE] @ member (lit ''include_usage'') (lit ''true'') @ [C_RBRACE])]
         else [])
      else [])"

definition object_text :: "byte list list \<Rightarrow> byte list" where
  "object_text ms = [C_LBRACE] @ commas ms @ [C_RBRACE]"

definition chat_members ::
  "byte list \<Rightarrow> llm_message list \<Rightarrow> bool \<Rightarrow> bool \<Rightarrow> byte list option \<Rightarrow> byte list option \<Rightarrow> byte list option \<Rightarrow> byte list list" where
  "chat_members model messages stream include_usage params tooling response =
     [member (lit ''model'') (json_string model),
      member (lit ''messages'') ([C_LBRACK] @ commas (map message_text messages) @ [C_RBRACK])] @
     stream_members stream include_usage @ params_members params @ params_members tooling @
     (case response of None \<Rightarrow> []
      | Some r \<Rightarrow> [member (lit ''response_format'') (if r \<noteq> [] then r else lit ''null'')])"

definition completions_members :: "byte list \<Rightarrow> byte list \<Rightarrow> bool \<Rightarrow> bool \<Rightarrow> byte list option \<Rightarrow> byte list list" where
  "completions_members model prompt stream include_usage params =
     [member (lit ''model'') (json_string model), member (lit ''prompt'') (json_string prompt)] @
     stream_members stream include_usage @ params_members params"

definition embeddings_members :: "byte list \<Rightarrow> llm_embedding_input list \<Rightarrow> byte list option \<Rightarrow> byte list list" where
  "embeddings_members model inputs params =
     [member (lit ''model'') (json_string model),
      member (lit ''input'') ([C_LBRACK] @ commas (map (\<lambda>i. json_string (sp_bytes (ei_text i))) inputs) @ [C_RBRACK])] @
     params_members params"

section \<open>The builders write them\<close>

lemma key_lit_member: "key_lit k @ v = [C_COMMA] @ member (lit k) v"
  by (simp add: key_lit_def member_def)

definition more_text :: "byte list list \<Rightarrow> byte list" where
  "more_text ms = concat (map (\<lambda>m. [C_COMMA] @ m) ms)"

lemma more_text_simps [simp]:
  "more_text [] = []" "more_text (m # ms) = [C_COMMA] @ m @ more_text ms" "more_text (ms @ ms') = more_text ms @ more_text ms'"
  by (simp_all add: more_text_def)

lemma commas_more: "commas (w # vs) = w @ more_text vs"
  by (simp add: commas_Cons more_text_def)

lemma wrote_member_string:
  assumes "wrote b b1 v"
  shows "wrote b (append_json_string (append_lit b1 (key_lit k)) s) (v @ more_text [member (lit k) (json_string s)])"
  using wrote_string_then [OF wrote_lit_then [OF assms], of "key_lit k" s] key_lit_member [of k "json_string s"] by simp

lemma wrote_member_raw:
  assumes "wrote b b1 v"
  shows "wrote b (append_lit (append_lit b1 (key_lit k)) s) (v @ more_text [member (lit k) s])"
  using wrote_lit_then [OF wrote_lit_then [OF assms], of "key_lit k" s] key_lit_member [of k s] by simp

lemma wrote_opt_member:
  assumes "wrote b b1 (v @ more_text ms)"
  shows "wrote b (if c then append_lit (append_lit b1 (key_lit k)) s else b1)
      (v @ more_text (ms @ (if c then [member (lit k) s] else [])))"
    "wrote b (if c then append_json_string (append_lit b1 (key_lit k)) s else b1)
      (v @ more_text (ms @ (if c then [member (lit k) (json_string s)] else [])))"
  using assms wrote_member_raw [OF assms, of k s] wrote_member_string [OF assms, of k s]
  by (simp_all add: more_text_simps(3) del: more_text_simps(2))

lemma chat_content_wrote:
  assumes "chat_content alloc mp mb m b1 = Some b2" "wrote b b1 v"
  shows "wrote b b2 (v @ more_text [member (lit ''content'') (content_text m)])"
proof -
  have n: "wrote b (append_lit b1 (key_lit ''content'' @ lit ''null'')) (v @ more_text [member (lit ''content'') (lit ''null'')])"
    using wrote_lit_then [OF assms(2)] key_lit_member by simp
  show ?thesis
    using assms(1) n wrote_member_raw [OF assms(2), of "''content''" "sp_bytes (msg_content_json m)"]
      wrote_member_string [OF assms(2), of "''content''" "sp_bytes (msg_content m)"]
    unfolding chat_content_def content_text_def by (simp del: lit_Cons more_text_simps split: if_splits)
qed

lemma chat_message_wrote:
  assumes "chat_message alloc mp mb first m b = Some b'"
  shows "wrote b b' ((if first then [] else [C_COMMA]) @ message_text m)"
proof -
  let ?b0 = "if \<not> first then append_char b C_COMMA else b"
  let ?b1 = "append_json_string (append_lit ?b0 ([C_LBRACE, C_QUOTE] @ lit ''role'' @ [C_QUOTE, C_COLON])) (role_str (msg_role m))"
  let ?v0 = "if first then [] else [C_COMMA]"
  let ?r = "member (lit ''role'') (json_string (role_str (msg_role m)))"
  have w0: "wrote b ?b0 ?v0" using wrote_char [of b C_COMMA] wrote_refl [of b] by simp
  have w1: "wrote b ?b1 (?v0 @ [C_LBRACE] @ ?r)"
    using wrote_string_then [OF wrote_lit_then [OF w0], of "[C_LBRACE, C_QUOTE] @ lit ''role'' @ [C_QUOTE, C_COLON]"
        "role_str (msg_role m)"]
    by (simp add: member_def del: lit_Cons split del: if_split)
  obtain b2 where c: "chat_content alloc mp mb m ?b1 = Some b2"
    using assms unfolding chat_message_def Let_def by (auto simp del: lit_Cons split: option.splits)
  note w2 = chat_content_wrote [OF c w1]
  let ?tc = "msg_role m = LLM_ROLE_ASSISTANT \<and> \<not> sp_null (msg_tool_calls_json m) \<and> sp_len (msg_tool_calls_json m) > 0"
  let ?b3 = "if ?tc then append_lit (append_lit b2 (key_lit ''tool_calls'')) (sp_bytes (msg_tool_calls_json m)) else b2"
  let ?m3 = "if ?tc then [member (lit ''tool_calls'') (sp_bytes (msg_tool_calls_json m))] else []"
  have w3: "wrote b ?b3 ((?v0 @ [C_LBRACE] @ ?r) @ more_text ([member (lit ''content'') (content_text m)] @ ?m3))"
    by (rule wrote_opt_member(1) [OF w2])
  let ?ti = "msg_role m = LLM_ROLE_TOOL \<and> \<not> sp_null (msg_tool_call_id m)"
  let ?b4 = "if ?ti then append_json_string (append_lit ?b3 (key_lit ''tool_call_id'')) (sp_bytes (msg_tool_call_id m)) else ?b3"
  let ?m4 = "if ?ti then [member (lit ''tool_call_id'') (json_string (sp_bytes (msg_tool_call_id m)))] else []"
  have w4: "wrote b ?b4 ((?v0 @ [C_LBRACE] @ ?r) @ more_text ([member (lit ''content'') (content_text m)] @ ?m3 @ ?m4))"
    using wrote_opt_member(2) [OF w3] by (simp only: append_assoc)
  let ?b5 = "if \<not> sp_null (msg_name m) then append_json_string (append_lit ?b4 (key_lit ''name'')) (sp_bytes (msg_name m)) else ?b4"
  let ?m5 = "if \<not> sp_null (msg_name m) then [member (lit ''name'') (json_string (sp_bytes (msg_name m)))] else []"
  have w5: "wrote b ?b5 ((?v0 @ [C_LBRACE] @ ?r) @ more_text ([member (lit ''content'') (content_text m)] @ ?m3 @ ?m4 @ ?m5))"
    using wrote_opt_member(2) [OF w4] by (simp only: append_assoc)
  have b': "b' = append_char ?b5 C_RBRACE"
    using assms c unfolding chat_message_def Let_def by (simp del: lit_Cons)
  have t: "message_text m = ([C_LBRACE] @ ?r) @ more_text ([member (lit ''content'') (content_text m)] @ ?m3 @ ?m4 @ ?m5) @ [C_RBRACE]"
    unfolding message_text_def message_members_def by (simp add: commas_more del: lit_Cons)
  show ?thesis unfolding b' t using wrote_char_then [OF w5, of C_RBRACE] by (simp only: append_assoc)
qed

lemma chat_messages_wrote:
  assumes "chat_messages alloc mp mb first ms b = Some b'"
  shows "wrote b b' (if first then commas (map message_text ms) else more_text (map message_text ms))"
  using assms
proof (induction ms arbitrary: first b)
  case Nil
  then show ?case by (simp add: wrote_refl)
next
  case (Cons m ms)
  then obtain b1 where b1: "chat_message alloc mp mb first m b = Some b1" "chat_messages alloc mp mb False ms b1 = Some b'"
    by (auto split: option.splits)
  from wrote_trans [OF chat_message_wrote [OF b1(1)] Cons.IH [OF b1(2)]]
  show ?case by (cases first) (simp_all add: commas_more)
qed

lemma append_params_wrote:
  assumes "wrote b b1 v" shows "wrote b (append_params b1 params) (v @ more_text (params_members params))"
proof -
  have "wrote b (append_lit (append_char b1 C_COMMA) w) (v @ more_text [w])" for w
    using wrote_lit_then [OF wrote_char_then [OF assms]] by simp
  with assms show ?thesis by (simp add: append_params_def params_members_def split: option.split del: more_text_simps(2))
qed

lemma append_stream_wrote:
  assumes "wrote b b1 v"
  shows "wrote b (append_stream b1 stream include_usage) (v @ more_text (stream_members stream include_usage))"
proof (cases stream)
  case False
  with assms show ?thesis by (simp add: append_stream_def stream_members_def)
next
  case True
  let ?s = "member (lit ''stream'') (lit ''true'')"
  let ?o = "member (lit ''stream_options'') ([C_LBRACE] @ member (lit ''include_usage'') (lit ''true'') @ [C_RBRACE])"
  let ?b2 = "append_lit b1 (key_lit ''stream'' @ lit ''true'')"
  have w: "wrote b ?b2 (v @ more_text [?s])"
    using wrote_lit_then [OF assms, of "key_lit ''stream'' @ lit ''true''"] key_lit_member [of "''stream''" "lit ''true''"]
    by simp
  have "key_lit ''stream_options'' @ [C_LBRACE, C_QUOTE] @ lit ''include_usage'' @ [C_QUOTE, C_COLON] @ lit ''true}'' =
      [C_COMMA] @ ?o" by (simp add: key_lit_def member_def)
  with wrote_lit_then [OF w] have "wrote b (append_lit ?b2 (key_lit ''stream_options'' @ [C_LBRACE, C_QUOTE] @
      lit ''include_usage'' @ [C_QUOTE, C_COLON] @ lit ''true}'')) (v @ more_text [?s, ?o])"
    by (simp del: lit_Cons)
  with w True show ?thesis unfolding append_stream_def stream_members_def by (simp del: lit_Cons more_text_simps(2))
qed

text \<open>All bodies start with the model.\<close>

lemma wrote_model:
  "wrote b (append_json_string (append_lit b ([C_LBRACE, C_QUOTE] @ lit ''model'' @ [C_QUOTE, C_COLON])) model)
     ([C_LBRACE] @ member (lit ''model'') (json_string model))"
  using wrote_string_then [OF wrote_lit, of b "[C_LBRACE, C_QUOTE] @ lit ''model'' @ [C_QUOTE, C_COLON]" model]
  by (simp add: member_def)

lemma build_chat_request_text:
  assumes "build_chat_request balloc alloc model messages stream include_usage params tooling response mp mb = Some body"
  shows "body = object_text (chat_members model messages stream include_usage params tooling response) @ [C_NUL]"
proof -
  let ?b0 = "growbuf_init balloc 4096"
  let ?b1 = "append_json_string (append_lit ?b0 ([C_LBRACE, C_QUOTE] @ lit ''model'' @ [C_QUOTE, C_COLON])) model"
  let ?m = "member (lit ''model'') (json_string model)"
  let ?b2 = "append_lit ?b1 (key_lit ''messages'' @ [C_LBRACK])"
  obtain b3 where b3: "chat_messages alloc mp mb True messages ?b2 = Some b3"
    and f: "build_finish (case response of
              None \<Rightarrow> append_params (append_params (append_stream (append_char b3 C_RBRACK) stream include_usage) params) tooling
            | Some r \<Rightarrow> append_json_raw (append_lit (append_params (append_params
                (append_stream (append_char b3 C_RBRACK) stream include_usage) params) tooling) (key_lit ''response_format'')) r) = Some body"
    using assms unfolding build_chat_request_def Let_def by (auto simp del: lit_Cons split: option.splits)
  let ?ms = "member (lit ''messages'') ([C_LBRACK] @ commas (map message_text messages) @ [C_RBRACK])"
  have "wrote ?b0 (append_char b3 C_RBRACK)
      ((([C_LBRACE] @ ?m) @ (key_lit ''messages'' @ [C_LBRACK])) @ commas (map message_text messages) @ [C_RBRACK])"
    using wrote_char_then [OF wrote_trans [OF wrote_lit_then [OF wrote_model] chat_messages_wrote [OF b3]], of C_RBRACK]
    by (simp del: lit_Cons)
  then have w4: "wrote ?b0 (append_char b3 C_RBRACK) (([C_LBRACE] @ ?m) @ more_text [?ms])"
    using key_lit_member [of "''messages''" "[C_LBRACK] @ commas (map message_text messages) @ [C_RBRACK]"]
    by (simp del: lit_Cons)
  note w5 = append_params_wrote [OF append_params_wrote [OF append_stream_wrote [OF w4]]]
  have "wrote ?b0 (case response of
        None \<Rightarrow> append_params (append_params (append_stream (append_char b3 C_RBRACK) stream include_usage) params) tooling
      | Some r \<Rightarrow> append_json_raw (append_lit (append_params (append_params
          (append_stream (append_char b3 C_RBRACK) stream include_usage) params) tooling) (key_lit ''response_format'')) r)
      (([C_LBRACE] @ ?m) @ more_text (tl (chat_members model messages stream include_usage params tooling response)))"
  proof (cases response)
    case None
    with w5 [of stream include_usage params tooling] show ?thesis by (simp add: chat_members_def del: lit_Cons)
  next
    case (Some r)
    with wrote_member_raw [OF w5 [of stream include_usage params tooling], of "''response_format''" "if r \<noteq> [] then r else lit ''null''"]
    show ?thesis by (simp add: chat_members_def append_json_raw_def del: lit_Cons split: if_splits)
  qed
  from build_finish_text [OF f this] show ?thesis
    by (simp add: object_text_def chat_members_def commas_more del: lit_Cons)
qed

lemma build_completions_request_text:
  assumes "build_completions_request balloc model prompt stream include_usage params = Some body"
  shows "body = object_text (completions_members model prompt stream include_usage params) @ [C_NUL]"
proof -
  have "build_finish (append_params (append_stream (append_json_string (append_lit (append_json_string
      (append_lit (growbuf_init balloc 4096) ([C_LBRACE, C_QUOTE] @ lit ''model'' @ [C_QUOTE, C_COLON])) model)
      (key_lit ''prompt'')) prompt) stream include_usage) params) = Some body"
    using assms unfolding build_completions_request_def Let_def .
  from build_finish_text [OF this append_params_wrote [OF append_stream_wrote [OF wrote_member_string [OF wrote_model]]]]
  show ?thesis by (simp add: object_text_def completions_members_def commas_more del: lit_Cons)
qed

lemma embedding_inputs_wrote:
  "wrote b (embedding_inputs first is b) (let ts = map (\<lambda>i. json_string (sp_bytes (ei_text i))) is
     in if first then commas ts else more_text ts)"
proof (induction first "is" b rule: embedding_inputs.induct)
  case (1 first b)
  then show ?case by (simp add: wrote_refl)
next
  case (2 first i "is" b)
  let ?b = "append_json_string (if \<not> first then append_char b C_COMMA else b) (sp_bytes (ei_text i))"
  have "wrote b ?b ((if first then [] else [C_COMMA]) @ json_string (sp_bytes (ei_text i)))"
    using wrote_string_then [OF wrote_char] wrote_json_string by simp
  from wrote_trans [OF this 2] show ?case by (cases first) (simp_all add: commas_more Let_def)
qed

lemma build_embeddings_request_text:
  assumes "build_embeddings_request balloc (Some model) (Some inputs) n params mb mi = Some body"
  shows "body = object_text (embeddings_members model (take n inputs) params) @ [C_NUL]"
proof -
  let ?b2 = "append_lit (append_json_string (append_lit (growbuf_init balloc 4096)
      ([C_LBRACE, C_QUOTE] @ lit ''model'' @ [C_QUOTE, C_COLON])) model) (key_lit ''input'' @ [C_LBRACK])"
  have f: "build_finish (append_params (append_char (embedding_inputs True (take n inputs) ?b2) C_RBRACK) params) = Some body"
    using assms unfolding build_embeddings_request_def Let_def by (simp del: lit_Cons split: if_splits)
  let ?ts = "map (\<lambda>i. json_string (sp_bytes (ei_text i))) (take n inputs)"
  let ?m = "member (lit ''input'') ([C_LBRACK] @ commas ?ts @ [C_RBRACK])"
  have wm: "wrote (growbuf_init balloc 4096) ?b2
      (([C_LBRACE] @ member (lit ''model'') (json_string model)) @ (key_lit ''input'' @ [C_LBRACK]))"
    by (rule wrote_lit_then [OF wrote_model])
  have "wrote (growbuf_init balloc 4096) (append_char (embedding_inputs True (take n inputs) ?b2) C_RBRACK)
      ((([C_LBRACE] @ member (lit ''model'') (json_string model)) @ (key_lit ''input'' @ [C_LBRACK])) @ commas ?ts @ [C_RBRACK])"
    using wrote_char_then [OF wrote_trans [OF wm embedding_inputs_wrote [of ?b2 True "take n inputs"]], where c = C_RBRACK]
    by (simp add: Let_def del: lit_Cons)
  then have "wrote (growbuf_init balloc 4096) (append_char (embedding_inputs True (take n inputs) ?b2) C_RBRACK)
      (([C_LBRACE] @ member (lit ''model'') (json_string model)) @ more_text [?m])"
    using key_lit_member [of "''input''" "[C_LBRACK] @ commas ?ts @ [C_RBRACK]"] by (simp del: lit_Cons)
  from build_finish_text [OF f append_params_wrote [OF this]]
  show ?thesis by (simp add: object_text_def embeddings_members_def commas_more del: lit_Cons)
qed

section \<open>They are JSON\<close>

lemma json_chars_plain: "list_all (\<lambda>c. c \<ge> 0x20 \<and> c \<noteq> C_QUOTE \<and> c \<noteq> C_BSLASH) s \<Longrightarrow> json_chars s"
  by (induction s) auto

lemma jmems_commas: "ms \<noteq> [] \<Longrightarrow> \<forall>m\<in>set ms. jmems d m \<Longrightarrow> jmems d (commas ms)"
proof (induction ms rule: rev_induct)
  case (snoc m ms)
  show ?case
  proof (cases "ms = []")
    case True
    with snoc show ?thesis by simp
  next
    case False
    with snoc have "jmems d (commas ms @ [C_COMMA] @ m)" by (intro jmems_append) auto
    then show ?thesis by (simp only: commas_snoc [OF False])
  qed
qed simp

lemma jclosed_object_text: "ms \<noteq> [] \<Longrightarrow> \<forall>m\<in>set ms. jmems d m \<Longrightarrow> jclosed (Suc d) (object_text ms)"
  unfolding object_text_def by (intro jclosed_object jmems_commas)

definition key_ok :: "string \<Rightarrow> bool" where
  "key_ok k \<longleftrightarrow> json_chars (lit k)"

lemma key_ok_all:
  "key_ok ''role''" "key_ok ''content''" "key_ok ''tool_calls''" "key_ok ''tool_call_id''" "key_ok ''name''"
  "key_ok ''model''" "key_ok ''messages''" "key_ok ''prompt''" "key_ok ''input''" "key_ok ''stream''"
  "key_ok ''stream_options''" "key_ok ''include_usage''" "key_ok ''response_format''" "key_ok ''id''"
  "key_ok ''type''" "key_ok ''function''" "key_ok ''arguments''" "key_ok ''temperature''" "key_ok ''top_p''"
  "key_ok ''max_tokens''" "key_ok ''stop''" "key_ok ''frequency_penalty''" "key_ok ''presence_penalty''" "key_ok ''seed''"
  by code_simp+

lemma jmems_key: "key_ok k \<Longrightarrow> jval d v \<Longrightarrow> jmems d (member (lit k) v)"
  unfolding key_ok_def by (rule jmems_one)

text \<open>What the caller's raw JSON must be: values of bounded depth, members of an object.\<close>

definition message_ok :: "nat \<Rightarrow> llm_message \<Rightarrow> bool" where
  "message_ok d m \<longleftrightarrow> (\<not> sp_null (msg_content_json m) \<longrightarrow> jval d (sp_bytes (msg_content_json m))) \<and>
     (\<not> sp_null (msg_tool_calls_json m) \<longrightarrow> jval d (sp_bytes (msg_tool_calls_json m)))"

definition params_ok :: "nat \<Rightarrow> byte list option \<Rightarrow> bool" where
  "params_ok d params \<longleftrightarrow> (\<forall>w\<in>set (params_members params). jmems d w)"

lemma literal_jval: "jval d (lit ''true'')" "jval d (lit ''null'')"
  by (rule jval_literal; simp add: json_literal_def)+

lemma message_text_jval:
  assumes "message_ok d m" shows "jval (Suc d) (message_text m)"
proof -
  have "jval d (content_text m)"
    using assms jval_json_string literal_jval unfolding content_text_def message_ok_def by (simp del: lit_Cons)
  then have "\<forall>w\<in>set (message_members m). jmems d w"
    using assms jval_json_string unfolding message_members_def message_ok_def
    by (auto simp del: lit_Cons intro!: jmems_key key_ok_all)
  moreover have "message_members m \<noteq> []" by (simp add: message_members_def)
  ultimately show ?thesis
    unfolding message_text_def by (intro jclosed_val jclosed_object jmems_commas)
qed

lemma stream_members_jmems: "\<forall>w\<in>set (stream_members stream include_usage). jmems (Suc d) w"
proof -
  have "jval (Suc d) ([C_LBRACE] @ member (lit ''include_usage'') (lit ''true'') @ [C_RBRACE])"
    by (rule jclosed_val [OF jclosed_object [OF jmems_key [OF key_ok_all(12) literal_jval(1)]]])
  then show ?thesis
    using jmems_key [OF key_ok_all(10) literal_jval(1)] jmems_key [OF key_ok_all(11)]
    unfolding stream_members_def by (auto simp del: lit_Cons)
qed

lemma chat_members_jmems:
  assumes "\<forall>m\<in>set messages. message_ok d m" "params_ok (d + 2) params" "params_ok (d + 2) tooling"
    "\<forall>r. response = Some r \<longrightarrow> r \<noteq> [] \<longrightarrow> jval (d + 2) r"
  shows "\<forall>w\<in>set (chat_members model messages stream include_usage params tooling response). jmems (d + 2) w"
proof -
  have "\<forall>w\<in>set (map message_text messages). jval (Suc d) w" using assms(1) message_text_jval by auto
  from jclosed_val [OF jclosed_list [OF this]]
  have ms: "jmems (d + 2) (member (lit ''messages'') ([C_LBRACK] @ commas (map message_text messages) @ [C_RBRACK]))"
    by (intro jmems_key key_ok_all) (simp del: lit_Cons)
  have md: "jmems (d + 2) (member (lit ''model'') (json_string model))" by (intro jmems_key key_ok_all jval_json_string)
  have r: "jmems (d + 2) (member (lit ''response_format'') (if r \<noteq> [] then r else lit ''null''))" if "response = Some r" for r
    using that assms(4) literal_jval(2) by (intro jmems_key key_ok_all) (simp del: lit_Cons)
  show ?thesis
    using ms md r assms(2,3) stream_members_jmems [of stream include_usage "d + 1"]
    unfolding chat_members_def params_ok_def by (auto simp del: lit_Cons split: option.splits)
qed

end
