(* ===== verification/JsonBuildProps.thy ===== *)
theory JsonBuildProps
  imports JsonBuildText
begin

text \<open>
  Properties of the request builders: the escaping round trip, the fixed-buffer writers
  write exactly their text or fail, and every body is one JSON object that the tokenizer
  accepts, provided the JSON fragments the caller hands in are JSON.
\<close>

section \<open>Round trip of strings\<close>

text \<open>
  C17: a string written by \<open>append_json_string\<close> is a JSON string, and unescaping its token
  gives the original bytes back, whatever they are, if the output holds that many.
\<close>

theorem json_string_roundtrip:
  "json_chars (json_escape s) \<and>
   (\<forall>b. \<exists>cs. append_json_string b s = gb.puts b cs \<and> concat cs = json_string s) \<and>
   jstok_unescape (json_string s) (jtok JSTOK_STRING 1 (length (json_string s) - 1) 0) cap =
     (if length s \<le> cap then Some s else None)"
proof -
  have "jstok_span (json_string s) (jtok JSTOK_STRING 1 (length (json_string s) - 1) 0) = Some (json_escape s)"
    using slice_here [of "[C_QUOTE]" "json_escape s" "[C_QUOTE]"] by (simp add: jstok_span_jtok json_string_def)
  with unescape_text [OF json_escape_ok(1) [of s], of "[]" cap] json_escape_ok wrote_json_string [of _ s]
  show ?thesis by (simp add: jstok_unescape_def jtok_def wrote_def)
qed

section \<open>Writers over a caller's buffer\<close>

text \<open>A step that appends exactly \<open>w\<close> if it fits, and fails if it does not.\<close>

definition fwrites :: "fstep \<Rightarrow> byte list \<Rightarrow> bool" where
  "fwrites f w \<longleftrightarrow> (\<forall>b. \<not> fb_overflow b \<longrightarrow> length (fb_data b) \<le> fb_cap b \<longrightarrow>
     (if length (fb_data b) + length w \<le> fb_cap b then f b = (True, b\<lparr>fb_data := fb_data b @ w\<rparr>)
      else fst (f b) = False))"

lemma fwritesD:
  assumes "fwrites f w" "\<not> fb_overflow b" "length (fb_data b) \<le> fb_cap b"
  shows "length (fb_data b) + length w \<le> fb_cap b \<Longrightarrow> f b = (True, b\<lparr>fb_data := fb_data b @ w\<rparr>)"
    "\<not> length (fb_data b) + length w \<le> fb_cap b \<Longrightarrow> fst (f b) = False"
  using assms unfolding fwrites_def by metis+

lemma fwrites_append: "fwrites (\<lambda>b. fixedbuf_append b w) w"
  unfolding fwrites_def by (simp add: fixedbuf_append_eq)

lemma fwrites_basic [intro]:
  "fwrites (fixedbuf_append_char c) [c]" "fwrites (fixedbuf_append_lit w) w"
  using fwrites_append unfolding fixedbuf_append_char_def [abs_def] fixedbuf_append_lit_def [abs_def] by auto

lemma fwrites_seq:
  assumes "fwrites f v" "fwrites g w"
  shows "fwrites (\<lambda>b. case f b of (r, b1) \<Rightarrow> if r then g b1 else (False, b1)) (v @ w)"
  unfolding fwrites_def
proof (intro allI impI)
  fix b :: fixedbuf
  assume b: "\<not> fb_overflow b" "length (fb_data b) \<le> fb_cap b"
  show "if length (fb_data b) + length (v @ w) \<le> fb_cap b
    then (case f b of (r, b1) \<Rightarrow> if r then g b1 else (False, b1)) = (True, b\<lparr>fb_data := fb_data b @ v @ w\<rparr>)
    else fst (case f b of (r, b1) \<Rightarrow> if r then g b1 else (False, b1)) = False"
  proof (cases "length (fb_data b) + length v \<le> fb_cap b")
    case True
    let ?b1 = "b\<lparr>fb_data := fb_data b @ v\<rparr>"
    have f: "f b = (True, ?b1)" by (rule fwritesD(1) [OF assms(1) b True])
    have b1: "\<not> fb_overflow ?b1" "length (fb_data ?b1) \<le> fb_cap ?b1" using b True by simp_all
    show ?thesis using f fwritesD [OF assms(2) b1] by (simp add: add.assoc)
  next
    case False
    then have "fst (f b) = False" by (rule fwritesD(2) [OF assms(1) b])
    with False show ?thesis by (simp add: case_prod_unfold)
  qed
qed

lemma fwrites_all:
  "list_all2 fwrites fs ws' \<Longrightarrow> fwrites (fb_all fs) (concat ws')"
proof (induction fs ws' rule: list_all2_induct)
  case Nil
  show ?case unfolding fwrites_def by simp
next
  case (Cons f fs w ws')
  from fwrites_seq [OF Cons(1,3)] show ?case by simp
qed

lemma fwrites_all_map: "\<forall>x\<in>set xs. fwrites (f x) (g x) \<Longrightarrow> list_all2 fwrites (map f xs) (map g xs)"
  by (induction xs) auto

lemma fwrites_json_string: "fwrites (fixedbuf_append_json_string s) (json_string s)"
proof -
  have "list_all2 fwrites ([fixedbuf_append_char C_QUOTE] @ map (\<lambda>c. fixedbuf_append_lit (json_escape_char c)) s @
      [fixedbuf_append_char C_QUOTE]) ([[C_QUOTE]] @ map json_escape_char s @ [[C_QUOTE]])"
    by (intro list_all2_appendI fwrites_all_map) auto
  from fwrites_all [OF this] show ?thesis
    by (simp add: fixedbuf_append_json_string_def json_string_def json_escape_def)
qed

lemma fwrites_key: "fwrites (fixedbuf_append_key k first) ((if first then [] else [C_COMMA]) @ [C_QUOTE] @ k @ [C_QUOTE, C_COLON])"
proof -
  let ?p = "if \<not> first then [fixedbuf_append_char C_COMMA] else []" and ?q = "if \<not> first then [[C_COMMA]] else []"
  have "list_all2 fwrites (?p @ [fixedbuf_append_char C_QUOTE, fixedbuf_append_lit k, fixedbuf_append_lit [C_QUOTE, C_COLON]])
      (?q @ [[C_QUOTE], k, [C_QUOTE, C_COLON]])"
    by (intro list_all2_appendI) auto
  from fwrites_all [OF this] show ?thesis by (simp add: fixedbuf_append_key_def split: if_splits)
qed

lemma fwrites_commas:
  assumes "list_all2 fwrites fs ws'"
  shows "fwrites (fb_commas first fs) (if first then commas ws' else more_text ws')"
  using assms
proof (induction fs ws' arbitrary: first rule: list_all2_induct)
  case Nil
  show ?case unfolding fwrites_def by simp
next
  case (Cons f fs w ws')
  let ?p = "if \<not> first then [fixedbuf_append_char C_COMMA] else []" and ?q = "if \<not> first then [[C_COMMA]] else []"
  have "list_all2 fwrites (?p @ [f]) (?q @ [w])" using Cons(1) by auto
  from fwrites_seq [OF fwrites_all [OF this] Cons(3) [of False]]
  show ?case by (cases first) (simp_all add: commas_more)
qed

lemma fwrites_string_array: "fwrites (fixedbuf_append_string_array items) ([C_LBRACK] @ commas (map json_string items) @ [C_RBRACK])"
proof -
  have "fwrites (fb_commas True (map fixedbuf_append_json_string items)) (commas (map json_string items))"
    using fwrites_commas [OF fwrites_all_map, of items fixedbuf_append_json_string json_string True] fwrites_json_string by simp
  then have "list_all2 fwrites [fixedbuf_append_char C_LBRACK, fb_commas True (map fixedbuf_append_json_string items),
      fixedbuf_append_char C_RBRACK] [[C_LBRACK], commas (map json_string items), [C_RBRACK]]" by auto
  from fwrites_all [OF this] show ?thesis by (simp add: fixedbuf_append_string_array_def)
qed

lemma dec_length: "n < 10 ^ k \<Longrightarrow> 0 < k \<Longrightarrow> length (dec n) \<le> k"
proof (induction k arbitrary: n)
  case (Suc k)
  show ?case
  proof (cases "n < 10")
    case True
    then show ?thesis by (simp add: dec.simps [of n])
  next
    case False
    then have "k \<noteq> 0" using Suc(2) by (cases k) auto
    moreover have "n div 10 < 10 ^ k" using Suc(2) by (simp add: less_mult_imp_div_less mult.commute)
    ultimately have "length (dec (n div 10)) \<le> k" using Suc(1) by simp
    with False show ?thesis by (simp add: dec.simps [of n])
  qed
qed simp

lemma fwrites_int64: "\<bar>v\<bar> < 10 ^ 20 \<Longrightarrow> fwrites (fixedbuf_append_int64 v) (fmt_int v)"
proof -
  assume "\<bar>v\<bar> < 10 ^ 20"
  then have "nat \<bar>v\<bar> < 10 ^ 20" by (simp add: nat_less_iff)
  from dec_length [OF this] have "length (dec (nat \<bar>v\<bar>)) \<le> 20" by simp
  then have "length (fmt_int v) < 32" "fmt_int v \<noteq> []" using dec_digits by (auto simp: fmt_int_def)
  with fwrites_append show ?thesis unfolding fixedbuf_append_int64_def [abs_def] Let_def by (simp add: not_le)
qed

section \<open>Tool calls\<close>

definition tool_call_text :: "llm_tool_call_build \<Rightarrow> byte list" where
  "tool_call_text tc = object_text
     ((if \<not> sp_null (tb_id tc) then [member (lit ''id'') (json_string (sp_bytes (tb_id tc)))] else []) @
      [member (lit ''type'') (json_string (lit ''function'')),
       member (lit ''function'') (object_text
         [member (lit ''name'') (json_string (sp_bytes (tb_name tc))),
          member (lit ''arguments'') (json_string (sp_bytes (tb_arguments_json tc)))])])"

definition tool_calls_text :: "llm_tool_call_build list \<Rightarrow> byte list" where
  "tool_calls_text tcs = [C_LBRACK] @ commas (map tool_call_text tcs) @ [C_RBRACK]"

lemma fwrites_tool_call: "fwrites (tool_call_write first tc) ((if first then [] else [C_COMMA]) @ tool_call_text tc)"
proof -
  let ?p = "if \<not> first then [fixedbuf_append_char C_COMMA] else []" and ?q = "if \<not> first then [[C_COMMA]] else []"
  let ?i = "if \<not> sp_null (tb_id tc)
    then [fixedbuf_append_lit ([C_QUOTE] @ lit ''id'' @ [C_QUOTE, C_COLON]),
          fixedbuf_append_json_string (sp_bytes (tb_id tc)), fixedbuf_append_char C_COMMA] else []"
  let ?j = "if \<not> sp_null (tb_id tc)
    then [[C_QUOTE] @ lit ''id'' @ [C_QUOTE, C_COLON], json_string (sp_bytes (tb_id tc)), [C_COMMA]] else []"
  let ?t = "[C_QUOTE] @ lit ''type'' @ [C_QUOTE, C_COLON, C_QUOTE] @ lit ''function'' @
          [C_QUOTE, C_COMMA, C_QUOTE] @ lit ''function'' @ [C_QUOTE, C_COLON, C_LBRACE]"
  let ?n = "[C_QUOTE] @ lit ''name'' @ [C_QUOTE, C_COLON]" and ?a = "[C_COMMA, C_QUOTE] @ lit ''arguments'' @ [C_QUOTE, C_COLON]"
  have "list_all2 fwrites (?p @ [fixedbuf_append_char C_LBRACE] @ ?i @
      [fixedbuf_append_lit ?t, fixedbuf_append_lit ?n, fixedbuf_append_json_string (sp_bytes (tb_name tc)),
       fixedbuf_append_lit ?a, fixedbuf_append_json_string (sp_bytes (tb_arguments_json tc)),
       fixedbuf_append_lit [C_RBRACE, C_RBRACE]])
     (?q @ [[C_LBRACE]] @ ?j @ [?t, ?n, json_string (sp_bytes (tb_name tc)), ?a,
       json_string (sp_bytes (tb_arguments_json tc)), [C_RBRACE, C_RBRACE]])"
    using fwrites_json_string by (intro list_all2_appendI) (auto simp del: lit_Cons)
  from fwrites_all [OF this]
  have w: "fwrites (tool_call_write first tc) (concat (?q @ [[C_LBRACE]] @ ?j @ [?t, ?n, json_string (sp_bytes (tb_name tc)), ?a,
       json_string (sp_bytes (tb_arguments_json tc)), [C_RBRACE, C_RBRACE]]))"
    unfolding tool_call_write_def .
  have f: "json_string (lit ''function'') = [C_QUOTE] @ lit ''function'' @ [C_QUOTE]" by code_simp
  have "concat (?q @ [[C_LBRACE]] @ ?j @ [?t, ?n, json_string (sp_bytes (tb_name tc)), ?a,
       json_string (sp_bytes (tb_arguments_json tc)), [C_RBRACE, C_RBRACE]]) =
     (if first then [] else [C_COMMA]) @ tool_call_text tc"
    unfolding tool_call_text_def object_text_def member_def f by (simp del: lit_Cons)
  with w show ?thesis by metis
qed

lemma fwrites_tool_calls_loop:
  assumes "\<forall>tc\<in>set tcs. tool_call_valid m tc"
  shows "fwrites (tool_calls_loop m first tcs) (if first then commas (map tool_call_text tcs) else more_text (map tool_call_text tcs))"
  using assms
proof (induction tcs arbitrary: first)
  case Nil
  show ?case unfolding fwrites_def by simp
next
  case (Cons tc tcs)
  then have t: "fwrites (tool_calls_loop m False tcs) (more_text (map tool_call_text tcs))" "tool_call_valid m tc"
    using Cons.IH [of False] by simp_all
  have e: "tool_calls_loop m first (tc # tcs) =
      (\<lambda>b. case tool_call_write first tc b of (r, b1) \<Rightarrow> if r then tool_calls_loop m False tcs b1 else (False, b1))"
    using t(2) by (auto simp: fun_eq_iff)
  from fwrites_seq [OF fwrites_tool_call t(1), of first tc]
  show ?case unfolding e by (cases first) (simp_all add: commas_more)
qed

lemma tool_calls_loop_invalid:
  "\<not> (\<forall>tc\<in>set tcs. tool_call_valid m tc) \<Longrightarrow> fst (tool_calls_loop m first tcs b) = False"
  by (induction tcs arbitrary: first b) (auto split: prod.splits)

lemma tool_calls_text_closed: "jclosed 3 (tool_calls_text tcs)"
proof -
  have f: "jval 1 (object_text [member (lit ''name'') (json_string n), member (lit ''arguments'') (json_string a)])" for n a
    using jclosed_val [OF jclosed_object_text, of "[member (lit ''name'') (json_string n), member (lit ''arguments'') (json_string a)]" 0]
      jmems_key [OF key_ok_all(5) jval_json_string] jmems_key [OF key_ok_all(17) jval_json_string]
    by (simp del: lit_Cons)
  have "jval 2 (tool_call_text tc)" for tc
    using jclosed_val [OF jclosed_object_text, of _ 1] jmems_key [OF key_ok_all(14) jval_json_string, of 1]
      jmems_key [OF key_ok_all(15) jval_json_string, of 1] jmems_key [OF key_ok_all(16) f]
    unfolding tool_call_text_def by (simp add: numeral_2_eq_2 del: lit_Cons)
  then have "\<forall>w\<in>set (map tool_call_text tcs). jval 2 w" by simp
  from jclosed_list [OF this] show ?thesis by (simp add: tool_calls_text_def)
qed

text \<open>
  C18: \<open>llm_tool_calls_json_write\<close> succeeds exactly when every call is well-formed, within the
  argument limit, and the text fits the buffer; it then writes the JSON array of the calls,
  which the tokenizer accepts as one value.
\<close>

theorem tool_calls_write_exact:
  "llm_tool_calls_json_write (Some calls) (length calls) out_cap max_args =
     (if list_all (tool_call_valid max_args) calls \<and> length (tool_calls_text calls) \<le> out_cap
      then Some (tool_calls_text calls) else None) \<and>
   (\<exists>n p. jstok_parse True jstok_init (Some (tool_calls_text calls)) None = (Inr n, p, None))"
proof
  show "\<exists>n p. jstok_parse True jstok_init (Some (tool_calls_text calls)) None = (Inr n, p, None)"
    by (rule jclosed_accepted [OF tool_calls_text_closed]) (simp add: JSTOK_MAX_DEPTH_def)
  let ?steps = "[fixedbuf_append_char C_LBRACK, tool_calls_loop max_args True calls, fixedbuf_append_char C_RBRACK]"
  have w: "llm_tool_calls_json_write (Some calls) (length calls) out_cap max_args =
      (if out_cap = 0 then None
       else case fb_all ?steps (fixedbuf_init out_cap) of
         (r, b) \<Rightarrow> if \<not> r then None else if fb_overflow b then None else Some (fb_data b))"
    by (simp add: llm_tool_calls_json_write_def)
  have i: "\<not> fb_overflow (fixedbuf_init out_cap)" "length (fb_data (fixedbuf_init out_cap)) \<le> fb_cap (fixedbuf_init out_cap)"
    by (simp_all add: fixedbuf_init_def)
  show "llm_tool_calls_json_write (Some calls) (length calls) out_cap max_args =
     (if list_all (tool_call_valid max_args) calls \<and> length (tool_calls_text calls) \<le> out_cap
      then Some (tool_calls_text calls) else None)"
  proof (cases "\<forall>tc\<in>set calls. tool_call_valid max_args tc")
    case True
    have "list_all2 fwrites ?steps [[C_LBRACK], commas (map tool_call_text calls), [C_RBRACK]]"
      using fwrites_tool_calls_loop [OF True, of True] by auto
    from fwrites_all [OF this] have f: "fwrites (fb_all ?steps) (tool_calls_text calls)" by (simp add: tool_calls_text_def)
    have "0 < length (tool_calls_text calls)" by (simp add: tool_calls_text_def)
    moreover have "list_all (tool_call_valid max_args) calls" using True by (simp add: list_all_iff)
    ultimately show ?thesis using fwritesD [OF f i]
      unfolding w by (auto simp: fixedbuf_init_def case_prod_unfold simp del: fb_all.simps)
  next
    case False
    have "fst (fb_all ?steps (fixedbuf_init out_cap)) = False"
      using tool_calls_loop_invalid [OF False] by (auto split: prod.splits) (metis fst_conv)+
    with False show ?thesis unfolding w by (simp add: case_prod_unfold list_all_iff del: fb_all.simps)
  qed
qed

section \<open>Request options\<close>

definition opts_values :: "('d \<Rightarrow> byte list) \<Rightarrow> 'd llm_request_opts \<Rightarrow> (byte list \<times> byte list) list" where
  "opts_values fmt opts =
     (case ro_temperature opts of None \<Rightarrow> [] | Some d \<Rightarrow> [(lit ''temperature'', fmt d)]) @
     (case ro_top_p opts of None \<Rightarrow> [] | Some d \<Rightarrow> [(lit ''top_p'', fmt d)]) @
     (case ro_max_tokens opts of None \<Rightarrow> [] | Some n \<Rightarrow> [(lit ''max_tokens'', fmt_int n)]) @
     (if ro_stop_count opts > 0
      then [(lit ''stop'', [C_LBRACK] @
               commas (map json_string (map the (take (ro_stop_count opts) (the (ro_stop_list opts))))) @ [C_RBRACK])]
      else if \<not> sp_null (ro_stop opts) then [(lit ''stop'', json_string (sp_bytes (ro_stop opts)))]
      else []) @
     (case ro_frequency_penalty opts of None \<Rightarrow> [] | Some d \<Rightarrow> [(lit ''frequency_penalty'', fmt d)]) @
     (case ro_presence_penalty opts of None \<Rightarrow> [] | Some d \<Rightarrow> [(lit ''presence_penalty'', fmt d)]) @
     (case ro_seed opts of None \<Rightarrow> [] | Some n \<Rightarrow> [(lit ''seed'', fmt_int n)])"

definition opts_members :: "('d \<Rightarrow> byte list) \<Rightarrow> 'd llm_request_opts \<Rightarrow> byte list list" where
  "opts_members fmt opts = map (\<lambda>(k, v). member k v) (opts_values fmt opts)"

text \<open>
  What is assumed of formatting: a finite double becomes a JSON number of less than 64
  characters, as \<open>%.17g\<close> does. An \<open>int64_t\<close> is within its range.
\<close>

definition fmt_ok :: "('d \<Rightarrow> byte list) \<Rightarrow> ('d \<Rightarrow> bool) \<Rightarrow> bool" where
  "fmt_ok fmt finite_d \<longleftrightarrow> (\<forall>d. finite_d d \<longrightarrow> json_number (fmt d) \<and> length (fmt d) < 64)"

definition int64 :: "int option \<Rightarrow> bool" where
  "int64 n \<longleftrightarrow> (case n of None \<Rightarrow> True | Some v \<Rightarrow> - (2 ^ 63) \<le> v \<and> v < 2 ^ 63)"

lemma int64_small: "int64 (Some v) \<Longrightarrow> \<bar>v\<bar> < 10 ^ 20"
  by (simp add: int64_def abs_less_iff)

lemma fwrites_double:
  assumes "fmt_ok fmt finite_d" "finite_d d" shows "fwrites (fixedbuf_append_double fmt d) (fmt d)"
proof -
  have "fmt d \<noteq> []" "length (fmt d) < 64" using assms json_number_hd [of "fmt d"] by (auto simp: fmt_ok_def)
  with fwrites_append show ?thesis unfolding fixedbuf_append_double_def [abs_def] Let_def by (simp add: not_le)
qed

lemma dec_number: "json_int (dec n)"
proof (induction n rule: dec.induct)
  case (1 n)
  show ?case
  proof (cases "n < 10")
    case True
    show ?thesis
    proof (cases "n = 0")
      case True
      then show ?thesis by (simp add: dec.simps [of 0] json_int_def)
    next
      case nz: False
      have "dec n = [of_nat (48 + n)]" using True by (simp add: dec.simps [of n])
      with nz True unat_dec_digit [OF True] show ?thesis
        by (simp add: json_int_def word_le_nat_alt del: of_nat_add)
    qed
  next
    case False
    have d: "is_digit (of_nat (48 + n mod 10))" using digit_of_nat [of "n mod 10"] by simp
    have nz: "dec (n div 10) \<noteq> [C_0]"
    proof
      assume "dec (n div 10) = [C_0]"
      then have "dec_val [C_0] = n div 10" using dec_val_dec [of "n div 10"] by simp
      with False show False by (simp add: dec_val_def digit_val_def)
    qed
    have "dec n = dec (n div 10) @ [of_nat (48 + n mod 10)]" using False by (simp add: dec.simps [of n])
    with 1 [OF False] nz d show ?thesis by (auto simp: json_int_def simp del: of_nat_add)
  qed
qed

lemma fmt_int_number: "json_number (fmt_int v)"
  unfolding json_number_def fmt_int_def using dec_number
  by (intro exI [of _ "if v < 0 then [C_MINUS] else []"] exI [of _ "dec (nat \<bar>v\<bar>)"] exI [of _ "[]"])
    (simp add: json_frac_def json_exp_def)

lemma opts_fields_write:
  assumes "fmt_ok fmt finite_d" "opts_doubles_ok finite_d opts" "int64 (ro_max_tokens opts)" "int64 (ro_seed opts)"
  shows "list_all2 (\<lambda>(k, f) (k', v). k = k' \<and> fwrites f v) (opts_fields fmt opts) (opts_values fmt opts)"
proof -
  note d = fwrites_double [OF assms(1)] and i = fwrites_int64 [OF int64_small]
  show ?thesis
    unfolding opts_fields_def opts_values_def
    using assms(2-4) d i fwrites_string_array fwrites_json_string
    by (intro list_all2_appendI) (auto simp: opts_doubles_ok_def simp del: lit_Cons map_map split: option.splits)
qed

lemma opts_write_fields_writes:
  assumes "list_all2 (\<lambda>(k, f) (k', v). k = k' \<and> fwrites f v) fs vs"
  shows "fwrites (opts_write_fields any fs)
    (if any then more_text (map (\<lambda>(k, v). member k v) vs)
     else if vs = [] then [] else [C_LBRACE] @ commas (map (\<lambda>(k, v). member k v) vs))"
  using assms
proof (induction fs vs arbitrary: any rule: list_all2_induct)
  case Nil
  show ?case unfolding fwrites_def by simp
next
  case (Cons x fs y vs)
  obtain k f where x: "x = (k, f)" by (cases x)
  obtain v where y: "y = (k, v)" and f: "fwrites f v" using Cons(1) x by (cases y) auto
  let ?p = "if \<not> any then [fixedbuf_append_char C_LBRACE] else []" and ?q = "if \<not> any then [[C_LBRACE]] else []"
  let ?k = "(if \<not> any then [] else [C_COMMA]) @ [C_QUOTE] @ k @ [C_QUOTE, C_COLON]"
  have "list_all2 fwrites (?p @ [fixedbuf_append_key k (\<not> any), f]) (?q @ [?k, v])"
    using f fwrites_key [of k "\<not> any"] by (intro list_all2_appendI) auto
  from fwrites_seq [OF fwrites_all [OF this] Cons(3) [of True]]
  show ?case unfolding x y by (cases any) (simp_all add: commas_more member_def)
qed

lemma opts_members_jmems:
  assumes "fmt_ok fmt finite_d" "opts_doubles_ok finite_d opts"
  shows "\<forall>m\<in>set (opts_members fmt opts). jmems 1 m"
proof -
  have d: "jval (Suc 0) (fmt d)" if "finite_d d" for d using that assms(1) jval_number by (auto simp: fmt_ok_def)
  have s: "jval (Suc 0) ([C_LBRACK] @ commas (map json_string items) @ [C_RBRACK])" for items
    using jclosed_val [OF jclosed_list, of "map json_string items" 0] jval_json_string by simp
  have i: "jval (Suc 0) (fmt_int n)" for n by (rule jval_number [OF fmt_int_number])
  have "jmems (Suc 0) (member k v)" if "(k, v) \<in> set (opts_values fmt opts)" for k v
    using that assms(2) unfolding opts_values_def
    by (auto simp: opts_doubles_ok_def simp del: lit_Cons append_Cons append_Nil map_map split: option.splits if_splits
        intro!: jmems_key key_ok_all d s i jval_json_string)
  then show ?thesis by (auto simp: opts_members_def)
qed

text \<open>The text the options are written as, the empty one when none is set.\<close>

definition opts_text :: "('d \<Rightarrow> byte list) \<Rightarrow> 'd llm_request_opts \<Rightarrow> byte list" where
  "opts_text fmt opts = (if opts_members fmt opts = [] then [] else object_text (opts_members fmt opts))"

lemma opts_text_params:
  assumes "fmt_ok fmt finite_d" "opts_doubles_ok finite_d opts"
  shows "params_ok 1 (Some (opts_text fmt opts))"
proof (cases "opts_members fmt opts = []")
  case True
  then show ?thesis by (simp add: params_ok_def params_members_def opts_text_def)
next
  case False
  let ?c = "commas (opts_members fmt opts)"
  have "jmems 1 ?c" by (rule jmems_commas [OF False opts_members_jmems [OF assms]])
  moreover have "0 < length ?c"
  proof -
    obtain k v vs where v: "opts_values fmt opts = (k, v) # vs" using False by (cases "opts_values fmt opts") (auto simp: opts_members_def)
    then show ?thesis by (simp add: opts_members_def commas_more member_def)
  qed
  moreover have "opts_text fmt opts = [C_LBRACE] @ ?c @ [C_RBRACE]" using False by (simp add: opts_text_def object_text_def)
  ultimately show ?thesis by (simp add: params_ok_def params_members_def nth_append)
qed

text \<open>
  C19: \<open>llm_request_opts_json_write\<close> writes nothing when no option is set, and otherwise the
  JSON object of the options, in the order of the code, exactly when the options are
  valid and the text with its NUL fits the buffer.
\<close>

theorem opts_write_exact:
  assumes "fmt_ok fmt finite_d" "int64 (ro_max_tokens opts)" "int64 (ro_seed opts)"
  shows "llm_request_opts_json_write fmt finite_d (Some opts) out_cap max_strings max_bytes =
      (if opts_doubles_ok finite_d opts \<and> opts_stop_ok max_strings max_bytes opts \<and> length (opts_text fmt opts) < out_cap
       then Some (opts_text fmt opts) else None)"
proof (cases "out_cap \<noteq> 0 \<and> opts_doubles_ok finite_d opts \<and> opts_stop_ok max_strings max_bytes opts")
  case False
  then show ?thesis by (auto simp: llm_request_opts_json_write_def)
next
  case True
  let ?b = "fixedbuf_init (out_cap - 1)"
  note rel = opts_fields_write [OF assms(1) _ assms(2,3)]
  have l2: "list_all2 (\<lambda>(k, f) (k', v). k = k' \<and> fwrites f v) (opts_fields fmt opts) (opts_values fmt opts)"
    using rel True by blast
  have nil: "opts_fields fmt opts = [] \<longleftrightarrow> opts_members fmt opts = []"
    using l2 by (auto simp: opts_members_def dest: list_all2_lengthD)
  let ?w = "if opts_members fmt opts = [] then [] else [C_LBRACE] @ commas (opts_members fmt opts)"
  have fw: "fwrites (opts_write_fields False (opts_fields fmt opts)) ?w"
    using opts_write_fields_writes [OF l2, of False] by (auto simp: opts_members_def split: if_splits)
  have i: "\<not> fb_overflow ?b" "length (fb_data ?b) \<le> fb_cap ?b" by (simp_all add: fixedbuf_init_def)
  have e: "llm_request_opts_json_write fmt finite_d (Some opts) out_cap max_strings max_bytes =
      (case opts_write_fields False (opts_fields fmt opts) ?b of
         (r, b) \<Rightarrow>
           if \<not> r then None
           else if opts_members fmt opts = [] then Some []
           else (case fixedbuf_append_char C_RBRACE b of
                   (r, b) \<Rightarrow> if \<not> r then None else if fb_overflow b then None else Some (fb_data b)))"
    using True by (simp add: llm_request_opts_json_write_def) (simp only: nil)
  show ?thesis
  proof (cases "length ?w \<le> out_cap - 1")
    case fits: True
    let ?b1 = "?b\<lparr>fb_data := fb_data ?b @ ?w\<rparr>"
    have s: "opts_write_fields False (opts_fields fmt opts) ?b = (True, ?b1)"
      by (rule fwritesD(1) [OF fw i]) (use fits in \<open>simp add: fixedbuf_init_def\<close>)
    show ?thesis
      using True fits unfolding e s
      by (auto simp: fixedbuf_append_char_def fixedbuf_append_def fixedbuf_init_def opts_text_def object_text_def)
  next
    case False
    have "fst (opts_write_fields False (opts_fields fmt opts) ?b) = False"
      by (rule fwritesD(2) [OF fw i]) (use False in \<open>simp add: fixedbuf_init_def\<close>)
    with False True show ?thesis
      unfolding e by (auto simp: case_prod_unfold opts_text_def object_text_def split: if_splits)
  qed
qed

text \<open>Options for the witnesses; the only double in use formats as \<open>0.5\<close>.\<close>

definition demo_opts :: "unit llm_request_opts" where
  "demo_opts = \<lparr>ro_temperature = Some (), ro_top_p = None, ro_max_tokens = Some (-7), ro_stop = SNull 0,
     ro_stop_list = Some [Some [C_LF], Some [C_QUOTE]], ro_stop_lens = True, ro_stop_count = 2,
     ro_frequency_penalty = None, ro_presence_penalty = None, ro_seed = None\<rparr>"

definition demo_fmt :: "unit \<Rightarrow> byte list" where
  "demo_fmt d = lit ''0.5''"

lemma demo_fmt_ok: "fmt_ok demo_fmt (\<lambda>d. True)"
proof -
  have "json_number (lit ''0.5'')"
    unfolding json_number_def
    by (intro exI [of _ "[]"] exI [of _ "[C_0]"] exI [of _ "lit ''.5''"])
      (simp add: json_int_def json_frac_def json_digits_def json_exp_def is_digit_def)
  then show ?thesis by (simp add: fmt_ok_def demo_fmt_def)
qed

theorem opts_write_exact_witness:
  "fmt_ok demo_fmt (\<lambda>d. True) \<and>
   llm_request_opts_json_write demo_fmt (\<lambda>d. True) (Some demo_opts) 100 4 16 = Some (opts_text demo_fmt demo_opts) \<and>
   opts_text demo_fmt demo_opts = object_text [member (lit ''temperature'') (lit ''0.5''),
     member (lit ''max_tokens'') (lit ''-7''),
     member (lit ''stop'') ([C_LBRACK, C_QUOTE, C_BSLASH, 0x6E, C_QUOTE, C_COMMA, C_QUOTE, C_BSLASH, C_QUOTE, C_QUOTE, C_RBRACK])]"
proof -
  have i: "int64 (ro_max_tokens demo_opts)" "int64 (ro_seed demo_opts)" by (simp_all add: int64_def demo_opts_def)
  have t: "opts_text demo_fmt demo_opts = object_text [member (lit ''temperature'') (lit ''0.5''),
     member (lit ''max_tokens'') (lit ''-7''),
     member (lit ''stop'') ([C_LBRACK, C_QUOTE, C_BSLASH, 0x6E, C_QUOTE, C_COMMA, C_QUOTE, C_BSLASH, C_QUOTE, C_QUOTE, C_RBRACK])]"
    and l: "length (opts_text demo_fmt demo_opts) < 100" and s: "opts_stop_ok 4 16 demo_opts" by code_simp+
  have d: "opts_doubles_ok (\<lambda>d. True) demo_opts" by (auto simp: opts_doubles_ok_def split: option.splits)
  show ?thesis using opts_write_exact [OF demo_fmt_ok i, of 100 4 16] demo_fmt_ok t l s d by simp
qed

section \<open>Request bodies\<close>

text \<open>
  C20: every body \<open>build_chat_request\<close> returns is one JSON value followed by a NUL, and the
  strict tokenizer accepts it, if the fragments the caller supplied as raw JSON are what
  they should be: values for \<open>content_json\<close>, \<open>tool_calls_json\<close> and the response format, lists
  of members (in braces or not) for the parameters, none too deeply nested. Message texts,
  names and the model may be any bytes.
\<close>

theorem chat_request_is_json:
  assumes "build_chat_request balloc alloc model messages stream include_usage params tooling response mp mb = Some body"
    and "\<forall>m\<in>set messages. message_ok 61 m" "params_ok 63 params" "params_ok 63 tooling"
    and "\<forall>r. response = Some r \<longrightarrow> r \<noteq> [] \<longrightarrow> jval 63 r"
  shows "\<exists>text. body = text @ [C_NUL] \<and> (\<exists>n p. jstok_parse True jstok_init (Some text) None = (Inr n, p, None)) \<and>
    text = object_text (chat_members model messages stream include_usage params tooling response)"
proof -
  let ?ms = "chat_members model messages stream include_usage params tooling response"
  have "jclosed (Suc (61 + 2)) (object_text ?ms)"
    by (rule jclosed_object_text) (use chat_members_jmems [of messages 61] assms(2-5) in \<open>simp_all add: chat_members_def\<close>)
  then have "\<exists>n p. jstok_parse True jstok_init (Some (object_text ?ms)) None = (Inr n, p, None)"
    by (rule jclosed_accepted) (simp add: JSTOK_MAX_DEPTH_def)
  with build_chat_request_text [OF assms(1)] show ?thesis by blast
qed

definition demo_message :: llm_message where
  "demo_message = \<lparr>msg_role = LLM_ROLE_USER, msg_content = SPtr [C_QUOTE, C_LF, 0xFF], msg_tool_call_id = SNull 0,
     msg_name = SNull 0, msg_tool_calls_json = SNull 0, msg_content_json = SNull 0\<rparr>"

theorem chat_request_is_json_witness:
  "\<exists>body. build_chat_request (\<lambda>n. True) (\<lambda>n. True) (lit ''m'') [demo_message] True False
     (Some (opts_text demo_fmt demo_opts)) None None 0 0 = Some body \<and>
   (\<exists>text. body = text @ [C_NUL] \<and> (\<exists>n p. jstok_parse True jstok_init (Some text) None = (Inr n, p, None)))"
proof -
  have "build_chat_request (\<lambda>n. True) (\<lambda>n. True) (lit ''m'') [demo_message] True False
     (Some (opts_text demo_fmt demo_opts)) None None 0 0 \<noteq> None" by code_simp
  then obtain body where b: "build_chat_request (\<lambda>n. True) (\<lambda>n. True) (lit ''m'') [demo_message] True False
     (Some (opts_text demo_fmt demo_opts)) None None 0 0 = Some body" by blast
  have "params_ok 63 (Some (opts_text demo_fmt demo_opts))"
    using opts_text_params [OF demo_fmt_ok, of demo_opts] jmems_mono [of 1 _ 63]
    by (auto simp: params_ok_def opts_doubles_ok_def split: option.splits)
  moreover have "params_ok 63 None" by (simp add: params_ok_def params_members_def)
  ultimately show ?thesis
    using chat_request_is_json [OF b] b by (auto simp: message_ok_def demo_message_def)
qed

text \<open>
  Every body \<open>build_completions_request\<close> returns is one JSON object followed by a NUL,
  accepted by the strict tokenizer, whatever bytes the model and the prompt hold, if the
  parameters are JSON members.
\<close>

theorem completions_request_is_json:
  assumes "build_completions_request balloc model prompt stream include_usage params = Some body" "params_ok 63 params"
  shows "\<exists>text. body = text @ [C_NUL] \<and> (\<exists>n p. jstok_parse True jstok_init (Some text) None = (Inr n, p, None)) \<and>
    text = object_text (completions_members model prompt stream include_usage params)"
proof -
  let ?ms = "completions_members model prompt stream include_usage params"
  have "\<forall>m\<in>set ?ms. jmems 63 m"
    using assms(2) stream_members_jmems [of stream include_usage 62] jval_json_string
    unfolding completions_members_def params_ok_def by (auto simp del: lit_Cons intro!: jmems_key key_ok_all)
  then have "jclosed (Suc 63) (object_text ?ms)"
    by (intro jclosed_object_text) (simp_all add: completions_members_def)
  then have "\<exists>n p. jstok_parse True jstok_init (Some (object_text ?ms)) None = (Inr n, p, None)"
    by (rule jclosed_accepted) (simp add: JSTOK_MAX_DEPTH_def)
  with build_completions_request_text [OF assms(1)] show ?thesis by blast
qed

theorem completions_request_is_json_witness:
  "\<exists>text. build_completions_request (\<lambda>n. True) (lit ''m'') [0x00, 0x80] True True None = Some (text @ [C_NUL]) \<and>
     (\<exists>n p. jstok_parse True jstok_init (Some text) None = (Inr n, p, None))"
proof -
  have "build_completions_request (\<lambda>n. True) (lit ''m'') [0x00, 0x80] True True None \<noteq> None" by code_simp
  then obtain body where b: "build_completions_request (\<lambda>n. True) (lit ''m'') [0x00, 0x80] True True None = Some body"
    by blast
  from completions_request_is_json [OF b] b show ?thesis by (auto simp: params_ok_def params_members_def)
qed

text \<open>
  Every body \<open>build_embeddings_request\<close> returns is one JSON object followed by a NUL,
  accepted by the strict tokenizer; the builder returns one only for at least one input,
  within the limits on their number and length.
\<close>

theorem embeddings_request_is_json:
  assumes "build_embeddings_request balloc (Some model) (Some inputs) n params mb mi = Some body" "params_ok 63 params"
  shows "0 < n \<and> (if mi = 0 then True else n \<le> mi) \<and>
    list_all (\<lambda>i. \<not> sp_null (ei_text i) \<and> (if mb = 0 then True else sp_len (ei_text i) \<le> mb)) (take n inputs) \<and>
    (\<exists>text. body = text @ [C_NUL] \<and> (\<exists>n p. jstok_parse True jstok_init (Some text) None = (Inr n, p, None)) \<and>
       text = object_text (embeddings_members model (take n inputs) params))"
proof -
  let ?ms = "embeddings_members model (take n inputs) params"
  have "\<forall>w\<in>set (map (\<lambda>i. json_string (sp_bytes (ei_text i))) (take n inputs)). jval 62 w" using jval_json_string by auto
  from jmems_key [OF key_ok_all(9) jclosed_val [OF jclosed_list [OF this]]]
  have "\<forall>m\<in>set ?ms. jmems 63 m"
    using assms(2) jmems_key [OF key_ok_all(6) jval_json_string]
    unfolding embeddings_members_def params_ok_def by (auto simp del: lit_Cons)
  then have "jclosed (Suc 63) (object_text ?ms)"
    by (intro jclosed_object_text) (simp_all add: embeddings_members_def)
  then have "\<exists>n p. jstok_parse True jstok_init (Some (object_text ?ms)) None = (Inr n, p, None)"
    by (rule jclosed_accepted) (simp add: JSTOK_MAX_DEPTH_def)
  with build_embeddings_request_text [OF assms(1)] assms(1) show ?thesis
    by (auto simp: build_embeddings_request_def Let_def list_all_iff split: if_splits)
qed

theorem embeddings_request_is_json_witness:
  "\<exists>text. build_embeddings_request (\<lambda>n. True) (Some (lit ''m'')) (Some [\<lparr>ei_text = SPtr [0x0A]\<rparr>]) 1 None 8 2 =
      Some (text @ [C_NUL]) \<and> (\<exists>n p. jstok_parse True jstok_init (Some text) None = (Inr n, p, None))"
proof -
  have "build_embeddings_request (\<lambda>n. True) (Some (lit ''m'')) (Some [\<lparr>ei_text = SPtr [0x0A]\<rparr>]) 1 None 8 2 \<noteq> None"
    by code_simp
  then obtain body where b: "build_embeddings_request (\<lambda>n. True) (Some (lit ''m'')) (Some [\<lparr>ei_text = SPtr [0x0A]\<rparr>]) 1 None 8 2 = Some body"
    by blast
  from embeddings_request_is_json [OF b] b show ?thesis by (auto simp: params_ok_def params_members_def)
qed

text \<open>
  Two fragments the builder lets through break the body: \<open>params_json\<close> as the empty object
  is spliced in with its braces, and \<open>content_json\<close> made of two arrays passes the validation.
  Both bodies are refused by the tokenizer.
\<close>

theorem chat_request_broken:
  "fst (jstok_parse False jstok_init
     (map_option butlast (build_chat_request (\<lambda>n. True) (\<lambda>n. True) (lit ''m'') [] False False
        (Some (lit ''{}'')) None None 0 0)) None) = Inl JSTOK_ERROR_INVAL \<and>
   fst (jstok_parse False jstok_init
     (map_option butlast (build_chat_request (\<lambda>n. True) (\<lambda>n. True) (lit ''m'')
        [demo_message\<lparr>msg_content := SNull 0, msg_content_json := SPtr (lit ''[][]'')\<rparr>] False False
        None None None 0 0)) None) = Inl JSTOK_ERROR_INVAL \<and>
   build_chat_request (\<lambda>n. True) (\<lambda>n. True) (lit ''m'') [] False False (Some (lit ''{}'')) None None 0 0 \<noteq> None \<and>
   build_chat_request (\<lambda>n. True) (\<lambda>n. True) (lit ''m'')
     [demo_message\<lparr>msg_content := SNull 0, msg_content_json := SPtr (lit ''[][]'')\<rparr>] False False None None None 0 0 \<noteq> None"
  by code_simp

end
