(* ===== verification/ToolsAccum.thy ===== *)
theory ToolsAccum
  imports Buffers
begin

text \<open>
  The accumulator of one streamed tool call (\<open>src/src/tools_accum.c\<close>): the identifier and the
  name are taken from the first delta that carries them, the fragments of the arguments
  are appended within a bound, and a frozen accumulator takes nothing more.

  \<open>alloc\<close> grants the copies of the identifier and the name; the argument buffer has its own
  oracle.
\<close>

section \<open>The code\<close>

record tool_call_delta =
  td_index :: nat
  td_id :: cspan
  td_name :: cspan
  td_arguments_fragment :: cspan

record tool_call_accumulator =
  ac_id :: "byte list option"
  ac_name :: "byte list option"
  ac_args_buf :: growbuf
  ac_active :: bool
  ac_saw_args :: bool
  ac_frozen :: bool

definition accum_init :: "(nat \<Rightarrow> bool) \<Rightarrow> tool_call_accumulator" where
  "accum_init balloc =
     \<lparr>ac_id = None, ac_name = None, ac_args_buf = growbuf_init balloc 1024, ac_active = False,
      ac_saw_args = False, ac_frozen = False\<rparr>"

definition accum_free :: "tool_call_accumulator \<Rightarrow> tool_call_accumulator" where
  "accum_free acc = acc\<lparr>ac_args_buf := growbuf_free (ac_args_buf acc)\<rparr>"

definition strdup_span :: "(nat \<Rightarrow> bool) \<Rightarrow> cspan \<Rightarrow> byte list option" where
  "strdup_span alloc sp =
     (case sp of
        SNull n \<Rightarrow> None
      | SPtr bs \<Rightarrow> if alloc (length bs + 1) then Some bs else None)"

definition accum_feed_delta ::
  "(nat \<Rightarrow> bool) \<Rightarrow> tool_call_accumulator \<Rightarrow> tool_call_delta \<Rightarrow> nat \<Rightarrow> bool \<times> tool_call_accumulator" where
  "accum_feed_delta alloc acc delta max_args_bytes =
     (if ac_frozen acc then (False, acc)
      else
        (let acc = acc\<lparr>ac_active := True\<rparr>;
             acc = (if ac_id acc = None \<and> \<not> sp_null (td_id delta)
                    then acc\<lparr>ac_id := strdup_span alloc (td_id delta)\<rparr> else acc);
             acc = (if ac_name acc = None \<and> \<not> sp_null (td_name delta)
                    then acc\<lparr>ac_name := strdup_span alloc (td_name delta)\<rparr> else acc) in
         if \<not> sp_null (td_arguments_fragment delta) then
           (let acc = acc\<lparr>ac_saw_args := True\<rparr> in
            case growbuf_append (ac_args_buf acc) (sp_bytes (td_arguments_fragment delta)) max_args_bytes of
              (r, b) \<Rightarrow> (r, acc\<lparr>ac_args_buf := b\<rparr>))
         else (True, acc)))"

text \<open>The NUL appended for convenience is not counted; it stays in memory behind \<open>len\<close>.\<close>

definition accum_freeze :: "tool_call_accumulator \<Rightarrow> tool_call_accumulator" where
  "accum_freeze acc =
     (let acc = acc\<lparr>ac_frozen := True\<rparr> in
      case growbuf_append (ac_args_buf acc) [C_NUL] 0 of
        (r, b) \<Rightarrow> if r then acc\<lparr>ac_args_buf := b\<lparr>gb_data := butlast (gb_data b)\<rparr>\<rparr>
                  else acc\<lparr>ac_args_buf := b\<rparr>)"

section \<open>Feeding a whole call\<close>

fun accum_feed_all ::
  "(nat \<Rightarrow> bool) \<Rightarrow> nat \<Rightarrow> tool_call_accumulator \<Rightarrow> tool_call_delta list \<Rightarrow> bool \<times> tool_call_accumulator" where
  "accum_feed_all alloc m acc [] = (True, acc)"
| "accum_feed_all alloc m acc (d # ds) =
     (case accum_feed_delta alloc acc d m of (r, acc1) \<Rightarrow> if r then accum_feed_all alloc m acc1 ds else (False, acc1))"

definition args_of :: "tool_call_accumulator \<Rightarrow> byte list" where
  "args_of acc = gb_data (ac_args_buf acc)"

definition fragments :: "tool_call_delta list \<Rightarrow> byte list" where
  "fragments ds = concat (map (\<lambda>d. sp_bytes (td_arguments_fragment d)) ds)"

text \<open>The first span that is not null, for an accumulator that may have one already.\<close>

definition first_span :: "byte list option \<Rightarrow> cspan list \<Rightarrow> byte list option" where
  "first_span have sps =
     (case have of Some x \<Rightarrow> Some x | None \<Rightarrow> map_option sp_bytes (find (\<lambda>sp. \<not> sp_null sp) sps))"

lemma accum_feed_delta_True:
  assumes "accum_feed_delta alloc acc d m = (True, acc1)"
  shows "args_of acc1 = args_of acc @ sp_bytes (td_arguments_fragment d)" "\<not> ac_frozen acc" "\<not> ac_frozen acc1"
    "ac_active acc1" "ac_saw_args acc1 \<longleftrightarrow> ac_saw_args acc \<or> \<not> sp_null (td_arguments_fragment d)"
    "ac_id acc1 = (if ac_id acc = None \<and> \<not> sp_null (td_id d) then strdup_span alloc (td_id d) else ac_id acc)"
    "ac_name acc1 = (if ac_name acc = None \<and> \<not> sp_null (td_name d) then strdup_span alloc (td_name d) else ac_name acc)"
  using assms
  by (cases "td_arguments_fragment d";
      auto simp: accum_feed_delta_def Let_def args_of_def split: if_splits prod.splits dest!: growbuf_append_True)+

lemma accum_feed_delta_bound:
  assumes "accum_feed_delta alloc acc d m = (r, acc1)" "m \<noteq> 0" "length (args_of acc) \<le> m"
  shows "length (args_of acc1) \<le> m"
  using assms
  by (auto simp: accum_feed_delta_def Let_def args_of_def dest: growbuf_append_bound split: if_splits prod.splits)

lemma accum_feed_all_bound:
  "accum_feed_all alloc m acc ds = (r, acc1) \<Longrightarrow> m \<noteq> 0 \<Longrightarrow> length (args_of acc) \<le> m \<Longrightarrow> length (args_of acc1) \<le> m"
  by (induction alloc m acc ds rule: accum_feed_all.induct)
    (auto split: prod.splits if_splits dest: accum_feed_delta_bound)

lemma first_span_step:
  "first_span (if x = None \<and> \<not> sp_null sp then strdup_span (\<lambda>n. True) sp else x) sps = first_span x (sp # sps)"
  by (cases sp; cases x) (auto simp: first_span_def strdup_span_def)

lemma accum_feed_all_collects:
  assumes "accum_feed_all (\<lambda>n. True) m acc ds = (True, acc1)"
  shows "args_of acc1 = args_of acc @ fragments ds \<and>
    ac_id acc1 = first_span (ac_id acc) (map td_id ds) \<and> ac_name acc1 = first_span (ac_name acc) (map td_name ds) \<and>
    (ac_saw_args acc1 \<longleftrightarrow> ac_saw_args acc \<or> list_ex (\<lambda>d. \<not> sp_null (td_arguments_fragment d)) ds)"
  using assms
proof (induction ds arbitrary: acc)
  case Nil
  then show ?case by (auto simp: fragments_def first_span_def split: option.splits)
next
  case (Cons d ds)
  obtain acc2 where a: "accum_feed_delta (\<lambda>n. True) acc d m = (True, acc2)"
    and b: "accum_feed_all (\<lambda>n. True) m acc2 ds = (True, acc1)"
    using Cons(2) by (auto split: prod.splits if_splits)
  note d = accum_feed_delta_True [OF a]
  from Cons(1) [OF b] show ?case
    using d(1,5) first_span_step [of "ac_id acc" "td_id d" "map td_id ds"]
      first_span_step [of "ac_name acc" "td_name d" "map td_name ds"]
    unfolding d(6,7) by (auto simp: fragments_def)
qed

text \<open>
  An accumulator fed a sequence of deltas, each with success, holds exactly the
  concatenation of their argument fragments, never more than the bound, and the identifier
  and name of the first delta that had one; a frozen accumulator refuses every delta and
  does not change.
\<close>

theorem accum_collects:
  assumes "accum_feed_all (\<lambda>n. True) m (accum_init balloc) ds = (True, acc)"
  shows "args_of acc = fragments ds \<and> (if m = 0 then True else length (fragments ds) \<le> m) \<and>
    ac_id acc = first_span None (map td_id ds) \<and> ac_name acc = first_span None (map td_name ds) \<and>
    ac_saw_args acc = list_ex (\<lambda>d. \<not> sp_null (td_arguments_fragment d)) ds \<and>
    args_of (accum_freeze acc) = args_of acc \<and>
    accum_feed_delta alloc (accum_freeze acc) d m = (False, accum_freeze acc)"
proof -
  have i: "args_of (accum_init balloc) = []" "ac_id (accum_init balloc) = None" "ac_name (accum_init balloc) = None"
    "ac_saw_args (accum_init balloc) = False"
    by (simp_all add: args_of_def accum_init_def growbuf_init_def)
  note c = accum_feed_all_collects [OF assms, unfolded i]
  have b: "m = 0 \<or> length (args_of acc) \<le> m" using accum_feed_all_bound [OF assms] i by auto
  have "args_of (accum_freeze acc) = args_of acc"
  proof (cases "growbuf_append (ac_args_buf acc) [C_NUL] 0")
    case (Pair r bf)
    then show ?thesis
      using growbuf_append_True [of "ac_args_buf acc" "[C_NUL]" 0 bf] growbuf_append_False [of "ac_args_buf acc" "[C_NUL]" 0 bf]
      by (cases r) (auto simp: accum_freeze_def args_of_def Let_def)
  qed
  moreover have "ac_frozen (accum_freeze acc)" by (simp add: accum_freeze_def Let_def split: prod.split)
  ultimately show ?thesis using c b by (auto simp: accum_feed_delta_def)
qed

definition demo_deltas :: "tool_call_delta list" where
  "demo_deltas =
     [\<lparr>td_index = 0, td_id = SPtr [0x61], td_name = SNull 0, td_arguments_fragment = SPtr [0x7B]\<rparr>,
      \<lparr>td_index = 0, td_id = SPtr [0x62], td_name = SPtr [0x63], td_arguments_fragment = SPtr [0x7D]\<rparr>]"

theorem accum_collects_witness:
  "\<exists>acc. accum_feed_all (\<lambda>n. True) 2 (accum_init (\<lambda>n. True)) demo_deltas = (True, acc) \<and>
     args_of acc = [0x7B, 0x7D] \<and> ac_id acc = Some [0x61] \<and> ac_name acc = Some [0x63]"
proof -
  have "fst (accum_feed_all (\<lambda>n. True) 2 (accum_init (\<lambda>n. True)) demo_deltas) = True" by code_simp
  then obtain acc where a: "accum_feed_all (\<lambda>n. True) 2 (accum_init (\<lambda>n. True)) demo_deltas = (True, acc)"
    by (metis prod.collapse)
  have v: "fragments demo_deltas = [0x7B, 0x7D]" "first_span None (map td_id demo_deltas) = Some [0x61]"
    "first_span None (map td_name demo_deltas) = Some [0x63]" by code_simp+
  show ?thesis using accum_collects [OF a] a unfolding v by blast
qed

end
