(* ===== verification/JsonCore.thy ===== *)
theory JsonCore
  imports JstokNav
begin

text \<open>
  The JSON layer the protocol parsers share: the wrappers of \<open>src/src/json_core.c\<close>, the finish
  reasons, and the two-pass tokenization that each protocol file has a copy of. On the
  other side stand the same accessors on the tree of the document; on the tokens of a tree
  the two agree.
\<close>

section \<open>The wrappers\<close>

definition tok_span :: "byte list \<Rightarrow> jstoktok \<Rightarrow> byte list option" where
  "tok_span json tok = jstok_span json tok"

text \<open>As the code has it: true when the comparison returned 0, that is, when the texts differ.\<close>

definition tok_eq_lit :: "byte list \<Rightarrow> jstoktok \<Rightarrow> byte list \<Rightarrow> bool" where
  "tok_eq_lit json tok s \<longleftrightarrow> jstok_eq json tok s = 0"

definition tok_is_type :: "jstoktok \<Rightarrow> jstoktype \<Rightarrow> bool" where
  "tok_is_type tok type \<longleftrightarrow> tk_type tok = type"

definition obj_get_key :: "jstoktok list \<Rightarrow> int \<Rightarrow> byte list \<Rightarrow> byte list \<Rightarrow> int" where
  "obj_get_key tokens obj_idx json key = jstok_object_get json tokens obj_idx key"

definition arr_get :: "jstoktok list \<Rightarrow> int \<Rightarrow> int \<Rightarrow> int" where
  "arr_get tokens arr_idx i = jstok_array_at tokens arr_idx i"

definition skip_subtree :: "jstoktok list \<Rightarrow> int \<Rightarrow> int" where
  "skip_subtree tokens idx = jstok_skip tokens idx"

datatype llm_finish_reason =
    LLM_FINISH_REASON_STOP
  | LLM_FINISH_REASON_LENGTH
  | LLM_FINISH_REASON_TOOL_CALLS
  | LLM_FINISH_REASON_CONTENT_FILTER
  | LLM_FINISH_REASON_UNKNOWN

definition llm_finish_reason_from_string :: "byte list \<Rightarrow> llm_finish_reason" where
  "llm_finish_reason_from_string str =
     (if str = lit ''stop'' then LLM_FINISH_REASON_STOP
      else if str = lit ''length'' then LLM_FINISH_REASON_LENGTH
      else if str = lit ''tool_calls'' then LLM_FINISH_REASON_TOOL_CALLS
      else if str = lit ''content_filter'' then LLM_FINISH_REASON_CONTENT_FILTER
      else LLM_FINISH_REASON_UNKNOWN)"

fun llm_finish_reason_to_string :: "llm_finish_reason \<Rightarrow> byte list" where
  "llm_finish_reason_to_string LLM_FINISH_REASON_STOP = lit ''stop''"
| "llm_finish_reason_to_string LLM_FINISH_REASON_LENGTH = lit ''length''"
| "llm_finish_reason_to_string LLM_FINISH_REASON_TOOL_CALLS = lit ''tool_calls''"
| "llm_finish_reason_to_string LLM_FINISH_REASON_CONTENT_FILTER = lit ''content_filter''"
| "llm_finish_reason_to_string LLM_FINISH_REASON_UNKNOWN = lit ''unknown''"

text \<open>
  \<open>tok_eq_lit\<close> answers the opposite of what its name and its comment say: it holds exactly
  when the text of the token differs from the literal (or has no span at all).
\<close>

theorem tok_eq_lit_inverted: "tok_eq_lit json tok s = (tok_span json tok \<noteq> Some s)"
  by (simp add: tok_eq_lit_def tok_span_def jstok_eq_iff)

text \<open>
  Writing a finish reason and reading it back gives the reason, for every value of the
  enumeration.
\<close>

theorem finish_reason_roundtrip: "llm_finish_reason_from_string (llm_finish_reason_to_string r) = r"
  by (cases r) (simp_all add: llm_finish_reason_from_string_def)

section \<open>Tokenizing a response\<close>

text \<open>The codes the parsers return: those of the tokenizer and \<open>LLM_PARSE_ERR_PROTOCOL\<close>.\<close>

datatype parse_err =
    PErrJson jstokerr
  | PErrProtocol

text \<open>\<open>(int)len\<close> keeps the low 32 bits: the buffer the tokenizer is told of.\<close>

definition int_len :: "nat \<Rightarrow> int" where
  "int_len n = (int n + 2 ^ 31) mod 2 ^ 32 - 2 ^ 31"

definition json_arg :: "byte list \<Rightarrow> byte list option" where
  "json_arg json = (if int_len (length json) < 0 then None else Some (take (nat (int_len (length json))) json))"

definition tokenize :: "(nat \<Rightarrow> bool) \<Rightarrow> byte list \<Rightarrow> jstokerr + jstoktok list" where
  "tokenize alloc json =
     (case fst (jstok_parse False jstok_init (json_arg json) None) of
        Inl e \<Rightarrow> Inl e
      | Inr needed \<Rightarrow>
          if \<not> alloc (needed * 16) then Inl JSTOK_ERROR_NOMEM
          else
            (case jstok_parse False jstok_init (json_arg json)
                    (Some (replicate needed \<lparr>tk_type = JSTOK_UNDEFINED, tk_start = 0, tk_end = 0, tk_size = 0\<rparr>)) of
               (Inl e, _, _) \<Rightarrow> Inl e
             | (Inr parsed, _, toks) \<Rightarrow> Inr (take parsed (the toks))))"

text \<open>The string member that several fields of a result are read from.\<close>

definition extract_optional_string_field ::
  "byte list \<Rightarrow> jstoktok list \<Rightarrow> int \<Rightarrow> byte list \<Rightarrow> byte list option" where
  "extract_optional_string_field json tokens obj_idx key =
     (let idx = obj_get_key tokens obj_idx json key in
      if idx < 0 \<or> tk_type (tokens ! nat idx) \<noteq> JSTOK_STRING then None
      else tok_span json (tokens ! nat idx))"

section \<open>The document's trees\<close>

lemma ws_bounds: "ws json a b \<Longrightarrow> a \<le> b \<and> b \<le> length json"
  by (simp add: ws_def)

lemma jvalue_wb:
  "jvalue json a b t \<Longrightarrow> a < b \<and> b \<le> length json \<and> well_bounded t"
  "jelems json p q ts \<Longrightarrow> p \<le> q \<and> q \<le> length json \<and> list_all well_bounded ts"
  "jmembers json p q kvs \<Longrightarrow> p \<le> q \<and> q \<le> length json \<and>
     list_all (\<lambda>kv. fst (fst kv) \<le> snd (fst kv) \<and> well_bounded (snd kv)) kvs"
proof (induction rule: jvalue_jelems_jmembers.inducts)
  case (v_str a b)
  then show ?case by (auto simp: jstring_def at_pos_def)
next
  case (v_prim a b)
  then show ?case by (auto simp: jprim_def)
next
  case (v_arr_empty a q)
  then show ?case by (auto simp: at_pos_def dest: ws_bounds)
next
  case (v_arr a q ts)
  then show ?case by (auto simp: at_pos_def)
next
  case (v_obj_empty a q)
  then show ?case by (auto simp: at_pos_def dest: ws_bounds)
next
  case (v_obj a q kvs)
  then show ?case by (auto simp: at_pos_def)
next
  case (e_one p a b t q)
  then show ?case by (auto simp: ws_def)
next
  case (e_more p c ts a b t q)
  then show ?case by (auto simp: at_pos_def dest!: ws_bounds)
next
  case (m_one p a b c d e v q)
  then show ?case by (auto simp: at_pos_def jstring_def dest!: ws_bounds)
next
  case (m_more p c0 kvs a b c d e v q)
  then show ?case by (auto simp: at_pos_def jstring_def dest!: ws_bounds)
qed

lemma jtop_wb: "jtop json p q ts \<Longrightarrow> list_all well_bounded ts"
  by (induction rule: jtop.induct) (auto dest: jvalue_wb(1))

text \<open>A tree whose tokens stand in the array, with what the accessors need of it.\<close>

definition sits :: "jstoktok list \<Rightarrow> nat \<Rightarrow> jtree \<Rightarrow> bool" where
  "sits toks i t \<longleftrightarrow> tok_at toks i t \<and> depth t \<le> JSTOK_MAX_DEPTH \<and> well_bounded t"

fun tree_get :: "byte list \<Rightarrow> jtree \<Rightarrow> byte list \<Rightarrow> jtree option" where
  "tree_get json (JObj a b kvs) key = map_option snd (find (key_is json key) kvs)"
| "tree_get json t key = None"

fun tree_text :: "byte list \<Rightarrow> jtree \<Rightarrow> byte list" where
  "tree_text json (JStr a b) = slice json a b"
| "tree_text json (JPrim a b) = slice json a b"
| "tree_text json (JArr a b ts) = slice json a b"
| "tree_text json (JObj a b kvs) = slice json a b"

fun is_obj :: "jtree \<Rightarrow> bool" where
  "is_obj (JObj a b kvs) = True"
| "is_obj t = False"

fun is_str :: "jtree \<Rightarrow> bool" where
  "is_str (JStr a b) = True"
| "is_str t = False"

fun arr_elems :: "jtree \<Rightarrow> jtree list option" where
  "arr_elems (JArr a b ts) = Some ts"
| "arr_elems t = None"

definition tree_str :: "byte list \<Rightarrow> jtree \<Rightarrow> byte list \<Rightarrow> byte list option" where
  "tree_str json t key =
     (case tree_get json t key of
        None \<Rightarrow> None
      | Some v \<Rightarrow> if is_str v then Some (tree_text json v) else None)"

lemma sits_head:
  assumes "sits toks i t"
  shows "i < length toks" "tk_type (toks ! i) = JSTOK_OBJECT \<longleftrightarrow> is_obj t"
    "tk_type (toks ! i) = JSTOK_STRING \<longleftrightarrow> is_str t" "tk_type (toks ! i) = JSTOK_ARRAY \<longleftrightarrow> arr_elems t \<noteq> None"
    "tok_span json (toks ! i) = Some (tree_text json t)"
    "arr_elems t = Some ts \<Longrightarrow> tk_size (toks ! i) = int (length ts)"
proof -
  have h: "i < length toks" "toks ! i = hd (flat t)" "well_bounded t" using assms tok_at_head by (auto simp: sits_def)
  show "i < length toks" by (rule h(1))
  show "tk_type (toks ! i) = JSTOK_OBJECT \<longleftrightarrow> is_obj t"
    "tk_type (toks ! i) = JSTOK_STRING \<longleftrightarrow> is_str t" "tk_type (toks ! i) = JSTOK_ARRAY \<longleftrightarrow> arr_elems t \<noteq> None"
    "arr_elems t = Some ts \<Longrightarrow> tk_size (toks ! i) = int (length ts)"
    unfolding h(2) by (cases t; simp add: jtok_def)+
  show "tok_span json (toks ! i) = Some (tree_text json t)"
    unfolding h(2) tok_span_def using h(3) by (cases t) (simp_all add: jstok_span_jtok)
qed

lemma sits_get:
  assumes "sits toks i t"
  shows "case tree_get json t key of
      None \<Rightarrow> is_obj t \<longrightarrow> obj_get_key toks (int i) json key = -1
    | Some v \<Rightarrow> \<exists>j. obj_get_key toks (int i) json key = int j \<and> sits toks j v"
proof (cases t)
  case (JObj a b kvs)
  have t: "tok_at toks i (JObj a b kvs)" "depth (JObj a b kvs) \<le> JSTOK_MAX_DEPTH" "well_bounded (JObj a b kvs)"
    using assms JObj by (simp_all add: sits_def)
  note g = jstok_object_get_tree [OF t, of json key]
  show ?thesis
  proof (cases "find (key_is json key) kvs")
    case None
    with g JObj show ?thesis by (simp add: obj_get_key_def)
  next
    case (Some kv)
    then have "kv \<in> set kvs" by (auto simp: find_Some_iff)
    then have "depth (snd kv) \<le> JSTOK_MAX_DEPTH" "well_bounded (snd kv)"
      using t(2,3) depth_le(2) [of a b kvs "JSTOK_MAX_DEPTH - 1"] by (auto simp: JSTOK_MAX_DEPTH_def list_all_iff)
    with g Some JObj show ?thesis by (auto simp: obj_get_key_def sits_def)
  qed
qed simp_all

lemma sits_elem:
  assumes "sits toks i t" "arr_elems t = Some ts" "n < length ts"
  shows "\<exists>j. arr_get toks (int i) (int n) = int j \<and> sits toks j (ts ! n)"
proof -
  obtain a b where t: "t = JArr a b ts" using assms(2) by (cases t) auto
  have "\<exists>j. jstok_array_at toks (int i) (int n) = int j \<and> tok_at toks j (ts ! n)"
    using jstok_array_at_tree [of toks i a b ts "int n"] assms(1,3) t by (auto simp: sits_def)
  moreover have "ts ! n \<in> set ts" using assms(3) by simp
  then have "depth (ts ! n) \<le> JSTOK_MAX_DEPTH" "well_bounded (ts ! n)"
    using assms(1) t depth_le(1) [of a b ts "JSTOK_MAX_DEPTH - 1"]
    by (fastforce simp: sits_def JSTOK_MAX_DEPTH_def list_all_iff)+
  ultimately show ?thesis by (auto simp: arr_get_def sits_def)
qed

lemma sits_str:
  assumes "sits toks i t" "is_obj t"
  shows "extract_optional_string_field json toks (int i) key = tree_str json t key"
  using sits_get [OF assms(1), of json key] assms(2) sits_head(3,5)
  by (fastforce simp: extract_optional_string_field_def tree_str_def Let_def split: option.splits)

text \<open>What a successful tokenization yields, when memory is granted.\<close>

lemma int_len_small: "n < 2 ^ 31 \<Longrightarrow> int_len n = int n"
  by (simp add: int_len_def)

lemma json_arg_small: "length json < 2 ^ 31 \<Longrightarrow> json_arg json = Some json"
  by (simp add: json_arg_def int_len_small)

end
