(* ===== verification/ProtocolChat.thy ===== *)
theory ProtocolChat
  imports JsonCore JstokText ToolsAccum
begin

text \<open>
  The parsers of \<open>src/src/protocol_chat.c\<close>: a whole chat response and one chunk of a streamed
  response, read from the tokens of the body.

  A result field that points into the body is the bytes it delimits, or \<open>None\<close> for a null
  pointer. An error is a \<open>parse_err\<close>; the code then leaves the result without choices, having
  freed what it allocated. \<open>alloc\<close> grants every allocation by its size in bytes. A
  counter of the usage report that overflows \<open>jstok_atoi64\<close> makes the call undefined:
  \<open>ChunkUndefined\<close> there.
\<close>

section \<open>Results\<close>

record llm_tool_call =
  tc_id :: "byte list option"
  tc_name :: "byte list option"
  tc_arguments :: "byte list option"

record llm_chat_choice =
  ch_finish_reason :: llm_finish_reason
  ch_content :: "byte list option"
  ch_reasoning_content :: "byte list option"
  ch_tool_calls :: "llm_tool_call list"
  ch_tool_calls_json :: "byte list option"

text \<open>\<open>cr_first\<close> holds the aliases of the first choice that the result repeats.\<close>

record llm_chat_result =
  cr_choices :: "llm_chat_choice list"
  cr_first :: llm_chat_choice

text \<open>A counter of the usage report; \<open>None\<close> when its \<open>has_\<close> flag is off.\<close>

record llm_usage =
  us_prompt_tokens :: "nat option"
  us_completion_tokens :: "nat option"
  us_total_tokens :: "nat option"

record llm_chat_chunk_delta =
  cd_content_delta :: "byte list option"
  cd_reasoning_delta :: "byte list option"
  cd_tool_call_deltas :: "tool_call_delta list"
  cd_finish_reason :: llm_finish_reason

datatype chunk_err =
    ChunkErr parse_err
  | ChunkUndefined

section \<open>Usage\<close>

definition usage_init :: "llm_usage \<times> bool" where
  "usage_init = (\<lparr>us_prompt_tokens = None, us_completion_tokens = None, us_total_tokens = None\<rparr>, False)"

text \<open>The outcome of one counter: set, left alone, or undefined.\<close>

definition usage_parse_field :: "byte list \<Rightarrow> jstoktok \<Rightarrow> chunk_err + nat option" where
  "usage_parse_field json token =
     (if tk_type token \<noteq> JSTOK_PRIMITIVE then Inr None
      else case jstok_atoi64 json token of
        AtoiFail \<Rightarrow> Inr None
      | AtoiOverflow \<Rightarrow> Inl ChunkUndefined
      | AtoiOk val \<Rightarrow> if val < 0 then Inr None else if nat val > SIZE_MAX then Inr None else Inr (Some (nat val)))"

definition usage_counter ::
  "byte list \<Rightarrow> jstoktok list \<Rightarrow> int \<Rightarrow> string \<Rightarrow> chunk_err + nat option" where
  "usage_counter json tokens usage_idx key =
     (let idx = obj_get_key tokens usage_idx json (lit key) in
      if idx \<ge> 0 then usage_parse_field json (tokens ! nat idx) else Inr None)"

definition usage_parse :: "byte list \<Rightarrow> jstoktok list \<Rightarrow> chunk_err + llm_usage \<times> bool" where
  "usage_parse json tokens =
     (let usage_idx = obj_get_key tokens 0 json (lit ''usage'') in
      if usage_idx < 0 \<or> tk_type (tokens ! nat usage_idx) \<noteq> JSTOK_OBJECT then Inr usage_init
      else
        (case usage_counter json tokens usage_idx ''prompt_tokens'' of
           Inl e \<Rightarrow> Inl e
         | Inr p \<Rightarrow>
             (case usage_counter json tokens usage_idx ''completion_tokens'' of
                Inl e \<Rightarrow> Inl e
              | Inr c \<Rightarrow>
                  (case usage_counter json tokens usage_idx ''total_tokens'' of
                     Inl e \<Rightarrow> Inl e
                   | Inr t \<Rightarrow>
                       Inr (\<lparr>us_prompt_tokens = p, us_completion_tokens = c, us_total_tokens = t\<rparr>, True)))))"

definition extract_reasoning_span :: "byte list \<Rightarrow> jstoktok list \<Rightarrow> int \<Rightarrow> byte list option" where
  "extract_reasoning_span json tokens obj_idx =
     (case extract_optional_string_field json tokens obj_idx (lit ''reasoning_content'') of
        Some sp \<Rightarrow> Some sp
      | None \<Rightarrow> extract_optional_string_field json tokens obj_idx (lit ''thinking''))"

section \<open>Whole responses\<close>

definition finish_of :: "byte list option \<Rightarrow> llm_finish_reason" where
  "finish_of sp = (case sp of None \<Rightarrow> LLM_FINISH_REASON_UNKNOWN | Some str \<Rightarrow> llm_finish_reason_from_string str)"

definition parse_tool_call :: "byte list \<Rightarrow> jstoktok list \<Rightarrow> int \<Rightarrow> llm_tool_call" where
  "parse_tool_call json tokens tool_idx =
     (let func_idx = obj_get_key tokens tool_idx json (lit ''function'');
          func = (func_idx \<ge> 0 \<and> tk_type (tokens ! nat func_idx) = JSTOK_OBJECT) in
      \<lparr>tc_id = extract_optional_string_field json tokens tool_idx (lit ''id''),
       tc_name = (if func then extract_optional_string_field json tokens func_idx (lit ''name'') else None),
       tc_arguments = (if func then extract_optional_string_field json tokens func_idx (lit ''arguments'') else None)\<rparr>)"

text \<open>The elements of an array from index \<open>i\<close> on, each read by \<open>f\<close> if it is an object.\<close>

fun parse_elements ::
  "jstoktok list \<Rightarrow> int \<Rightarrow> (int \<Rightarrow> parse_err + 'a) \<Rightarrow> nat \<Rightarrow> nat \<Rightarrow> parse_err + 'a list" where
  "parse_elements tokens arr_idx f i 0 = Inr []"
| "parse_elements tokens arr_idx f i (Suc n) =
     (let idx = arr_get tokens arr_idx (int i) in
      if idx < 0 \<or> tk_type (tokens ! nat idx) \<noteq> JSTOK_OBJECT then Inl PErrProtocol
      else case f idx of
        Inl e \<Rightarrow> Inl e
      | Inr x \<Rightarrow> (case parse_elements tokens arr_idx f (i + 1) n of Inl e \<Rightarrow> Inl e | Inr xs \<Rightarrow> Inr (x # xs)))"

lemma parse_elements_code [code]:
  "parse_elements tokens arr_idx f i n =
     (if n = 0 then Inr []
      else let idx = arr_get tokens arr_idx (int i) in
        if idx < 0 \<or> tk_type (tokens ! nat idx) \<noteq> JSTOK_OBJECT then Inl PErrProtocol
        else case f idx of
          Inl e \<Rightarrow> Inl e
        | Inr x \<Rightarrow> (case parse_elements tokens arr_idx f (i + 1) (n - 1) of Inl e \<Rightarrow> Inl e | Inr xs \<Rightarrow> Inr (x # xs)))"
  by (cases n) (simp_all add: Let_def cong: sum.case_cong)

definition TOOL_CALL_SIZE :: nat where "TOOL_CALL_SIZE = 48"
definition CHOICE_SIZE :: nat where "CHOICE_SIZE = 72"
definition TOOL_CALL_DELTA_SIZE :: nat where "TOOL_CALL_DELTA_SIZE = 56"

definition parse_tool_calls ::
  "(nat \<Rightarrow> bool) \<Rightarrow> byte list \<Rightarrow> jstoktok list \<Rightarrow> int \<Rightarrow> parse_err + llm_tool_call list \<times> byte list option" where
  "parse_tool_calls alloc json tokens message_idx =
     (let tool_calls_idx = obj_get_key tokens message_idx json (lit ''tool_calls'') in
      if tool_calls_idx \<ge> 0 \<and> tk_type (tokens ! nat tool_calls_idx) = JSTOK_ARRAY then
        (let sp = tok_span json (tokens ! nat tool_calls_idx);
             tool_count = nat (tk_size (tokens ! nat tool_calls_idx)) in
         if tk_size (tokens ! nat tool_calls_idx) > 0 then
           (if \<not> alloc (tool_count * TOOL_CALL_SIZE) then Inl (PErrJson JSTOK_ERROR_NOMEM)
            else case parse_elements tokens tool_calls_idx (\<lambda>j. Inr (parse_tool_call json tokens j)) 0 tool_count of
              Inl e \<Rightarrow> Inl e
            | Inr tcs \<Rightarrow> Inr (tcs, sp))
         else Inr ([], sp))
      else Inr ([], None))"

definition parse_choice ::
  "(nat \<Rightarrow> bool) \<Rightarrow> byte list \<Rightarrow> jstoktok list \<Rightarrow> int \<Rightarrow> parse_err + llm_chat_choice" where
  "parse_choice alloc json tokens choice_idx =
     (let finish = finish_of (extract_optional_string_field json tokens choice_idx (lit ''finish_reason''));
          message_idx = obj_get_key tokens choice_idx json (lit ''message'') in
      if message_idx < 0 \<or> tk_type (tokens ! nat message_idx) \<noteq> JSTOK_OBJECT then Inl PErrProtocol
      else case parse_tool_calls alloc json tokens message_idx of
        Inl e \<Rightarrow> Inl e
      | Inr (tool_calls, tool_calls_json) \<Rightarrow>
          Inr \<lparr>ch_finish_reason = finish,
               ch_content = extract_optional_string_field json tokens message_idx (lit ''content''),
               ch_reasoning_content = extract_reasoning_span json tokens message_idx,
               ch_tool_calls = tool_calls, ch_tool_calls_json = tool_calls_json\<rparr>)"

definition parse_chat_response :: "(nat \<Rightarrow> bool) \<Rightarrow> byte list \<Rightarrow> parse_err + llm_chat_result" where
  "parse_chat_response alloc json =
     (case tokenize alloc json of
        Inl e \<Rightarrow> Inl (PErrJson e)
      | Inr tokens \<Rightarrow>
          if tokens = [] \<or> tk_type (tokens ! 0) \<noteq> JSTOK_OBJECT then Inl PErrProtocol
          else
            (let choices_idx = obj_get_key tokens 0 json (lit ''choices'') in
             if choices_idx < 0 \<or> tk_type (tokens ! nat choices_idx) \<noteq> JSTOK_ARRAY \<or>
                tk_size (tokens ! nat choices_idx) \<le> 0
             then Inl PErrProtocol
             else
               (let choices_count = nat (tk_size (tokens ! nat choices_idx)) in
                if \<not> alloc (choices_count * CHOICE_SIZE) then Inl (PErrJson JSTOK_ERROR_NOMEM)
                else case parse_elements tokens choices_idx (parse_choice alloc json tokens) 0 choices_count of
                  Inl e \<Rightarrow> Inl e
                | Inr choices \<Rightarrow> Inr \<lparr>cr_choices = choices, cr_first = hd choices\<rparr>)))"

section \<open>Chunks of a stream\<close>

fun choice_index_loop :: "nat \<Rightarrow> byte list \<Rightarrow> nat option" where
  "choice_index_loop val [] = Some val"
| "choice_index_loop val (c # cs) =
     (if \<not> is_digit c then None else choice_index_loop (wrap64 (wrap64 (val * 10) + digit_val c)) cs)"

definition parse_choice_index :: "byte list \<Rightarrow> jstoktok \<Rightarrow> nat option" where
  "parse_choice_index json tok =
     (if tk_type tok \<noteq> JSTOK_PRIMITIVE then None
      else case tok_span json tok of
        None \<Rightarrow> None
      | Some sp \<Rightarrow> if sp = [] then None else choice_index_loop 0 sp)"

fun find_choice_loop ::
  "byte list \<Rightarrow> jstoktok list \<Rightarrow> int \<Rightarrow> nat \<Rightarrow> nat \<Rightarrow> nat \<Rightarrow> int \<Rightarrow> int" where
  "find_choice_loop json tokens choices_idx choice_index i 0 fallback = (if choice_index = 0 then fallback else -1)"
| "find_choice_loop json tokens choices_idx choice_index i (Suc n) fallback =
     (let choice_idx = arr_get tokens choices_idx (int i) in
      if choice_idx < 0 \<or> tk_type (tokens ! nat choice_idx) \<noteq> JSTOK_OBJECT
      then find_choice_loop json tokens choices_idx choice_index (i + 1) n fallback
      else
        (let fallback1 = (if choice_index = 0 \<and> fallback < 0 then choice_idx else fallback);
             index_idx = obj_get_key tokens choice_idx json (lit ''index'') in
         if index_idx \<ge> 0 \<and> parse_choice_index json (tokens ! nat index_idx) = Some choice_index then choice_idx
         else find_choice_loop json tokens choices_idx choice_index (i + 1) n fallback1))"

lemma find_choice_loop_code [code]:
  "find_choice_loop json tokens choices_idx choice_index i n fallback =
     (if n = 0 then (if choice_index = 0 then fallback else -1)
      else let choice_idx = arr_get tokens choices_idx (int i) in
        if choice_idx < 0 \<or> tk_type (tokens ! nat choice_idx) \<noteq> JSTOK_OBJECT
        then find_choice_loop json tokens choices_idx choice_index (i + 1) (n - 1) fallback
        else
          (let fallback1 = (if choice_index = 0 \<and> fallback < 0 then choice_idx else fallback);
               index_idx = obj_get_key tokens choice_idx json (lit ''index'') in
           if index_idx \<ge> 0 \<and> parse_choice_index json (tokens ! nat index_idx) = Some choice_index then choice_idx
           else find_choice_loop json tokens choices_idx choice_index (i + 1) (n - 1) fallback1))"
  by (cases n) (simp_all add: Let_def)

definition find_choice_token :: "byte list \<Rightarrow> jstoktok list \<Rightarrow> int \<Rightarrow> nat \<Rightarrow> int" where
  "find_choice_token json tokens choices_idx choice_index =
     (let size = tk_size (tokens ! nat choices_idx) in
      if size \<le> 0 then -1 else find_choice_loop json tokens choices_idx choice_index 0 (nat size) (-1))"

definition span_of :: "byte list option \<Rightarrow> cspan" where
  "span_of sp = (case sp of None \<Rightarrow> SNull 0 | Some bs \<Rightarrow> SPtr bs)"

definition parse_tool_delta :: "byte list \<Rightarrow> jstoktok list \<Rightarrow> int \<Rightarrow> tool_call_delta" where
  "parse_tool_delta json tokens tool_idx =
     (let index_idx = obj_get_key tokens tool_idx json (lit ''index'');
          func_idx = obj_get_key tokens tool_idx json (lit ''function'');
          func = (func_idx \<ge> 0 \<and> tk_type (tokens ! nat func_idx) = JSTOK_OBJECT) in
      \<lparr>td_index = (if index_idx \<ge> 0
                   then (case parse_choice_index json (tokens ! nat index_idx) of None \<Rightarrow> 0 | Some v \<Rightarrow> v) else 0),
       td_id = span_of (extract_optional_string_field json tokens tool_idx (lit ''id'')),
       td_name = span_of (if func then extract_optional_string_field json tokens func_idx (lit ''name'') else None),
       td_arguments_fragment =
         span_of (if func then extract_optional_string_field json tokens func_idx (lit ''arguments'') else None)\<rparr>)"

definition empty_delta :: llm_chat_chunk_delta where
  "empty_delta = \<lparr>cd_content_delta = None, cd_reasoning_delta = None, cd_tool_call_deltas = [],
     cd_finish_reason = LLM_FINISH_REASON_UNKNOWN\<rparr>"

definition parse_delta_object ::
  "(nat \<Rightarrow> bool) \<Rightarrow> byte list \<Rightarrow> jstoktok list \<Rightarrow> int \<Rightarrow> llm_chat_chunk_delta \<Rightarrow> parse_err + llm_chat_chunk_delta" where
  "parse_delta_object alloc json tokens delta_obj_idx delta =
     (let delta = delta\<lparr>cd_content_delta := extract_optional_string_field json tokens delta_obj_idx (lit ''content''),
                        cd_reasoning_delta := extract_reasoning_span json tokens delta_obj_idx\<rparr>;
          tool_calls_idx = obj_get_key tokens delta_obj_idx json (lit ''tool_calls'') in
      if tool_calls_idx \<ge> 0 \<and> tk_type (tokens ! nat tool_calls_idx) = JSTOK_ARRAY \<and>
         tk_size (tokens ! nat tool_calls_idx) > 0
      then
        (let tool_count = nat (tk_size (tokens ! nat tool_calls_idx)) in
         if \<not> alloc (tool_count * TOOL_CALL_DELTA_SIZE) then Inl (PErrJson JSTOK_ERROR_NOMEM)
         else case parse_elements tokens tool_calls_idx (\<lambda>j. Inr (parse_tool_delta json tokens j)) 0 tool_count of
           Inl e \<Rightarrow> Inl e
         | Inr tds \<Rightarrow> Inr (delta\<lparr>cd_tool_call_deltas := tds\<rparr>))
      else Inr delta)"

definition parse_chat_chunk_choice ::
  "(nat \<Rightarrow> bool) \<Rightarrow> byte list \<Rightarrow> nat \<Rightarrow> chunk_err + llm_chat_chunk_delta \<times> llm_usage \<times> bool" where
  "parse_chat_chunk_choice alloc json choice_index =
     (case tokenize alloc json of
        Inl e \<Rightarrow> Inl (ChunkErr (PErrJson e))
      | Inr tokens \<Rightarrow>
          if tokens = [] \<or> tk_type (tokens ! 0) \<noteq> JSTOK_OBJECT then Inl (ChunkErr PErrProtocol)
          else case usage_parse json tokens of
            Inl e \<Rightarrow> Inl e
          | Inr (usage, usage_present) \<Rightarrow>
              (let choices_idx = obj_get_key tokens 0 json (lit ''choices'') in
               if choices_idx \<ge> 0 \<and> tk_type (tokens ! nat choices_idx) = JSTOK_ARRAY \<and>
                  tk_size (tokens ! nat choices_idx) > 0
               then
                 (let choice_idx = find_choice_token json tokens choices_idx choice_index in
                  if choice_idx < 0 then Inr (empty_delta, usage, usage_present)
                  else
                    (let delta = empty_delta\<lparr>cd_finish_reason :=
                           finish_of (extract_optional_string_field json tokens choice_idx (lit ''finish_reason''))\<rparr>;
                         delta_obj_idx = obj_get_key tokens choice_idx json (lit ''delta'') in
                     if delta_obj_idx \<ge> 0 \<and> tk_type (tokens ! nat delta_obj_idx) = JSTOK_OBJECT
                     then (case parse_delta_object alloc json tokens delta_obj_idx delta of
                             Inl e \<Rightarrow> Inl (ChunkErr e)
                           | Inr delta \<Rightarrow> Inr (delta, usage, usage_present))
                     else Inr (delta, usage, usage_present)))
               else Inr (empty_delta, usage, usage_present)))"

definition parse_chat_chunk :: "(nat \<Rightarrow> bool) \<Rightarrow> byte list \<Rightarrow> chunk_err + llm_chat_chunk_delta \<times> llm_usage \<times> bool" where
  "parse_chat_chunk alloc json = parse_chat_chunk_choice alloc json 0"

end
