(* ===== verification/JsonDoc.thy ===== *)
theory JsonDoc
  imports JsonCore JstokSound JstokComplete JstokCount
begin

text \<open>
  What \<open>tokenize\<close> gives the protocol parsers: on a document that parses as the trees
  \<open>ts\<close> it is the tokens of those trees, and the first tree sits at index 0; on any other input
  it is an error. The parsers use the tokens only through the accessors of \<open>JsonCore\<close>, so each
  of them is compared with a reader of the first tree.
\<close>

definition doc :: "byte list \<Rightarrow> jtree list \<Rightarrow> bool" where
  "doc json ts \<longleftrightarrow> length json < 2 ^ 31 \<and> jtop json 0 (length json) ts \<and> list_all (\<lambda>t. depth t \<le> JSTOK_MAX_DEPTH) ts"

lemma tokenize_doc:
  assumes "doc json ts" shows "tokenize (\<lambda>n. True) json = Inr (flats ts)"
proof -
  let ?arr = "replicate (length (flats ts)) \<lparr>tk_type = JSTOK_UNDEFINED, tk_start = 0, tk_end = 0, tk_size = 0\<rparr>"
  obtain p where w: "jstok_parse False jstok_init (Some json) (Some ?arr) =
      (Inr (length (flats ts)), p, Some (flats ts))"
    using jstok_parse_complete [of json ts ?arr False] assms by (auto simp: doc_def list_all_iff)
  obtain r pc t where c: "jstok_parse False jstok_init (Some json) None = (r, pc, t)" by (metis prod_cases3)
  have "r = Inr (length (flats ts))" using jstok_parse_agree [OF c w] by (auto split: if_splits)
  with c w assms show ?thesis by (simp add: tokenize_def json_arg_small doc_def)
qed

lemma tokenize_Inr:
  assumes "length json < 2 ^ 31" "tokenize alloc json = Inr tokens"
  shows "\<exists>ts. doc json ts \<and> tokens = flats ts"
proof -
  obtain needed where n: "fst (jstok_parse False jstok_init (Some json) None) = Inr needed"
    using assms by (cases "fst (jstok_parse False jstok_init (Some json) None)") (auto simp: tokenize_def json_arg_small)
  obtain r p toks where w: "jstok_parse False jstok_init (Some json)
      (Some (replicate needed \<lparr>tk_type = JSTOK_UNDEFINED, tk_start = 0, tk_end = 0, tk_size = 0\<rparr>)) = (r, p, toks)"
    by (metis prod_cases3)
  obtain k where r: "r = Inr k" using assms n w by (cases r) (auto simp: tokenize_def json_arg_small split: if_splits)
  obtain ts where ts: "jtop json 0 (length json) ts" "\<forall>t\<in>set ts. depth t \<le> JSTOK_MAX_DEPTH" "k = length (flats ts)"
    "take k (the toks) = flats ts"
    using jstok_parse_sound [OF w [unfolded r]] by auto
  then have "doc json ts" using assms(1) by (simp add: doc_def list_all_iff)
  moreover have "tokens = flats ts" using assms n w r ts(4) by (auto simp: tokenize_def json_arg_small split: if_splits)
  ultimately show ?thesis by blast
qed

lemma doc_sits: "doc json (t # ts) \<Longrightarrow> sits (flats (t # ts)) 0 t"
  using jtop_wb [of json 0 "length json" "t # ts"] by (auto simp: doc_def sits_def tok_at_def)

lemma flats_Nil_iff: "flats ts = [] \<longleftrightarrow> ts = []"
  by (cases ts; cases "hd ts") auto

text \<open>Documents for the examples, written with a backquote for the double quote.\<close>

definition qlit :: "string \<Rightarrow> byte list" where
  "qlit s = map (\<lambda>b. if b = 0x60 then C_QUOTE else b) (lit s)"

section \<open>Readers of a tree\<close>

text \<open>The elements of an array, all of them objects.\<close>

fun tree_elems :: "(jtree \<Rightarrow> parse_err + 'a) \<Rightarrow> jtree list \<Rightarrow> parse_err + 'a list" where
  "tree_elems f [] = Inr []"
| "tree_elems f (t # ts) =
     (if \<not> is_obj t then Inl PErrProtocol
      else case f t of
        Inl e \<Rightarrow> Inl e
      | Inr x \<Rightarrow> (case tree_elems f ts of Inl e \<Rightarrow> Inl e | Inr xs \<Rightarrow> Inr (x # xs)))"

text \<open>A member that is an array, with its elements; a member that is an object.\<close>

definition tree_arr :: "byte list \<Rightarrow> jtree \<Rightarrow> byte list \<Rightarrow> jtree list option" where
  "tree_arr json t key = (case tree_get json t key of None \<Rightarrow> None | Some v \<Rightarrow> arr_elems v)"

definition tree_obj :: "byte list \<Rightarrow> jtree \<Rightarrow> byte list \<Rightarrow> jtree option" where
  "tree_obj json t key = (case tree_get json t key of None \<Rightarrow> None | Some v \<Rightarrow> if is_obj v then Some v else None)"

lemma is_obj_not_arr: "is_obj t \<Longrightarrow> arr_elems t = None"
  by (cases t) simp_all

text \<open>The accessors on the tokens of an object give the member of the tree, or -1.\<close>

lemma sits_member:
  assumes "sits toks i t" "is_obj t"
  obtains (missing) "tree_get json t key = None" "obj_get_key toks (int i) json key = -1"
  | (found) v j where "tree_get json t key = Some v" "obj_get_key toks (int i) json key = int j" "sits toks j v"
  using sits_get [OF assms(1), of json key] assms(2) by (cases "tree_get json t key") auto

lemma sits_tree_arr:
  assumes "sits toks i t" "is_obj t"
  shows "case tree_arr json t key of
      None \<Rightarrow> \<not> (obj_get_key toks (int i) json key \<ge> 0 \<and>
        tk_type (toks ! nat (obj_get_key toks (int i) json key)) = JSTOK_ARRAY)
    | Some ts \<Rightarrow> \<exists>j v. obj_get_key toks (int i) json key = int j \<and> tree_get json t key = Some v \<and>
        sits toks j v \<and> arr_elems v = Some ts \<and> tk_type (toks ! j) = JSTOK_ARRAY \<and> tk_size (toks ! j) = int (length ts)"
  using sits_member [OF assms, of json key]
  by cases (auto simp: tree_arr_def sits_head split: option.split)

lemma sits_tree_obj:
  assumes "sits toks i t" "is_obj t"
  shows "case tree_obj json t key of
      None \<Rightarrow> \<not> (obj_get_key toks (int i) json key \<ge> 0 \<and>
        tk_type (toks ! nat (obj_get_key toks (int i) json key)) = JSTOK_OBJECT)
    | Some v \<Rightarrow> \<exists>j. obj_get_key toks (int i) json key = int j \<and> sits toks j v \<and> is_obj v \<and>
        tk_type (toks ! j) = JSTOK_OBJECT"
  using sits_member [OF assms, of json key]
  by cases (auto simp: tree_obj_def sits_head split: option.split)

end
