(* ===== verification/ChatTree.thy ===== *)
theory ChatTree
  imports ProtocolChat JsonDoc
begin

text \<open>
  What the parsers of \<open>ProtocolChat\<close> mean: readers of the document's tree, without tokens,
  indices and sizes, and the proof that the code computes them.
\<close>

section \<open>Shared steps\<close>

lemma parse_elements_tree:
  assumes "sits toks i t" "arr_elems t = Some ts" "n \<le> length ts"
    "\<And>v j. is_obj v \<Longrightarrow> sits toks j v \<Longrightarrow> f (int j) = g v"
  shows "parse_elements toks (int i) f n (length ts - n) = tree_elems g (drop n ts)"
  using assms(3)
proof (induction "length ts - n" arbitrary: n)
  case 0
  then show ?case by simp
next
  case (Suc k)
  then have n: "n < length ts" by simp
  obtain j where j: "arr_get toks (int i) (int n) = int j" "sits toks j (ts ! n)"
    using sits_elem [OF assms(1,2) n] by blast
  have "k = length ts - (n + 1)" "n + 1 \<le> length ts" using Suc(2) by simp_all
  with Suc(1) [of "n + 1"] have "parse_elements toks (int i) f (n + 1) k = tree_elems g (drop (n + 1) ts)" by metis
  moreover have "drop n ts = ts ! n # drop (n + 1) ts" using n by (simp add: Cons_nth_drop_Suc)
  moreover have "length ts - n = Suc k" using Suc(2) by simp
  ultimately show ?case
    using j sits_head(2) [OF j(2)] assms(4) [OF _ j(2)] by (simp add: Let_def cong: sum.case_cong)
qed

section \<open>Responses\<close>

definition tree_reasoning :: "byte list \<Rightarrow> jtree \<Rightarrow> byte list option" where
  "tree_reasoning json t =
     (case tree_str json t (lit ''reasoning_content'') of
        Some s \<Rightarrow> Some s
      | None \<Rightarrow> tree_str json t (lit ''thinking''))"

definition tree_call :: "byte list \<Rightarrow> jtree \<Rightarrow> llm_tool_call" where
  "tree_call json t =
     (let field = (\<lambda>key. case tree_obj json t (lit ''function'') of None \<Rightarrow> None | Some f \<Rightarrow> tree_str json f key) in
      \<lparr>tc_id = tree_str json t (lit ''id''), tc_name = field (lit ''name''), tc_arguments = field (lit ''arguments'')\<rparr>)"

definition tree_choice :: "byte list \<Rightarrow> jtree \<Rightarrow> parse_err + llm_chat_choice" where
  "tree_choice json t =
     (case tree_obj json t (lit ''message'') of
        None \<Rightarrow> Inl PErrProtocol
      | Some m \<Rightarrow>
          (case tree_elems (\<lambda>c. Inr (tree_call json c))
              (case tree_arr json m (lit ''tool_calls'') of None \<Rightarrow> [] | Some cs \<Rightarrow> cs) of
             Inl e \<Rightarrow> Inl e
           | Inr tcs \<Rightarrow>
               Inr \<lparr>ch_finish_reason = finish_of (tree_str json t (lit ''finish_reason'')),
                    ch_content = tree_str json m (lit ''content''),
                    ch_reasoning_content = tree_reasoning json m,
                    ch_tool_calls = tcs,
                    ch_tool_calls_json =
                      (if tree_arr json m (lit ''tool_calls'') = None then None
                       else map_option (tree_text json) (tree_get json m (lit ''tool_calls'')))\<rparr>))"

definition tree_response :: "byte list \<Rightarrow> jtree list \<Rightarrow> parse_err + llm_chat_result" where
  "tree_response json ts =
     (case ts of
        [] \<Rightarrow> Inl PErrProtocol
      | t # _ \<Rightarrow>
          (case (if is_obj t then tree_arr json t (lit ''choices'') else None) of
             None \<Rightarrow> Inl PErrProtocol
           | Some cs \<Rightarrow>
               if cs = [] then Inl PErrProtocol
               else (case tree_elems (tree_choice json) cs of
                       Inl e \<Rightarrow> Inl e
                     | Inr chs \<Rightarrow> Inr \<lparr>cr_choices = chs, cr_first = hd chs\<rparr>)))"

lemma reasoning_tree:
  "sits toks i t \<Longrightarrow> is_obj t \<Longrightarrow> extract_reasoning_span json toks (int i) = tree_reasoning json t"
  by (simp add: extract_reasoning_span_def tree_reasoning_def sits_str del: lit_Cons split: option.split)

lemma parse_tool_call_tree:
  assumes "sits toks i t" "is_obj t"
  shows "parse_tool_call json toks (int i) = tree_call json t"
  using sits_tree_obj [OF assms, of json "lit ''function''"] assms
  by (auto simp: parse_tool_call_def tree_call_def Let_def sits_str split: option.splits simp del: lit_Cons)

lemma parse_tool_calls_tree:
  assumes "sits toks i m" "is_obj m"
  shows "parse_tool_calls (\<lambda>n. True) json toks (int i) =
    (case tree_elems (\<lambda>c. Inr (tree_call json c))
        (case tree_arr json m (lit ''tool_calls'') of None \<Rightarrow> [] | Some cs \<Rightarrow> cs) of
       Inl e \<Rightarrow> Inl e
     | Inr tcs \<Rightarrow> Inr (tcs, if tree_arr json m (lit ''tool_calls'') = None then None
         else map_option (tree_text json) (tree_get json m (lit ''tool_calls''))))"
proof (cases "tree_arr json m (lit ''tool_calls'')")
  case None
  with sits_tree_arr [OF assms, of json "lit ''tool_calls''"] show ?thesis
    by (auto simp: parse_tool_calls_def Let_def simp del: lit_Cons)
next
  case (Some cs)
  with sits_tree_arr [OF assms, of json "lit ''tool_calls''"] obtain j v where
    j: "obj_get_key toks (int i) json (lit ''tool_calls'') = int j"
      "tree_get json m (lit ''tool_calls'') = Some v" "sits toks j v" "arr_elems v = Some cs"
      "tk_type (toks ! j) = JSTOK_ARRAY" "tk_size (toks ! j) = int (length cs)" by auto
  have "parse_elements toks (int j) (\<lambda>k. Inr (parse_tool_call json toks k)) 0 (length cs) =
      tree_elems (\<lambda>c. Inr (tree_call json c)) cs"
    using parse_elements_tree [OF j(3,4), of 0 "\<lambda>k. Inr (parse_tool_call json toks k)" "\<lambda>c. Inr (tree_call json c)"]
      parse_tool_call_tree by simp
  with Some j sits_head(5) [OF j(3)] show ?thesis
    by (cases "cs = []") (simp_all add: parse_tool_calls_def Let_def del: lit_Cons split: sum.split)
qed

lemma parse_choice_tree:
  assumes "sits toks i t" "is_obj t"
  shows "parse_choice (\<lambda>n. True) json toks (int i) = tree_choice json t"
proof (cases "tree_obj json t (lit ''message'')")
  case None
  with sits_tree_obj [OF assms, of json "lit ''message''"] show ?thesis
    by (auto simp: parse_choice_def tree_choice_def Let_def simp del: lit_Cons)
next
  case (Some m)
  with sits_tree_obj [OF assms, of json "lit ''message''"] obtain j where
    j: "obj_get_key toks (int i) json (lit ''message'') = int j" "sits toks j m" "is_obj m"
      "tk_type (toks ! j) = JSTOK_OBJECT" by auto
  note p = parse_tool_calls_tree [OF j(2,3)]
  show ?thesis using Some j sits_str [OF j(2,3)] sits_str [OF assms] reasoning_tree [OF j(2,3)]
    by (simp add: parse_choice_def tree_choice_def Let_def p del: lit_Cons split: sum.splits)
qed

text \<open>
  The skeleton all response parsers share: a member of the root that is a non-empty array of
  objects, each read by \<open>f\<close>; and its reading on the trees.
\<close>

definition array_response ::
  "byte list \<Rightarrow> (jstoktok list \<Rightarrow> int \<Rightarrow> parse_err + 'a) \<Rightarrow> byte list \<Rightarrow> parse_err + 'a list" where
  "array_response key f json =
     (case tokenize (\<lambda>n. True) json of
        Inl e \<Rightarrow> Inl (PErrJson e)
      | Inr tokens \<Rightarrow>
          if tokens = [] \<or> tk_type (tokens ! 0) \<noteq> JSTOK_OBJECT then Inl PErrProtocol
          else
            (let idx = obj_get_key tokens 0 json key in
             if idx < 0 \<or> tk_type (tokens ! nat idx) \<noteq> JSTOK_ARRAY \<or> tk_size (tokens ! nat idx) \<le> 0
             then Inl PErrProtocol
             else parse_elements tokens idx (f tokens) 0 (nat (tk_size (tokens ! nat idx)))))"

definition tree_array_response ::
  "byte list \<Rightarrow> (jtree \<Rightarrow> parse_err + 'a) \<Rightarrow> byte list \<Rightarrow> jtree list \<Rightarrow> parse_err + 'a list" where
  "tree_array_response key g json ts =
     (case ts of
        [] \<Rightarrow> Inl PErrProtocol
      | t # _ \<Rightarrow>
          (case (if is_obj t then tree_arr json t key else None) of
             None \<Rightarrow> Inl PErrProtocol
           | Some cs \<Rightarrow> if cs = [] then Inl PErrProtocol else tree_elems g cs))"

lemma array_response_tree:
  assumes "doc json ts" "\<And>toks v j. is_obj v \<Longrightarrow> sits toks j v \<Longrightarrow> f toks (int j) = g v"
  shows "array_response key f json = tree_array_response key g json ts"
proof (cases ts)
  case Nil
  then show ?thesis using tokenize_doc [OF assms(1)] by (simp add: array_response_def tree_array_response_def)
next
  case (Cons t us)
  let ?toks = "flats (t # us)"
  have s: "sits ?toks 0 t" using doc_sits assms(1) Cons by blast
  have ne: "?toks \<noteq> []" by (simp only: flats_Nil_iff) simp
  have tk: "tokenize (\<lambda>n. True) json = Inr ?toks" using tokenize_doc [OF assms(1)] Cons by simp
  note base = tk ne sits_head(2) [OF s] Cons
  show ?thesis
  proof (cases "is_obj t")
    case False
    with base show ?thesis by (simp add: array_response_def tree_array_response_def del: flats_simps)
  next
    case True
    show ?thesis
    proof (cases "tree_arr json t key")
      case None
      with sits_tree_arr [OF s True, of json key] True base show ?thesis
        by (auto simp: array_response_def tree_array_response_def Let_def simp del: flats_simps)
    next
      case (Some cs)
      with sits_tree_arr [OF s True, of json key] obtain j v where
        j: "obj_get_key ?toks 0 json key = int j" "sits ?toks j v" "arr_elems v = Some cs"
          "tk_type (?toks ! j) = JSTOK_ARRAY" "tk_size (?toks ! j) = int (length cs)" by auto
      have "parse_elements ?toks (int j) (f ?toks) 0 (length cs) = tree_elems g cs"
        using parse_elements_tree [OF j(2,3), of 0 "f ?toks" g] assms(2) by (simp del: flats_simps)
      with Some j True base show ?thesis
        by (simp add: array_response_def tree_array_response_def Let_def del: flats_simps)
    qed
  qed
qed

lemma parse_chat_response_tree:
  assumes "doc json ts" shows "parse_chat_response (\<lambda>n. True) json = tree_response json ts"
proof -
  have "parse_chat_response (\<lambda>n. True) json =
      (case array_response (lit ''choices'') (parse_choice (\<lambda>n. True) json) json of
         Inl e \<Rightarrow> Inl e | Inr cs \<Rightarrow> Inr \<lparr>cr_choices = cs, cr_first = hd cs\<rparr>)"
    by (simp add: parse_chat_response_def array_response_def Let_def del: lit_Cons split: sum.split)
  also have "array_response (lit ''choices'') (parse_choice (\<lambda>n. True) json) json =
      tree_array_response (lit ''choices'') (tree_choice json) json ts"
    by (rule array_response_tree [OF assms]) (simp add: parse_choice_tree)
  also have "(case tree_array_response (lit ''choices'') (tree_choice json) json ts of
         Inl e \<Rightarrow> Inl e | Inr cs \<Rightarrow> Inr \<lparr>cr_choices = cs, cr_first = hd cs\<rparr>) = tree_response json ts"
    by (simp add: tree_response_def tree_array_response_def del: lit_Cons split: list.split option.split)
  finally show ?thesis .
qed

section \<open>Chunks\<close>

definition tree_counter :: "byte list \<Rightarrow> jtree \<Rightarrow> string \<Rightarrow> chunk_err + nat option" where
  "tree_counter json u key =
     (case tree_get json u (lit key) of
        None \<Rightarrow> Inr None
      | Some v \<Rightarrow> usage_parse_field json (hd (flat v)))"

definition tree_usage :: "byte list \<Rightarrow> jtree \<Rightarrow> chunk_err + llm_usage \<times> bool" where
  "tree_usage json t =
     (case tree_obj json t (lit ''usage'') of
        None \<Rightarrow> Inr usage_init
      | Some u \<Rightarrow>
          (case tree_counter json u ''prompt_tokens'' of
             Inl e \<Rightarrow> Inl e
           | Inr p \<Rightarrow>
               (case tree_counter json u ''completion_tokens'' of
                  Inl e \<Rightarrow> Inl e
                | Inr c \<Rightarrow>
                    (case tree_counter json u ''total_tokens'' of
                       Inl e \<Rightarrow> Inl e
                     | Inr n \<Rightarrow>
                         Inr (\<lparr>us_prompt_tokens = p, us_completion_tokens = c, us_total_tokens = n\<rparr>, True)))))"

definition tree_index :: "byte list \<Rightarrow> jtree \<Rightarrow> nat option" where
  "tree_index json t =
     (case tree_get json t (lit ''index'') of None \<Rightarrow> None | Some v \<Rightarrow> parse_choice_index json (hd (flat v)))"

text \<open>
  The choice a chunk is about: the first object whose index is the requested one, and for
  choice 0, if there is none, the first object.
\<close>

definition tree_find_choice :: "byte list \<Rightarrow> jtree list \<Rightarrow> nat \<Rightarrow> jtree option" where
  "tree_find_choice json cs choice_index =
     (case find (\<lambda>c. is_obj c \<and> tree_index json c = Some choice_index) cs of
        Some c \<Rightarrow> Some c
      | None \<Rightarrow> if choice_index = 0 then find is_obj cs else None)"

definition tree_call_delta :: "byte list \<Rightarrow> jtree \<Rightarrow> tool_call_delta" where
  "tree_call_delta json t =
     (let field = (\<lambda>key. case tree_obj json t (lit ''function'') of None \<Rightarrow> None | Some f \<Rightarrow> tree_str json f key) in
      \<lparr>td_index = (case tree_index json t of None \<Rightarrow> 0 | Some n \<Rightarrow> n),
       td_id = span_of (tree_str json t (lit ''id'')), td_name = span_of (field (lit ''name'')),
       td_arguments_fragment = span_of (field (lit ''arguments''))\<rparr>)"

definition tree_delta :: "byte list \<Rightarrow> jtree \<Rightarrow> parse_err + llm_chat_chunk_delta" where
  "tree_delta json c =
     (let finish = finish_of (tree_str json c (lit ''finish_reason'')) in
      case tree_obj json c (lit ''delta'') of
        None \<Rightarrow> Inr (empty_delta\<lparr>cd_finish_reason := finish\<rparr>)
      | Some d \<Rightarrow>
          (case tree_elems (\<lambda>t. Inr (tree_call_delta json t))
              (case tree_arr json d (lit ''tool_calls'') of None \<Rightarrow> [] | Some ts \<Rightarrow> ts) of
             Inl e \<Rightarrow> Inl e
           | Inr tds \<Rightarrow>
               Inr \<lparr>cd_content_delta = tree_str json d (lit ''content''), cd_reasoning_delta = tree_reasoning json d,
                    cd_tool_call_deltas = tds, cd_finish_reason = finish\<rparr>))"

definition tree_chunk :: "byte list \<Rightarrow> jtree list \<Rightarrow> nat \<Rightarrow> chunk_err + llm_chat_chunk_delta \<times> llm_usage \<times> bool" where
  "tree_chunk json ts choice_index =
     (case ts of
        [] \<Rightarrow> Inl (ChunkErr PErrProtocol)
      | t # _ \<Rightarrow>
          if \<not> is_obj t then Inl (ChunkErr PErrProtocol)
          else case tree_usage json t of
            Inl e \<Rightarrow> Inl e
          | Inr (usage, present) \<Rightarrow>
              (case tree_find_choice json
                  (case tree_arr json t (lit ''choices'') of None \<Rightarrow> [] | Some cs \<Rightarrow> cs) choice_index of
                 None \<Rightarrow> Inr (empty_delta, usage, present)
               | Some c \<Rightarrow>
                   (case tree_delta json c of
                      Inl e \<Rightarrow> Inl (ChunkErr e)
                    | Inr d \<Rightarrow> Inr (d, usage, present))))"

lemma sits_hd: "sits toks j v \<Longrightarrow> toks ! j = hd (flat v)"
  using tok_at_head by (auto simp: sits_def)

lemma usage_counter_tree:
  assumes "sits toks i u" "is_obj u"
  shows "usage_counter json toks (int i) key = tree_counter json u key"
  using sits_member [OF assms, of json "lit key"]
  by cases (simp_all add: usage_counter_def tree_counter_def sits_hd)

lemma usage_parse_tree:
  assumes "sits toks 0 t" "is_obj t"
  shows "usage_parse json toks = tree_usage json t"
proof (cases "tree_obj json t (lit ''usage'')")
  case None
  with sits_tree_obj [OF assms, of json "lit ''usage''"] show ?thesis
    by (auto simp: usage_parse_def tree_usage_def Let_def simp del: lit_Cons)
next
  case (Some u)
  with sits_tree_obj [OF assms, of json "lit ''usage''"] obtain j where
    j: "obj_get_key toks 0 json (lit ''usage'') = int j" "sits toks j u" "is_obj u" "tk_type (toks ! j) = JSTOK_OBJECT"
    by auto
  show ?thesis using Some j(1,4)
    by (simp add: usage_parse_def tree_usage_def Let_def usage_counter_tree [OF j(2,3)] del: lit_Cons
        split: sum.split)
qed

lemma index_tree:
  assumes "sits toks i t" "is_obj t"
  shows "(if obj_get_key toks (int i) json (lit ''index'') \<ge> 0
      then parse_choice_index json (toks ! nat (obj_get_key toks (int i) json (lit ''index''))) else None) =
    tree_index json t"
  using sits_member [OF assms, of json "lit ''index''"]
  by cases (simp_all add: tree_index_def sits_hd del: lit_Cons)

lemma parse_tool_delta_tree:
  assumes "sits toks i t" "is_obj t"
  shows "parse_tool_delta json toks (int i) = tree_call_delta json t"
proof -
  have "(if obj_get_key toks (int i) json (lit ''index'') \<ge> 0
      then (case parse_choice_index json (toks ! nat (obj_get_key toks (int i) json (lit ''index''))) of None \<Rightarrow> 0 | Some v \<Rightarrow> v)
      else 0) = (case tree_index json t of None \<Rightarrow> 0 | Some n \<Rightarrow> n)"
    unfolding index_tree [OF assms, of json, symmetric] by simp
  then show ?thesis using sits_tree_obj [OF assms, of json "lit ''function''"] assms
    by (auto simp: parse_tool_delta_def tree_call_delta_def Let_def sits_str split: option.splits simp del: lit_Cons)
qed

text \<open>An index the code found, or a negative one, for a tree that is there or not.\<close>

definition located :: "jstoktok list \<Rightarrow> int \<Rightarrow> jtree option \<Rightarrow> bool" where
  "located toks r c = (case c of None \<Rightarrow> r < 0 | Some t \<Rightarrow> \<exists>j. r = int j \<and> sits toks j t \<and> is_obj t)"

text \<open>The choice of the remaining elements, given the first object seen before them.\<close>

definition chosen :: "byte list \<Rightarrow> nat \<Rightarrow> jtree option \<Rightarrow> jtree list \<Rightarrow> jtree option" where
  "chosen json k fo cs =
     (case find (\<lambda>c. is_obj c \<and> tree_index json c = Some k) cs of
        Some c \<Rightarrow> Some c
      | None \<Rightarrow> if k = 0 then (case fo of Some c \<Rightarrow> Some c | None \<Rightarrow> find is_obj cs) else None)"

lemma chosen_skip: "\<not> is_obj c \<Longrightarrow> chosen json k fo (c # cs) = chosen json k fo cs"
  by (simp add: chosen_def split: option.split)

lemma chosen_hit: "is_obj c \<Longrightarrow> tree_index json c = Some k \<Longrightarrow> chosen json k fo (c # cs) = Some c"
  by (simp add: chosen_def)

lemma chosen_other:
  "is_obj c \<Longrightarrow> tree_index json c \<noteq> Some k \<Longrightarrow>
   chosen json k fo (c # cs) = chosen json k (if k = 0 \<and> fo = None then Some c else fo) cs"
  by (cases fo) (simp_all add: chosen_def split: option.split)

lemma chosen_all: "chosen json k None cs = tree_find_choice json cs k"
  by (simp add: chosen_def tree_find_choice_def split: option.split)

lemma find_choice_loop_tree:
  assumes "sits toks i v" "arr_elems v = Some cs" "n \<le> length cs" "located toks fallback fo" "k = 0 \<or> fo = None"
  shows "located toks (find_choice_loop json toks (int i) k n (length cs - n) fallback) (chosen json k fo (drop n cs))"
  using assms(3,4,5)
proof (induction "length cs - n" arbitrary: n fallback fo)
  case 0
  then show ?case by (auto simp: located_def chosen_def split: option.splits)
next
  case (Suc m)
  then have n: "n < length cs" by simp
  obtain j where j: "arr_get toks (int i) (int n) = int j" "sits toks j (cs ! n)"
    using sits_elem [OF assms(1,2) n] by blast
  have d: "drop n cs = cs ! n # drop (n + 1) cs" using n by (simp add: Cons_nth_drop_Suc)
  have l: "length cs - n = Suc m" "m = length cs - (n + 1)" "n + 1 \<le> length cs" using Suc(2) n by simp_all
  note IH = Suc(1) [OF l(2,3), folded l(2)]
  have t: "tk_type (toks ! j) = JSTOK_OBJECT \<longleftrightarrow> is_obj (cs ! n)" by (rule sits_head(2) [OF j(2)])
  show ?case
  proof (cases "is_obj (cs ! n)")
    case False
    have "find_choice_loop json toks (int i) k n (Suc m) fallback = find_choice_loop json toks (int i) k (n + 1) m fallback"
      using j t False by (simp add: Let_def)
    then show ?thesis unfolding l(1) d chosen_skip [OF False] using IH [OF Suc(4,5)] by simp
  next
    case True
    have x: "(obj_get_key toks (int j) json (lit ''index'') \<ge> 0 \<and>
        parse_choice_index json (toks ! nat (obj_get_key toks (int j) json (lit ''index''))) = Some k) \<longleftrightarrow>
        tree_index json (cs ! n) = Some k"
      using index_tree [OF j(2) True, of json] by (auto split: if_splits)
    show ?thesis
    proof (cases "tree_index json (cs ! n) = Some k")
      case found: True
      then show ?thesis unfolding l(1) d chosen_hit [OF True found] using True j x t
        by (simp add: Let_def located_def del: lit_Cons)
    next
      case other: False
      let ?fb = "if k = 0 \<and> fallback < 0 then int j else fallback"
      let ?fo = "if k = 0 \<and> fo = None then Some (cs ! n) else fo"
      have fb: "located toks ?fb ?fo" using Suc(4) j(2) True by (auto simp: located_def split: option.splits)
      have "find_choice_loop json toks (int i) k n (Suc m) fallback = find_choice_loop json toks (int i) k (n + 1) m ?fb"
        using x j other True t by (auto simp: Let_def simp del: lit_Cons)
      then show ?thesis unfolding l(1) d chosen_other [OF True other] using IH [OF fb] Suc(5) by simp
    qed
  qed
qed

lemma find_choice_token_tree:
  assumes "sits toks i v" "arr_elems v = Some cs" "cs \<noteq> []"
  shows "located toks (find_choice_token json toks (int i) k) (tree_find_choice json cs k)"
proof -
  have "located toks (-1) None" by (simp add: located_def)
  from find_choice_loop_tree [OF assms(1,2) _ this, of 0 k json] sits_head(6) [OF assms(1,2)] assms(3)
  show ?thesis by (simp add: find_choice_token_def chosen_all)
qed

lemma parse_delta_object_tree:
  assumes "sits toks i d" "is_obj d"
  shows "parse_delta_object (\<lambda>n. True) json toks (int i) delta =
    (case tree_elems (\<lambda>t. Inr (tree_call_delta json t))
        (case tree_arr json d (lit ''tool_calls'') of None \<Rightarrow> [] | Some ts \<Rightarrow> ts) of
       Inl e \<Rightarrow> Inl e
     | Inr tds \<Rightarrow> Inr (delta\<lparr>cd_content_delta := tree_str json d (lit ''content''),
         cd_reasoning_delta := tree_reasoning json d,
         cd_tool_call_deltas := (if tds = [] then cd_tool_call_deltas delta else tds)\<rparr>))"
proof (cases "tree_arr json d (lit ''tool_calls'')")
  case None
  with sits_tree_arr [OF assms, of json "lit ''tool_calls''"] show ?thesis
    using sits_str [OF assms] reasoning_tree [OF assms]
    by (auto simp: parse_delta_object_def Let_def simp del: lit_Cons)
next
  case (Some cs)
  with sits_tree_arr [OF assms, of json "lit ''tool_calls''"] obtain j v where
    j: "obj_get_key toks (int i) json (lit ''tool_calls'') = int j" "sits toks j v" "arr_elems v = Some cs"
      "tk_type (toks ! j) = JSTOK_ARRAY" "tk_size (toks ! j) = int (length cs)" by auto
  have "parse_elements toks (int j) (\<lambda>k. Inr (parse_tool_delta json toks k)) 0 (length cs) =
      tree_elems (\<lambda>c. Inr (tree_call_delta json c)) cs"
    using parse_elements_tree [OF j(2,3), of 0 "\<lambda>k. Inr (parse_tool_delta json toks k)"
        "\<lambda>c. Inr (tree_call_delta json c)"] parse_tool_delta_tree by simp
  moreover have "tree_elems (\<lambda>c. Inr (tree_call_delta json c)) cs = Inr tds \<Longrightarrow> cs \<noteq> [] \<Longrightarrow> tds \<noteq> []" for tds
    by (cases cs) (auto split: if_splits sum.splits)
  ultimately show ?thesis using Some j sits_str [OF assms] reasoning_tree [OF assms]
    by (cases "cs = []") (auto simp: parse_delta_object_def Let_def simp del: lit_Cons split: sum.split)
qed

lemma parse_delta_tree:
  assumes "sits toks i c" "is_obj c"
  shows "(let delta = empty_delta\<lparr>cd_finish_reason :=
            finish_of (extract_optional_string_field json toks (int i) (lit ''finish_reason''))\<rparr>;
          delta_obj_idx = obj_get_key toks (int i) json (lit ''delta'') in
      if delta_obj_idx \<ge> 0 \<and> tk_type (toks ! nat delta_obj_idx) = JSTOK_OBJECT
      then (case parse_delta_object (\<lambda>n. True) json toks delta_obj_idx delta of
              Inl e \<Rightarrow> Inl (ChunkErr e)
            | Inr delta \<Rightarrow> Inr (delta, usage, usage_present))
      else Inr (delta, usage, usage_present)) =
    (case tree_delta json c of Inl e \<Rightarrow> Inl (ChunkErr e) | Inr d \<Rightarrow> Inr (d, usage, usage_present))"
proof (cases "tree_obj json c (lit ''delta'')")
  case None
  with sits_tree_obj [OF assms, of json "lit ''delta''"] sits_str [OF assms] show ?thesis
    by (auto simp: tree_delta_def Let_def simp del: lit_Cons)
next
  case (Some d)
  with sits_tree_obj [OF assms, of json "lit ''delta''"] obtain j where
    j: "obj_get_key toks (int i) json (lit ''delta'') = int j" "sits toks j d" "is_obj d"
      "tk_type (toks ! j) = JSTOK_OBJECT" by auto
  show ?thesis using Some j(1,4) sits_str [OF assms]
    by (simp add: tree_delta_def Let_def parse_delta_object_tree [OF j(2,3)] empty_delta_def del: lit_Cons
        split: sum.split)
qed

text \<open>The choice both chunk parsers work on.\<close>

definition chunk_choice_idx :: "byte list \<Rightarrow> jstoktok list \<Rightarrow> nat \<Rightarrow> int" where
  "chunk_choice_idx json tokens k =
     (let choices_idx = obj_get_key tokens 0 json (lit ''choices'') in
      if choices_idx \<ge> 0 \<and> tk_type (tokens ! nat choices_idx) = JSTOK_ARRAY \<and> tk_size (tokens ! nat choices_idx) > 0
      then find_choice_token json tokens choices_idx k else -1)"

lemma chunk_choice_tree:
  assumes "sits toks 0 t" "is_obj t"
  shows "located toks (chunk_choice_idx json toks k)
    (tree_find_choice json (case tree_arr json t (lit ''choices'') of None \<Rightarrow> [] | Some cs \<Rightarrow> cs) k)"
proof (cases "tree_arr json t (lit ''choices'')")
  case None
  with sits_tree_arr [OF assms, of json "lit ''choices''"] show ?thesis
    by (auto simp: chunk_choice_idx_def tree_find_choice_def located_def Let_def simp del: lit_Cons)
next
  case (Some cs)
  with sits_tree_arr [OF assms, of json "lit ''choices''"] obtain j v where
    j: "obj_get_key toks 0 json (lit ''choices'') = int j" "sits toks j v" "arr_elems v = Some cs"
      "tk_type (toks ! j) = JSTOK_ARRAY" "tk_size (toks ! j) = int (length cs)" by auto
  show ?thesis
  proof (cases "cs = []")
    case True
    with Some j show ?thesis
      by (simp add: chunk_choice_idx_def tree_find_choice_def located_def Let_def del: lit_Cons)
  next
    case False
    with find_choice_token_tree [OF j(2,3), of json k] Some j show ?thesis
      by (simp add: chunk_choice_idx_def Let_def del: lit_Cons)
  qed
qed

text \<open>
  The skeleton of both chunk parsers: the root, the usage report, then the choice, read by
  \<open>f\<close>, or the empty result.
\<close>

definition chunk_parser ::
  "(jstoktok list \<Rightarrow> int \<Rightarrow> llm_usage \<times> bool \<Rightarrow> chunk_err + 'a) \<Rightarrow> (llm_usage \<times> bool \<Rightarrow> 'a) \<Rightarrow> byte list \<Rightarrow> nat \<Rightarrow>
     chunk_err + 'a" where
  "chunk_parser f none json k =
     (case tokenize (\<lambda>n. True) json of
        Inl e \<Rightarrow> Inl (ChunkErr (PErrJson e))
      | Inr tokens \<Rightarrow>
          if tokens = [] \<or> tk_type (tokens ! 0) \<noteq> JSTOK_OBJECT then Inl (ChunkErr PErrProtocol)
          else case usage_parse json tokens of
            Inl e \<Rightarrow> Inl e
          | Inr u \<Rightarrow>
              (let i = chunk_choice_idx json tokens k in if i < 0 then Inr (none u) else f tokens i u))"

definition tree_chunk_parser ::
  "(jtree \<Rightarrow> llm_usage \<times> bool \<Rightarrow> chunk_err + 'a) \<Rightarrow> (llm_usage \<times> bool \<Rightarrow> 'a) \<Rightarrow> byte list \<Rightarrow> jtree list \<Rightarrow> nat \<Rightarrow>
     chunk_err + 'a" where
  "tree_chunk_parser g none json ts k =
     (case ts of
        [] \<Rightarrow> Inl (ChunkErr PErrProtocol)
      | t # _ \<Rightarrow>
          if \<not> is_obj t then Inl (ChunkErr PErrProtocol)
          else case tree_usage json t of
            Inl e \<Rightarrow> Inl e
          | Inr u \<Rightarrow>
              (case tree_find_choice json (case tree_arr json t (lit ''choices'') of None \<Rightarrow> [] | Some cs \<Rightarrow> cs) k of
                 None \<Rightarrow> Inr (none u)
               | Some c \<Rightarrow> g c u))"

lemma chunk_parser_tree:
  assumes "doc json ts" "\<And>toks v j u. is_obj v \<Longrightarrow> sits toks j v \<Longrightarrow> f toks (int j) u = g v u"
  shows "chunk_parser f none json k = tree_chunk_parser g none json ts k"
proof (cases ts)
  case Nil
  then show ?thesis using tokenize_doc [OF assms(1)] by (simp add: chunk_parser_def tree_chunk_parser_def)
next
  case (Cons t us)
  let ?toks = "flats (t # us)"
  have s: "sits ?toks 0 t" using doc_sits assms(1) Cons by blast
  have ne: "?toks \<noteq> []" by (simp only: flats_Nil_iff) simp
  have tk: "tokenize (\<lambda>n. True) json = Inr ?toks" using tokenize_doc [OF assms(1)] Cons by simp
  note base = tk ne sits_head(2) [OF s] Cons
  show ?thesis
  proof (cases "is_obj t")
    case False
    with base show ?thesis by (simp add: chunk_parser_def tree_chunk_parser_def del: flats_simps)
  next
    case True
    let ?c = "tree_find_choice json (case tree_arr json t (lit ''choices'') of None \<Rightarrow> [] | Some cs \<Rightarrow> cs) k"
    note l = chunk_choice_tree [OF s True, of json k] and u = usage_parse_tree [OF s True, of json]
    show ?thesis
    proof (cases ?c)
      case None
      with l have "chunk_choice_idx json ?toks k < 0" by (simp add: located_def)
      with None True base u show ?thesis
        by (simp add: chunk_parser_def tree_chunk_parser_def Let_def del: flats_simps lit_Cons split: sum.split)
    next
      case (Some c)
      with l obtain m where "chunk_choice_idx json ?toks k = int m" "sits ?toks m c" "is_obj c"
        by (auto simp: located_def simp del: flats_simps)
      with Some True base u assms(2) show ?thesis
        by (simp add: chunk_parser_def tree_chunk_parser_def Let_def del: flats_simps lit_Cons split: sum.split)
    qed
  qed
qed

lemma parse_chat_chunk_choice_tree:
  assumes "doc json ts" shows "parse_chat_chunk_choice (\<lambda>n. True) json k = tree_chunk json ts k"
proof -
  let ?f = "\<lambda>toks i u. let delta = empty_delta\<lparr>cd_finish_reason :=
            finish_of (extract_optional_string_field json toks i (lit ''finish_reason''))\<rparr>;
          delta_obj_idx = obj_get_key toks i json (lit ''delta'') in
      if delta_obj_idx \<ge> 0 \<and> tk_type (toks ! nat delta_obj_idx) = JSTOK_OBJECT
      then (case parse_delta_object (\<lambda>n. True) json toks delta_obj_idx delta of
              Inl e \<Rightarrow> Inl (ChunkErr e)
            | Inr delta \<Rightarrow> Inr (delta, fst u, snd u))
      else Inr (delta, fst u, snd u)"
  let ?g = "\<lambda>c u. case tree_delta json c of Inl e \<Rightarrow> Inl (ChunkErr e) | Inr d \<Rightarrow> Inr (d, fst u, snd u)"
  have "parse_chat_chunk_choice (\<lambda>n. True) json k = chunk_parser ?f (\<lambda>u. (empty_delta, fst u, snd u)) json k"
    by (auto simp: parse_chat_chunk_choice_def chunk_parser_def chunk_choice_idx_def Let_def simp del: lit_Cons
        split: sum.split)
  also have "\<dots> = tree_chunk_parser ?g (\<lambda>u. (empty_delta, fst u, snd u)) json ts k"
    by (rule chunk_parser_tree [OF assms]) (rule parse_delta_tree)
  also have "\<dots> = tree_chunk json ts k"
    by (simp add: tree_chunk_parser_def tree_chunk_def del: lit_Cons split: list.split sum.split prod.split option.split)
  finally show ?thesis .
qed

end
