(* ===== verification/ChatProps.thy ===== *)
theory ChatProps
  imports ChatTree
begin

text \<open>
  The properties of the chat parsers, with their examples.
\<close>

section \<open>Properties\<close>

text \<open>
  C21: on every document, \<open>parse_chat_response\<close> returns what a direct reading of the document's
  tree gives: the choices in order with their finish reasons, contents and tool calls, or
  the protocol error at the first element that is not as it should be. No index into the
  token array matters, and bytes after the first value are ignored.
\<close>

theorem chat_response_refines:
  assumes "doc json ts"
  shows "parse_chat_response (\<lambda>n. True) json = tree_response json ts"
  by (rule parse_chat_response_tree [OF assms])

definition demo_response :: "byte list" where
  "demo_response = qlit ''{`choices`:[{`message`:{`content`:`hi`,`tool_calls`:[{`id`:`x`}]}}]}''"

theorem chat_response_refines_witness:
  "\<exists>ts. doc demo_response ts \<and>
    tree_response demo_response ts =
      (let ch = \<lparr>ch_finish_reason = LLM_FINISH_REASON_UNKNOWN, ch_content = Some (lit ''hi''), ch_reasoning_content = None,
          ch_tool_calls = [\<lparr>tc_id = Some (lit ''x''), tc_name = None, tc_arguments = None\<rparr>],
          ch_tool_calls_json = Some (qlit ''[{`id`:`x`}]'')\<rparr> in
       Inr \<lparr>cr_choices = [ch], cr_first = ch\<rparr>)"
proof -
  have "case tokenize (\<lambda>n. True) demo_response of Inl e \<Rightarrow> False | Inr toks \<Rightarrow> True" by code_simp
  then obtain toks where "tokenize (\<lambda>n. True) demo_response = Inr toks" by (auto split: sum.splits)
  moreover have "length demo_response < 2 ^ 31" by (simp add: demo_response_def qlit_def)
  ultimately obtain ts where d: "doc demo_response ts" using tokenize_Inr by blast
  show ?thesis
    by (rule exI [of _ ts], simp only: d chat_response_refines [OF d, symmetric]) code_simp
qed

text \<open>
  C22: on every document, \<open>parse_chat_chunk_choice\<close> returns what a direct reading of its tree
  gives: the delta of the choice with the requested index (for choice 0, of the first object
  if none carries the index), an empty delta if there is none, and the usage report.
\<close>

theorem chat_chunk_refines:
  assumes "doc json ts"
  shows "parse_chat_chunk_choice (\<lambda>n. True) json choice_index = tree_chunk json ts choice_index"
  by (rule parse_chat_chunk_choice_tree [OF assms])

definition demo_chunk :: "byte list" where
  "demo_chunk = qlit ''{`choices`:[{},{`index`:0,`delta`:{`content`:`hi`}}]}''"

theorem chat_chunk_refines_witness:
  "\<exists>ts. doc demo_chunk ts \<and>
    tree_chunk demo_chunk ts 0 = Inr (empty_delta\<lparr>cd_content_delta := Some (lit ''hi'')\<rparr>, usage_init) \<and>
    tree_chunk demo_chunk ts 2 = Inr (empty_delta, usage_init)"
proof -
  have "case tokenize (\<lambda>n. True) demo_chunk of Inl e \<Rightarrow> False | Inr toks \<Rightarrow> True" by code_simp
  then obtain toks where "tokenize (\<lambda>n. True) demo_chunk = Inr toks" by (auto split: sum.splits)
  moreover have "length demo_chunk < 2 ^ 31" by (simp add: demo_chunk_def qlit_def)
  ultimately obtain ts where d: "doc demo_chunk ts" using tokenize_Inr by blast
  have "parse_chat_chunk_choice (\<lambda>n. True) demo_chunk 0 = Inr (empty_delta\<lparr>cd_content_delta := Some (lit ''hi'')\<rparr>, usage_init)"
    "parse_chat_chunk_choice (\<lambda>n. True) demo_chunk 2 = Inr (empty_delta, usage_init)" by code_simp+
  with d show ?thesis unfolding chat_chunk_refines [OF d] by blast
qed



lemma choice_index_loop_mod:
  "choice_index_loop (wrap64 v) cs =
     (if list_all is_digit cs then Some (wrap64 (foldl (\<lambda>v c. v * 10 + digit_val c) v cs)) else None)"
proof (induction cs arbitrary: v)
  case (Cons c cs)
  have m: "wrap64 (wrap64 v * 10) = wrap64 (v * 10)" by (simp add: wrap64_def mod_mult_left_eq)
  have "wrap64 (wrap64 (wrap64 v * 10) + digit_val c) = wrap64 (v * 10 + digit_val c)"
    unfolding m by (rule wrap64_add)
  with Cons [of "v * 10 + digit_val c"] show ?case by simp
qed simp

text \<open>
  \<open>parse_choice_index\<close> reads a token of digits as their value modulo \<open>2^64\<close> and refuses
  every other primitive. So the index \<open>18446744073709551616\<close> is taken for choice 0.
\<close>

theorem choice_index_wraps:
  "parse_choice_index json (jtok JSTOK_PRIMITIVE a (a + Suc n) 0) =
     (if list_all is_digit (slice json a (a + Suc n)) \<and> slice json a (a + Suc n) \<noteq> []
      then Some (dec_val (slice json a (a + Suc n)) mod 2 ^ 64) else None) \<and>
   parse_choice_index (lit ''18446744073709551616'') (jtok JSTOK_PRIMITIVE 0 20 0) = Some 0"
proof
  show "parse_choice_index (lit ''18446744073709551616'') (jtok JSTOK_PRIMITIVE 0 20 0) = Some 0" by code_simp
  show "parse_choice_index json (jtok JSTOK_PRIMITIVE a (a + Suc n) 0) =
     (if list_all is_digit (slice json a (a + Suc n)) \<and> slice json a (a + Suc n) \<noteq> []
      then Some (dec_val (slice json a (a + Suc n)) mod 2 ^ 64) else None)"
    using choice_index_loop_mod [of 0 "slice json a (a + Suc n)"]
    by (simp add: parse_choice_index_def tok_span_def jstok_span_jtok wrap64_def dec_val_def) (simp add: jtok_def)
qed

end
