(* ===== verification/ProtocolOther.thy ===== *)
theory ProtocolOther
  imports ChatTree
begin

text \<open>
  The parsers of \<open>src/src/protocol_completions.c\<close> and \<open>src/src/protocol_embeddings.c\<close>. Both
  files carry their own static \<open>tokenize\<close>, and the first its own usage and choice readers; each is
  shown to compute what the function of the same name in \<open>src/src/protocol_chat.c\<close> computes.
\<close>

section \<open>The static functions of the two files\<close>

definition completions_tokenize :: "(nat \<Rightarrow> bool) \<Rightarrow> byte list \<Rightarrow> jstokerr + jstoktok list" where
  "completions_tokenize alloc json =
     (case fst (jstok_parse False jstok_init (json_arg json) None) of
        Inl e \<Rightarrow> Inl e
      | Inr needed \<Rightarrow>
          if \<not> alloc (needed * 16) then Inl JSTOK_ERROR_NOMEM
          else
            (case jstok_parse False jstok_init (json_arg json) 
                    (Some (replicate needed \<lparr>tk_type = JSTOK_UNDEFINED, tk_start = 0, tk_end = 0, tk_size = 0\<rparr>)) of
               (Inl e, _, _) \<Rightarrow> Inl e
             | (Inr parsed, _, toks) \<Rightarrow> Inr (take parsed (the toks))))"

definition embeddings_tokenize :: "(nat \<Rightarrow> bool) \<Rightarrow> byte list \<Rightarrow> jstokerr + jstoktok list" where
  "embeddings_tokenize alloc json =
     (case fst (jstok_parse False jstok_init (json_arg json) None) of
        Inl e \<Rightarrow> Inl e
      | Inr needed \<Rightarrow>
          if \<not> alloc (needed * 16) then Inl JSTOK_ERROR_NOMEM
          else
            (case jstok_parse False jstok_init (json_arg json) 
                    (Some (replicate needed \<lparr>tk_type = JSTOK_UNDEFINED, tk_start = 0, tk_end = 0, tk_size = 0\<rparr>)) of
               (Inl e, _, _) \<Rightarrow> Inl e
             | (Inr parsed, _, toks) \<Rightarrow> Inr (take parsed (the toks))))"

lemma tokenize_copies [simp]: "completions_tokenize = tokenize" "embeddings_tokenize = tokenize"
  by (intro ext, simp add: completions_tokenize_def embeddings_tokenize_def tokenize_def)+

definition completions_usage_init :: "llm_usage \<times> bool" where
  "completions_usage_init = (\<lparr>us_prompt_tokens = None, us_completion_tokens = None, us_total_tokens = None\<rparr>, False)"

definition completions_usage_parse_field :: "byte list \<Rightarrow> jstoktok \<Rightarrow> chunk_err + nat option" where
  "completions_usage_parse_field json token =
     (if tk_type token \<noteq> JSTOK_PRIMITIVE then Inr None
      else case jstok_atoi64 json token of
        AtoiFail \<Rightarrow> Inr None
      | AtoiOverflow \<Rightarrow> Inl ChunkUndefined
      | AtoiOk val \<Rightarrow> if val < 0 then Inr None else if nat val > SIZE_MAX then Inr None else Inr (Some (nat val)))"

definition completions_usage_counter ::
  "byte list \<Rightarrow> jstoktok list \<Rightarrow> int \<Rightarrow> string \<Rightarrow> chunk_err + nat option" where
  "completions_usage_counter json tokens usage_idx key =
     (let idx = obj_get_key tokens usage_idx json (lit key) in
      if idx \<ge> 0 then completions_usage_parse_field json (tokens ! nat idx) else Inr None)"

definition completions_usage_parse :: "byte list \<Rightarrow> jstoktok list \<Rightarrow> chunk_err + llm_usage \<times> bool" where
  "completions_usage_parse json tokens =
     (let usage_idx = obj_get_key tokens 0 json (lit ''usage'') in
      if usage_idx < 0 \<or> tk_type (tokens ! nat usage_idx) \<noteq> JSTOK_OBJECT then Inr completions_usage_init
      else
        (case completions_usage_counter json tokens usage_idx ''prompt_tokens'' of
           Inl e \<Rightarrow> Inl e
         | Inr p \<Rightarrow>
             (case completions_usage_counter json tokens usage_idx ''completion_tokens'' of
                Inl e \<Rightarrow> Inl e
              | Inr c \<Rightarrow>
                  (case completions_usage_counter json tokens usage_idx ''total_tokens'' of
                     Inl e \<Rightarrow> Inl e
                   | Inr t \<Rightarrow>
                       Inr (\<lparr>us_prompt_tokens = p, us_completion_tokens = c, us_total_tokens = t\<rparr>, True)))))"

lemma usage_copies [simp]: "completions_usage_parse = usage_parse" "completions_usage_init = usage_init"
proof -
  have f: "completions_usage_parse_field = usage_parse_field"
    by (intro ext) (simp add: completions_usage_parse_field_def usage_parse_field_def)
  have c: "completions_usage_counter = usage_counter"
    by (intro ext) (simp add: completions_usage_counter_def usage_counter_def f Let_def del: lit_Cons)
  show i: "completions_usage_init = usage_init" by (simp add: completions_usage_init_def usage_init_def)
  show "completions_usage_parse = usage_parse"
    by (intro ext) (simp only: completions_usage_parse_def usage_parse_def c i)
qed

definition completions_parse_choice_index :: "byte list \<Rightarrow> jstoktok \<Rightarrow> nat option" where
  "completions_parse_choice_index json tok =
     (if tk_type tok \<noteq> JSTOK_PRIMITIVE then None
      else case tok_span json tok of
        None \<Rightarrow> None
      | Some sp \<Rightarrow> if sp = [] then None else choice_index_loop 0 sp)"

text \<open>The loop from index \<open>i\<close> on, with \<open>n\<close> elements left.\<close>

fun completions_find_choice_loop ::
  "byte list \<Rightarrow> jstoktok list \<Rightarrow> int \<Rightarrow> nat \<Rightarrow> nat \<Rightarrow> nat \<Rightarrow> int \<Rightarrow> int" where
  "completions_find_choice_loop json tokens choices_idx choice_index i 0 fallback =
     (if choice_index = 0 then fallback else -1)"
| "completions_find_choice_loop json tokens choices_idx choice_index i (Suc n) fallback =
     (let choice_idx = arr_get tokens choices_idx (int i) in
      if choice_idx < 0 \<or> tk_type (tokens ! nat choice_idx) \<noteq> JSTOK_OBJECT
      then completions_find_choice_loop json tokens choices_idx choice_index (i + 1) n fallback
      else
        (let fallback1 = (if choice_index = 0 \<and> fallback < 0 then choice_idx else fallback);
             index_idx = obj_get_key tokens choice_idx json (lit ''index'') in
         if index_idx \<ge> 0 \<and> completions_parse_choice_index json (tokens ! nat index_idx) = Some choice_index
         then choice_idx
         else completions_find_choice_loop json tokens choices_idx choice_index (i + 1) n fallback1))"

definition completions_find_choice_token :: "byte list \<Rightarrow> jstoktok list \<Rightarrow> int \<Rightarrow> nat \<Rightarrow> int" where
  "completions_find_choice_token json tokens choices_idx choice_index =
     (let size = tk_size (tokens ! nat choices_idx) in
      if size \<le> 0 then -1
      else completions_find_choice_loop json tokens choices_idx choice_index 0 (nat size) (-1))"

lemma choice_index_copy: "completions_parse_choice_index = parse_choice_index"
  by (intro ext) (simp add: completions_parse_choice_index_def parse_choice_index_def)

lemma find_choice_loop_copy [code]:
  "completions_find_choice_loop json tokens ci k i n fb = find_choice_loop json tokens ci k i n fb"
  by (induction n arbitrary: i fb)
    (simp_all only: completions_find_choice_loop.simps find_choice_loop.simps choice_index_copy)

lemma find_choice_copy [simp]: "completions_find_choice_token = find_choice_token"
  by (intro ext) (simp add: completions_find_choice_token_def find_choice_token_def find_choice_loop_copy Let_def)

section \<open>The parsers\<close>

definition COMPLETION_CHOICE_SIZE :: nat where "COMPLETION_CHOICE_SIZE = 16"
definition EMBEDDING_ITEM_SIZE :: nat where "EMBEDDING_ITEM_SIZE = 16"

definition parse_completion_choice :: "byte list \<Rightarrow> jstoktok list \<Rightarrow> int \<Rightarrow> parse_err + byte list option" where
  "parse_completion_choice json tokens choice_idx =
     (let text_idx = obj_get_key tokens choice_idx json (lit ''text'') in
      if text_idx < 0 \<or> tk_type (tokens ! nat text_idx) \<noteq> JSTOK_STRING then Inl PErrProtocol
      else Inr (tok_span json (tokens ! nat text_idx)))"

definition parse_completions_response :: "(nat \<Rightarrow> bool) \<Rightarrow> byte list \<Rightarrow> parse_err + byte list option list" where
  "parse_completions_response alloc json =
     (case completions_tokenize alloc json of
        Inl e \<Rightarrow> Inl (PErrJson e)
      | Inr tokens \<Rightarrow>
          if tokens = [] \<or> tk_type (tokens ! 0) \<noteq> JSTOK_OBJECT then Inl PErrProtocol
          else
            (let choices_idx = obj_get_key tokens 0 json (lit ''choices'') in
             if choices_idx < 0 \<or> tk_type (tokens ! nat choices_idx) \<noteq> JSTOK_ARRAY \<or>
                tk_size (tokens ! nat choices_idx) \<le> 0
             then Inl PErrProtocol
             else
               (let choices_count = nat (tk_size (tokens ! nat choices_idx)) in
                if \<not> alloc (choices_count * COMPLETION_CHOICE_SIZE) then Inl (PErrJson JSTOK_ERROR_NOMEM)
                else parse_elements tokens choices_idx (parse_completion_choice json tokens) 0 choices_count)))"

definition parse_completions_chunk_choice ::
  "(nat \<Rightarrow> bool) \<Rightarrow> byte list \<Rightarrow> nat \<Rightarrow> chunk_err + byte list option \<times> llm_finish_reason \<times> llm_usage \<times> bool" where
  "parse_completions_chunk_choice alloc json choice_index =
     (case completions_tokenize alloc json of
        Inl e \<Rightarrow> Inl (ChunkErr (PErrJson e))
      | Inr tokens \<Rightarrow>
          if tokens = [] \<or> tk_type (tokens ! 0) \<noteq> JSTOK_OBJECT then Inl (ChunkErr PErrProtocol)
          else case completions_usage_parse json tokens of
            Inl e \<Rightarrow> Inl e
          | Inr (usage, usage_present) \<Rightarrow>
              (let choices_idx = obj_get_key tokens 0 json (lit ''choices'');
                   choice_idx =
                     (if choices_idx \<ge> 0 \<and> tk_type (tokens ! nat choices_idx) = JSTOK_ARRAY \<and>
                         tk_size (tokens ! nat choices_idx) > 0
                      then completions_find_choice_token json tokens choices_idx choice_index else -1) in
               if choice_idx \<ge> 0 \<and> tk_type (tokens ! nat choice_idx) = JSTOK_OBJECT
               then Inr (extract_optional_string_field json tokens choice_idx (lit ''text''),
                         finish_of (extract_optional_string_field json tokens choice_idx (lit ''finish_reason'')),
                         usage, usage_present)
               else Inr (None, LLM_FINISH_REASON_UNKNOWN, usage, usage_present)))"

definition parse_completions_chunk ::
  "(nat \<Rightarrow> bool) \<Rightarrow> byte list \<Rightarrow> chunk_err + byte list option \<times> llm_finish_reason \<times> llm_usage \<times> bool" where
  "parse_completions_chunk alloc json = parse_completions_chunk_choice alloc json 0"

definition parse_embedding_item :: "byte list \<Rightarrow> jstoktok list \<Rightarrow> int \<Rightarrow> parse_err + byte list option" where
  "parse_embedding_item json tokens item_idx =
     (let embedding_idx = obj_get_key tokens item_idx json (lit ''embedding'') in
      if embedding_idx < 0 \<or> tk_type (tokens ! nat embedding_idx) \<noteq> JSTOK_ARRAY then Inl PErrProtocol
      else Inr (tok_span json (tokens ! nat embedding_idx)))"

definition parse_embeddings_response :: "(nat \<Rightarrow> bool) \<Rightarrow> byte list \<Rightarrow> parse_err + byte list option list" where
  "parse_embeddings_response alloc json =
     (case embeddings_tokenize alloc json of
        Inl e \<Rightarrow> Inl (PErrJson e)
      | Inr tokens \<Rightarrow>
          if tokens = [] \<or> tk_type (tokens ! 0) \<noteq> JSTOK_OBJECT then Inl PErrProtocol
          else
            (let data_idx = obj_get_key tokens 0 json (lit ''data'') in
             if data_idx < 0 \<or> tk_type (tokens ! nat data_idx) \<noteq> JSTOK_ARRAY \<or>
                tk_size (tokens ! nat data_idx) \<le> 0
             then Inl PErrProtocol
             else
               (let data_count = nat (tk_size (tokens ! nat data_idx)) in
                if \<not> alloc (data_count * EMBEDDING_ITEM_SIZE) then Inl (PErrJson JSTOK_ERROR_NOMEM)
                else parse_elements tokens data_idx (parse_embedding_item json tokens) 0 data_count)))"

section \<open>The meaning\<close>

definition tree_completion_choice :: "byte list \<Rightarrow> jtree \<Rightarrow> parse_err + byte list option" where
  "tree_completion_choice json t =
     (case tree_str json t (lit ''text'') of None \<Rightarrow> Inl PErrProtocol | Some s \<Rightarrow> Inr (Some s))"

definition tree_embedding :: "byte list \<Rightarrow> jtree \<Rightarrow> parse_err + byte list option" where
  "tree_embedding json t =
     (case tree_arr json t (lit ''embedding'') of
        None \<Rightarrow> Inl PErrProtocol
      | Some es \<Rightarrow> Inr (map_option (tree_text json) (tree_get json t (lit ''embedding''))))"

definition tree_completions_chunk ::
  "byte list \<Rightarrow> jtree list \<Rightarrow> nat \<Rightarrow> chunk_err + byte list option \<times> llm_finish_reason \<times> llm_usage \<times> bool" where
  "tree_completions_chunk json ts k =
     (case ts of
        [] \<Rightarrow> Inl (ChunkErr PErrProtocol)
      | t # _ \<Rightarrow>
          if \<not> is_obj t then Inl (ChunkErr PErrProtocol)
          else case tree_usage json t of
            Inl e \<Rightarrow> Inl e
          | Inr (usage, present) \<Rightarrow>
              (case tree_find_choice json (case tree_arr json t (lit ''choices'') of None \<Rightarrow> [] | Some cs \<Rightarrow> cs) k of
                 None \<Rightarrow> Inr (None, LLM_FINISH_REASON_UNKNOWN, usage, present)
               | Some c \<Rightarrow>
                   Inr (tree_str json c (lit ''text''), finish_of (tree_str json c (lit ''finish_reason'')),
                        usage, present)))"

lemma parse_completion_choice_tree:
  assumes "is_obj t" "sits toks i t"
  shows "parse_completion_choice json toks (int i) = tree_completion_choice json t"
  using sits_member [OF assms(2,1), of json "lit ''text''"]
  by cases (auto simp: parse_completion_choice_def tree_completion_choice_def tree_str_def Let_def sits_head
      simp del: lit_Cons)

lemma parse_embedding_item_tree:
  assumes "is_obj t" "sits toks i t"
  shows "parse_embedding_item json toks (int i) = tree_embedding json t"
  using sits_member [OF assms(2,1), of json "lit ''embedding''"]
  by cases (auto simp: parse_embedding_item_def tree_embedding_def tree_arr_def Let_def sits_head
      simp del: lit_Cons)

lemma completions_response_tree:
  assumes "doc json ts"
  shows "parse_completions_response (\<lambda>n. True) json =
     tree_array_response (lit ''choices'') (tree_completion_choice json) json ts"
proof -
  have "parse_completions_response (\<lambda>n. True) json = array_response (lit ''choices'') (parse_completion_choice json) json"
    by (simp add: parse_completions_response_def array_response_def Let_def del: lit_Cons split: sum.split)
  then show ?thesis by (simp only:) (rule array_response_tree [OF assms], rule parse_completion_choice_tree)
qed

lemma embeddings_response_tree:
  assumes "doc json ts"
  shows "parse_embeddings_response (\<lambda>n. True) json = tree_array_response (lit ''data'') (tree_embedding json) json ts"
proof -
  have "parse_embeddings_response (\<lambda>n. True) json = array_response (lit ''data'') (parse_embedding_item json) json"
    by (simp add: parse_embeddings_response_def array_response_def Let_def del: lit_Cons split: sum.split)
  then show ?thesis by (simp only:) (rule array_response_tree [OF assms], rule parse_embedding_item_tree)
qed

lemma completions_chunk_tree:
  assumes "doc json ts"
  shows "parse_completions_chunk_choice (\<lambda>n. True) json k = tree_completions_chunk json ts k"
proof -
  let ?none = "\<lambda>u. (None, LLM_FINISH_REASON_UNKNOWN, fst u, snd u)"
  let ?f = "\<lambda>toks i u. if tk_type (toks ! nat i) = JSTOK_OBJECT
     then Inr (extract_optional_string_field json toks i (lit ''text''),
        finish_of (extract_optional_string_field json toks i (lit ''finish_reason'')), fst u, snd u)
     else Inr (?none u)"
  let ?g = "\<lambda>c u. Inr (tree_str json c (lit ''text''), finish_of (tree_str json c (lit ''finish_reason'')), fst u, snd u)"
  have "parse_completions_chunk_choice (\<lambda>n. True) json k = chunk_parser ?f ?none json k"
    by (auto simp: parse_completions_chunk_choice_def chunk_parser_def chunk_choice_idx_def Let_def simp del: lit_Cons
        split: sum.split prod.split)
  also have "\<dots> = tree_chunk_parser ?g ?none json ts k"
    by (rule chunk_parser_tree [OF assms]) (simp add: sits_head sits_str del: lit_Cons)
  also have "\<dots> = tree_completions_chunk json ts k"
    by (simp add: tree_chunk_parser_def tree_completions_chunk_def del: lit_Cons
        split: list.split sum.split prod.split option.split)
  finally show ?thesis .
qed

section \<open>Properties\<close>

text \<open>
  C24: on every document the completion and embedding parsers return what a direct reading of
  its tree gives: the texts of all choices, the raw arrays of all embeddings, in order, or
  the protocol error; and for a chunk the text and finish reason of the requested choice
  with the usage report.
\<close>

theorem other_parsers_refine:
  assumes "doc json ts"
  shows "parse_completions_response (\<lambda>n. True) json =
      tree_array_response (lit ''choices'') (tree_completion_choice json) json ts \<and>
    parse_embeddings_response (\<lambda>n. True) json = tree_array_response (lit ''data'') (tree_embedding json) json ts \<and>
    parse_completions_chunk_choice (\<lambda>n. True) json choice_index = tree_completions_chunk json ts choice_index"
  using completions_response_tree [OF assms] embeddings_response_tree [OF assms] completions_chunk_tree [OF assms] by simp

definition demo_embedding :: "byte list" where
  "demo_embedding = qlit ''{`data`:[{`embedding`:[1,2]}]}''"

theorem other_parsers_refine_witness:
  "\<exists>ts. doc demo_embedding ts \<and>
    tree_array_response (lit ''data'') (tree_embedding demo_embedding) demo_embedding ts = Inr [Some (lit ''[1,2]'')] \<and>
    tree_array_response (lit ''choices'') (tree_completion_choice demo_embedding) demo_embedding ts = Inl PErrProtocol \<and>
    tree_completions_chunk demo_embedding ts 0 = Inr (None, LLM_FINISH_REASON_UNKNOWN, usage_init)"
proof -
  have "case tokenize (\<lambda>n. True) demo_embedding of Inl e \<Rightarrow> False | Inr toks \<Rightarrow> True" by code_simp
  then obtain toks where "tokenize (\<lambda>n. True) demo_embedding = Inr toks" by (auto split: sum.splits)
  moreover have "length demo_embedding < 2 ^ 31" by (simp add: demo_embedding_def qlit_def)
  ultimately obtain ts where d: "doc demo_embedding ts" using tokenize_Inr by blast
  have "parse_embeddings_response (\<lambda>n. True) demo_embedding = Inr [Some (lit ''[1,2]'')]"
    "parse_completions_response (\<lambda>n. True) demo_embedding = Inl PErrProtocol"
    "parse_completions_chunk_choice (\<lambda>n. True) demo_embedding 0 = Inr (None, LLM_FINISH_REASON_UNKNOWN, usage_init)"
    by code_simp+
  with d other_parsers_refine [OF d, of 0] show ?thesis by auto
qed

end
