(* ===== verification/Client.thy ===== *)
theory Client
  imports JsonCore JsonBuild
begin

text \<open>
  The client handle of \<open>src/src/llm.c\<close>: its creation and setters, the request headers, and the
  error details. A C string is the list of its bytes before the NUL, a pointer to one an
  option. \<open>alloc\<close> grants every allocation by its size in bytes; the setters that fail for lack of
  memory leave the client as it was. The password callback of the TLS configuration, a
  function of the caller, is kept as the answer it gives for a buffer of a size.
\<close>

section \<open>Configuration\<close>

record llm_timeout =
  tm_connect_ms :: int
  tm_overall_ms :: int
  tm_read_idle_ms :: int

record llm_limits =
  lm_max_response_bytes :: nat
  lm_max_line_bytes :: nat
  lm_max_frame_bytes :: nat
  lm_max_sse_buffer_bytes :: nat
  lm_max_tool_args_bytes_per_call :: nat
  lm_max_tool_args_bytes_per_turn :: nat
  lm_max_tool_output_bytes_total :: nat
  lm_max_embedding_input_bytes :: nat
  lm_max_embedding_inputs :: nat
  lm_max_content_parts :: nat
  lm_max_content_bytes :: nat

datatype llm_tls_verify_mode = LLM_TLS_VERIFY_DEFAULT | LLM_TLS_VERIFY_ON | LLM_TLS_VERIFY_OFF

record llm_tls_config =
  tls_ca_bundle_path :: "byte list option"
  tls_ca_dir_path :: "byte list option"
  tls_client_cert_path :: "byte list option"
  tls_client_key_path :: "byte list option"
  tls_key_password_cb :: "(nat \<Rightarrow> byte list option) option"
  tls_verify_peer :: llm_tls_verify_mode
  tls_verify_host :: llm_tls_verify_mode
  tls_insecure :: bool

section \<open>Error details\<close>

datatype llm_error = LLM_ERR_NONE | LLM_ERR_CANCELLED | LLM_ERR_FAILED

datatype llm_error_stage =
    LLM_ERROR_STAGE_NONE
  | LLM_ERROR_STAGE_TRANSPORT
  | LLM_ERROR_STAGE_TLS
  | LLM_ERROR_STAGE_SSE
  | LLM_ERROR_STAGE_JSON
  | LLM_ERROR_STAGE_PROTOCOL

record llm_error_detail =
  ed_code :: llm_error
  ed_stage :: llm_error_stage
  ed_http_status :: int
  ed_has_http_status :: bool
  ed_message :: "byte list option"
  ed_type :: "byte list option"
  ed_error_code :: "byte list option"
  ed_raw_body :: "byte list option"

record llm_client =
  cl_base_url :: "byte list option"
  cl_model_name :: "byte list option"
  cl_timeout :: llm_timeout
  cl_limits :: llm_limits
  cl_auth_header :: "byte list option"
  cl_tls_ca_bundle_path :: "byte list option"
  cl_tls_ca_dir_path :: "byte list option"
  cl_tls_client_cert_path :: "byte list option"
  cl_tls_client_key_path :: "byte list option"
  cl_tls_key_password_cb :: "(nat \<Rightarrow> byte list option) option"
  cl_tls_verify_peer :: bool
  cl_tls_verify_host :: bool
  cl_tls_insecure :: bool
  cl_proxy_url :: "byte list option"
  cl_no_proxy :: "byte list option"
  cl_headers :: "byte list option list option"
  cl_headers_count :: nat
  cl_custom_headers_count :: nat
  cl_headers_cap :: nat
  cl_last_error_enabled :: bool
  cl_last_error :: llm_error_detail

fun llm_errstr :: "llm_error \<Rightarrow> byte list" where
  "llm_errstr LLM_ERR_NONE = lit ''none''"
| "llm_errstr LLM_ERR_CANCELLED = lit ''cancelled''"
| "llm_errstr LLM_ERR_FAILED = lit ''failed''"

definition error_detail_clear :: llm_error_detail where
  "error_detail_clear =
     \<lparr>ed_code = LLM_ERR_NONE, ed_stage = LLM_ERROR_STAGE_NONE, ed_http_status = 0, ed_has_http_status = False,
      ed_message = None, ed_type = None, ed_error_code = None, ed_raw_body = None\<rparr>"

text \<open>What remains in the structure; the buffer it owned is freed.\<close>

definition llm_error_detail_free :: "llm_error_detail \<Rightarrow> llm_error_detail" where
  "llm_error_detail_free detail = error_detail_clear"

definition error_detail_set_http_status :: "llm_error_detail \<Rightarrow> int \<Rightarrow> llm_error_detail" where
  "error_detail_set_http_status detail http_status =
     (if http_status \<le> 0 then detail
      else detail\<lparr>ed_http_status := http_status, ed_has_http_status := True\<rparr>)"

definition LLM_ERROR_DETAIL_TOKENS_MAX :: nat where
  "LLM_ERROR_DETAIL_TOKENS_MAX = 64"

text \<open>One string member of the error object: the new value of the field that holds it.\<close>

definition openai_field ::
  "byte list \<Rightarrow> jstoktok list \<Rightarrow> int \<Rightarrow> string \<Rightarrow> byte list option \<Rightarrow> byte list option" where
  "openai_field json tokens error_idx key old =
     (let idx = jstok_object_get json tokens error_idx (lit key) in
      if idx \<ge> 0 \<and> tk_type (tokens ! nat idx) = JSTOK_STRING then jstok_span json (tokens ! nat idx) else old)"

definition error_detail_parse_openai :: "llm_error_detail \<Rightarrow> byte list \<Rightarrow> llm_error_detail" where
  "error_detail_parse_openai detail json =
     (if json = [] \<or> length json > INT_MAX then detail
      else
        (case jstok_parse False jstok_init (Some json) (Some (fresh_toks LLM_ERROR_DETAIL_TOKENS_MAX)) of
           (Inr parsed, _, Some arr) \<Rightarrow>
             (let tokens = take parsed arr;
                  error_idx = jstok_object_get json tokens 0 (lit ''error'') in
              if parsed = 0 \<or> tk_type (tokens ! 0) \<noteq> JSTOK_OBJECT then detail
              else if error_idx < 0 \<or> tk_type (tokens ! nat error_idx) \<noteq> JSTOK_OBJECT then detail
              else detail\<lparr>ed_message := openai_field json tokens error_idx ''message'' (ed_message detail),
                          ed_type := openai_field json tokens error_idx ''type'' (ed_type detail),
                          ed_error_code := openai_field json tokens error_idx ''code'' (ed_error_code detail)\<rparr>)
         | _ \<Rightarrow> detail))"

definition error_detail_fill ::
  "llm_error_detail \<Rightarrow> llm_error \<Rightarrow> llm_error_stage \<Rightarrow> int \<Rightarrow> byte list option \<Rightarrow> bool \<Rightarrow> llm_error_detail" where
  "error_detail_fill detail code stage http_status body parse_error =
     (let detail = (llm_error_detail_free detail)\<lparr>ed_code := code, ed_stage := stage\<rparr>;
          detail = error_detail_set_http_status detail http_status in
      case body of
        None \<Rightarrow> detail
      | Some bs \<Rightarrow>
          (let detail = detail\<lparr>ed_raw_body := Some bs\<rparr> in
           if parse_error then error_detail_parse_openai detail bs else detail))"

definition last_error_reset :: "llm_client \<Rightarrow> llm_client" where
  "last_error_reset client =
     (if \<not> cl_last_error_enabled client then client
      else client\<lparr>cl_last_error := llm_error_detail_free (cl_last_error client)\<rparr>)"

text \<open>The client and the caller's detail, if it passed one; the client exists on every call.\<close>

definition error_detail_capture ::
  "(nat \<Rightarrow> bool) \<Rightarrow> llm_client \<Rightarrow> llm_error_detail option \<Rightarrow> llm_error \<Rightarrow> llm_error_stage \<Rightarrow> int \<Rightarrow>
     byte list option \<Rightarrow> bool \<Rightarrow> llm_client \<times> llm_error_detail option" where
  "error_detail_capture alloc client detail code stage http_status body parse_error =
     (case detail of
        Some d \<Rightarrow>
          (let d = error_detail_fill d code stage http_status body parse_error in
           if cl_last_error_enabled client then
             (let body_copy = (case ed_raw_body d of
                     None \<Rightarrow> None
                   | Some bs \<Rightarrow> if bs \<noteq> [] \<and> alloc (length bs) then Some bs else None) in
              (client\<lparr>cl_last_error :=
                 error_detail_fill (cl_last_error client) code stage http_status body_copy parse_error\<rparr>, Some d))
           else (client, Some d))
      | None \<Rightarrow>
          if cl_last_error_enabled client
          then (client\<lparr>cl_last_error :=
                  error_detail_fill (cl_last_error client) code stage http_status body parse_error\<rparr>, None)
          else (client, None))"

definition last_error_set_simple_if_empty :: "llm_client \<Rightarrow> llm_error \<Rightarrow> llm_error_stage \<Rightarrow> llm_client" where
  "last_error_set_simple_if_empty client code stage =
     (if \<not> cl_last_error_enabled client then client
      else if ed_code (cl_last_error client) \<noteq> LLM_ERR_NONE then client
      else client\<lparr>cl_last_error := error_detail_fill (cl_last_error client) code stage 0 None False\<rparr>)"

definition llm_client_last_error :: "llm_client \<Rightarrow> llm_error_detail option" where
  "llm_client_last_error client = (if \<not> cl_last_error_enabled client then None else Some (cl_last_error client))"

section \<open>Headers\<close>

definition header_has_crlf :: "byte list \<Rightarrow> bool" where
  "header_has_crlf s \<longleftrightarrow> list_ex (\<lambda>c. c = C_CR \<or> c = C_LF) s"

definition header_tolower :: "byte \<Rightarrow> byte" where
  "header_tolower c = (if 0x41 \<le> c \<and> c \<le> 0x5A then c - 0x41 + 0x61 else c)"

definition header_name_span :: "byte list \<Rightarrow> byte list option" where
  "header_name_span header =
     (case memchr header C_COLON of
        None \<Rightarrow> None
      | Some colon \<Rightarrow>
          (let name = rev (dropWhile (\<lambda>c. c = C_SP \<or> c = C_TAB) (rev (take colon header))) in
           if name = [] then None else Some name))"

definition header_name_eq :: "byte list \<Rightarrow> byte list \<Rightarrow> bool" where
  "header_name_eq a b \<longleftrightarrow>
     length a = length b \<and> list_all (\<lambda>i. header_tolower (a ! i) = header_tolower (b ! i)) [0..<length a]"

fun header_list_overrides :: "byte list list \<Rightarrow> byte list \<Rightarrow> bool" where
  "header_list_overrides [] name = False"
| "header_list_overrides (h # hs) name =
     (case header_name_span h of
        None \<Rightarrow> header_list_overrides hs name
      | Some other \<Rightarrow> if header_name_eq name other then True else header_list_overrides hs name)"

text \<open>
  A list of headers as it is passed, with its count: a NULL pointer or an array of possibly
  NULL strings.
\<close>

datatype header_list =
    HNull nat
  | HArr "byte list option list"

fun hl_count :: "header_list \<Rightarrow> nat" where
  "hl_count (HNull n) = n"
| "hl_count (HArr hs) = length hs"

fun hl_entries :: "header_list \<Rightarrow> byte list option list" where
  "hl_entries (HNull n) = []"
| "hl_entries (HArr hs) = hs"

fun header_entries_valid :: "byte list option list \<Rightarrow> bool" where
  "header_entries_valid [] = True"
| "header_entries_valid (e # es) =
     (case e of
        None \<Rightarrow> False
      | Some h \<Rightarrow>
          if header_has_crlf h then False
          else (case memchr h C_COLON of
                  None \<Rightarrow> False
                | Some colon \<Rightarrow> if colon = 0 then False else header_entries_valid es))"

definition header_list_validate :: "header_list \<Rightarrow> bool" where
  "header_list_validate headers =
     (if hl_count headers = 0 then True
      else case headers of HNull n \<Rightarrow> False | HArr hs \<Rightarrow> header_entries_valid hs)"

text \<open>
  The set that goes out with one request: the array and its count are one list here. A NULL
  entry of the client's array, which the well-formedness of the client excludes, is passed
  on as the code passes it.
\<close>

definition llm_header_set_init ::
  "(nat \<Rightarrow> bool) \<Rightarrow> llm_client \<Rightarrow> header_list \<Rightarrow> byte list option list option" where
  "llm_header_set_init alloc client headers =
     (if \<not> header_list_validate headers then None
      else
        (let own = (case cl_headers client of None \<Rightarrow> [] | Some hs \<Rightarrow> take (cl_headers_count client) hs);
             call = hl_entries headers in
         if cl_headers client = None \<or> cl_headers_count client = 0 then Some call
         else if hl_count headers = 0 then Some own
         else if \<not> alloc ((cl_headers_count client + hl_count headers) * 8) then None
         else Some (filter (\<lambda>e. \<not> (case e of
                        None \<Rightarrow> False
                      | Some h \<Rightarrow> (case header_name_span h of
                            None \<Rightarrow> False
                          | Some name \<Rightarrow> header_list_overrides (map the call) name))) own @ call)))"

section \<open>Creation\<close>

definition cstrdup :: "(nat \<Rightarrow> bool) \<Rightarrow> byte list \<Rightarrow> byte list option" where
  "cstrdup alloc s = (if alloc (length s + 1) then Some s else None)"

definition llm_client_headers_free :: "llm_client \<Rightarrow> llm_client" where
  "llm_client_headers_free client =
     client\<lparr>cl_headers := None, cl_headers_count := 0, cl_custom_headers_count := 0, cl_headers_cap := 0\<rparr>"

text \<open>The loop that copies the headers into the array, from index \<open>i\<close> on.\<close>

fun headers_copy :: "(nat \<Rightarrow> bool) \<Rightarrow> llm_client \<Rightarrow> nat \<Rightarrow> byte list option list \<Rightarrow> bool \<times> llm_client" where
  "headers_copy alloc client i [] = (True, client)"
| "headers_copy alloc client i (e # es) =
     (case e of
        None \<Rightarrow> (False, llm_client_headers_free client)
      | Some h \<Rightarrow>
          (case cstrdup alloc h of
             None \<Rightarrow> (False, llm_client_headers_free client)
           | Some s \<Rightarrow>
               headers_copy alloc
                 (client\<lparr>cl_headers := map_option (\<lambda>a. a[i := Some s]) (cl_headers client),
                         cl_custom_headers_count := cl_custom_headers_count client + 1,
                         cl_headers_count := cl_headers_count client + 1\<rparr>) (i + 1) es))"

definition llm_client_headers_init ::
  "(nat \<Rightarrow> bool) \<Rightarrow> llm_client \<Rightarrow> header_list \<Rightarrow> bool \<times> llm_client" where
  "llm_client_headers_init alloc client headers =
     (let headers_count = hl_count headers in
      if \<not> header_list_validate headers then (False, client)
      else if headers_count = 0 then (True, llm_client_headers_free client)
      else
        (let client = client\<lparr>cl_headers_cap := headers_count + 1\<rparr> in
         if \<not> alloc ((headers_count + 1) * 8) then (False, client\<lparr>cl_headers := None\<rparr>)
         else headers_copy alloc (client\<lparr>cl_headers := Some (replicate (headers_count + 1) None)\<rparr>) 0
                (hl_entries headers)))"

definition default_timeout :: llm_timeout where
  "default_timeout = \<lparr>tm_connect_ms = 10000, tm_overall_ms = 60000, tm_read_idle_ms = 0\<rparr>"

definition default_limits :: llm_limits where
  "default_limits =
     \<lparr>lm_max_response_bytes = 10 * 1024 * 1024, lm_max_line_bytes = 1024 * 1024, lm_max_frame_bytes = 1024 * 1024,
      lm_max_sse_buffer_bytes = 10 * 1024 * 1024, lm_max_tool_args_bytes_per_call = 1024 * 1024,
      lm_max_tool_args_bytes_per_turn = 1024 * 1024, lm_max_tool_output_bytes_total = 1024 * 1024,
      lm_max_embedding_input_bytes = 1024 * 1024, lm_max_embedding_inputs = 1024, lm_max_content_parts = 128,
      lm_max_content_bytes = 1024 * 1024\<rparr>"

definition LLM_CLIENT_SIZE :: nat where "LLM_CLIENT_SIZE = 344"

text \<open>The structure before its headers are set.\<close>

definition client_fresh ::
  "(nat \<Rightarrow> bool) \<Rightarrow> byte list \<Rightarrow> byte list option \<Rightarrow> llm_timeout option \<Rightarrow> llm_limits option \<Rightarrow> bool \<Rightarrow> llm_client" where
  "client_fresh alloc base_url model timeout limits enable_last_error =
     \<lparr>cl_base_url = cstrdup alloc base_url,
      cl_model_name = (case model of None \<Rightarrow> None | Some name \<Rightarrow> cstrdup alloc name),
      cl_timeout = (case timeout of None \<Rightarrow> default_timeout | Some t \<Rightarrow> t),
      cl_limits = (case limits of None \<Rightarrow> default_limits | Some l \<Rightarrow> l),
      cl_auth_header = None,
      cl_tls_ca_bundle_path = None, cl_tls_ca_dir_path = None, cl_tls_client_cert_path = None,
      cl_tls_client_key_path = None, cl_tls_key_password_cb = None,
      cl_tls_verify_peer = True, cl_tls_verify_host = True, cl_tls_insecure = False,
      cl_proxy_url = None, cl_no_proxy = None,
      cl_headers = None, cl_headers_count = 0, cl_custom_headers_count = 0, cl_headers_cap = 0,
      cl_last_error_enabled = enable_last_error, cl_last_error = error_detail_clear\<rparr>"

definition llm_client_create_with_headers_opts ::
  "(nat \<Rightarrow> bool) \<Rightarrow> byte list \<Rightarrow> byte list option \<Rightarrow> llm_timeout option \<Rightarrow> llm_limits option \<Rightarrow>
     header_list \<Rightarrow> bool \<Rightarrow> llm_client option" where
  "llm_client_create_with_headers_opts alloc base_url model timeout limits headers enable_last_error =
     (if \<not> alloc LLM_CLIENT_SIZE then None
      else
        (case llm_client_headers_init alloc (client_fresh alloc base_url model timeout limits enable_last_error) headers of
           (ok, client) \<Rightarrow> if ok then Some client else None))"

section \<open>Setters\<close>

definition llm_client_set_model :: "(nat \<Rightarrow> bool) \<Rightarrow> llm_client \<Rightarrow> byte list option \<Rightarrow> bool \<times> llm_client" where
  "llm_client_set_model alloc client model_name =
     (case model_name of
        None \<Rightarrow> (False, client)
      | Some name \<Rightarrow>
          if cl_model_name client = Some name then (True, client)
          else (case cstrdup alloc name of
                  None \<Rightarrow> (False, client)
                | Some s \<Rightarrow> (True, client\<lparr>cl_model_name := Some s\<rparr>)))"

definition auth_prefix :: "byte list" where
  "auth_prefix = lit ''Authorization: Bearer ''"

definition llm_client_set_api_key :: "(nat \<Rightarrow> bool) \<Rightarrow> llm_client \<Rightarrow> byte list option \<Rightarrow> bool \<times> llm_client" where
  "llm_client_set_api_key alloc client api_key =
     (case api_key of
        None \<Rightarrow>
          (let client1 = client\<lparr>cl_auth_header := None\<rparr> in
           case cl_headers client of
             None \<Rightarrow> (True, client1)
           | Some hs \<Rightarrow>
               if cl_headers_count client > cl_custom_headers_count client
               then (True, client1\<lparr>cl_headers := Some (hs[cl_custom_headers_count client := None]),
                                   cl_headers_count := cl_custom_headers_count client\<rparr>)
               else (True, client1))
      | Some key \<Rightarrow>
          if header_has_crlf key then (False, client)
          else
            (let header = auth_prefix @ key; need = cl_custom_headers_count client + 1 in
             if \<not> alloc (length header + 1) then (False, client)
             else
               (case (case cl_headers client of
                        None \<Rightarrow> if alloc (need * 8) then Some (replicate need None, need) else None
                      | Some hs \<Rightarrow>
                          if cl_headers_cap client < need
                          then (if alloc (need * 8)
                                then Some (hs @ replicate (need - cl_headers_cap client) None, need) else None)
                          else Some (hs, cl_headers_cap client)) of
                  None \<Rightarrow> (False, client)
                | Some (hs, cap) \<Rightarrow>
                    (True, client\<lparr>cl_headers_cap := cap, cl_auth_header := Some header,
                                  cl_headers := Some (hs[cl_custom_headers_count client := Some header]),
                                  cl_headers_count := need\<rparr>))))"

definition verify_flag :: "llm_tls_verify_mode \<Rightarrow> bool" where
  "verify_flag mode = (case mode of LLM_TLS_VERIFY_OFF \<Rightarrow> False | LLM_TLS_VERIFY_ON \<Rightarrow> True | LLM_TLS_VERIFY_DEFAULT \<Rightarrow> True)"

text \<open>An optional path is copied; \<open>None\<close> is a failed copy.\<close>

definition dup_path :: "(nat \<Rightarrow> bool) \<Rightarrow> byte list option \<Rightarrow> byte list option option" where
  "dup_path alloc path = (case path of None \<Rightarrow> Some None | Some p \<Rightarrow> map_option Some (cstrdup alloc p))"

definition llm_client_set_tls_config ::
  "(nat \<Rightarrow> bool) \<Rightarrow> llm_client \<Rightarrow> llm_tls_config option \<Rightarrow> bool \<times> llm_client" where
  "llm_client_set_tls_config alloc client tls_ptr =
     (case tls_ptr of
        None \<Rightarrow>
          (True, client\<lparr>cl_tls_ca_bundle_path := None, cl_tls_ca_dir_path := None, cl_tls_client_cert_path := None,
                        cl_tls_client_key_path := None, cl_tls_key_password_cb := None,
                        cl_tls_verify_peer := True, cl_tls_verify_host := True, cl_tls_insecure := False\<rparr>)
      | Some tls \<Rightarrow>
          (case (dup_path alloc (tls_ca_bundle_path tls), dup_path alloc (tls_ca_dir_path tls),
                 dup_path alloc (tls_client_cert_path tls), dup_path alloc (tls_client_key_path tls)) of
             (Some ca_path, Some ca_dir, Some cert_path, Some key_path) \<Rightarrow>
               (True, client\<lparr>cl_tls_ca_bundle_path := ca_path, cl_tls_ca_dir_path := ca_dir,
                             cl_tls_client_cert_path := cert_path, cl_tls_client_key_path := key_path,
                             cl_tls_key_password_cb := tls_key_password_cb tls,
                             cl_tls_verify_peer := verify_flag (tls_verify_peer tls),
                             cl_tls_verify_host := verify_flag (tls_verify_host tls),
                             cl_tls_insecure := tls_insecure tls\<rparr>)
           | _ \<Rightarrow> (False, client)))"

definition llm_client_set_proxy :: "(nat \<Rightarrow> bool) \<Rightarrow> llm_client \<Rightarrow> byte list option \<Rightarrow> bool \<times> llm_client" where
  "llm_client_set_proxy alloc client proxy_url =
     (case proxy_url of
        None \<Rightarrow> (True, client\<lparr>cl_proxy_url := None\<rparr>)
      | Some url \<Rightarrow>
          if url = [] then (True, client\<lparr>cl_proxy_url := None\<rparr>)
          else (case cstrdup alloc url of
                  None \<Rightarrow> (False, client)
                | Some s \<Rightarrow> (True, client\<lparr>cl_proxy_url := Some s\<rparr>)))"

definition llm_client_set_no_proxy :: "(nat \<Rightarrow> bool) \<Rightarrow> llm_client \<Rightarrow> byte list option \<Rightarrow> bool \<times> llm_client" where
  "llm_client_set_no_proxy alloc client no_proxy_list =
     (case no_proxy_list of
        None \<Rightarrow> (True, client\<lparr>cl_no_proxy := None\<rparr>)
      | Some hosts \<Rightarrow>
          if hosts = [] then (True, client\<lparr>cl_no_proxy := None\<rparr>)
          else (case cstrdup alloc hosts of
                  None \<Rightarrow> (False, client)
                | Some s \<Rightarrow> (True, client\<lparr>cl_no_proxy := Some s\<rparr>)))"

definition llm_client_tls_config :: "llm_client \<Rightarrow> llm_tls_config" where
  "llm_client_tls_config client =
     \<lparr>tls_ca_bundle_path = cl_tls_ca_bundle_path client, tls_ca_dir_path = cl_tls_ca_dir_path client,
      tls_client_cert_path = cl_tls_client_cert_path client, tls_client_key_path = cl_tls_client_key_path client,
      tls_key_password_cb = cl_tls_key_password_cb client,
      tls_verify_peer = (if cl_tls_verify_peer client then LLM_TLS_VERIFY_ON else LLM_TLS_VERIFY_OFF),
      tls_verify_host = (if cl_tls_verify_host client then LLM_TLS_VERIFY_ON else LLM_TLS_VERIFY_OFF),
      tls_insecure = cl_tls_insecure client\<rparr>"

end
