(* ===== verification/ClientProps.thy ===== *)
theory ClientProps
  imports Client
begin

text \<open>
  The client handle over its whole life: a relation of the handles its operations can
  reach, the invariant of their header arrays, and what a request sends of them.
\<close>

section \<open>Well-formed handles\<close>

definition header_ok :: "byte list option \<Rightarrow> bool" where
  "header_ok e =
     (case e of
        None \<Rightarrow> False
      | Some h \<Rightarrow> \<not> header_has_crlf h \<and> (case memchr h C_COLON of None \<Rightarrow> False | Some colon \<Rightarrow> colon \<noteq> 0))"

definition client_wf :: "llm_client \<Rightarrow> bool" where
  "client_wf client =
     (case cl_headers client of
        None \<Rightarrow> cl_headers_count client = 0 \<and> cl_custom_headers_count client = 0 \<and> cl_auth_header client = None
      | Some hs \<Rightarrow>
          length hs = cl_headers_cap client \<and> cl_headers_count client \<le> length hs \<and>
          list_all header_ok (take (cl_headers_count client) hs) \<and>
          cl_headers_count client = cl_custom_headers_count client + (if cl_auth_header client = None then 0 else 1) \<and>
          (if cl_auth_header client = None then True else hs ! cl_custom_headers_count client = cl_auth_header client))"

text \<open>The handles a program can hold: created, then changed by any setters and failed calls.\<close>

inductive client_reach :: "llm_client \<Rightarrow> bool" where
  created: "llm_client_create_with_headers_opts alloc url model timeout limits headers en = Some client \<Longrightarrow>
    client_reach client"
| set_model: "client_reach client \<Longrightarrow> client_reach (snd (llm_client_set_model alloc client m))"
| set_api_key: "client_reach client \<Longrightarrow> client_reach (snd (llm_client_set_api_key alloc client key))"
| set_tls: "client_reach client \<Longrightarrow> client_reach (snd (llm_client_set_tls_config alloc client tls))"
| set_proxy: "client_reach client \<Longrightarrow> client_reach (snd (llm_client_set_proxy alloc client p))"
| set_no_proxy: "client_reach client \<Longrightarrow> client_reach (snd (llm_client_set_no_proxy alloc client p))"
| reset_error: "client_reach client \<Longrightarrow> client_reach (last_error_reset client)"
| capture: "client_reach client \<Longrightarrow> client_reach (fst (error_detail_capture alloc client detail c st http b pe))"
| set_simple: "client_reach client \<Longrightarrow> client_reach (last_error_set_simple_if_empty client c st)"

lemma list_all_take: "list_all P (take n xs) \<Longrightarrow> m \<le> n \<Longrightarrow> list_all P (take m xs)"
  by (auto simp: list_all_length)

lemma header_entries_valid_iff: "header_entries_valid es \<longleftrightarrow> list_all header_ok es"
  by (induction es) (auto simp: header_ok_def split: option.splits)

lemma header_list_validateD:
  "header_list_validate headers \<Longrightarrow> hl_count headers \<noteq> 0 \<Longrightarrow> \<exists>hs. headers = HArr hs \<and> list_all header_ok hs"
  by (auto simp: header_list_validate_def header_entries_valid_iff split: header_list.splits)

lemma auth_header_ok: "\<not> header_has_crlf key \<Longrightarrow> header_ok (Some (auth_prefix @ key))"
proof -
  assume k: "\<not> header_has_crlf key"
  have p: "memchr (auth_prefix @ key) C_COLON = Some 13"
    by (simp add: auth_prefix_def memchr_def)
  with k show ?thesis by (simp add: header_ok_def header_has_crlf_def auth_prefix_def)
qed

text \<open>The array that the creation loop has filled up to index \<open>i\<close>.\<close>

lemma headers_copy_wf:
  assumes "headers_copy alloc client i es = (True, client')" "cl_headers client = Some hs"
    "length hs = i + length es + 1" "cl_headers_count client = i" "cl_custom_headers_count client = i"
    "cl_headers_cap client = length hs" "cl_auth_header client = None" "list_all header_ok (take i hs)"
    "list_all header_ok es"
  shows "client_wf client' \<and> cl_headers_count client' = i + length es"
  using assms
proof (induction es arbitrary: client i hs)
  case Nil
  then show ?case by (auto simp: client_wf_def)
next
  case (Cons e es)
  obtain h where e: "e = Some h" using Cons.prems(9) by (auto simp: header_ok_def split: option.splits)
  from Cons.prems(1) e obtain s where s: "cstrdup alloc h = Some s" by (auto split: option.splits)
  then have "s = h" by (simp add: cstrdup_def split: if_splits)
  have "take (i + 1) (hs[i := Some s]) = take i hs @ [Some s]"
    using Cons.prems(3) by (simp add: take_Suc_conv_app_nth)
  moreover have "header_ok (Some s)" using Cons.prems(9) e \<open>s = h\<close> by simp
  ultimately have t: "list_all header_ok (take (i + 1) (hs[i := Some s]))" using Cons.prems(8) by simp
  let ?c = "client\<lparr>cl_headers := Some (hs[i := Some s]), cl_custom_headers_count := i + 1, cl_headers_count := i + 1\<rparr>"
  have "headers_copy alloc ?c (i + 1) es = (True, client')"
    using Cons.prems(1,2,4,5) e s by simp
  from Cons.IH [OF this, of "hs[i := Some s]"] show ?case
    using Cons.prems t by simp
qed

lemma create_wf:
  assumes "llm_client_create_with_headers_opts alloc url model timeout limits headers en = Some client"
  shows "client_wf client"
proof -
  define c0 where "c0 = client_fresh alloc url model timeout limits en"
  have c0: "cl_headers c0 = None" "cl_headers_count c0 = 0" "cl_custom_headers_count c0 = 0" "cl_auth_header c0 = None"
    by (simp_all add: c0_def client_fresh_def)
  have i: "llm_client_headers_init alloc c0 headers = (True, client)"
    using assms by (simp add: c0_def llm_client_create_with_headers_opts_def split: prod.splits if_splits)
  show ?thesis
  proof (cases "hl_count headers = 0")
    case True
    with c0 i show ?thesis
      by (auto simp: llm_client_headers_init_def llm_client_headers_free_def client_wf_def split: if_splits)
  next
    case False
    with i have v: "header_list_validate headers" and a: "alloc ((hl_count headers + 1) * 8)"
      by (auto simp: llm_client_headers_init_def Let_def split: if_splits)
    obtain hs where hs: "headers = HArr hs" "list_all header_ok hs" using header_list_validateD [OF v False] by blast
    let ?c = "c0\<lparr>cl_headers_cap := length hs + 1, cl_headers := Some (replicate (length hs + 1) None)\<rparr>"
    have c: "headers_copy alloc ?c 0 hs = (True, client)"
      using i v a False hs(1) by (simp add: llm_client_headers_init_def Let_def)
    from headers_copy_wf [OF c, of "replicate (length hs + 1) None"] hs(2) c0 show ?thesis by simp
  qed
qed

lemma set_api_key_wf:
  assumes "client_wf client" shows "client_wf (snd (llm_client_set_api_key alloc client key))"
proof (cases key)
  case None
  then show ?thesis using assms
    by (auto simp: llm_client_set_api_key_def client_wf_def Let_def take_update_cancel
        split: option.splits if_splits elim: list_all_take)
next
  case (Some k)
  let ?n = "cl_custom_headers_count client" and ?h = "Some (auth_prefix @ k)"
  have put: "client_wf (client\<lparr>cl_headers_cap := length hs, cl_auth_header := ?h, cl_headers := Some (hs[?n := ?h]),
      cl_headers_count := ?n + 1\<rparr>)"
    if "\<not> header_has_crlf k" "?n < length hs" "list_all header_ok (take ?n hs)" for hs
    using that auth_header_ok [of k] by (simp add: client_wf_def take_Suc_conv_app_nth)
  show ?thesis
  proof (cases "cl_headers client")
    case None
    with assms put [of "[None]"] Some show ?thesis
      by (auto simp: llm_client_set_api_key_def client_wf_def Let_def)
  next
    case hs: (Some hs)
    have l: "length hs = cl_headers_cap client" "?n \<le> length hs" "list_all header_ok (take ?n hs)"
      using assms hs by (auto simp: client_wf_def list_all_length split: if_splits)
    show ?thesis
    proof (cases "?n < length hs")
      case True
      with put [of hs] Some hs l assms show ?thesis by (auto simp: llm_client_set_api_key_def Let_def)
    next
      case False
      with put [of "hs @ [None]"] Some hs l assms show ?thesis
        by (auto simp: llm_client_set_api_key_def Let_def)
    qed
  qed
qed

text \<open>The operations that leave the header fields alone.\<close>

definition hdr :: "llm_client \<Rightarrow> byte list option list option \<times> nat \<times> nat \<times> nat \<times> byte list option" where
  "hdr c = (cl_headers c, cl_headers_count c, cl_custom_headers_count c, cl_headers_cap c, cl_auth_header c)"

lemma client_wf_hdr: "hdr c' = hdr c \<Longrightarrow> client_wf c \<Longrightarrow> client_wf c'"
  by (simp only: client_wf_def hdr_def prod.inject)

lemma hdr_frames [frame_simps]:
  "hdr (snd (llm_client_set_model alloc client m)) = hdr client"
  "hdr (snd (llm_client_set_tls_config alloc client tls)) = hdr client"
  "hdr (snd (llm_client_set_proxy alloc client p)) = hdr client"
  "hdr (snd (llm_client_set_no_proxy alloc client p)) = hdr client"
  "hdr (last_error_reset client) = hdr client"
  "hdr (fst (error_detail_capture alloc client detail c st http b pe)) = hdr client"
  "hdr (last_error_set_simple_if_empty client c st) = hdr client"
  by (simp_all add: hdr_def llm_client_set_model_def llm_client_set_tls_config_def llm_client_set_proxy_def
      llm_client_set_no_proxy_def last_error_reset_def error_detail_capture_def last_error_set_simple_if_empty_def
      Let_def split: option.split)

lemma client_reach_wf: "client_reach client \<Longrightarrow> client_wf client"
  by (induction rule: client_reach.induct) (blast intro: create_wf set_api_key_wf client_wf_hdr [OF hdr_frames(1)]
    client_wf_hdr [OF hdr_frames(2)] client_wf_hdr [OF hdr_frames(3)] client_wf_hdr [OF hdr_frames(4)]
    client_wf_hdr [OF hdr_frames(5)] client_wf_hdr [OF hdr_frames(6)] client_wf_hdr [OF hdr_frames(7)])+

section \<open>The headers of a request\<close>

lemma client_wf_own:
  "client_wf client \<Longrightarrow> cl_headers client = Some hs \<Longrightarrow> list_all header_ok (take (cl_headers_count client) hs)"
proof -
  assume w: "client_wf client" and h: "cl_headers client = Some hs"
  show "list_all header_ok (take (cl_headers_count client) hs)"
    using w unfolding client_wf_def h option.case by blast
qed

text \<open>The name of a header as names are compared: without trailing blanks, in lower case.\<close>

definition header_key :: "byte list \<Rightarrow> byte list option" where
  "header_key h = map_option (map header_tolower) (header_name_span h)"

lemma header_name_eq_iff: "header_name_eq a b \<longleftrightarrow> map header_tolower a = map header_tolower b"
  unfolding header_name_eq_def list_eq_iff_nth_eq list_all_iff by auto

lemma header_list_overrides_iff:
  "header_list_overrides hs name \<longleftrightarrow> Some (map header_tolower name) \<in> set (map header_key hs)"
  by (induction hs) (auto simp: header_key_def header_name_eq_iff split: option.splits)

section \<open>Properties\<close>

text \<open>
  C25: every handle the operations can reach has a well-formed header array: its capacity is
  its length, the count covers the custom headers and the API key's header if one is set, that
  header stands right behind the custom ones, and every header in the count is a string with
  a colon behind a non-empty name and without line breaks.
\<close>

theorem client_handle_wf:
  assumes "client_reach client"
  shows "client_wf client"
  by (rule client_reach_wf [OF assms])

text \<open>A handle with one custom header and a key, used by the examples.\<close>

definition demo_client :: llm_client where
  "demo_client =
     snd (llm_client_set_api_key (\<lambda>n. True)
       (the (llm_client_create_with_headers_opts (\<lambda>n. True) (lit ''http://h'') (Some (lit ''m'')) None None
          (HArr [Some (lit ''X-A: 1'')]) True)) (Some (lit ''k'')))"

lemma demo_client_reach: "client_reach demo_client"
proof -
  obtain c where c: "llm_client_create_with_headers_opts (\<lambda>n. True) (lit ''http://h'') (Some (lit ''m'')) None None
      (HArr [Some (lit ''X-A: 1'')]) True = Some c"
    by (simp add: llm_client_create_with_headers_opts_def llm_client_headers_init_def header_list_validate_def
        header_has_crlf_def memchr_def cstrdup_def)
  show ?thesis unfolding demo_client_def c option.sel by (rule set_api_key [OF created [OF c]])
qed

theorem client_handle_wf_witness:
  "client_wf demo_client \<and> cl_headers_count demo_client = 2"
proof -
  have "cl_headers_count demo_client = 2" by code_simp
  then show ?thesis using client_handle_wf [OF demo_client_reach] by simp
qed

text \<open>
  C26: whatever headers the caller passes, the set that goes out with a request of a reachable
  handle holds only strings without line breaks and with a non-empty name: no header, not
  even the one made of the API key, can smuggle in another header or a body.
\<close>

theorem request_headers_safe:
  assumes "client_reach client" "llm_header_set_init alloc client headers = Some hs"
  shows "list_all header_ok hs"
proof -
  have v: "header_list_validate headers" using assms(2) by (auto simp: llm_header_set_init_def split: if_splits)
  have c: "list_all header_ok (hl_entries headers)"
  proof (cases "hl_count headers = 0")
    case True
    then show ?thesis by (cases headers) auto
  next
    case False
    with header_list_validateD [OF v] show ?thesis by auto
  qed
  have o: "list_all header_ok (case cl_headers client of None \<Rightarrow> [] | Some hs \<Rightarrow> take (cl_headers_count client) hs)"
    using client_wf_own [OF client_reach_wf [OF assms(1)]] by (auto split: option.splits)
  show ?thesis using assms(2) v c o
    by (auto simp: llm_header_set_init_def Let_def list_all_iff split: if_splits)
qed

theorem request_headers_safe_witness:
  "\<exists>hs. llm_header_set_init (\<lambda>n. True) demo_client (HArr [Some (lit ''x-a: 2'')]) = Some hs \<and> length hs = 2 \<and>
     list_all header_ok hs"
proof -
  have v: "map_option length (llm_header_set_init (\<lambda>n. True) demo_client (HArr [Some (lit ''x-a: 2'')])) = Some 2"
    by code_simp
  then obtain hs where hs: "llm_header_set_init (\<lambda>n. True) demo_client (HArr [Some (lit ''x-a: 2'')]) = Some hs"
    by auto
  with v request_headers_safe [OF demo_client_reach hs] show ?thesis by simp
qed

text \<open>
  C27: the set a request sends is the handle's headers, less those whose name, compared
  without case, one of the call's headers has, followed by the call's headers in order; it
  is refused exactly when a header of the call is malformed. (A name of blanks only is
  never overridden.)
\<close>

theorem request_headers_override:
  assumes "client_reach client"
  shows "llm_header_set_init (\<lambda>n. True) client headers =
    (if hl_count headers = 0 \<or> (case headers of HNull n \<Rightarrow> False | HArr es \<Rightarrow> list_all header_ok es)
     then Some (filter (\<lambda>e. header_key (the e) = None \<or>
                            header_key (the e) \<notin> set (map (header_key \<circ> the) (hl_entries headers)))
                  (case cl_headers client of None \<Rightarrow> [] | Some hs \<Rightarrow> take (cl_headers_count client) hs) @
                hl_entries headers)
     else None)"
proof -
  let ?own = "case cl_headers client of None \<Rightarrow> [] | Some hs \<Rightarrow> take (cl_headers_count client) hs"
  let ?call = "hl_entries headers"
  let ?keep = "\<lambda>e. header_key (the e) = None \<or> header_key (the e) \<notin> set (map (header_key \<circ> the) ?call)"
  have v: "header_list_validate headers \<longleftrightarrow>
      hl_count headers = 0 \<or> (case headers of HNull n \<Rightarrow> False | HArr es \<Rightarrow> list_all header_ok es)"
    by (auto simp: header_list_validate_def header_entries_valid_iff split: header_list.splits)
  have o: "list_all header_ok ?own"
    using client_wf_own [OF client_reach_wf [OF assms]] by (auto split: option.splits)
  have "(\<not> (case e of None \<Rightarrow> False
          | Some h \<Rightarrow> (case header_name_span h of
                None \<Rightarrow> False | Some name \<Rightarrow> header_list_overrides (map the ?call) name))) = ?keep e"
    if "e \<in> set ?own" for e
  proof -
    have "header_ok e" using o that unfolding list_all_iff by blast
    then obtain h where "e = Some h" by (cases e) (auto simp: header_ok_def)
    then show ?thesis
      by (cases "header_name_span h") (simp_all add: header_key_def header_list_overrides_iff image_image)
  qed
  then have f: "filter (\<lambda>e. \<not> (case e of None \<Rightarrow> False
          | Some h \<Rightarrow> (case header_name_span h of
                None \<Rightarrow> False | Some name \<Rightarrow> header_list_overrides (map the ?call) name))) ?own = filter ?keep ?own"
    by (rule filter_cong [OF refl])
  have n: "hl_count headers = 0 \<Longrightarrow> ?call = []" by (cases headers) auto
  have e: "cl_headers client = None \<or> cl_headers_count client = 0 \<Longrightarrow> ?own = []" by (auto split: option.splits)
  show ?thesis
  proof (cases "header_list_validate headers")
    case False
    then show ?thesis unfolding v [symmetric] by (simp add: llm_header_set_init_def)
  next
    case True
    then show ?thesis unfolding v [symmetric]
      using f n e by (auto simp: llm_header_set_init_def Let_def filter_empty_conv)
  qed
qed

theorem request_headers_override_witness:
  "llm_header_set_init (\<lambda>n. True) demo_client (HArr [Some (lit ''x-a : 2'')]) =
     Some [Some (lit ''Authorization: Bearer k''), Some (lit ''x-a : 2'')]"
  unfolding request_headers_override [OF demo_client_reach] by code_simp

end
