(* ===== verification/ErrorProps.thy ===== *)
theory ErrorProps
  imports Client JsonDoc
begin

text \<open>
  What the error details of a failed call hold: the code, stage and status of the failure,
  the body, and the fields of the error object in the body, read on the document's tree.
\<close>

lemma jstok_parse_Inr_toknext: "jstok_parse strict p (Some json) arr = (Inr n, q, t) \<Longrightarrow> n = jp_toknext q"
  by (auto simp: jstok_parse_def split: prod.splits option.splits if_splits)

text \<open>The parse into an array that holds \<open>cap\<close> tokens.\<close>

lemma jstok_parse_cap:
  assumes "doc json ts"
  shows "case jstok_parse False jstok_init (Some json) (Some (fresh_toks cap)) of
      (Inr n, p, Some arr) \<Rightarrow> length (flats ts) \<le> cap \<and> n = length (flats ts) \<and> take n arr = flats ts
    | (Inr n, p, None) \<Rightarrow> False
    | (Inl e, p, arr) \<Rightarrow> cap < length (flats ts)"
proof (cases "length (flats ts) \<le> cap")
  case True
  then show ?thesis
    using jstok_parse_complete [of json ts "fresh_toks cap" False] assms
    by (auto simp: doc_def list_all_iff fresh_toks_def)
next
  case False
  let ?big = "fresh_toks (length (flats ts))"
  obtain p where b: "jstok_parse False jstok_init (Some json) (Some ?big) =
      (Inr (length (flats ts)), p, Some (flats ts @ drop (length (flats ts)) ?big))"
    using jstok_parse_complete [of json ts ?big False] assms by (auto simp: doc_def list_all_iff fresh_toks_def)
  obtain r pc t where c: "jstok_parse False jstok_init (Some json) None = (r, pc, t)" by (metis prod_cases3)
  obtain r' pw arr where w: "jstok_parse False jstok_init (Some json) (Some (fresh_toks cap)) = (r', pw, arr)"
    by (metis prod_cases3)
  have "r = Inr (length (flats ts))" using jstok_parse_agree [OF c b] by (auto split: if_splits)
  then have "jp_toknext pc = length (flats ts)" using jstok_parse_Inr_toknext c by metis
  with jstok_parse_agree [OF c w] False have "r' = Inl JSTOK_ERROR_NOMEM" by (simp add: fresh_toks_def)
  with w False show ?thesis by simp
qed

definition tree_error :: "byte list \<Rightarrow> jtree list \<Rightarrow> string \<Rightarrow> byte list option" where
  "tree_error json ts key =
     (case ts of
        [] \<Rightarrow> None
      | t # _ \<Rightarrow>
          (case (if is_obj t then tree_obj json t (lit ''error'') else None) of
             None \<Rightarrow> None
           | Some e \<Rightarrow> tree_str json e (lit key)))"

lemma openai_field_tree:
  assumes "sits toks i e" "is_obj e"
  shows "openai_field json toks (int i) key None = tree_str json e (lit key)"
  using sits_str [OF assms, of json "lit key"]
  by (auto simp: openai_field_def extract_optional_string_field_def obj_get_key_def tok_span_def Let_def split: if_splits)

lemma error_detail_parse_openai_tree:
  assumes "doc json ts" "ed_message detail = None" "ed_type detail = None" "ed_error_code detail = None"
  shows "error_detail_parse_openai detail json =
    (let field = (\<lambda>key. if length (flats ts) \<le> LLM_ERROR_DETAIL_TOKENS_MAX then tree_error json ts key else None) in
     detail\<lparr>ed_message := field ''message'', ed_type := field ''type'', ed_error_code := field ''code''\<rparr>)"
proof -
  have same: "detail\<lparr>ed_message := None, ed_type := None, ed_error_code := None\<rparr> = detail"
    using assms(2-4) by simp
  note cap = jstok_parse_cap [OF assms(1), of LLM_ERROR_DETAIL_TOKENS_MAX]
  obtain r p arr where P: "jstok_parse False jstok_init (Some json) (Some (fresh_toks LLM_ERROR_DETAIL_TOKENS_MAX)) = (r, p, arr)"
    by (metis prod_cases3)
  have len: "\<not> length json > INT_MAX" using assms(1) by (simp add: doc_def INT_MAX_def)
  show ?thesis
  proof (cases "json = []")
    case True
    have "jtop [] 0 0 ts" using assms(1) True by (simp add: doc_def)
    then have "ts = []" by (cases rule: jtop.cases) (auto dest: jvalue_wb(1))
    with True same show ?thesis by (simp add: error_detail_parse_openai_def tree_error_def Let_def)
  next
    case json: False
    show ?thesis
    proof (cases "length (flats ts) \<le> LLM_ERROR_DETAIL_TOKENS_MAX")
      case False
      with cap P obtain e where "r = Inl e" by (auto split: sum.splits option.splits)
      with P False json len same show ?thesis by (simp add: error_detail_parse_openai_def Let_def)
    next
      case True
      with cap P obtain n a where n: "r = Inr n" "arr = Some a" "take n a = flats ts" "n = length (flats ts)"
        by (auto split: sum.splits option.splits)
      show ?thesis
      proof (cases ts)
        case Nil
        with P n True same show ?thesis by (simp add: error_detail_parse_openai_def Let_def tree_error_def)
      next
        case (Cons t us)
        let ?toks = "flats (t # us)"
        have s: "sits ?toks 0 t" using doc_sits assms(1) Cons by blast
        have ne: "n \<noteq> 0" using n(4) Cons flats_Nil_iff [of ts] by (cases "flats ts") auto
        have base: "error_detail_parse_openai detail json =
            (let error_idx = jstok_object_get json ?toks 0 (lit ''error'') in
             if tk_type (?toks ! 0) \<noteq> JSTOK_OBJECT then detail
             else if error_idx < 0 \<or> tk_type (?toks ! nat error_idx) \<noteq> JSTOK_OBJECT then detail
             else detail\<lparr>ed_message := openai_field json ?toks error_idx ''message'' (ed_message detail),
                         ed_type := openai_field json ?toks error_idx ''type'' (ed_type detail),
                         ed_error_code := openai_field json ?toks error_idx ''code'' (ed_error_code detail)\<rparr>)"
          using P n ne json len Cons
          by (simp add: error_detail_parse_openai_def Let_def del: flats_simps lit_Cons nth_take)
        show ?thesis
        proof (cases "is_obj t")
          case False
          with base sits_head(2) [OF s] Cons same show ?thesis
            by (simp add: tree_error_def Let_def del: flats_simps)
        next
          case obj: True
          show ?thesis
          proof (cases "tree_obj json t (lit ''error'')")
            case None
            with sits_tree_obj [OF s obj, of json "lit ''error''"] base obj sits_head(2) [OF s] Cons same show ?thesis
              by (auto simp: tree_error_def Let_def obj_get_key_def simp del: flats_simps lit_Cons)
          next
            case (Some e)
            with sits_tree_obj [OF s obj, of json "lit ''error''"] obtain j where
              j: "jstok_object_get json ?toks 0 (lit ''error'') = int j" "sits ?toks j e" "is_obj e"
                "tk_type (?toks ! j) = JSTOK_OBJECT" by (auto simp: obj_get_key_def simp del: flats_simps lit_Cons)
            show ?thesis
              using base Some obj sits_head(2) [OF s] Cons True j(1,4) openai_field_tree [OF j(2,3), of json] assms(2-4)
              by (simp add: tree_error_def Let_def del: flats_simps lit_Cons)
          qed
        qed
      qed
    qed
  qed
qed

text \<open>
  C28: when a call fails with a JSON body, the caller's detail and the handle's last error, as
  far as each is wanted, both become exactly the code, stage and status of this failure, the
  body, and the message, type and code of its error object; nothing of an earlier error is
  left. A body of more than 64 tokens is kept, but not read.
\<close>

theorem error_details_exact:
  assumes "doc body ts" "body \<noteq> []" "0 < http"
  shows "error_detail_capture (\<lambda>n. True) client detail code stage http (Some body) True =
    (let field = (\<lambda>key. if length (flats ts) \<le> 64 then tree_error body ts key else None);
         this = \<lparr>ed_code = code, ed_stage = stage, ed_http_status = http, ed_has_http_status = True,
                  ed_message = field ''message'', ed_type = field ''type'', ed_error_code = field ''code'',
                  ed_raw_body = Some body\<rparr> in
     (if cl_last_error_enabled client then client\<lparr>cl_last_error := this\<rparr> else client,
      map_option (\<lambda>d. this) detail))"
proof -
  let ?field = "\<lambda>key. if length (flats ts) \<le> 64 then tree_error body ts key else None"
  let ?this = "\<lparr>ed_code = code, ed_stage = stage, ed_http_status = http, ed_has_http_status = True,
      ed_message = ?field ''message'', ed_type = ?field ''type'', ed_error_code = ?field ''code'',
      ed_raw_body = Some body\<rparr>"
  have f: "error_detail_fill d code stage http (Some body) True = ?this" for d
    using error_detail_parse_openai_tree [OF assms(1)] assms(3)
    by (simp add: error_detail_fill_def error_detail_set_http_status_def llm_error_detail_free_def error_detail_clear_def
        LLM_ERROR_DETAIL_TOKENS_MAX_def Let_def)
  show ?thesis using assms(2)
    by (cases detail) (simp_all add: error_detail_capture_def f Let_def)
qed

definition demo_error :: "byte list" where
  "demo_error = qlit ''{`error`:{`message`:`no`,`code`:1}}''"

theorem error_details_exact_witness:
  "\<exists>ts. doc demo_error ts \<and> tree_error demo_error ts ''message'' = Some (lit ''no'') \<and>
    snd (error_detail_capture (\<lambda>n. True) (client_fresh (\<lambda>n. True) [] None None None True) (Some error_detail_clear) LLM_ERR_FAILED LLM_ERROR_STAGE_PROTOCOL 401
      (Some demo_error) True) =
      Some \<lparr>ed_code = LLM_ERR_FAILED, ed_stage = LLM_ERROR_STAGE_PROTOCOL, ed_http_status = 401,
        ed_has_http_status = True, ed_message = Some (lit ''no''), ed_type = None, ed_error_code = None,
        ed_raw_body = Some demo_error\<rparr>"
proof -
  have "case tokenize (\<lambda>n. True) demo_error of Inl e \<Rightarrow> False | Inr toks \<Rightarrow> length toks \<le> 64" by code_simp
  then obtain toks where "tokenize (\<lambda>n. True) demo_error = Inr toks" "length toks \<le> 64" by (auto split: sum.splits)
  moreover have "length demo_error < 2 ^ 31" by (simp add: demo_error_def qlit_def)
  ultimately obtain ts where d: "doc demo_error ts" "length (flats ts) \<le> 64" using tokenize_Inr by blast
  have "demo_error \<noteq> []" by (simp add: demo_error_def qlit_def)
  note e = error_details_exact [OF d(1) this]
  have p: "error_detail_parse_openai error_detail_clear demo_error =
      error_detail_clear\<lparr>ed_message := Some (lit ''no'')\<rparr>" by code_simp
  have t: "tree_error demo_error ts ''message'' = Some (lit ''no'')" "tree_error demo_error ts ''type'' = None"
    "tree_error demo_error ts ''code'' = None"
    using p error_detail_parse_openai_tree [OF d(1), of error_detail_clear] d(2)
    by (simp_all add: LLM_ERROR_DETAIL_TOKENS_MAX_def Let_def error_detail_clear_def)
  show ?thesis using e [of 401] d t by (auto simp: Let_def)
qed

end
