(* ===== verification/Transport.thy ===== *)
theory Transport
  imports Client Buffers
begin

text \<open>
  The transport of \<open>src/src/transport_curl.c\<close> over libcurl, which is a parameter: whether a handle
  can be made, the certificate paths it was built with, and, for the options a request is
  performed with, the chunks it hands to the write function, the code it ends with and the
  status of the response. As libcurl documents, a write function that does not take a whole
  chunk ends the transfer with \<open>CURLE_WRITE_ERROR\<close>.
\<close>

section \<open>The library\<close>

datatype curl_code =
    CURLE_OK
  | CURLE_WRITE_ERROR
  | CURLE_SSL_CONNECT_ERROR
  | CURLE_SSL_CERTPROBLEM
  | CURLE_SSL_CACERT
  | CURLE_SSL_CACERT_BADFILE
  | CURLE_SSL_ISSUER_ERROR
  | CURLE_SSL_CIPHER
  | CURLE_SSL_ENGINE_INITFAILED
  | CURLE_SSL_ENGINE_SETFAILED
  | CURLE_SSL_CRL_BADFILE
  | CURLE_SSL_SHUTDOWN_FAILED
  | CURLE_SSL_INVALIDCERTSTATUS
  | CURLE_SSL_PINNEDPUBKEYNOTMATCH
  | CURLE_SSL_CLIENTCERT
  | CURLE_USE_SSL_FAILED
  | CURLE_OTHER int

text \<open>A path option: left alone, set to NULL, or set to a path.\<close>

datatype curl_path = CPathDefault | CPathNull | CPathSet "byte list"

record curl_opts =
  co_url :: "byte list"
  co_post :: "byte list option"
  co_headers :: "byte list option list"
  co_verifypeer :: bool
  co_verifyhost :: bool
  co_cainfo :: curl_path
  co_capath :: curl_path
  co_sslcert :: "byte list option"
  co_sslkey :: "byte list option"
  co_keypasswd :: "byte list option"
  co_proxy :: "byte list"
  co_noproxy :: "byte list"
  co_timeout_ms :: int
  co_connecttimeout_ms :: int
  co_low_speed_time :: "int option"
  co_follow :: bool

record curl_run =
  cr_chunks :: "byte list list"
  cr_code :: curl_code
  cr_status :: int

record curl_lib =
  curl_init :: bool
  curl_cainfo :: "byte list option"
  curl_capath :: "byte list option"
  curl_net :: "curl_opts \<Rightarrow> curl_run"

fun deliver :: "('s \<Rightarrow> byte list \<Rightarrow> bool \<times> 's) \<Rightarrow> 's \<Rightarrow> byte list list \<Rightarrow> bool \<times> 's" where
  "deliver cb s [] = (True, s)"
| "deliver cb s (c # cs) = (case cb s c of (ok, s1) \<Rightarrow> if ok then deliver cb s1 cs else (False, s1))"

definition curl_easy_perform ::
  "curl_lib \<Rightarrow> curl_opts \<Rightarrow> ('s \<Rightarrow> byte list \<Rightarrow> bool \<times> 's) \<Rightarrow> 's \<Rightarrow> curl_code \<times> int \<times> 's" where
  "curl_easy_perform lib opts cb s =
     (let run = curl_net lib opts in
      case deliver cb s (cr_chunks run) of
        (ok, s1) \<Rightarrow> (if ok then cr_code run else CURLE_WRITE_ERROR, cr_status run, s1))"

section \<open>Options\<close>

record llm_transport_status =
  ts_http_status :: int
  ts_curl_code :: curl_code
  ts_tls_error :: bool

definition transport_status_init :: llm_transport_status where
  "transport_status_init = \<lparr>ts_http_status = 0, ts_curl_code = CURLE_OK, ts_tls_error = False\<rparr>"

fun curl_is_tls_error :: "curl_code \<Rightarrow> bool" where
  "curl_is_tls_error CURLE_OK = False"
| "curl_is_tls_error CURLE_WRITE_ERROR = False"
| "curl_is_tls_error (CURLE_OTHER n) = False"
| "curl_is_tls_error code = True"

definition resolve_verify_mode :: "llm_tls_verify_mode \<Rightarrow> bool \<Rightarrow> bool" where
  "resolve_verify_mode mode default_value =
     (case mode of
        LLM_TLS_VERIFY_OFF \<Rightarrow> False
      | LLM_TLS_VERIFY_ON \<Rightarrow> True
      | LLM_TLS_VERIFY_DEFAULT \<Rightarrow> default_value)"

definition nonempty :: "byte list option \<Rightarrow> bool" where
  "nonempty s = (case s of None \<Rightarrow> False | Some x \<Rightarrow> x \<noteq> [])"

definition KEY_PASS_CAP :: nat where "KEY_PASS_CAP = 1024"

text \<open>
  The answer of the password callback is what it writes into the buffer, zeroed before: the
  password ends at the first NUL of the buffer. \<open>None\<close> is a configuration that fails.
\<close>

definition apply_tls_config :: "curl_lib \<Rightarrow> curl_opts \<Rightarrow> llm_tls_config \<Rightarrow> curl_opts option" where
  "apply_tls_config lib opts tls =
     (let verify_peer = (if tls_insecure tls then False else resolve_verify_mode (tls_verify_peer tls) True);
          verify_host = (if tls_insecure tls then False else resolve_verify_mode (tls_verify_host tls) True);
          have_ca_bundle = nonempty (tls_ca_bundle_path tls);
          have_ca_dir = nonempty (tls_ca_dir_path tls);
          opts = opts\<lparr>co_verifypeer := verify_peer, co_verifyhost := verify_host\<rparr>;
          opts = (if have_ca_bundle then opts\<lparr>co_cainfo := CPathSet (the (tls_ca_bundle_path tls))\<rparr>
                  else if \<not> have_ca_dir \<and> nonempty (curl_cainfo lib)
                  then opts\<lparr>co_cainfo := CPathSet (the (curl_cainfo lib))\<rparr>
                  else if have_ca_dir then opts\<lparr>co_cainfo := CPathNull\<rparr>
                  else opts);
          opts = (if have_ca_dir then opts\<lparr>co_capath := CPathSet (the (tls_ca_dir_path tls))\<rparr>
                  else if \<not> have_ca_bundle \<and> nonempty (curl_capath lib)
                  then opts\<lparr>co_capath := CPathSet (the (curl_capath lib))\<rparr>
                  else if have_ca_bundle then opts\<lparr>co_capath := CPathNull\<rparr>
                  else opts);
          opts = (case tls_client_cert_path tls of None \<Rightarrow> opts | Some p \<Rightarrow> opts\<lparr>co_sslcert := Some p\<rparr>);
          opts = (case tls_client_key_path tls of None \<Rightarrow> opts | Some p \<Rightarrow> opts\<lparr>co_sslkey := Some p\<rparr>) in
      case tls_key_password_cb tls of
        None \<Rightarrow> Some opts
      | Some cb \<Rightarrow>
          (case cb KEY_PASS_CAP of
             None \<Rightarrow> None
           | Some written \<Rightarrow>
               (let buf = take KEY_PASS_CAP (written @ replicate KEY_PASS_CAP C_NUL) in
                case memchr buf C_NUL of
                  None \<Rightarrow> None
                | Some n \<Rightarrow> Some (opts\<lparr>co_keypasswd := Some (take n buf)\<rparr>))))"

text \<open>An empty string keeps libcurl from looking into the environment.\<close>

definition apply_proxy_config :: "curl_opts \<Rightarrow> byte list option \<Rightarrow> byte list option \<Rightarrow> curl_opts" where
  "apply_proxy_config opts proxy_url no_proxy =
     opts\<lparr>co_proxy := (if nonempty proxy_url then the proxy_url else []),
          co_noproxy := (if nonempty no_proxy then the no_proxy else [])\<rparr>"

definition curl_opts_init :: "byte list \<Rightarrow> curl_opts" where
  "curl_opts_init url =
     \<lparr>co_url = url, co_post = None, co_headers = [], co_verifypeer = True, co_verifyhost = True,
      co_cainfo = CPathDefault, co_capath = CPathDefault, co_sslcert = None, co_sslkey = None, co_keypasswd = None,
      co_proxy = [], co_noproxy = [], co_timeout_ms = 0, co_connecttimeout_ms = 0, co_low_speed_time = None,
      co_follow = False\<rparr>"

definition set_timeouts :: "curl_opts \<Rightarrow> int \<Rightarrow> curl_opts" where
  "set_timeouts opts timeout_ms =
     opts\<lparr>co_timeout_ms := timeout_ms, co_connecttimeout_ms := (if timeout_ms > 10000 then 10000 else timeout_ms)\<rparr>"

definition content_type_json :: "byte list option" where
  "content_type_json = Some (lit ''Content-Type: application/json'')"

section \<open>Requests\<close>

text \<open>A request body is handed to libcurl as a C string.\<close>

definition c_string :: "byte list \<Rightarrow> byte list" where
  "c_string bs = takeWhile (\<lambda>c. c \<noteq> C_NUL) bs"

text \<open>The write function into the growing buffer with the response limit.\<close>

definition write_cb :: "nat \<Rightarrow> growbuf \<Rightarrow> byte list \<Rightarrow> bool \<times> growbuf" where
  "write_cb max_bytes buf chunk = growbuf_append buf chunk max_bytes"

text \<open>
  What a call leaves in its out-parameters: the body, NULL if the first allocation failed and
  no byte came, with whether a NUL follows it, and the status. No result at all stands for the
  early return without a handle, which leaves all of them uninitialised.
\<close>

record http_result =
  hr_success :: bool
  hr_body :: "byte list option"
  hr_terminated :: bool
  hr_status :: llm_transport_status

definition http_failed :: "llm_transport_status \<Rightarrow> http_result" where
  "http_failed status = \<lparr>hr_success = False, hr_body = None, hr_terminated = False, hr_status = status\<rparr>"

definition tls_config_failed :: http_result where
  "tls_config_failed =
     http_failed (transport_status_init\<lparr>ts_tls_error := True, ts_curl_code := CURLE_SSL_CONNECT_ERROR\<rparr>)"

definition transport_status :: "curl_code \<Rightarrow> int \<Rightarrow> llm_transport_status" where
  "transport_status res http_status =
     (if res = CURLE_OK then \<lparr>ts_http_status = http_status, ts_curl_code = res, ts_tls_error = False\<rparr>
      else \<lparr>ts_http_status = 0, ts_curl_code = res, ts_tls_error = curl_is_tls_error res\<rparr>)"

text \<open>The transfer into a buffer, the same in both calls.\<close>

definition perform_buffered :: "(nat \<Rightarrow> bool) \<Rightarrow> curl_lib \<Rightarrow> curl_opts \<Rightarrow> nat \<Rightarrow> http_result" where
  "perform_buffered alloc lib opts max_response_bytes =
     (let buf0 = growbuf_init alloc 4096 in
      case curl_easy_perform lib opts (write_cb max_response_bytes) buf0 of
        (res, http_status, buf) \<Rightarrow>
          (let status = transport_status res http_status in
           if res = CURLE_OK then
             \<lparr>hr_success = True, hr_body = (if gb_nomem buf0 then None else Some (gb_data buf)),
              hr_terminated = fst (growbuf_append buf [C_NUL] (wrap64 (max_response_bytes + 1))), hr_status = status\<rparr>
           else http_failed status))"

definition http_get ::
  "(nat \<Rightarrow> bool) \<Rightarrow> curl_lib \<Rightarrow> byte list \<Rightarrow> int \<Rightarrow> nat \<Rightarrow> byte list option list \<Rightarrow> llm_tls_config \<Rightarrow>
     byte list option \<Rightarrow> byte list option \<Rightarrow> http_result option" where
  "http_get alloc lib url timeout_ms max_response_bytes headers tls proxy_url no_proxy =
     (if \<not> curl_init lib then None
      else
        (case apply_tls_config lib (curl_opts_init url) tls of
           None \<Rightarrow> Some tls_config_failed
         | Some opts \<Rightarrow>
             (let opts = apply_proxy_config opts proxy_url no_proxy;
                  opts = set_timeouts (opts\<lparr>co_headers := headers\<rparr>) timeout_ms;
                  opts = opts\<lparr>co_follow := True\<rparr> in
              Some (perform_buffered alloc lib opts max_response_bytes))))"

definition http_post ::
  "(nat \<Rightarrow> bool) \<Rightarrow> curl_lib \<Rightarrow> byte list \<Rightarrow> byte list \<Rightarrow> int \<Rightarrow> nat \<Rightarrow> byte list option list \<Rightarrow> llm_tls_config \<Rightarrow>
     byte list option \<Rightarrow> byte list option \<Rightarrow> http_result option" where
  "http_post alloc lib url json_body timeout_ms max_response_bytes headers tls proxy_url no_proxy =
     (if \<not> curl_init lib then None
      else
        (case apply_tls_config lib (curl_opts_init url) tls of
           None \<Rightarrow> Some tls_config_failed
         | Some opts \<Rightarrow>
             (let opts = apply_proxy_config opts proxy_url no_proxy;
                  opts = opts\<lparr>co_post := Some (c_string json_body), co_headers := content_type_json # headers\<rparr>;
                  opts = set_timeouts opts timeout_ms in
              Some (perform_buffered alloc lib opts max_response_bytes))))"

text \<open>The callback's state comes back, with success and status, or nothing without a handle.\<close>

definition http_post_stream ::
  "curl_lib \<Rightarrow> byte list \<Rightarrow> byte list \<Rightarrow> int \<Rightarrow> int \<Rightarrow> byte list option list \<Rightarrow> llm_tls_config \<Rightarrow>
     byte list option \<Rightarrow> byte list option \<Rightarrow> ('s \<Rightarrow> byte list \<Rightarrow> bool \<times> 's) \<Rightarrow> 's \<Rightarrow>
     (bool \<times> llm_transport_status \<times> 's) option" where
  "http_post_stream lib url json_body timeout_ms read_idle_timeout_ms headers tls proxy_url no_proxy cb s =
     (if \<not> curl_init lib then None
      else
        (case apply_tls_config lib (curl_opts_init url) tls of
           None \<Rightarrow> Some (False, hr_status tls_config_failed, s)
         | Some opts \<Rightarrow>
             (let opts = apply_proxy_config opts proxy_url no_proxy;
                  opts = opts\<lparr>co_post := Some (c_string json_body), co_headers := content_type_json # headers\<rparr>;
                  opts = set_timeouts opts timeout_ms;
                  opts = (if read_idle_timeout_ms > 0
                          then opts\<lparr>co_low_speed_time := Some ((read_idle_timeout_ms + 999) div 1000)\<rparr> else opts) in
              case curl_easy_perform lib opts cb s of
                (res, http_status, s1) \<Rightarrow> Some (res = CURLE_OK, transport_status res http_status, s1))))"

end
