(* ===== verification/Api.thy ===== *)
theory Api
  imports Transport ProtocolOther
begin

text \<open>
  The calls of \<open>src/src/llm.c\<close> that wait for a whole response: health, models, properties,
  completions, embeddings and chat. Each is the function with headers and error detail; the
  short forms call it with no headers or no detail.

  The result of a call is the error code, the handle, the caller's detail and, on success,
  the value. \<open>None\<close> stands for undefined behaviour: a handle without base URL or model name,
  whose NULL the code passes to \<open>snprintf\<close> or \<open>strlen\<close>, or a transport that returned before it
  set the status the code then reads.
\<close>

section \<open>Common parts\<close>

type_synonym 'a api = "(llm_error \<times> llm_client \<times> llm_error_detail option \<times> 'a option) option"

definition api_fail ::
  "(nat \<Rightarrow> bool) \<Rightarrow> llm_client \<Rightarrow> llm_error_detail option \<Rightarrow> llm_error_stage \<Rightarrow> int \<Rightarrow> byte list option \<Rightarrow> bool \<Rightarrow>
     'a api" where
  "api_fail alloc client detail stage http_status body parse_error =
     (case error_detail_capture alloc client detail LLM_ERR_FAILED stage http_status body parse_error of
        (client, detail) \<Rightarrow> Some (LLM_ERR_FAILED, client, detail, None))"

definition transport_stage :: "llm_transport_status \<Rightarrow> llm_error_stage" where
  "transport_stage status = (if ts_tls_error status then LLM_ERROR_STAGE_TLS else LLM_ERROR_STAGE_TRANSPORT)"

text \<open>The URL in its buffer of 1024 bytes.\<close>

definition call_url :: "byte list \<Rightarrow> string \<Rightarrow> byte list" where
  "call_url base_url path = take 1023 (base_url @ lit path)"

text \<open>What every call does first.\<close>

definition api_reset :: "llm_client \<Rightarrow> llm_error_detail option \<Rightarrow> llm_client \<times> llm_error_detail option" where
  "api_reset client detail = (last_error_reset client, map_option llm_error_detail_free detail)"

text \<open>
  From the header set to the parsed value, the same in the three calls that post: \<open>parse\<close> is the
  parser of the response; a body that is NULL is a tokenizer error. The value comes with
  the body it points into and whether a NUL follows that body.
\<close>

definition parse_stage :: "parse_err \<Rightarrow> llm_error_stage" where
  "parse_stage res = (case res of PErrProtocol \<Rightarrow> LLM_ERROR_STAGE_PROTOCOL | PErrJson e \<Rightarrow> LLM_ERROR_STAGE_JSON)"

definition api_post ::
  "(nat \<Rightarrow> bool) \<Rightarrow> curl_lib \<Rightarrow> llm_client \<Rightarrow> llm_error_detail option \<Rightarrow> byte list \<Rightarrow> byte list \<Rightarrow> header_list \<Rightarrow>
     (byte list \<Rightarrow> parse_err + 'a) \<Rightarrow> ('a \<times> byte list \<times> bool) api" where
  "api_post alloc lib client detail url request_json headers parse =
     (case llm_header_set_init alloc client headers of
        None \<Rightarrow> api_fail alloc client detail LLM_ERROR_STAGE_PROTOCOL 0 None False
      | Some hs \<Rightarrow>
          (case http_post alloc lib url request_json (tm_overall_ms (cl_timeout client))
                  (lm_max_response_bytes (cl_limits client)) hs (llm_client_tls_config client)
                  (cl_proxy_url client) (cl_no_proxy client) of
             None \<Rightarrow> None
           | Some r \<Rightarrow>
               if \<not> hr_success r
               then api_fail alloc client detail (transport_stage (hr_status r)) 0 None False
               else if ts_http_status (hr_status r) \<ge> 400
               then api_fail alloc client detail LLM_ERROR_STAGE_PROTOCOL (ts_http_status (hr_status r)) (hr_body r) True
               else
                 (case (case hr_body r of None \<Rightarrow> Inl (PErrJson JSTOK_ERROR_INVAL) | Some body \<Rightarrow> parse body) of
                    Inl res \<Rightarrow>
                      api_fail alloc client detail (parse_stage res) (ts_http_status (hr_status r)) (hr_body r) True
                  | Inr value \<Rightarrow> Some (LLM_ERR_NONE, client, detail, Some (value, the (hr_body r), hr_terminated r)))))"

section \<open>Calls that post\<close>

text \<open>\<open>want_result\<close> is false when the caller passes NULL for the result.\<close>

definition llm_completions_with_headers_ex ::
  "(nat \<Rightarrow> bool) \<Rightarrow> curl_lib \<Rightarrow> llm_client \<Rightarrow> byte list \<Rightarrow> byte list option \<Rightarrow> bool \<Rightarrow> header_list \<Rightarrow>
     llm_error_detail option \<Rightarrow> (byte list option list \<times> byte list \<times> bool) api" where
  "llm_completions_with_headers_ex alloc lib client prompt params_json want_result headers detail =
     (case api_reset client detail of
        (client, detail) \<Rightarrow>
          if \<not> want_result then api_fail alloc client detail LLM_ERROR_STAGE_PROTOCOL 0 None False
          else
            (case (cl_base_url client, cl_model_name client) of
               (Some base_url, Some model) \<Rightarrow>
                 (case build_completions_request alloc model prompt False False params_json of
                    None \<Rightarrow> api_fail alloc client detail LLM_ERROR_STAGE_PROTOCOL 0 None False
                  | Some request_json \<Rightarrow>
                      api_post alloc lib client detail (call_url base_url ''/v1/completions'') request_json headers
                        (parse_completions_response alloc))
             | _ \<Rightarrow> None))"

definition llm_embeddings_with_headers_ex ::
  "(nat \<Rightarrow> bool) \<Rightarrow> curl_lib \<Rightarrow> llm_client \<Rightarrow> llm_embedding_input list option \<Rightarrow> nat \<Rightarrow> byte list option \<Rightarrow> bool \<Rightarrow>
     header_list \<Rightarrow> llm_error_detail option \<Rightarrow> (byte list option list \<times> byte list \<times> bool) api" where
  "llm_embeddings_with_headers_ex alloc lib client inputs inputs_count params_json want_result headers detail =
     (case api_reset client detail of
        (client, detail) \<Rightarrow>
          if \<not> want_result then api_fail alloc client detail LLM_ERROR_STAGE_PROTOCOL 0 None False
          else
            (case cl_base_url client of
               None \<Rightarrow> None
             | Some base_url \<Rightarrow>
                 (case build_embeddings_request alloc (cl_model_name client) inputs inputs_count params_json
                         (lm_max_embedding_input_bytes (cl_limits client)) (lm_max_embedding_inputs (cl_limits client)) of
                    None \<Rightarrow> api_fail alloc client detail LLM_ERROR_STAGE_PROTOCOL 0 None False
                  | Some request_json \<Rightarrow>
                      api_post alloc lib client detail (call_url base_url ''/v1/embeddings'') request_json headers
                        (parse_embeddings_response alloc))))"

definition llm_chat_with_headers_ex ::
  "(nat \<Rightarrow> bool) \<Rightarrow> curl_lib \<Rightarrow> llm_client \<Rightarrow> llm_message list \<Rightarrow> byte list option \<Rightarrow> byte list option \<Rightarrow>
     byte list option \<Rightarrow> bool \<Rightarrow> header_list \<Rightarrow> llm_error_detail option \<Rightarrow> (llm_chat_result \<times> byte list \<times> bool) api" where
  "llm_chat_with_headers_ex alloc lib client messages params_json tooling_json response_format_json want_result headers
     detail =
     (case api_reset client detail of
        (client, detail) \<Rightarrow>
          if \<not> want_result then api_fail alloc client detail LLM_ERROR_STAGE_PROTOCOL 0 None False
          else
            (case (cl_base_url client, cl_model_name client) of
               (Some base_url, Some model) \<Rightarrow>
                 (case build_chat_request alloc alloc model messages False False params_json tooling_json
                         response_format_json (lm_max_content_parts (cl_limits client))
                         (lm_max_content_bytes (cl_limits client)) of
                    None \<Rightarrow> api_fail alloc client detail LLM_ERROR_STAGE_PROTOCOL 0 None False
                  | Some request_json \<Rightarrow>
                      api_post alloc lib client detail (call_url base_url ''/v1/chat/completions'') request_json headers
                        (parse_chat_response alloc))
             | _ \<Rightarrow> None))"

definition llm_chat_choice_get :: "llm_chat_result option \<Rightarrow> nat \<Rightarrow> llm_chat_choice option" where
  "llm_chat_choice_get result index =
     (case result of
        None \<Rightarrow> None
      | Some r \<Rightarrow> if index \<ge> length (cr_choices r) then None else Some (cr_choices r ! index))"

definition llm_completions_choice_get :: "byte list option list option \<Rightarrow> nat \<Rightarrow> byte list option option" where
  "llm_completions_choice_get result index =
     (case result of
        None \<Rightarrow> None
      | Some choices \<Rightarrow> if index \<ge> length choices then None else Some (choices ! index))"

section \<open>Calls that get\<close>

definition llm_health_with_headers_ex ::
  "(nat \<Rightarrow> bool) \<Rightarrow> curl_lib \<Rightarrow> llm_client \<Rightarrow> header_list \<Rightarrow> llm_error_detail option \<Rightarrow> unit api" where
  "llm_health_with_headers_ex alloc lib client headers detail =
     (case api_reset client detail of
        (client, detail) \<Rightarrow>
          (case cl_base_url client of
             None \<Rightarrow> None
           | Some base_url \<Rightarrow>
               (case llm_header_set_init alloc client headers of
                  None \<Rightarrow> api_fail alloc client detail LLM_ERROR_STAGE_PROTOCOL 0 None False
                | Some hs \<Rightarrow>
                    (case http_get alloc lib (call_url base_url ''/health'') (tm_connect_ms (cl_timeout client)) 1024 hs
                            (llm_client_tls_config client) (cl_proxy_url client) (cl_no_proxy client) of
                       None \<Rightarrow> None
                     | Some r \<Rightarrow>
                         if \<not> hr_success r
                         then api_fail alloc client detail (transport_stage (hr_status r)) 0 None False
                         else if ts_http_status (hr_status r) \<ge> 400
                         then api_fail alloc client detail LLM_ERROR_STAGE_PROTOCOL (ts_http_status (hr_status r))
                                (hr_body r) True
                         else Some (LLM_ERR_NONE, client, detail, Some ())))))"

text \<open>One model of the list: its identifier, copied.\<close>

definition parse_model :: "(nat \<Rightarrow> bool) \<Rightarrow> byte list \<Rightarrow> jstoktok list \<Rightarrow> int \<Rightarrow> parse_err + byte list" where
  "parse_model alloc body tokens m_idx =
     (let id_idx = jstok_object_get body tokens m_idx (lit ''id'') in
      if id_idx < 0 \<or> tk_type (tokens ! nat id_idx) \<noteq> JSTOK_STRING then Inl PErrProtocol
      else case jstok_span body (tokens ! nat id_idx) of
        None \<Rightarrow> if alloc 1 then Inr [] else Inl PErrProtocol
      | Some sp \<Rightarrow> if alloc (length sp + 1) then Inr sp else Inl PErrProtocol)"

definition parse_models :: "(nat \<Rightarrow> bool) \<Rightarrow> byte list \<Rightarrow> parse_err + byte list list" where
  "parse_models alloc body =
     (case tokenize alloc body of
        Inl e \<Rightarrow> Inl (PErrJson e)
      | Inr tokens \<Rightarrow>
          if tokens = [] then Inl (PErrJson JSTOK_ERROR_INVAL)
          else if tk_type (tokens ! 0) \<noteq> JSTOK_OBJECT then Inl PErrProtocol
          else
            (let data_idx = jstok_object_get body tokens 0 (lit ''data'') in
             if data_idx < 0 \<or> tk_type (tokens ! nat data_idx) \<noteq> JSTOK_ARRAY then Inl PErrProtocol
             else
               (let n = tk_size (tokens ! nat data_idx) in
                if n \<le> 0 then Inr []
                else if \<not> alloc (nat n * 8) then Inl (PErrJson JSTOK_ERROR_NOMEM)
                else parse_elements tokens data_idx (parse_model alloc body tokens) 0 (nat n))))"

definition llm_models_list_with_headers_ex ::
  "(nat \<Rightarrow> bool) \<Rightarrow> curl_lib \<Rightarrow> llm_client \<Rightarrow> bool \<Rightarrow> header_list \<Rightarrow> llm_error_detail option \<Rightarrow> byte list list api" where
  "llm_models_list_with_headers_ex alloc lib client want_result headers detail =
     (case api_reset client detail of
        (client, detail) \<Rightarrow>
          if \<not> want_result then api_fail alloc client detail LLM_ERROR_STAGE_PROTOCOL 0 None False
          else
            (case cl_base_url client of
               None \<Rightarrow> None
             | Some base_url \<Rightarrow>
                 (case llm_header_set_init alloc client headers of
                    None \<Rightarrow> api_fail alloc client detail LLM_ERROR_STAGE_PROTOCOL 0 None False
                  | Some hs \<Rightarrow>
                      (case http_get alloc lib (call_url base_url ''/v1/models'') (tm_connect_ms (cl_timeout client))
                              (lm_max_response_bytes (cl_limits client)) hs (llm_client_tls_config client)
                              (cl_proxy_url client) (cl_no_proxy client) of
                         None \<Rightarrow> None
                       | Some r \<Rightarrow>
                           (let status = ts_http_status (hr_status r) in
                            if \<not> hr_success r
                            then api_fail alloc client detail (transport_stage (hr_status r)) 0 None False
                            else if status \<ge> 400
                            then api_fail alloc client detail LLM_ERROR_STAGE_PROTOCOL status (hr_body r) True
                            else
                              (case (case hr_body r of None \<Rightarrow> Inl (PErrJson JSTOK_ERROR_INVAL)
                                     | Some body \<Rightarrow> parse_models alloc body) of
                                 Inl res \<Rightarrow> api_fail alloc client detail (parse_stage res) status (hr_body r) True
                               | Inr models \<Rightarrow> Some (LLM_ERR_NONE, client, detail, Some models)))))))"

definition llm_props_get_with_headers_ex ::
  "(nat \<Rightarrow> bool) \<Rightarrow> curl_lib \<Rightarrow> llm_client \<Rightarrow> bool \<Rightarrow> header_list \<Rightarrow> llm_error_detail option \<Rightarrow> byte list option api" where
  "llm_props_get_with_headers_ex alloc lib client want_result headers detail =
     (case api_reset client detail of
        (client, detail) \<Rightarrow>
          if \<not> want_result then api_fail alloc client detail LLM_ERROR_STAGE_PROTOCOL 0 None False
          else
            (case cl_base_url client of
               None \<Rightarrow> None
             | Some base_url \<Rightarrow>
                 (case llm_header_set_init alloc client headers of
                    None \<Rightarrow> api_fail alloc client detail LLM_ERROR_STAGE_PROTOCOL 0 None False
                  | Some hs \<Rightarrow>
                      (case http_get alloc lib (call_url base_url ''/props'') (tm_connect_ms (cl_timeout client))
                              (lm_max_response_bytes (cl_limits client)) hs (llm_client_tls_config client)
                              (cl_proxy_url client) (cl_no_proxy client) of
                         None \<Rightarrow> None
                       | Some r \<Rightarrow>
                           if \<not> hr_success r
                           then api_fail alloc client detail (transport_stage (hr_status r)) 0 None False
                           else if ts_http_status (hr_status r) \<ge> 400
                           then api_fail alloc client detail LLM_ERROR_STAGE_PROTOCOL (ts_http_status (hr_status r))
                                  (hr_body r) True
                           else Some (LLM_ERR_NONE, client, detail, Some (hr_body r))))))"

end
