(* ===== verification/ApiProps.thy ===== *)
theory ApiProps
  imports Api ClientProps
begin

text \<open>
  What the transport hands to libcurl and takes from it, and what a successful call says of
  the bytes that came over the wire.
\<close>

section \<open>The response buffer\<close>

lemma deliver_write_cb:
  assumes "deliver (write_cb m) b cs = (ok, b')" "\<not> gb_nomem b"
  shows "if ok then gb_data b' = gb_data b @ concat cs \<and> \<not> gb_nomem b'
      else gb_nomem b' \<or> m \<noteq> 0 \<and> length (gb_data b @ concat cs) > m"
    "gb_alloc b' = gb_alloc b"
proof -
  have "(if ok then gb_data b' = gb_data b @ concat cs \<and> \<not> gb_nomem b'
      else gb_nomem b' \<or> m \<noteq> 0 \<and> length (gb_data b @ concat cs) > m) \<and> gb_alloc b' = gb_alloc b"
    using assms
  proof (induction cs arbitrary: b)
    case Nil
    then show ?case by auto
  next
    case (Cons c cs)
    obtain r b1 where a: "growbuf_append b c m = (r, b1)" by fastforce
    show ?case
    proof (cases r)
      case True
      with a growbuf_append_True [of b c m b1] have b1: "gb_data b1 = gb_data b @ c" "\<not> gb_nomem b1" "gb_alloc b1 = gb_alloc b"
        by auto
      with Cons.IH [of b1] Cons.prems a True show ?thesis by (auto simp: write_cb_def)
    next
      case False
      with a growbuf_append_False [of b c m b1] Cons.prems show ?thesis by (auto simp: write_cb_def)
    qed
  qed
  then show "if ok then gb_data b' = gb_data b @ concat cs \<and> \<not> gb_nomem b'
      else gb_nomem b' \<or> m \<noteq> 0 \<and> length (gb_data b @ concat cs) > m"
    "gb_alloc b' = gb_alloc b" by auto
qed

lemma deliver_write_cb_bound:
  "deliver (write_cb m) b cs = (ok, b') \<Longrightarrow> m \<noteq> 0 \<Longrightarrow> length (gb_data b) \<le> m \<Longrightarrow> length (gb_data b') \<le> m"
  by (induction cs arbitrary: b) (auto simp: write_cb_def dest: growbuf_append_bound split: prod.splits if_splits)

lemma deliver_nomem: "gb_nomem b \<Longrightarrow> deliver (write_cb m) b cs = (ok, b') \<Longrightarrow> b' = b \<and> (ok \<longrightarrow> cs = [])"
  by (cases cs) (auto simp: write_cb_def growbuf_append_def Let_def)

text \<open>A buffered transfer with memory granted.\<close>

lemma growbuf_append_granted:
  "\<not> gb_nomem b \<Longrightarrow> gb_alloc b = (\<lambda>n. True) \<Longrightarrow>
   growbuf_append b data m = (r, b') \<Longrightarrow> r = (data = [] \<or> m = 0 \<or> length (gb_data b) + length data \<le> m) \<and> \<not> gb_nomem b'"
  by (auto simp: growbuf_append_def Let_def split: if_splits)

lemma deliver_granted:
  assumes "\<not> gb_nomem b" "gb_alloc b = (\<lambda>n. True)" "m = 0 \<or> length (gb_data b) \<le> m"
  shows "fst (deliver (write_cb m) b cs) = (m = 0 \<or> length (gb_data b) + length (concat cs) \<le> m)"
  using assms
proof (induction cs arbitrary: b)
  case Nil
  then show ?case by auto
next
  case (Cons c cs)
  obtain r b1 where a: "growbuf_append b c m = (r, b1)" by fastforce
  note g = growbuf_append_granted [OF Cons.prems(1,2) a]
  show ?case
  proof (cases r)
    case True
    with a growbuf_append_True [of b c m b1] have b1: "gb_data b1 = gb_data b @ c" "gb_alloc b1 = (\<lambda>n. True)"
      using Cons.prems(2) by auto
    with Cons.IH [of b1] g True Cons.prems(3) show ?thesis by (auto simp: write_cb_def a)
  next
    case False
    with g show ?thesis by (auto simp: write_cb_def a)
  qed
qed

section \<open>The transport\<close>

lemma perform_buffered_exact:
  "perform_buffered (\<lambda>n. True) lib opts max_response_bytes =
    (let run = curl_net lib opts; body = concat (cr_chunks run);
         fits = (max_response_bytes = 0 \<or> length body \<le> max_response_bytes);
         room = wrap64 (max_response_bytes + 1) in
     if fits \<and> cr_code run = CURLE_OK
     then \<lparr>hr_success = True, hr_body = Some body, hr_terminated = (room = 0 \<or> length body < room),
           hr_status = transport_status CURLE_OK (cr_status run)\<rparr>
     else http_failed (transport_status (if fits then cr_code run else CURLE_WRITE_ERROR) (cr_status run)))"
proof -
  let ?b0 = "growbuf_init (\<lambda>n. True) 4096" and ?run = "curl_net lib opts"
  obtain ok b where d: "deliver (write_cb max_response_bytes) ?b0 (cr_chunks ?run) = (ok, b)" by fastforce
  have b0: "\<not> gb_nomem ?b0" "gb_alloc ?b0 = (\<lambda>n. True)" "gb_data ?b0 = []" by (simp_all add: growbuf_init_def)
  note w = deliver_write_cb [OF d b0(1)]
  have ok: "ok = (max_response_bytes = 0 \<or> length (concat (cr_chunks ?run)) \<le> max_response_bytes)"
    using deliver_granted [of ?b0 max_response_bytes "cr_chunks ?run"] b0 d by simp
  have t: "fst (growbuf_append b [C_NUL] m) = (m = 0 \<or> length (gb_data b) < m)" if ok for m
    using growbuf_append_granted [of b "[C_NUL]" m] w b0 that
    by (cases "growbuf_append b [C_NUL] m") auto
  show ?thesis
    using w(1) ok t b0 by (auto simp: perform_buffered_def curl_easy_perform_def d Let_def)
qed

text \<open>
  With memory granted, a buffered transfer succeeds exactly when libcurl reports success
  and the response is within the limit; the body is then the concatenation of its chunks,
  however it was cut, and a NUL follows it unless there is no limit (or a limit that wraps
  to a smaller one) and the body is not empty. Otherwise there is no body.
\<close>

theorem http_body_exact:
  "perform_buffered (\<lambda>n. True) lib opts max_response_bytes =
    (let run = curl_net lib opts; body = concat (cr_chunks run);
         fits = (max_response_bytes = 0 \<or> length body \<le> max_response_bytes);
         room = wrap64 (max_response_bytes + 1) in
     if fits \<and> cr_code run = CURLE_OK
     then \<lparr>hr_success = True, hr_body = Some body, hr_terminated = (room = 0 \<or> length body < room),
           hr_status = transport_status CURLE_OK (cr_status run)\<rparr>
     else http_failed (transport_status (if fits then cr_code run else CURLE_WRITE_ERROR) (cr_status run)))"
  by (rule perform_buffered_exact)


text \<open>A witness: a handle configured to check the peer but not the name.\<close>

definition demo_tls :: llm_tls_config where
  "demo_tls =
     \<lparr>tls_ca_bundle_path = Some (lit ''ca''), tls_ca_dir_path = None, tls_client_cert_path = None,
      tls_client_key_path = None, tls_key_password_cb = None, tls_verify_peer = LLM_TLS_VERIFY_DEFAULT,
      tls_verify_host = LLM_TLS_VERIFY_OFF, tls_insecure = False\<rparr>"

text \<open>A server that answers every request with one choice, in two pieces.\<close>

definition demo_body :: "byte list" where
  "demo_body = qlit ''{`choices`:[{`message`:{}}]}''"

definition demo_lib :: curl_lib where
  "demo_lib =
     \<lparr>curl_init = True, curl_cainfo = None, curl_capath = None,
      curl_net = (\<lambda>opts. \<lparr>cr_chunks = [take 9 demo_body, drop 9 demo_body], cr_code = CURLE_OK, cr_status = 200\<rparr>)\<rparr>"


lemma apply_tls_config_url:
  assumes "apply_tls_config lib opts tls = Some opts'" shows "co_url opts' = co_url opts"
  using assms unfolding apply_tls_config_def Let_def
  by (auto simp: if_distrib [of co_url] option.case_distrib [of co_url] split: option.splits cong: if_cong)

section \<open>Memory does not change what is parsed\<close>

lemma tokenize_mono: "tokenize alloc json = Inr toks \<Longrightarrow> tokenize (\<lambda>n. True) json = Inr toks"
  by (auto simp: tokenize_def split: sum.splits if_splits prod.splits)

lemma parse_elements_mono:
  assumes "\<And>j x. f j = Inr x \<Longrightarrow> g j = Inr x" "parse_elements tokens a f i n = Inr xs"
  shows "parse_elements tokens a g i n = Inr xs"
  using assms(2)
proof (induction n arbitrary: i xs)
  case (Suc n)
  then show ?case using assms(1) by (fastforce simp: Let_def split: if_splits sum.splits)
qed simp

lemma parse_choice_mono:
  assumes "parse_choice alloc json tokens j = Inr x" shows "parse_choice (\<lambda>n. True) json tokens j = Inr x"
proof -
  have "parse_tool_calls alloc json tokens i = Inr y \<Longrightarrow> parse_tool_calls (\<lambda>n. True) json tokens i = Inr y" for i y
    by (auto simp: parse_tool_calls_def Let_def split: if_splits sum.splits)
  with assms show ?thesis
    by (auto simp: parse_choice_def Let_def simp del: lit_Cons split: if_splits sum.splits)
qed

lemma parse_chat_response_mono:
  assumes "parse_chat_response alloc json = Inr r" shows "parse_chat_response (\<lambda>n. True) json = Inr r"
proof -
  obtain toks where t: "tokenize alloc json = Inr toks"
    using assms by (auto simp: parse_chat_response_def split: sum.splits)
  let ?i = "obj_get_key toks 0 json (lit ''choices'')"
  let ?n = "nat (tk_size (toks ! nat ?i))"
  have g: "toks \<noteq> []" "tk_type (toks ! 0) = JSTOK_OBJECT" "\<not> ?i < 0" "tk_type (toks ! nat ?i) = JSTOK_ARRAY"
    "tk_size (toks ! nat ?i) > 0"
    using assms t by (auto simp: parse_chat_response_def Let_def simp del: lit_Cons split: if_splits)
  have "(case parse_elements toks ?i (parse_choice alloc json toks) 0 ?n of
      Inl e \<Rightarrow> Inl e | Inr cs \<Rightarrow> Inr \<lparr>cr_choices = cs, cr_first = hd cs\<rparr>) = Inr r"
    using assms t g by (simp add: parse_chat_response_def Let_def del: lit_Cons split: if_splits)
  then obtain cs where "parse_elements toks ?i (parse_choice alloc json toks) 0 ?n = Inr cs"
    "r = \<lparr>cr_choices = cs, cr_first = hd cs\<rparr>" by (auto split: sum.splits)
  with parse_elements_mono [OF parse_choice_mono] tokenize_mono [OF t] g show ?thesis
    by (simp add: parse_chat_response_def Let_def del: lit_Cons)
qed

section \<open>Successful calls\<close>

lemma perform_bufferedD:
  assumes "hr_success (perform_buffered alloc lib opts m)" "hr_body (perform_buffered alloc lib opts m) = Some body"
  shows "body = concat (cr_chunks (curl_net lib opts))" "m = 0 \<or> length body \<le> m"
    "cr_code (curl_net lib opts) = CURLE_OK"
    "ts_http_status (hr_status (perform_buffered alloc lib opts m)) = cr_status (curl_net lib opts)"
proof -
  let ?b0 = "growbuf_init alloc 4096"
  obtain ok b where d: "deliver (write_cb m) ?b0 (cr_chunks (curl_net lib opts)) = (ok, b)" by fastforce
  have ok: "ok" "cr_code (curl_net lib opts) = CURLE_OK" "\<not> gb_nomem ?b0" "body = gb_data b"
    using assms by (auto simp: perform_buffered_def curl_easy_perform_def d http_failed_def Let_def split: if_splits)
  then show "cr_code (curl_net lib opts) = CURLE_OK" by simp
  show "body = concat (cr_chunks (curl_net lib opts))"
    using deliver_write_cb(1) [OF d ok(3)] ok by (simp add: growbuf_init_def)
  show "m = 0 \<or> length body \<le> m"
    using deliver_write_cb_bound [OF d] ok by (auto simp: growbuf_init_def)
  show "ts_http_status (hr_status (perform_buffered alloc lib opts m)) = cr_status (curl_net lib opts)"
    using ok by (simp add: perform_buffered_def curl_easy_perform_def d transport_status_def Let_def)
qed

definition answered :: "curl_lib \<Rightarrow> llm_client \<Rightarrow> byte list \<Rightarrow> byte list option list \<Rightarrow> byte list \<Rightarrow> bool" where
  "answered lib client request_json hs body \<longleftrightarrow>
     (\<exists>opts. co_post opts = Some (c_string request_json) \<and> co_headers opts = content_type_json # hs \<and>
        cr_code (curl_net lib opts) = CURLE_OK \<and> cr_status (curl_net lib opts) < 400 \<and>
        body = concat (cr_chunks (curl_net lib opts)) \<and>
        (lm_max_response_bytes (cl_limits client) = 0 \<or> length body \<le> lm_max_response_bytes (cl_limits client)))"

lemma api_fail_not_none: "api_fail alloc c d st http b pe \<noteq> Some (LLM_ERR_NONE, c', d', v)"
  by (simp add: api_fail_def split: prod.split)

lemma api_postD:
  assumes "api_post alloc lib client detail url request_json headers parse =
      Some (LLM_ERR_NONE, client', detail', Some (v, body, z))"
  shows "client' = client \<and> detail' = detail \<and> parse body = Inr v \<and>
    (\<exists>hs. llm_header_set_init alloc client headers = Some hs \<and> answered lib client request_json hs body)"
proof -
  obtain hs where hs: "llm_header_set_init alloc client headers = Some hs"
    using assms by (cases "llm_header_set_init alloc client headers") (simp_all add: api_post_def api_fail_not_none)
  let ?m = "lm_max_response_bytes (cl_limits client)"
  obtain r where r: "http_post alloc lib url request_json (tm_overall_ms (cl_timeout client)) ?m hs
      (llm_client_tls_config client) (cl_proxy_url client) (cl_no_proxy client) = Some r"
    using assms hs by (cases "http_post alloc lib url request_json (tm_overall_ms (cl_timeout client)) ?m hs
      (llm_client_tls_config client) (cl_proxy_url client) (cl_no_proxy client)") (simp_all add: api_post_def)
  have s: "hr_success r" using assms hs r by (cases "hr_success r") (simp_all add: api_post_def api_fail_not_none)
  have st: "ts_http_status (hr_status r) < 400"
    using assms hs r s by (cases "ts_http_status (hr_status r) < 400") (simp_all add: api_post_def api_fail_not_none)
  obtain b where b: "hr_body r = Some b"
    using assms hs r s st by (cases "hr_body r") (simp_all add: api_post_def api_fail_not_none)
  have v: "client' = client \<and> detail' = detail \<and> b = body \<and> parse b = Inr v"
    using assms hs r s st b by (cases "parse b") (simp_all add: api_post_def api_fail_not_none)
  obtain opts0 where o: "apply_tls_config lib (curl_opts_init url) (llm_client_tls_config client) = Some opts0"
    using r s by (cases "apply_tls_config lib (curl_opts_init url) (llm_client_tls_config client)")
      (auto simp: http_post_def tls_config_failed_def http_failed_def split: if_splits)
  define opts where "opts = set_timeouts ((apply_proxy_config opts0 (cl_proxy_url client) (cl_no_proxy client))
      \<lparr>co_post := Some (c_string request_json), co_headers := content_type_json # hs\<rparr>) (tm_overall_ms (cl_timeout client))"
  have p: "r = perform_buffered alloc lib opts ?m"
    using r o by (simp add: http_post_def opts_def Let_def split: if_splits)
  note d = perform_bufferedD [OF s [unfolded p] b [unfolded p]]
  have "answered lib client request_json hs body"
    unfolding answered_def
    by (rule exI [of _ opts]) (use d st v p in \<open>auto simp: opts_def set_timeouts_def\<close>)
  with v hs show ?thesis by blast
qed

lemma parse_chat_meaning:
  assumes "length body < 2 ^ 31" "parse_chat_response alloc body = Inr r"
  obtains ts where "doc body ts" "tree_response body ts = Inr r"
proof -
  have p: "parse_chat_response (\<lambda>n. True) body = Inr r" using parse_chat_response_mono [OF assms(2)] .
  then obtain toks where "tokenize (\<lambda>n. True) body = Inr toks" by (auto simp: parse_chat_response_def split: sum.splits)
  then obtain ts where ts: "doc body ts" using tokenize_Inr [OF assms(1)] by blast
  with p parse_chat_response_tree [OF ts] that show thesis by simp
qed

lemma chat_answered:
  assumes "llm_chat_with_headers_ex alloc lib client messages params_json tooling_json response_format_json want_result
      headers detail = Some (LLM_ERR_NONE, client', detail', Some (r, body, z))"
  obtains model request_json hs where "cl_model_name client = Some model"
    "build_chat_request alloc alloc model messages False False params_json tooling_json response_format_json
       (lm_max_content_parts (cl_limits client)) (lm_max_content_bytes (cl_limits client)) = Some request_json"
    "llm_header_set_init alloc client' headers = Some hs" "answered lib client request_json hs body"
    "parse_chat_response alloc body = Inr r" "client' = last_error_reset client"
    "detail' = map_option llm_error_detail_free detail"
proof -
  have l: "cl_limits (last_error_reset client) = cl_limits client" "cl_model_name (last_error_reset client) = cl_model_name client"
    by (simp_all add: last_error_reset_def)
  have a: "want_result"
    using assms by (cases want_result) (simp_all add: llm_chat_with_headers_ex_def api_reset_def api_fail_not_none)
  obtain base_url model where bm: "cl_base_url (last_error_reset client) = Some base_url" "cl_model_name client = Some model"
    using assms a l(2)
    by (cases "cl_base_url (last_error_reset client)"; cases "cl_model_name client")
      (simp_all add: llm_chat_with_headers_ex_def api_reset_def)
  let ?build = "build_chat_request alloc alloc model messages False False params_json tooling_json response_format_json
         (lm_max_content_parts (cl_limits client)) (lm_max_content_bytes (cl_limits client))"
  obtain req where req: "?build = Some req"
    using assms a bm l by (cases ?build) (simp_all add: llm_chat_with_headers_ex_def api_reset_def api_fail_not_none)
  have "api_post alloc lib (last_error_reset client) (map_option llm_error_detail_free detail)
      (call_url base_url ''/v1/chat/completions'') req headers (parse_chat_response alloc) =
      Some (LLM_ERR_NONE, client', detail', Some (r, body, z))"
    using assms a bm l req by (simp add: llm_chat_with_headers_ex_def api_reset_def)
  note p = api_postD [OF this]
  then obtain hs where hs: "llm_header_set_init alloc client' headers = Some hs"
    "answered lib (last_error_reset client) req hs body" by blast
  then have "answered lib client req hs body" by (simp add: answered_def l)
  with p req bm(2) hs(1) that show thesis by blast
qed



end
