(* ===== verification/TransportContract.thy ===== *)
theory TransportContract
  imports ApiProps SseProps "HOL-Library.Sublist"
begin

text \<open>
  The contract of a transport, \<open>src/src/llm_transport_contract.h\<close>, as interfaces of the transport of
  \<open>src/src/transport_curl.c\<close>: a byte pump that hands up the bytes of the response or nothing, reports
  the status, and calls the stream callback chunk by chunk until one fails. The client's lemmas
  are proved in the locales; the interpretations discharge the laws for the three requests.
\<close>

section \<open>What comes over the wire\<close>

definition wire_body :: "curl_run \<Rightarrow> byte list" where
  "wire_body run = concat (cr_chunks run)"

text \<open>A response that a call accepts: complete, below status 400 and within the limit.\<close>

definition served :: "nat \<Rightarrow> curl_run \<Rightarrow> byte list \<Rightarrow> bool" where
  "served limit run body \<longleftrightarrow>
     cr_code run = CURLE_OK \<and> cr_status run < 400 \<and> body = wire_body run \<and> (limit = 0 \<or> length body \<le> limit)"

text \<open>
  The callbacks made for a list of chunks: one after the other, in order, and none after the
  first that fails.
\<close>

inductive fed :: "('s \<Rightarrow> byte list \<Rightarrow> bool \<times> 's) \<Rightarrow> 's \<Rightarrow> byte list list \<Rightarrow> bool \<Rightarrow> 's \<Rightarrow> bool"
  for cb :: "'s \<Rightarrow> byte list \<Rightarrow> bool \<times> 's" where
  fed_none: "fed cb s [] True s"
| fed_next: "cb s c = (True, s1) \<Longrightarrow> fed cb s1 cs ok s2 \<Longrightarrow> fed cb s (c # cs) ok s2"
| fed_stop: "cb s c = (False, s1) \<Longrightarrow> fed cb s [c] False s1"

inductive_cases fed_NilE: "fed cb s [] ok s1"
inductive_cases fed_ConsE: "fed cb s (c # cs) ok s1"

lemma fed_deliver: "deliver cb s cs = (ok, s1) \<Longrightarrow> \<exists>k. prefix k cs \<and> fed cb s k ok s1 \<and> (ok \<longrightarrow> k = cs)"
proof (induction cs arbitrary: s)
  case Nil
  then show ?case by (auto intro: fed_none)
next
  case (Cons c cs)
  obtain r s2 where c: "cb s c = (r, s2)" by fastforce
  show ?case
  proof (cases r)
    case True
    with Cons c obtain k where "prefix k cs" "fed cb s2 k ok s1" "ok \<longrightarrow> k = cs" by auto
    with c True show ?thesis by (intro exI [of _ "c # k"]) (auto intro: fed_next)
  next
    case False
    with Cons c show ?thesis by (intro exI [of _ "[c]"]) (auto intro: fed_stop)
  qed
qed

lemma fed_inv: "fed cb s k ok s1 \<Longrightarrow> I s \<Longrightarrow> (\<And>s c. I s \<Longrightarrow> I (snd (cb s c))) \<Longrightarrow> I s1"
proof (induction rule: fed.induct)
  case (fed_next s c s1 cs ok s2)
  then show ?case by (metis snd_conv)
next
  case (fed_stop s c s1)
  then show ?case by (metis snd_conv)
qed

lemma fed_fun: "fed cb s k ok s1 \<Longrightarrow> fed cb s k ok2 s2 \<Longrightarrow> ok2 = ok \<and> s2 = s1"
proof (induction rule: fed.induct)
  case (fed_next s c s1 cs ok s2')
  from fed_next.prems show ?case by (rule fed_ConsE) (use fed_next in auto)
next
  case (fed_stop s c s1)
  from fed_stop.prems show ?case by (rule fed_ConsE) (use fed_stop in auto)
qed (auto elim: fed_NilE)

text \<open>What a result says of a run of libcurl.\<close>

definition reports :: "http_result \<Rightarrow> nat \<Rightarrow> curl_run \<Rightarrow> bool" where
  "reports res m run \<longleftrightarrow>
     cr_code run = CURLE_OK \<and> ts_http_status (hr_status res) = cr_status run \<and>
     (case hr_body res of None \<Rightarrow> wire_body run = []
      | Some body \<Rightarrow> body = wire_body run \<and> (m = 0 \<or> length body \<le> m))"

definition reports_failure :: "http_result \<Rightarrow> bool" where
  "reports_failure res \<longleftrightarrow>
     hr_body res = None \<and> ts_http_status (hr_status res) = 0 \<and> ts_curl_code (hr_status res) \<noteq> CURLE_OK \<and>
     ts_tls_error (hr_status res) = curl_is_tls_error (ts_curl_code (hr_status res))"

section \<open>Requests into a buffer\<close>

text \<open>A request \<open>r\<close> with a limit \<open>m\<close>, and what the network does with it.\<close>

locale buffered_transport =
  fixes call :: "nat \<Rightarrow> 'r \<Rightarrow> http_result option"
    and reply :: "'r \<Rightarrow> curl_run"
  assumes failure: "call m r = Some res \<Longrightarrow> \<not> hr_success res \<Longrightarrow>
      hr_body res = None \<and> \<not> hr_terminated res \<and> ts_http_status (hr_status res) = 0 \<and>
      ts_curl_code (hr_status res) \<noteq> CURLE_OK"
    and success: "call m r = Some res \<Longrightarrow> hr_success res \<Longrightarrow>
      cr_code (reply r) = CURLE_OK \<and> ts_http_status (hr_status res) = cr_status (reply r) \<and>
      ts_curl_code (hr_status res) = CURLE_OK"
    and pump: "call m r = Some res \<Longrightarrow> hr_body res = Some body \<Longrightarrow>
      body = wire_body (reply r) \<and> (m = 0 \<or> length body \<le> m)"
    and no_bytes: "call m r = Some res \<Longrightarrow> hr_success res \<Longrightarrow> hr_body res = None \<Longrightarrow> wire_body (reply r) = []"
    and tls: "call m r = Some res \<Longrightarrow>
      ts_tls_error (hr_status res) = curl_is_tls_error (ts_curl_code (hr_status res))"
begin

lemma outcome: "call m r = Some res \<Longrightarrow> if hr_success res then reports res m (reply r) else reports_failure res"
  using failure success pump no_bytes tls by (auto simp: reports_def reports_failure_def split: option.split)

lemma served:
  assumes "call m r = Some res" "hr_success res" "hr_body res = Some body" "\<not> 400 \<le> ts_http_status (hr_status res)"
  shows "served m (reply r) body"
  using success [OF assms(1,2)] pump [OF assms(1,3)] assms(4) by (auto simp: served_def)

lemma no_body: "call m r = Some res \<Longrightarrow> hr_body res = Some body \<Longrightarrow> hr_success res"
  using failure by fastforce

lemma tls_failed: "call m r = Some res \<Longrightarrow> ts_tls_error (hr_status res) \<Longrightarrow> \<not> hr_success res"
  using tls success by fastforce

end

text \<open>With memory granted, a response that fits is never lost.\<close>

locale reliable_transport = buffered_transport +
  assumes delivers: "call m r = Some res \<Longrightarrow> cr_code (reply r) = CURLE_OK \<Longrightarrow>
      m = 0 \<or> length (wire_body (reply r)) \<le> m \<Longrightarrow> hr_body res = Some (wire_body (reply r))"
begin

lemma success_iff:
  assumes "call m r = Some res"
  shows "hr_success res \<and> hr_body res \<noteq> None \<longleftrightarrow>
    cr_code (reply r) = CURLE_OK \<and> (m = 0 \<or> length (wire_body (reply r)) \<le> m)"
  using success [OF assms] pump [OF assms] delivers [OF assms] no_body [OF assms] by auto

end

section \<open>The stream\<close>

locale streaming_transport =
  fixes call :: "('s \<Rightarrow> byte list \<Rightarrow> bool \<times> 's) \<Rightarrow> 's \<Rightarrow> 'r \<Rightarrow> (bool \<times> llm_transport_status \<times> 's) option"
    and reply :: "'r \<Rightarrow> curl_run"
  assumes serial: "call cb s r = Some (ok, status, s1) \<Longrightarrow>
      \<exists>k fine. prefix k (cr_chunks (reply r)) \<and> fed cb s k fine s1 \<and> (\<not> fine \<longrightarrow> \<not> ok) \<and>
        (ok \<longrightarrow> k = cr_chunks (reply r) \<and> cr_code (reply r) = CURLE_OK)"
begin

lemma keeps: "call cb s r = Some (ok, status, s1) \<Longrightarrow> I s \<Longrightarrow> (\<And>s c. I s \<Longrightarrow> I (snd (cb s c))) \<Longrightarrow> I s1"
  using serial fed_inv by metis

lemma complete:
  assumes "call cb s r = Some (True, status, s1)" shows "fed cb s (cr_chunks (reply r)) True s1"
proof -
  obtain k fine where k: "fed cb s k fine s1" "\<not> fine \<longrightarrow> \<not> True" "True \<longrightarrow> k = cr_chunks (reply r) \<and> cr_code (reply r) = CURLE_OK"
    using serial [OF assms] by blast
  then show ?thesis by (cases fine) auto
qed

end

text \<open>
  A stream into a consumer of chunks whose error ends it: a stream that succeeds leaves the
  consumer as if it had been fed the whole body at once.
\<close>

definition feed_cb :: "('s \<Rightarrow> byte list \<Rightarrow> 'e \<times> 's) \<Rightarrow> 'e \<Rightarrow> 's \<Rightarrow> byte list \<Rightarrow> bool \<times> 's" where
  "feed_cb feed ok s c = (case feed s c of (rc, s1) \<Rightarrow> (rc = ok, s1))"

lemma fed_feed_chunks: "fed (feed_cb feed ok) s cs True s1 \<Longrightarrow> feed_chunks feed ok s cs = (ok, s1)"
proof (induction cs arbitrary: s)
  case Nil
  then show ?case by (auto elim: fed_NilE)
next
  case (Cons c cs)
  from Cons.prems show ?case
  proof (rule fed_ConsE)
    fix s2 assume "feed_cb feed ok s c = (True, s2)" "fed (feed_cb feed ok) s2 cs True s1"
    with Cons.IH [of s2] show ?thesis by (cases "feed s c") (simp add: feed_cb_def [of feed ok s c])
  qed simp
qed

locale fed_transport = streaming_transport call reply + chunk_feeder feed okc ready obs
  for call :: "('s \<Rightarrow> byte list \<Rightarrow> bool \<times> 's) \<Rightarrow> 's \<Rightarrow> 'r \<Rightarrow> (bool \<times> llm_transport_status \<times> 's) option"
    and reply :: "'r \<Rightarrow> curl_run" and feed :: "'s \<Rightarrow> byte list \<Rightarrow> 'e \<times> 's" and okc :: 'e
    and ready :: "'s \<Rightarrow> nat \<Rightarrow> bool" and obs :: "'s \<Rightarrow> 'o"
begin

lemma whole:
  assumes "call (feed_cb feed okc) s r = Some (True, status, s1)" "ready s (length (wire_body (reply r)))"
  shows "feed s (wire_body (reply r)) = (okc, s1)"
proof -
  have "feed_chunks feed okc s (cr_chunks (reply r)) = (okc, s1)"
    using fed_feed_chunks [OF complete [OF assms(1)]] .
  with feed_chunks_concat [of s "cr_chunks (reply r)"] assms(2) show ?thesis by (auto simp: wire_body_def)
qed

end

section \<open>The requests of the program\<close>

record http_request =
  rq_url :: "byte list"
  rq_json :: "byte list"
  rq_timeout_ms :: int
  rq_read_idle_timeout_ms :: int
  rq_headers :: "byte list option list"
  rq_tls :: llm_tls_config
  rq_proxy_url :: "byte list option"
  rq_no_proxy :: "byte list option"

text \<open>The options each request is performed with, none when the TLS configuration cannot be applied.\<close>

definition post_opts :: "http_request \<Rightarrow> curl_opts \<Rightarrow> curl_opts" where
  "post_opts rq opts =
     set_timeouts ((apply_proxy_config opts (rq_proxy_url rq) (rq_no_proxy rq))
       \<lparr>co_post := Some (c_string (rq_json rq)), co_headers := content_type_json # rq_headers rq\<rparr>) (rq_timeout_ms rq)"

definition get_opts :: "http_request \<Rightarrow> curl_opts \<Rightarrow> curl_opts" where
  "get_opts rq opts =
     (set_timeouts ((apply_proxy_config opts (rq_proxy_url rq) (rq_no_proxy rq))\<lparr>co_headers := rq_headers rq\<rparr>)
       (rq_timeout_ms rq))\<lparr>co_follow := True\<rparr>"

definition stream_opts :: "http_request \<Rightarrow> curl_opts \<Rightarrow> curl_opts" where
  "stream_opts rq opts =
     (if rq_read_idle_timeout_ms rq > 0
      then (post_opts rq opts)\<lparr>co_low_speed_time := Some ((rq_read_idle_timeout_ms rq + 999) div 1000)\<rparr>
      else post_opts rq opts)"

definition request_opts :: "curl_lib \<Rightarrow> (http_request \<Rightarrow> curl_opts \<Rightarrow> curl_opts) \<Rightarrow> http_request \<Rightarrow> curl_opts option" where
  "request_opts lib f rq = map_option (f rq) (apply_tls_config lib (curl_opts_init (rq_url rq)) (rq_tls rq))"

definition opts_reply :: "curl_lib \<Rightarrow> curl_opts option \<Rightarrow> curl_run" where
  "opts_reply lib oo =
     (case oo of
        None \<Rightarrow> \<lparr>cr_chunks = [], cr_code = CURLE_SSL_CONNECT_ERROR, cr_status = 0\<rparr>
      | Some opts \<Rightarrow> curl_net lib opts)"

definition buffered :: "(nat \<Rightarrow> bool) \<Rightarrow> curl_lib \<Rightarrow> nat \<Rightarrow> curl_opts option \<Rightarrow> http_result option" where
  "buffered alloc lib m oo =
     (if \<not> curl_init lib then None
      else Some (case oo of None \<Rightarrow> tls_config_failed | Some opts \<Rightarrow> perform_buffered alloc lib opts m))"

definition get_call :: "(nat \<Rightarrow> bool) \<Rightarrow> curl_lib \<Rightarrow> nat \<Rightarrow> http_request \<Rightarrow> http_result option" where
  "get_call alloc lib m rq =
     http_get alloc lib (rq_url rq) (rq_timeout_ms rq) m (rq_headers rq) (rq_tls rq) (rq_proxy_url rq) (rq_no_proxy rq)"

definition post_call :: "(nat \<Rightarrow> bool) \<Rightarrow> curl_lib \<Rightarrow> nat \<Rightarrow> http_request \<Rightarrow> http_result option" where
  "post_call alloc lib m rq =
     http_post alloc lib (rq_url rq) (rq_json rq) (rq_timeout_ms rq) m (rq_headers rq) (rq_tls rq) (rq_proxy_url rq)
       (rq_no_proxy rq)"

definition stream_call_to ::
  "curl_lib \<Rightarrow> ('s \<Rightarrow> byte list \<Rightarrow> bool \<times> 's) \<Rightarrow> 's \<Rightarrow> http_request \<Rightarrow> (bool \<times> llm_transport_status \<times> 's) option" where
  "stream_call_to lib cb s rq =
     http_post_stream lib (rq_url rq) (rq_json rq) (rq_timeout_ms rq) (rq_read_idle_timeout_ms rq) (rq_headers rq)
       (rq_tls rq) (rq_proxy_url rq) (rq_no_proxy rq) cb s"

lemma get_call_buffered: "get_call alloc lib m rq = buffered alloc lib m (request_opts lib get_opts rq)"
  by (simp add: get_call_def http_get_def buffered_def request_opts_def get_opts_def Let_def split: option.split)

lemma post_call_buffered: "post_call alloc lib m rq = buffered alloc lib m (request_opts lib post_opts rq)"
  by (simp add: post_call_def http_post_def buffered_def request_opts_def post_opts_def Let_def split: option.split)

section \<open>The interfaces hold\<close>

lemma perform_buffered_failed:
  "\<not> hr_success (perform_buffered alloc lib opts m) \<Longrightarrow>
   \<exists>res n. res \<noteq> CURLE_OK \<and> perform_buffered alloc lib opts m = http_failed (transport_status res n)"
  by (auto simp: perform_buffered_def Let_def split: prod.splits if_splits)

lemma perform_buffered_success:
  assumes "hr_success (perform_buffered alloc lib opts m)"
  shows "cr_code (curl_net lib opts) = CURLE_OK \<and>
    hr_status (perform_buffered alloc lib opts m) = transport_status CURLE_OK (cr_status (curl_net lib opts))"
  using assms by (auto simp: perform_buffered_def curl_easy_perform_def http_failed_def Let_def split: prod.splits if_splits)

text \<open>The body is NULL only if the first allocation failed and no byte came.\<close>

lemma perform_buffered_empty:
  assumes "hr_success (perform_buffered alloc lib opts m)" "hr_body (perform_buffered alloc lib opts m) = None"
  shows "wire_body (curl_net lib opts) = []"
proof -
  let ?b0 = "growbuf_init alloc 4096"
  obtain ok b where d: "deliver (write_cb m) ?b0 (cr_chunks (curl_net lib opts)) = (ok, b)" by fastforce
  then have "gb_nomem ?b0" "ok"
    using assms by (auto simp: perform_buffered_def curl_easy_perform_def http_failed_def Let_def split: if_splits)
  with deliver_nomem [OF _ d] show ?thesis by (simp add: wire_body_def)
qed

lemma buffered_laws: "buffered_transport (buffered alloc lib) (opts_reply lib)"
proof
  fix m oo res
  assume r: "buffered alloc lib m oo = Some res"
  note def = r [unfolded buffered_def]
  show "hr_body res = None \<and> \<not> hr_terminated res \<and> ts_http_status (hr_status res) = 0 \<and> ts_curl_code (hr_status res) \<noteq> CURLE_OK"
    if "\<not> hr_success res"
    using def that perform_buffered_failed [of alloc lib _ m]
    by (fastforce simp: tls_config_failed_def http_failed_def transport_status_def transport_status_init_def
        split: option.splits if_splits)
  show "cr_code (opts_reply lib oo) = CURLE_OK \<and> ts_http_status (hr_status res) = cr_status (opts_reply lib oo) \<and>
      ts_curl_code (hr_status res) = CURLE_OK" if "hr_success res"
    using def that perform_buffered_success [of alloc lib _ m]
    by (auto simp: tls_config_failed_def http_failed_def opts_reply_def transport_status_def split: option.splits if_splits)
  show "body = wire_body (opts_reply lib oo) \<and> (m = 0 \<or> length body \<le> m)" if b: "hr_body res = Some body" for body
  proof -
    obtain opts where o: "oo = Some opts" "res = perform_buffered alloc lib opts m"
      using def b by (auto simp: tls_config_failed_def http_failed_def split: option.splits if_splits)
    have "hr_success res"
      using b o perform_buffered_failed [of alloc lib opts m] by (fastforce simp: http_failed_def)
    with b o perform_bufferedD(1,2) [of alloc lib opts m body] show ?thesis
      by (auto simp: opts_reply_def wire_body_def)
  qed
  show "wire_body (opts_reply lib oo) = []" if "hr_success res" "hr_body res = None"
    using def that perform_buffered_empty [of alloc lib _ m]
    by (auto simp: tls_config_failed_def http_failed_def opts_reply_def split: option.splits if_splits)
  show "ts_tls_error (hr_status res) = curl_is_tls_error (ts_curl_code (hr_status res))"
    using def
    by (auto simp: tls_config_failed_def http_failed_def transport_status_def transport_status_init_def
        perform_buffered_def Let_def split: option.splits if_splits prod.splits)
qed

lemma buffered_transport_comp:
  "buffered_transport call reply \<Longrightarrow> buffered_transport (\<lambda>m r. call m (f r)) (\<lambda>r. reply (f r))"
  by (simp add: buffered_transport_def)

interpretation get: buffered_transport "get_call alloc lib" "\<lambda>rq. opts_reply lib (request_opts lib get_opts rq)"
  for alloc lib
  using buffered_transport_comp [OF buffered_laws] by (simp add: get_call_buffered [abs_def])

interpretation post: buffered_transport "post_call alloc lib" "\<lambda>rq. opts_reply lib (request_opts lib post_opts rq)"
  for alloc lib
  using buffered_transport_comp [OF buffered_laws] by (simp add: post_call_buffered [abs_def])

lemma buffered_delivers:
  assumes "buffered (\<lambda>n. True) lib m oo = Some res" "cr_code (opts_reply lib oo) = CURLE_OK"
    "m = 0 \<or> length (wire_body (opts_reply lib oo)) \<le> m"
  shows "hr_body res = Some (wire_body (opts_reply lib oo))"
  using assms by (auto simp: buffered_def opts_reply_def wire_body_def perform_buffered_exact Let_def
      split: option.splits if_splits)

interpretation get_all: reliable_transport "get_call (\<lambda>n. True) lib"
    "\<lambda>rq. opts_reply lib (request_opts lib get_opts rq)"
  for lib
  by unfold_locales (use buffered_delivers in \<open>simp add: get_call_buffered\<close>)

interpretation post_all: reliable_transport "post_call (\<lambda>n. True) lib"
    "\<lambda>rq. opts_reply lib (request_opts lib post_opts rq)"
  for lib
  by unfold_locales (use buffered_delivers in \<open>simp add: post_call_buffered\<close>)

lemma stream_call_serial:
  assumes "stream_call_to lib cb s rq = Some (ok, status, s1)"
  shows "\<exists>k fine. prefix k (cr_chunks (opts_reply lib (request_opts lib stream_opts rq))) \<and> fed cb s k fine s1 \<and>
    (\<not> fine \<longrightarrow> \<not> ok) \<and> (ok \<longrightarrow> k = cr_chunks (opts_reply lib (request_opts lib stream_opts rq)) \<and>
      cr_code (opts_reply lib (request_opts lib stream_opts rq)) = CURLE_OK)"
proof (cases "apply_tls_config lib (curl_opts_init (rq_url rq)) (rq_tls rq)")
  case None
  with assms have "s1 = s \<and> \<not> ok" by (auto simp: stream_call_to_def http_post_stream_def split: if_splits)
  with None show ?thesis
    by (intro exI [of _ "[]"] exI [of _ True]) (auto intro: fed_none)
next
  case (Some opts)
  let ?o = "stream_opts rq opts"
  have e: "curl_easy_perform lib ?o cb s = (res, n, s2) \<Longrightarrow> s1 = s2 \<and> ok = (res = CURLE_OK)" for res n s2
    using assms Some
    by (auto simp: stream_call_to_def http_post_stream_def stream_opts_def post_opts_def Let_def split: if_splits)
  obtain fine s2 where d: "deliver cb s (cr_chunks (curl_net lib ?o)) = (fine, s2)" by fastforce
  with e have r: "s1 = s2" "ok = ((if fine then cr_code (curl_net lib ?o) else CURLE_WRITE_ERROR) = CURLE_OK)"
    by (simp_all add: curl_easy_perform_def Let_def)
  obtain k where "prefix k (cr_chunks (curl_net lib ?o))" "fed cb s k fine s2" "fine \<longrightarrow> k = cr_chunks (curl_net lib ?o)"
    using fed_deliver [OF d] by blast
  with r Some show ?thesis
    by (intro exI [of _ k] exI [of _ fine]) (auto simp: opts_reply_def request_opts_def split: if_splits)
qed

interpretation stream: streaming_transport "stream_call_to lib"
    "\<lambda>rq. opts_reply lib (request_opts lib stream_opts rq)"
  for lib
  by unfold_locales (rule stream_call_serial)

interpretation sse_stream: fed_transport "stream_call_to lib"
    "\<lambda>rq. opts_reply lib (request_opts lib stream_opts rq)" sse_feed SSE_OK sse_ready sse_obs
  for lib
  by unfold_locales

section \<open>The contract\<close>

lemma opts_reply_cases:
  assumes "cr_code (opts_reply lib (request_opts lib f rq)) = CURLE_OK"
  obtains opts where "apply_tls_config lib (curl_opts_init (rq_url rq)) (rq_tls rq) = Some opts"
    "opts_reply lib (request_opts lib f rq) = curl_net lib (f rq opts)"
  using assms by (auto simp: opts_reply_def request_opts_def split: option.splits)

lemma apply_tls_config_post:
  assumes "apply_tls_config lib opts tls = Some opts'" shows "co_post opts' = co_post opts"
  using assms unfolding apply_tls_config_def Let_def
  by (auto simp: if_distrib [of co_post] option.case_distrib [of co_post] split: option.splits cong: if_cong)

lemma request_opts_url:
  assumes "apply_tls_config lib (curl_opts_init url) tls = Some opts" "rq_url rq = url"
  shows "co_url (get_opts rq opts) = url" "co_url (post_opts rq opts) = url" "co_url (stream_opts rq opts) = url"
    "co_post (get_opts rq opts) = None" "co_post (post_opts rq opts) = Some (c_string (rq_json rq))"
  using apply_tls_config_url [OF assms(1)] apply_tls_config_post [OF assms(1)]
  by (simp_all add: get_opts_def post_opts_def stream_opts_def set_timeouts_def apply_proxy_config_def curl_opts_init_def)

text \<open>Without a TLS configuration nothing is sent, as if no chunk came.\<close>

lemma stream_reply_cases:
  "\<exists>opts. co_url opts = rq_url rq \<and>
     (opts_reply lib (request_opts lib stream_opts rq) = curl_net lib opts \<or>
      cr_chunks (opts_reply lib (request_opts lib stream_opts rq)) = [] \<and>
      cr_code (opts_reply lib (request_opts lib stream_opts rq)) \<noteq> CURLE_OK)"
proof (cases "apply_tls_config lib (curl_opts_init (rq_url rq)) (rq_tls rq)")
  case None
  then show ?thesis
    by (intro exI [of _ "curl_opts_init (rq_url rq)"]) (simp add: opts_reply_def request_opts_def curl_opts_init_def)
next
  case (Some o1)
  with request_opts_url(3) [OF Some] show ?thesis
    by (intro exI [of _ "stream_opts rq o1"]) (simp add: opts_reply_def request_opts_def)
qed

definition request ::
  "byte list \<Rightarrow> byte list \<Rightarrow> int \<Rightarrow> int \<Rightarrow> byte list option list \<Rightarrow> llm_tls_config \<Rightarrow> byte list option \<Rightarrow>
     byte list option \<Rightarrow> http_request" where
  "request url json timeout_ms idle_ms hs tls proxy no_proxy =
     \<lparr>rq_url = url, rq_json = json, rq_timeout_ms = timeout_ms, rq_read_idle_timeout_ms = idle_ms,
      rq_headers = hs, rq_tls = tls, rq_proxy_url = proxy, rq_no_proxy = no_proxy\<rparr>"

lemma http_get_contract:
  assumes "http_get alloc lib url timeout_ms m hs tls proxy no_proxy = Some res"
  shows "if hr_success res then \<exists>opts. co_url opts = url \<and> co_post opts = None \<and> reports res m (curl_net lib opts)
    else reports_failure res"
proof -
  define rq where "rq = request url [] timeout_ms 0 hs tls proxy no_proxy"
  have url: "rq_url rq = url" and call: "get_call alloc lib m rq = Some res"
    using assms by (simp_all add: get_call_def rq_def request_def)
  note o = get.outcome [OF call]
  show ?thesis
  proof (cases "hr_success res")
    case True
    with o have r: "reports res m (opts_reply lib (request_opts lib get_opts rq))" by simp
    then obtain o1 where "apply_tls_config lib (curl_opts_init (rq_url rq)) (rq_tls rq) = Some o1"
      "opts_reply lib (request_opts lib get_opts rq) = curl_net lib (get_opts rq o1)"
      by (auto simp: reports_def elim: opts_reply_cases)
    with True r request_opts_url [of lib "rq_url rq" "rq_tls rq" o1 rq] url show ?thesis by auto
  qed (use o in simp)
qed

lemma http_post_contract:
  assumes "http_post alloc lib url json timeout_ms m hs tls proxy no_proxy = Some res"
  shows "if hr_success res
    then \<exists>opts. co_url opts = url \<and> co_post opts = Some (c_string json) \<and> reports res m (curl_net lib opts)
    else reports_failure res"
proof -
  define rq where "rq = request url json timeout_ms 0 hs tls proxy no_proxy"
  have rq: "rq_url rq = url" "rq_json rq = json" and call: "post_call alloc lib m rq = Some res"
    using assms by (simp_all add: post_call_def rq_def request_def)
  note o = post.outcome [OF call]
  show ?thesis
  proof (cases "hr_success res")
    case True
    with o have r: "reports res m (opts_reply lib (request_opts lib post_opts rq))" by simp
    then obtain o1 where "apply_tls_config lib (curl_opts_init (rq_url rq)) (rq_tls rq) = Some o1"
      "opts_reply lib (request_opts lib post_opts rq) = curl_net lib (post_opts rq o1)"
      by (auto simp: reports_def elim: opts_reply_cases)
    with True r request_opts_url [of lib "rq_url rq" "rq_tls rq" o1 rq] rq show ?thesis by auto
  qed (use o in simp)
qed

lemma http_post_stream_contract:
  assumes "http_post_stream lib url json timeout_ms idle_ms hs tls proxy no_proxy cb s = Some (ok, status, s1)"
  shows "\<exists>opts k fine. co_url opts = url \<and> prefix k (cr_chunks (curl_net lib opts)) \<and> fed cb s k fine s1 \<and>
    (ok \<longrightarrow> fine \<and> k = cr_chunks (curl_net lib opts) \<and> cr_code (curl_net lib opts) = CURLE_OK)"
proof -
  define rq where "rq = request url json timeout_ms idle_ms hs tls proxy no_proxy"
  have url: "rq_url rq = url" and call: "stream_call_to lib cb s rq = Some (ok, status, s1)"
    using assms by (simp_all add: stream_call_to_def rq_def request_def)
  obtain k fine where k: "prefix k (cr_chunks (opts_reply lib (request_opts lib stream_opts rq)))" "fed cb s k fine s1"
    "\<not> fine \<longrightarrow> \<not> ok" "ok \<longrightarrow> k = cr_chunks (opts_reply lib (request_opts lib stream_opts rq)) \<and>
      cr_code (opts_reply lib (request_opts lib stream_opts rq)) = CURLE_OK"
    using stream.serial [OF call] by blast
  obtain opts where "co_url opts = url" and r: "opts_reply lib (request_opts lib stream_opts rq) = curl_net lib opts \<or>
    cr_chunks (opts_reply lib (request_opts lib stream_opts rq)) = [] \<and>
    cr_code (opts_reply lib (request_opts lib stream_opts rq)) \<noteq> CURLE_OK"
    using stream_reply_cases [of rq lib] url by blast
  with k show ?thesis by (intro exI [of _ opts] exI [of _ k] exI [of _ fine]) (use r in auto)
qed

text \<open>The stream into the event parser, however libcurl cuts it: what the parser is left with.\<close>

lemma http_post_stream_sse:
  assumes "http_post_stream lib url json timeout_ms idle_ms hs tls proxy no_proxy (feed_cb sse_feed SSE_OK) p =
      Some (True, status, q)"
    "\<forall>opts. co_url opts = url \<longrightarrow> sse_ready p (length (wire_body (curl_net lib opts)))"
  shows "\<exists>opts. co_url opts = url \<and> sse_feed p (wire_body (curl_net lib opts)) = (SSE_OK, q)"
proof -
  define rq where "rq = request url json timeout_ms idle_ms hs tls proxy no_proxy"
  have url: "rq_url rq = url" and call: "stream_call_to lib (feed_cb sse_feed SSE_OK) p rq = Some (True, status, q)"
    using assms by (simp_all add: stream_call_to_def rq_def request_def)
  from stream.serial [OF call] stream_reply_cases [of rq lib] url obtain opts where
    o: "co_url opts = url" "opts_reply lib (request_opts lib stream_opts rq) = curl_net lib opts" by auto
  with sse_stream.whole [OF call] assms(2) show ?thesis by auto
qed



end
