(* ===== verification/GetCalls.thy ===== *)
theory GetCalls
  imports TransportContract
begin

text \<open>
  What the calls that get a resource return: the list of models is the reading of the document
  that came, the properties its bytes. Both rest on the contract of \<open>TransportContract\<close>.
\<close>

section \<open>The list of models\<close>

definition tree_model :: "byte list \<Rightarrow> jtree \<Rightarrow> parse_err + byte list" where
  "tree_model json t =
     (case tree_str json t (lit ''id'') of None \<Rightarrow> Inl PErrProtocol | Some s \<Rightarrow> Inr s)"

definition tree_models :: "byte list \<Rightarrow> jtree list \<Rightarrow> parse_err + byte list list" where
  "tree_models json ts =
     (case ts of
        [] \<Rightarrow> Inl (PErrJson JSTOK_ERROR_INVAL)
      | t # _ \<Rightarrow>
          (case (if is_obj t then tree_arr json t (lit ''data'') else None) of
             None \<Rightarrow> Inl PErrProtocol
           | Some ms \<Rightarrow> tree_elems (tree_model json) ms))"

lemma parse_model_tree:
  assumes "is_obj t" "sits toks i t"
  shows "parse_model (\<lambda>n. True) json toks (int i) = tree_model json t"
  using sits_member [OF assms(2,1), of json "lit ''id''"]
  by cases (auto simp: parse_model_def tree_model_def tree_str_def obj_get_key_def Let_def sits_head
      sits_head(5) [unfolded tok_span_def] simp del: lit_Cons split: option.split)

lemma parse_models_tree:
  assumes "doc json ts" shows "parse_models (\<lambda>n. True) json = tree_models json ts"
proof (cases ts)
  case Nil
  then show ?thesis using tokenize_doc [OF assms(1)] by (simp add: parse_models_def tree_models_def)
next
  case (Cons t us)
  let ?toks = "flats (t # us)" and ?key = "lit ''data''"
  have s: "sits ?toks 0 t" using doc_sits assms(1) Cons by blast
  have ne: "?toks \<noteq> []" by (simp only: flats_Nil_iff) simp
  have tk: "tokenize (\<lambda>n. True) json = Inr ?toks" using tokenize_doc [OF assms(1)] Cons by simp
  note base = tk ne sits_head(2) [OF s] Cons
  show ?thesis
  proof (cases "is_obj t")
    case False
    with base show ?thesis by (simp add: parse_models_def tree_models_def del: flats_simps)
  next
    case True
    show ?thesis
    proof (cases "tree_arr json t ?key")
      case None
      with sits_tree_arr [OF s True, of json ?key] True base show ?thesis
        by (auto simp: parse_models_def tree_models_def obj_get_key_def Let_def simp del: flats_simps lit_Cons)
    next
      case (Some ms)
      with sits_tree_arr [OF s True, of json ?key] obtain j v where
        j: "jstok_object_get json ?toks 0 ?key = int j" "sits ?toks j v" "arr_elems v = Some ms"
          "tk_type (?toks ! j) = JSTOK_ARRAY" "tk_size (?toks ! j) = int (length ms)"
        by (auto simp: obj_get_key_def simp del: lit_Cons flats_simps)
      have "parse_elements ?toks (int j) (parse_model (\<lambda>n. True) json ?toks) 0 (length ms) = tree_elems (tree_model json) ms"
        using parse_elements_tree [OF j(2,3), of 0 "parse_model (\<lambda>n. True) json ?toks" "tree_model json"] parse_model_tree
        by (simp del: flats_simps)
      with Some j True base show ?thesis
        by (cases "ms = []") (simp_all add: parse_models_def tree_models_def Let_def del: flats_simps lit_Cons)
    qed
  qed
qed

lemma parse_models_mono: "parse_models alloc body = Inr ms \<Longrightarrow> parse_models (\<lambda>n. True) body = Inr ms"
proof -
  assume p: "parse_models alloc body = Inr ms"
  then obtain toks where t: "tokenize alloc body = Inr toks" by (auto simp: parse_models_def split: sum.splits)
  have m: "parse_model alloc body toks j = Inr x \<Longrightarrow> parse_model (\<lambda>n. True) body toks j = Inr x" for j x
    by (auto simp: parse_model_def Let_def simp del: lit_Cons split: if_splits option.splits)
  show ?thesis
    using p t tokenize_mono [OF t] parse_elements_mono [OF m]
    by (auto simp: parse_models_def Let_def simp del: lit_Cons split: if_splits)
qed

section \<open>The calls\<close>

text \<open>What a successful get was answered.\<close>

definition got :: "curl_lib \<Rightarrow> byte list \<Rightarrow> nat \<Rightarrow> byte list \<Rightarrow> bool" where
  "got lib url limit body \<longleftrightarrow>
     (\<exists>opts. co_url opts = url \<and> co_post opts = None \<and> cr_code (curl_net lib opts) = CURLE_OK \<and>
        cr_status (curl_net lib opts) < 400 \<and> body = wire_body (curl_net lib opts)) \<and>
     (limit = 0 \<or> length body \<le> limit)"

lemma http_get_got:
  assumes "http_get alloc lib url timeout_ms m hs tls proxy no_proxy = Some res" "hr_success res"
    "\<not> 400 \<le> ts_http_status (hr_status res)"
  shows "got lib url m (case hr_body res of None \<Rightarrow> [] | Some body \<Rightarrow> body)"
  using http_get_contract [OF assms(1)] assms(2,3) by (auto simp: reports_def got_def split: option.splits)

text \<open>
  When \<open>llm_models_list_with_headers_ex\<close> succeeds, the server answered a get of the model path
  with a status below 400 and within the limit, the answer is one document, and the list is
  the identifiers of all models of its \<open>data\<close> array, in order. A success of
  \<open>llm_props_get_with_headers_ex\<close> returns the bytes of such an answer.
\<close>

theorem models_list_genuine:
  assumes "llm_models_list_with_headers_ex alloc lib client want_result headers detail =
      Some (LLM_ERR_NONE, client', detail', Some models)"
    "0 < lm_max_response_bytes (cl_limits client)" "lm_max_response_bytes (cl_limits client) < 2 ^ 31"
  shows "client' = last_error_reset client \<and>
    (\<exists>base body ts. cl_base_url client = Some base \<and>
       got lib (call_url base ''/v1/models'') (lm_max_response_bytes (cl_limits client)) body \<and>
       doc body ts \<and> tree_models body ts = Inr models)"
proof -
  let ?c = "last_error_reset client" and ?m = "lm_max_response_bytes (cl_limits client)"
  have same: "cl_base_url ?c = cl_base_url client" "cl_limits ?c = cl_limits client" by (simp_all add: last_error_reset_def)
  note defs = llm_models_list_with_headers_ex_def api_reset_def api_fail_not_none Let_def
  have w: want_result using assms(1) by (cases want_result) (simp_all add: defs)
  obtain base where b: "cl_base_url client = Some base"
    using assms(1) w same by (cases "cl_base_url client") (simp_all add: defs)
  obtain hs where hs: "llm_header_set_init alloc ?c headers = Some hs"
    using assms(1) w same b by (cases "llm_header_set_init alloc ?c headers") (simp_all add: defs)
  let ?get = "http_get alloc lib (call_url base ''/v1/models'') (tm_connect_ms (cl_timeout ?c)) ?m hs
    (llm_client_tls_config ?c) (cl_proxy_url ?c) (cl_no_proxy ?c)"
  obtain res where r: "?get = Some res" using assms(1) w same b hs by (cases ?get) (simp_all add: defs)
  have s: "hr_success res" using assms(1) w same b hs r by (cases "hr_success res") (simp_all add: defs)
  have st: "\<not> 400 \<le> ts_http_status (hr_status res)"
    using assms(1) w same b hs r s by (cases "400 \<le> ts_http_status (hr_status res)") (simp_all add: defs)
  obtain body where body: "hr_body res = Some body"
    using assms(1) w same b hs r s st by (cases "hr_body res") (simp_all add: defs)
  have g: "got lib (call_url base ''/v1/models'') ?m body" using http_get_got [OF r s st] body by simp
  have v: "client' = ?c \<and> parse_models alloc body = Inr models"
    using assms(1) w same b hs r s st body by (cases "parse_models alloc body") (simp_all add: defs)
  have "length body < 2 ^ 31" using g assms(2,3) by (auto simp: got_def)
  moreover obtain toks where "tokenize alloc body = Inr toks" using v by (auto simp: parse_models_def split: sum.splits)
  ultimately obtain ts where ts: "doc body ts" using tokenize_Inr by blast
  then have "tree_models body ts = Inr models" using parse_models_tree parse_models_mono v by metis
  with ts g b v show ?thesis by blast
qed

theorem props_get_genuine:
  assumes "llm_props_get_with_headers_ex alloc lib client want_result headers detail =
      Some (LLM_ERR_NONE, client', detail', Some body)"
  shows "\<exists>base. cl_base_url client = Some base \<and>
    got lib (call_url base ''/props'') (lm_max_response_bytes (cl_limits client)) (case body of None \<Rightarrow> [] | Some b \<Rightarrow> b)"
proof -
  let ?c = "last_error_reset client" and ?m = "lm_max_response_bytes (cl_limits client)"
  have same: "cl_base_url ?c = cl_base_url client" "cl_limits ?c = cl_limits client" by (simp_all add: last_error_reset_def)
  note defs = llm_props_get_with_headers_ex_def api_reset_def api_fail_not_none Let_def
  have w: want_result using assms(1) by (cases want_result) (simp_all add: defs)
  obtain base where b: "cl_base_url client = Some base"
    using assms(1) w same by (cases "cl_base_url client") (simp_all add: defs)
  obtain hs where hs: "llm_header_set_init alloc ?c headers = Some hs"
    using assms(1) w same b by (cases "llm_header_set_init alloc ?c headers") (simp_all add: defs)
  let ?get = "http_get alloc lib (call_url base ''/props'') (tm_connect_ms (cl_timeout ?c)) ?m hs
    (llm_client_tls_config ?c) (cl_proxy_url ?c) (cl_no_proxy ?c)"
  obtain res where r: "?get = Some res" using assms(1) w same b hs by (cases ?get) (simp_all add: defs)
  have s: "hr_success res" using assms(1) w same b hs r by (cases "hr_success res") (simp_all add: defs)
  have st: "\<not> 400 \<le> ts_http_status (hr_status res)"
    using assms(1) w same b hs r s by (cases "400 \<le> ts_http_status (hr_status res)") (simp_all add: defs)
  have "hr_body res = body" using assms(1) w same b hs r s st by (simp add: defs)
  with http_get_got [OF r s st] b show ?thesis by blast
qed

end
