(* ===== verification/ToolLoop.thy ===== *)
theory ToolLoop
  imports Api
begin

text \<open>
  The tool loop of \<open>src/src/llm.c\<close>: chat, run the tools the answer asks for, append the answer
  and the results to the conversation, and chat again, for at most \<open>max_turns\<close> turns. The guard
  against a model that repeats itself remembers the hashes of the last eight turns.

  The caller's dispatch function is a function on its own state; the abort callback answers by
  the number of the poll. \<open>Undefined\<close> stands for a run that C leaves undefined: a
  string with a NUL inside, copied by \<open>strdup\<close> and then read by its length, or an identifier that
  \<open>strdup\<close> takes from a body no NUL follows. What the loop frees is not state here.
\<close>

section \<open>Tool messages\<close>

definition llm_tool_message_init :: "cspan \<Rightarrow> cspan \<Rightarrow> cspan \<Rightarrow> llm_message option" where
  "llm_tool_message_init content tool_call_id tool_name =
     (if sp_null tool_call_id \<or> sp_len tool_call_id = 0 then None
      else if sp_null content \<and> sp_len content \<noteq> 0 then None
      else if sp_null tool_name \<and> sp_len tool_name \<noteq> 0 then None
      else if \<not> sp_null tool_name \<and> sp_len tool_name = 0 then None
      else Some \<lparr>msg_role = LLM_ROLE_TOOL, msg_content = content, msg_tool_call_id = tool_call_id,
                 msg_name = tool_name, msg_tool_calls_json = SNull 0, msg_content_json = SNull 0\<rparr>)"

section \<open>The guard\<close>

definition TOOL_LOOP_HASH_WINDOW :: nat where "TOOL_LOOP_HASH_WINDOW = 8"

record tool_loop_guard =
  recent_hashes :: "64 word list"
  recent_count :: nat
  recent_pos :: nat

definition tool_loop_guard_init :: tool_loop_guard where
  "tool_loop_guard_init =
     \<lparr>recent_hashes = replicate TOOL_LOOP_HASH_WINDOW 0, recent_count = 0, recent_pos = 0\<rparr>"

definition tool_loop_guard_seen :: "tool_loop_guard \<Rightarrow> 64 word \<Rightarrow> bool \<times> tool_loop_guard" where
  "tool_loop_guard_seen guard hash =
     (if list_ex (\<lambda>h. h = hash) (take (recent_count guard) (recent_hashes guard)) then (True, guard)
      else
        (let guard = guard\<lparr>recent_hashes := (recent_hashes guard)[recent_pos guard := hash]\<rparr>;
             guard = (if recent_count guard < TOOL_LOOP_HASH_WINDOW
                      then guard\<lparr>recent_count := recent_count guard + 1\<rparr> else guard) in
         (False, guard\<lparr>recent_pos := (recent_pos guard + 1) mod TOOL_LOOP_HASH_WINDOW\<rparr>)))"

section \<open>The hash of a turn\<close>

definition FNV_PRIME :: "64 word" where "FNV_PRIME = 1099511628211"
definition FNV_BASIS :: "64 word" where "FNV_BASIS = 1469598103934665603"

fun tool_loop_hash_bytes :: "64 word \<Rightarrow> byte list \<Rightarrow> 64 word" where
  "tool_loop_hash_bytes h [] = h"
| "tool_loop_hash_bytes h (b # bs) = tool_loop_hash_bytes (xor h (ucast b) * FNV_PRIME) bs"

fun hash_u64_loop :: "nat \<Rightarrow> 64 word \<Rightarrow> 64 word \<Rightarrow> 64 word" where
  "hash_u64_loop 0 h v = h"
| "hash_u64_loop (Suc n) h v = hash_u64_loop n (xor h (and v 0xff) * FNV_PRIME) (drop_bit 8 v)"

definition tool_loop_hash_u64 :: "64 word \<Rightarrow> 64 word \<Rightarrow> 64 word" where
  "tool_loop_hash_u64 h v = hash_u64_loop 8 h v"

text \<open>
  A field of a response is NULL with length 0 or a span, so the tests for a NULL with a length,
  which make \<open>tool_loop_hash_turn\<close> fail, never hold.
\<close>

definition span_bytes :: "byte list option \<Rightarrow> byte list" where
  "span_bytes sp = (case sp of None \<Rightarrow> [] | Some bs \<Rightarrow> bs)"

definition hash_field :: "64 word \<Rightarrow> byte list option \<Rightarrow> 64 word" where
  "hash_field h sp =
     (let h = tool_loop_hash_u64 h (word_of_nat (length (span_bytes sp))) in
      if length (span_bytes sp) \<noteq> 0 then tool_loop_hash_bytes h (span_bytes sp) else h)"

fun hash_tool_calls :: "64 word \<Rightarrow> llm_tool_call list \<Rightarrow> 64 word" where
  "hash_tool_calls h [] = h"
| "hash_tool_calls h (tc # tcs) = hash_tool_calls (hash_field (hash_field h (tc_name tc)) (tc_arguments tc)) tcs"

definition tool_loop_hash_turn :: "llm_chat_choice \<Rightarrow> 64 word" where
  "tool_loop_hash_turn result =
     (let h = tool_loop_hash_u64 FNV_BASIS (word_of_nat (length (ch_tool_calls result)));
          h = hash_tool_calls h (ch_tool_calls result) in
      hash_field (hash_field h (ch_content result)) (ch_reasoning_content result))"

section \<open>The copy of the conversation\<close>

datatype 'a outcome = Undefined | Failed | Done 'a

definition MESSAGE_SIZE :: nat where "MESSAGE_SIZE = 88"

text \<open>\<open>strdup\<close> of a span that is read by its length afterwards.\<close>

definition strdup_span_z :: "(nat \<Rightarrow> bool) \<Rightarrow> byte list \<Rightarrow> byte list outcome" where
  "strdup_span_z alloc bs =
     (if C_NUL \<in> set bs then Undefined else if alloc (length bs + 1) then Done bs else Failed)"

definition copy_string :: "(nat \<Rightarrow> bool) \<Rightarrow> cspan \<Rightarrow> cspan outcome" where
  "copy_string alloc sp =
     (case sp of
        SNull n \<Rightarrow> Done (SNull 0)
      | SPtr bs \<Rightarrow>
          (case strdup_span_z alloc bs of Undefined \<Rightarrow> Undefined | Failed \<Rightarrow> Failed | Done c \<Rightarrow> Done (SPtr c)))"

definition copy_message :: "(nat \<Rightarrow> bool) \<Rightarrow> llm_message \<Rightarrow> llm_message outcome" where
  "copy_message alloc m =
     (if sp_len (msg_content_json m) \<noteq> 0 \<and> sp_null (msg_content_json m) then Failed
      else if \<not> sp_null (msg_content m) \<and> \<not> sp_null (msg_content_json m) then Failed
      else
        (case copy_string alloc (msg_content m) of
           Undefined \<Rightarrow> Undefined
         | Failed \<Rightarrow> Failed
         | Done content \<Rightarrow>
             if \<not> sp_null (msg_content_json m) \<and>
                (sp_len (msg_content_json m) = 0 \<or> \<not> alloc (sp_len (msg_content_json m)))
             then Failed
             else
               (case copy_string alloc (msg_tool_call_id m) of
                  Undefined \<Rightarrow> Undefined
                | Failed \<Rightarrow> Failed
                | Done tool_call_id \<Rightarrow>
                    (let has_calls = (\<not> sp_null (msg_tool_calls_json m) \<and> sp_len (msg_tool_calls_json m) > 0) in
                     if has_calls \<and> \<not> alloc (sp_len (msg_tool_calls_json m)) then Failed
                     else Done
                       \<lparr>msg_role = msg_role m, msg_content = content, msg_tool_call_id = tool_call_id,
                        msg_name = msg_name m,
                        msg_tool_calls_json = (if has_calls then msg_tool_calls_json m else SNull 0),
                        msg_content_json =
                          (if sp_null (msg_content_json m) then SNull 0 else msg_content_json m)\<rparr>))))"

fun copy_messages :: "(nat \<Rightarrow> bool) \<Rightarrow> llm_message list \<Rightarrow> llm_message list outcome" where
  "copy_messages alloc [] = Done []"
| "copy_messages alloc (m # ms) =
     (case copy_message alloc m of
        Undefined \<Rightarrow> Undefined
      | Failed \<Rightarrow> Failed
      | Done c \<Rightarrow>
          (case copy_messages alloc ms of Undefined \<Rightarrow> Undefined | Failed \<Rightarrow> Failed | Done cs \<Rightarrow> Done (c # cs)))"

section \<open>The tools of a turn\<close>

text \<open>The arguments of all calls of a turn, within the limit.\<close>

fun turn_args_ok :: "nat \<Rightarrow> nat \<Rightarrow> llm_tool_call list \<Rightarrow> bool" where
  "turn_args_ok max_args turn_args_bytes [] = True"
| "turn_args_ok max_args turn_args_bytes (tc # tcs) =
     (let n = length (span_bytes (tc_arguments tc)) in
      if n > SIZE_MAX - turn_args_bytes then False
      else if max_args \<noteq> 0 \<and> turn_args_bytes + n > max_args then False
      else turn_args_ok max_args (turn_args_bytes + n) tcs)"

text \<open>What the dispatch function answers: success, the result it allocated, its own state.\<close>

type_synonym 'd dispatch = "'d \<Rightarrow> byte list option \<Rightarrow> byte list option \<Rightarrow> bool \<times> byte list option \<times> 'd"

text \<open>\<open>terminated\<close> says whether a NUL follows the body that the identifiers are in.\<close>

definition tool_msg :: "(nat \<Rightarrow> bool) \<Rightarrow> bool \<Rightarrow> llm_tool_call \<Rightarrow> byte list \<Rightarrow> llm_message outcome" where
  "tool_msg alloc terminated tc res_json =
     (case (case tc_id tc of
              None \<Rightarrow> Done (SNull 0)
            | Some call_id \<Rightarrow> if \<not> terminated then Undefined else copy_string alloc (SPtr call_id)) of
        Undefined \<Rightarrow> Undefined
      | Failed \<Rightarrow> Failed
      | Done tool_call_id \<Rightarrow>
          Done \<lparr>msg_role = LLM_ROLE_TOOL, msg_content = SPtr res_json, msg_tool_call_id = tool_call_id,
                msg_name = SNull 0, msg_tool_calls_json = SNull 0, msg_content_json = SNull 0\<rparr>)"

text \<open>The loop over the calls: the messages so far, the bytes of all results, the caller's state.\<close>

fun run_tools ::
  "(nat \<Rightarrow> bool) \<Rightarrow> nat \<Rightarrow> bool \<Rightarrow> 'd dispatch \<Rightarrow> llm_tool_call list \<Rightarrow> llm_message list \<Rightarrow> nat \<Rightarrow> 'd \<Rightarrow>
     (llm_message list \<times> nat) outcome \<times> 'd" where
  "run_tools alloc max_output terminated dispatch [] msgs output_total d = (Done (msgs, output_total), d)"
| "run_tools alloc max_output terminated dispatch (tc # tcs) msgs output_total d =
     (case dispatch d (tc_name tc) (tc_arguments tc) of
        (ok, res, d) \<Rightarrow>
          if \<not> ok then (Failed, d)
          else
            (case res of
               None \<Rightarrow> (Failed, d)
             | Some res_json \<Rightarrow>
                 if length res_json > SIZE_MAX - output_total then (Failed, d)
                 else if max_output \<noteq> 0 \<and> output_total + length res_json > max_output then (Failed, d)
                 else
                   (case tool_msg alloc terminated tc res_json of
                      Undefined \<Rightarrow> (Undefined, d)
                    | Failed \<Rightarrow> (Failed, d)
                    | Done m \<Rightarrow>
                        run_tools alloc max_output terminated dispatch tcs (msgs @ [m])
                          (output_total + length res_json) d)))"

definition assistant_msg :: "(nat \<Rightarrow> bool) \<Rightarrow> llm_chat_choice \<Rightarrow> byte list \<Rightarrow> llm_message option" where
  "assistant_msg alloc result calls_json =
     (if \<not> alloc (length calls_json) then None
      else
        (let combined = span_bytes (ch_content result) @ span_bytes (ch_reasoning_content result);
             some = (ch_content result \<noteq> None \<or> ch_reasoning_content result \<noteq> None) in
         if some \<and> \<not> alloc (length combined + 1) then None
         else Some \<lparr>msg_role = LLM_ROLE_ASSISTANT, msg_content = (if some then SPtr combined else SNull 0),
                    msg_tool_call_id = SNull 0, msg_name = SNull 0, msg_tool_calls_json = SPtr calls_json,
                    msg_content_json = SNull 0\<rparr>))"

section \<open>The loop\<close>

text \<open>The arguments of a run that stay as they are, and its state; \<open>tl_sent\<close> collects the
  conversations handed to the chat call, in order.\<close>

record 'd tool_loop_args =
  la_alloc :: "nat \<Rightarrow> bool"
  la_lib :: curl_lib
  la_params_json :: "byte list option"
  la_tooling_json :: "byte list option"
  la_response_format_json :: "byte list option"
  la_dispatch :: "'d dispatch"
  la_abort_cb :: "(nat \<Rightarrow> bool) option"
  la_headers :: header_list

record 'd tool_loop_state =
  tl_client :: llm_client
  tl_history :: "llm_message list"
  tl_guard :: tool_loop_guard
  tl_output_total :: nat
  tl_user :: 'd
  tl_polls :: nat
  tl_sent :: "llm_message list list"

definition llm_chat_with_headers ::
  "(nat \<Rightarrow> bool) \<Rightarrow> curl_lib \<Rightarrow> llm_client \<Rightarrow> llm_message list \<Rightarrow> byte list option \<Rightarrow> byte list option \<Rightarrow>
     byte list option \<Rightarrow> header_list \<Rightarrow> (bool \<times> llm_client \<times> (llm_chat_result \<times> byte list \<times> bool) option) option" where
  "llm_chat_with_headers alloc lib client messages params_json tooling_json response_format_json headers =
     (case llm_chat_with_headers_ex alloc lib client messages params_json tooling_json response_format_json True headers
             None of
        None \<Rightarrow> None
      | Some (err, client, detail, result) \<Rightarrow> Some (err = LLM_ERR_NONE, client, result))"

datatype 'd turn =
    TurnUndefined
  | TurnStop llm_error "'d tool_loop_state"
  | TurnNext "'d tool_loop_state"

text \<open>From an answer that asks for tools on; \<open>final\<close> says that no further turn is allowed.\<close>

definition answer_turn ::
  "'d tool_loop_args \<Rightarrow> bool \<Rightarrow> 'd tool_loop_state \<Rightarrow> llm_chat_choice \<Rightarrow> bool \<Rightarrow> 'd turn" where
  "answer_turn args final st result terminated =
     (let calls = ch_tool_calls result; calls_json = span_bytes (ch_tool_calls_json result);
          lim = cl_limits (tl_client st); alloc = la_alloc args in
      if ch_finish_reason result \<noteq> LLM_FINISH_REASON_TOOL_CALLS then TurnStop LLM_ERR_NONE st
      else if calls = [] \<or> calls_json = [] then TurnStop LLM_ERR_FAILED st
      else if final then TurnStop LLM_ERR_FAILED st
      else if \<not> turn_args_ok (lm_max_tool_args_bytes_per_turn lim) 0 calls then TurnStop LLM_ERR_FAILED st
      else
        (case tool_loop_guard_seen (tl_guard st) (tool_loop_hash_turn result) of
           (seen, guard) \<Rightarrow>
             (let st = st\<lparr>tl_guard := guard\<rparr> in
              if seen then TurnStop LLM_ERR_FAILED st
              else if \<not> alloc ((length (tl_history st) + 1 + length calls) * MESSAGE_SIZE)
              then TurnStop LLM_ERR_FAILED st
              else
                (case assistant_msg alloc result calls_json of
                   None \<Rightarrow> TurnStop LLM_ERR_FAILED st
                 | Some am \<Rightarrow>
                     (case run_tools alloc (lm_max_tool_output_bytes_total lim) terminated (la_dispatch args) calls []
                             (tl_output_total st) (tl_user st) of
                        (res, d) \<Rightarrow>
                          (let st = st\<lparr>tl_user := d\<rparr> in
                           case res of
                             Undefined \<Rightarrow> TurnUndefined
                           | Failed \<Rightarrow> TurnStop LLM_ERR_FAILED st
                           | Done (msgs, output_total) \<Rightarrow>
                               TurnNext (st\<lparr>tl_history := tl_history st @ am # msgs,
                                           tl_output_total := output_total\<rparr>)))))))"

definition tool_turn :: "'d tool_loop_args \<Rightarrow> bool \<Rightarrow> 'd tool_loop_state \<Rightarrow> 'd turn" where
  "tool_turn args final st =
     (let abort = (case la_abort_cb args of None \<Rightarrow> False | Some f \<Rightarrow> f (tl_polls st));
          st = (if la_abort_cb args = None then st else st\<lparr>tl_polls := tl_polls st + 1\<rparr>) in
      if abort then TurnStop LLM_ERR_CANCELLED st
      else
        (case llm_chat_with_headers (la_alloc args) (la_lib args) (tl_client st) (tl_history st) (la_params_json args)
                (la_tooling_json args) (la_response_format_json args) (la_headers args) of
           None \<Rightarrow> TurnUndefined
         | Some (ok, client, answer) \<Rightarrow>
             (let st = st\<lparr>tl_client := client, tl_sent := tl_sent st @ [tl_history st]\<rparr> in
              case answer of
                None \<Rightarrow> TurnStop LLM_ERR_FAILED st
              | Some (result, body, terminated) \<Rightarrow>
                  if \<not> ok then TurnStop LLM_ERR_FAILED st
                  else answer_turn args final st (cr_first result) terminated)))"

text \<open>The turns that are left; the loop over them ends without an error.\<close>

fun tool_turns :: "'d tool_loop_args \<Rightarrow> nat \<Rightarrow> 'd tool_loop_state \<Rightarrow> (llm_error \<times> 'd tool_loop_state) option" where
  "tool_turns args 0 st = Some (LLM_ERR_NONE, st)"
| "tool_turns args (Suc n) st =
     (case tool_turn args (n = 0) st of
        TurnUndefined \<Rightarrow> None
      | TurnStop err st1 \<Rightarrow> Some (err, st1)
      | TurnNext st1 \<Rightarrow> tool_turns args n st1)"

lemma tool_turns_code [code]:
  "tool_turns args n st =
     (if n = 0 then Some (LLM_ERR_NONE, st)
      else case tool_turn args (n = 1) st of
        TurnUndefined \<Rightarrow> None
      | TurnStop err st1 \<Rightarrow> Some (err, st1)
      | TurnNext st1 \<Rightarrow> tool_turns args (n - 1) st1)"
  by (cases n) (simp_all cong: turn.case_cong)

text \<open>The error, the handle, the dispatch function's state and the conversations sent.\<close>

type_synonym 'd loop_result = "(llm_error \<times> llm_client \<times> 'd \<times> llm_message list list) option"

definition llm_tool_loop_run_with_headers_ex ::
  "'d tool_loop_args \<Rightarrow> llm_client \<Rightarrow> llm_message list \<Rightarrow> 'd \<Rightarrow> nat \<Rightarrow> 'd loop_result" where
  "llm_tool_loop_run_with_headers_ex args client initial d max_turns =
     (let client = last_error_reset client;
          fail = Some (LLM_ERR_FAILED,
                   last_error_set_simple_if_empty client LLM_ERR_FAILED LLM_ERROR_STAGE_PROTOCOL, d, []) in
      if \<not> la_alloc args (length initial * MESSAGE_SIZE) then fail
      else
        (case copy_messages (la_alloc args) initial of
           Undefined \<Rightarrow> None
         | Failed \<Rightarrow> fail
         | Done history \<Rightarrow>
             if max_turns = 0 then fail
             else
               (case tool_turns args max_turns
                       \<lparr>tl_client = client, tl_history = history, tl_guard = tool_loop_guard_init,
                        tl_output_total = 0, tl_user = d, tl_polls = 0, tl_sent = []\<rparr> of
                  None \<Rightarrow> None
                | Some (err, st) \<Rightarrow>
                    Some (err,
                      (if err \<noteq> LLM_ERR_NONE
                       then last_error_set_simple_if_empty (tl_client st) err
                              (if err = LLM_ERR_CANCELLED then LLM_ERROR_STAGE_NONE else LLM_ERROR_STAGE_PROTOCOL)
                       else tl_client st),
                      tl_user st, tl_sent st))))"

definition llm_tool_loop_run_ex ::
  "'d tool_loop_args \<Rightarrow> llm_client \<Rightarrow> llm_message list \<Rightarrow> 'd \<Rightarrow> nat \<Rightarrow> 'd loop_result" where
  "llm_tool_loop_run_ex args client initial d max_turns =
     llm_tool_loop_run_with_headers_ex (args\<lparr>la_headers := HNull 0\<rparr>) client initial d max_turns"

definition llm_tool_loop_run ::
  "'d tool_loop_args \<Rightarrow> llm_client \<Rightarrow> llm_message list \<Rightarrow> 'd \<Rightarrow> nat \<Rightarrow> (bool \<times> llm_client \<times> 'd) option" where
  "llm_tool_loop_run args client initial d max_turns =
     (case llm_tool_loop_run_with_headers_ex (args\<lparr>la_abort_cb := None, la_headers := HNull 0\<rparr>) client initial d
             max_turns of
        None \<Rightarrow> None
      | Some (err, client, d, sent) \<Rightarrow> Some (err = LLM_ERR_NONE, client, d))"

end
