(* ===== verification/Release.thy ===== *)
theory Release
  imports ApiProps ToolLoop
begin

text \<open>
  What the functions of \<open>src/src/llm.c\<close> that release memory hand to \<open>free\<close>. A block is named by
  the pointer that owns it; the header of the API key is reached by two pointers, its own field
  and the last entry of the header array, and is one block.
\<close>

section \<open>The handle\<close>

datatype client_block =
    BlkClient
  | BlkBaseUrl
  | BlkModelName
  | BlkHeaders
  | BlkHeader nat
  | BlkAuthHeader
  | BlkCaBundle
  | BlkCaDir
  | BlkClientCert
  | BlkClientKey
  | BlkProxy
  | BlkNoProxy
  | BlkErrorBody

text \<open>\<open>free\<close> of a pointer, which does nothing for NULL.\<close>

definition free_ptr :: "'p option \<Rightarrow> 'b \<Rightarrow> 'b list" where
  "free_ptr p b = (case p of None \<Rightarrow> [] | Some x \<Rightarrow> [b])"

definition owns :: "'p option \<Rightarrow> 'b \<Rightarrow> 'b set" where
  "owns p b = (if p = None then {} else {b})"

lemma set_free_ptr [simp]: "set (free_ptr p b) = owns p b"
  by (cases p) (simp_all add: free_ptr_def owns_def)

lemma owns_iff: "x \<in> owns p b \<longleftrightarrow> p \<noteq> None \<and> x = b"
  by (simp add: owns_def)

lemma owns_disjoint: "b \<notin> A \<Longrightarrow> owns p b \<inter> A = {}"
  by (auto simp: owns_def)

lemma distinct_free_ptr [simp]: "distinct (free_ptr p b)"
  by (simp add: free_ptr_def split: option.split)

text \<open>The block that an entry of the header array points to.\<close>

definition header_block :: "llm_client \<Rightarrow> nat \<Rightarrow> client_block" where
  "header_block client i =
     (if cl_auth_header client \<noteq> None \<and> i = cl_custom_headers_count client then BlkAuthHeader else BlkHeader i)"

definition header_blocks :: "llm_client \<Rightarrow> client_block list" where
  "header_blocks client =
     (case cl_headers client of
        None \<Rightarrow> []
      | Some hs \<Rightarrow>
          concat (map (\<lambda>i. free_ptr (hs ! i) (header_block client i)) [0..<cl_custom_headers_count client]) @ [BlkHeaders])"

definition llm_client_destroy :: "llm_client \<Rightarrow> client_block list" where
  "llm_client_destroy client =
     free_ptr (cl_base_url client) BlkBaseUrl @
     free_ptr (cl_model_name client) BlkModelName @
     header_blocks client @
     free_ptr (cl_auth_header client) BlkAuthHeader @
     free_ptr (cl_tls_ca_bundle_path client) BlkCaBundle @
     free_ptr (cl_tls_ca_dir_path client) BlkCaDir @
     free_ptr (cl_tls_client_cert_path client) BlkClientCert @
     free_ptr (cl_tls_client_key_path client) BlkClientKey @
     free_ptr (cl_proxy_url client) BlkProxy @
     free_ptr (cl_no_proxy client) BlkNoProxy @
     free_ptr (ed_raw_body (cl_last_error client)) BlkErrorBody @ [BlkClient]"

text \<open>The blocks that the pointers of a handle reach.\<close>

definition client_blocks :: "llm_client \<Rightarrow> client_block set" where
  "client_blocks client =
     owns (cl_base_url client) BlkBaseUrl \<union> owns (cl_model_name client) BlkModelName \<union>
     owns (cl_headers client) BlkHeaders \<union> header_block client ` {i. i < cl_headers_count client} \<union>
     owns (cl_auth_header client) BlkAuthHeader \<union>
     owns (cl_tls_ca_bundle_path client) BlkCaBundle \<union> owns (cl_tls_ca_dir_path client) BlkCaDir \<union>
     owns (cl_tls_client_cert_path client) BlkClientCert \<union> owns (cl_tls_client_key_path client) BlkClientKey \<union>
     owns (cl_proxy_url client) BlkProxy \<union> owns (cl_no_proxy client) BlkNoProxy \<union>
     owns (ed_raw_body (cl_last_error client)) BlkErrorBody \<union> {BlkClient}"

lemma header_blocks_wf:
  assumes "client_wf client"
  shows "header_blocks client =
    (if cl_headers client = None then [] else map BlkHeader [0..<cl_custom_headers_count client] @ [BlkHeaders])"
proof (cases "cl_headers client")
  case (Some hs)
  let ?n = "cl_custom_headers_count client"
  have n: "?n \<le> cl_headers_count client" "list_all header_ok (take (cl_headers_count client) hs)"
    "cl_headers_count client \<le> length hs"
    using assms Some by (auto simp: client_wf_def split: if_splits)
  have "hs ! i \<noteq> None" if "i < ?n" for i
    using n that by (auto simp: list_all_length header_ok_def split: option.splits)
  then have e: "free_ptr (hs ! i) (header_block client i) = [BlkHeader i]" if "i < ?n" for i
    using that by (auto simp: free_ptr_def header_block_def split: option.split)
  have m: "map (\<lambda>i. free_ptr (hs ! i) (header_block client i)) [0..<?n] = map (\<lambda>i. [BlkHeader i]) [0..<?n]"
    using e by (intro map_cong) auto
  have "concat (map (\<lambda>i. free_ptr (hs ! i) (header_block client i)) [0..<?n]) = map BlkHeader [0..<?n]"
    by (simp only: m concat_map_singleton)
  with Some show ?thesis by (simp add: header_blocks_def)
qed (simp add: header_blocks_def)

text \<open>
  C12: \<open>llm_client_destroy\<close> frees every block of a handle, and each once: the header of the API key, which
  the header array points to as well, is freed through its own field alone.
\<close>

theorem client_destroy_exact:
  assumes "client_reach client"
  shows "distinct (llm_client_destroy client) \<and> set (llm_client_destroy client) = client_blocks client"
proof -
  note wf = client_reach_wf [OF assms] and h = header_blocks_wf [OF client_reach_wf [OF assms]]
  have "distinct (llm_client_destroy client)"
    unfolding llm_client_destroy_def h
    by (simp add: distinct_map inj_on_def owns_iff owns_disjoint image_iff disjoint_iff) fastforce
  moreover have "set (llm_client_destroy client) = client_blocks client"
  proof -
    have i: "header_block client ` {i. i < cl_headers_count client} =
        BlkHeader ` {i. i < cl_custom_headers_count client} \<union> owns (cl_auth_header client) BlkAuthHeader"
    proof (cases "cl_auth_header client")
      case None
      then have "cl_headers_count client = cl_custom_headers_count client"
        using wf by (auto simp: client_wf_def split: option.splits)
      with None show ?thesis by (simp add: header_block_def owns_def)
    next
      case (Some a)
      then have "cl_headers_count client = Suc (cl_custom_headers_count client)"
        using wf by (auto simp: client_wf_def split: option.splits)
      with Some show ?thesis by (auto simp: header_block_def less_Suc_eq owns_def)
    qed
    have "cl_headers client = None \<Longrightarrow> cl_custom_headers_count client = 0" using wf by (auto simp: client_wf_def)
    then have b: "set (header_blocks client) =
        owns (cl_headers client) BlkHeaders \<union> BlkHeader ` {i. i < cl_custom_headers_count client}"
      unfolding h by (auto simp: owns_def)
    show ?thesis
      unfolding llm_client_destroy_def client_blocks_def i set_append b set_free_ptr by auto
  qed
  ultimately show ?thesis by simp
qed

theorem client_destroy_exact_witness:
  "set (llm_client_destroy demo_client) = client_blocks demo_client \<and>
   llm_client_destroy demo_client = [BlkBaseUrl, BlkModelName, BlkHeader 0, BlkHeaders, BlkAuthHeader, BlkClient]"
proof -
  have "llm_client_destroy demo_client = [BlkBaseUrl, BlkModelName, BlkHeader 0, BlkHeaders, BlkAuthHeader, BlkClient]"
    by code_simp
  with client_destroy_exact [OF demo_client_reach] show ?thesis by simp
qed

section \<open>Results\<close>

text \<open>
  The arrays of a result and the body it points into. A result that has been freed is zero: it
  is given with the blocks, as what remains of it.
\<close>

datatype result_block =
    BlkToolCalls nat
  | BlkArray
  | BlkBody
  | BlkString nat

definition empty_choice :: llm_chat_choice where
  "empty_choice = \<lparr>ch_finish_reason = LLM_FINISH_REASON_STOP, ch_content = None, ch_reasoning_content = None,
     ch_tool_calls = [], ch_tool_calls_json = None\<rparr>"

text \<open>The choice a call leaves first in a result that is zero is itself zero.\<close>

definition llm_chat_result_free :: "llm_chat_result \<Rightarrow> result_block list \<times> llm_chat_result" where
  "llm_chat_result_free result =
     ((if cr_choices result = [] then []
       else concat (map (\<lambda>i. if ch_tool_calls (cr_choices result ! i) = [] then [] else [BlkToolCalls i])
              [0..<length (cr_choices result)]) @ [BlkArray]) @ [BlkBody],
      \<lparr>cr_choices = [], cr_first = empty_choice\<rparr>)"

definition llm_completions_free :: "byte list option list \<Rightarrow> result_block list \<times> byte list option list" where
  "llm_completions_free choices = ((if choices = [] then [] else [BlkArray]) @ [BlkBody], [])"

definition llm_embeddings_free :: "byte list option list \<Rightarrow> result_block list \<times> byte list option list" where
  "llm_embeddings_free items = ((if items = [] then [] else [BlkArray]) @ [BlkBody], [])"

definition llm_models_list_free :: "byte list list option \<Rightarrow> result_block list" where
  "llm_models_list_free models =
     (case models of None \<Rightarrow> [] | Some ms \<Rightarrow> map BlkString [0..<length ms] @ [BlkArray])"

lemma concat_flag: "concat (map (\<lambda>i. if P i then [] else [f i]) xs) = map f (filter (\<lambda>i. \<not> P i) xs)"
  by (induction xs) auto

text \<open>
  A result is freed block by block, each once: the tool calls of every choice that has some, the
  array of the choices and the body.
\<close>

theorem chat_result_free_exact:
  "distinct (fst (llm_chat_result_free r)) \<and>
   set (fst (llm_chat_result_free r)) =
     BlkToolCalls ` {i. i < length (cr_choices r) \<and> ch_tool_calls (cr_choices r ! i) \<noteq> []} \<union>
     (if cr_choices r = [] then {} else {BlkArray}) \<union> {BlkBody} \<and>
   cr_choices (snd (llm_chat_result_free r)) = []"
  by (auto simp: llm_chat_result_free_def concat_flag distinct_map inj_on_def)

section \<open>The history of the tool loop\<close>

datatype history_block =
    BlkContent nat
  | BlkToolCallId nat
  | BlkCallsJson nat
  | BlkContentJson nat
  | BlkHistory

text \<open>The name of a message is the caller's: it is not copied and not freed.\<close>

definition llm_message_free_content :: "nat \<Rightarrow> llm_message \<Rightarrow> history_block list" where
  "llm_message_free_content i msg =
     (if sp_null (msg_content msg) then [] else [BlkContent i]) @
     (if sp_null (msg_tool_call_id msg) then [] else [BlkToolCallId i]) @
     (if sp_null (msg_tool_calls_json msg) then [] else [BlkCallsJson i]) @
     (if sp_null (msg_content_json msg) then [] else [BlkContentJson i])"

definition tool_loop_free_history :: "llm_message list option \<Rightarrow> history_block list \<times> llm_message list option" where
  "tool_loop_free_history history =
     (case history of
        None \<Rightarrow> ([], None)
      | Some ms \<Rightarrow>
          (concat (map (\<lambda>i. llm_message_free_content i (ms ! i)) [0..<length ms]) @ [BlkHistory], None))"

lemma message_free_distinct: "distinct (llm_message_free_content i m)"
  by (simp add: llm_message_free_content_def)

definition block_index :: "history_block \<Rightarrow> nat option" where
  "block_index b = (case b of BlkContent i \<Rightarrow> Some i | BlkToolCallId i \<Rightarrow> Some i | BlkCallsJson i \<Rightarrow> Some i
     | BlkContentJson i \<Rightarrow> Some i | BlkHistory \<Rightarrow> None)"

lemma message_free_index: "b \<in> set (llm_message_free_content i m) \<Longrightarrow> block_index b = Some i"
  by (auto simp: llm_message_free_content_def block_index_def split: if_splits)

theorem history_freed_once: "distinct (fst (tool_loop_free_history history))"
proof (cases history)
  case (Some ms)
  let ?f = "\<lambda>i. llm_message_free_content i (ms ! i)"
  have "distinct (concat (map ?f xs))" if "distinct xs" for xs
    using that
  proof (induction xs)
    case (Cons i xs)
    have "block_index b \<noteq> Some i" if "b \<in> set (concat (map ?f xs))" for b
      using that Cons.prems message_free_index by fastforce
    then have "set (?f i) \<inter> set (concat (map ?f xs)) = {}" using message_free_index by blast
    with Cons message_free_distinct show ?case by simp
  qed simp
  moreover have "BlkHistory \<notin> set (llm_message_free_content i m)" for i m
    using message_free_index [of BlkHistory i m] by (auto simp: block_index_def)
  ultimately show ?thesis using Some by (auto simp: tool_loop_free_history_def)
qed (simp add: tool_loop_free_history_def)

end
