(* ===== verification/ChatStream.thy ===== *)
theory ChatStream
  imports Api Sse
begin

text \<open>
  The streaming calls of \<open>src/src/llm.c\<close>: the event handlers that sit on the SSE parser, the
  assembly of tool calls, and the two calls that stream, over the transport of \<open>Transport\<close>.

  The caller's callbacks are a record of which are set; a call of one is recorded with its
  arguments in \<open>calls\<close>. The abort callback is the function of its answers by the number of the
  poll. \<open>undefined\<close> is raised when the code does what C leaves undefined: a callback read through a
  NULL record, an array size that wraps, a counter that overflows; what follows then means
  nothing.
\<close>

section \<open>Callbacks\<close>

record llm_stream_callbacks =
  sk_content_delta :: bool
  sk_reasoning_delta :: bool
  sk_tool_args_fragment :: bool
  sk_tool_call_delta :: bool
  sk_tool_args_complete :: bool
  sk_usage :: bool
  sk_finish_reason :: bool
  sk_include_usage :: bool

datatype stream_call =
    OnContentDelta "byte list"
  | OnReasoningDelta "byte list"
  | OnToolArgsFragment nat "byte list"
  | OnToolCallDelta tool_call_delta
  | OnToolArgsComplete nat "byte list"
  | OnUsage llm_usage
  | OnFinishReason llm_finish_reason

record stream_ctx =
  sx_callbacks :: "llm_stream_callbacks option"
  sx_choice_index :: nat
  sx_accums :: "tool_call_accumulator list"
  sx_max_tool_args :: nat
  sx_tool_calls_finalized :: bool
  sx_saw_done :: bool
  sx_include_usage :: bool
  sx_protocol_error :: bool
  sx_abort_cb :: "(nat \<Rightarrow> bool) option"
  sx_polls :: nat
  sx_error :: llm_error
  sx_alloc :: "nat \<Rightarrow> bool"
  sx_calls :: "stream_call list"
  sx_undefined :: bool

definition stream_set_error :: "stream_ctx \<Rightarrow> llm_error \<Rightarrow> stream_ctx" where
  "stream_set_error sc err = (if sx_error sc = LLM_ERR_NONE then sc\<lparr>sx_error := err\<rparr> else sc)"

text \<open>One callback of the caller, if it is set.\<close>

definition notify :: "(llm_stream_callbacks \<Rightarrow> bool) \<Rightarrow> stream_call \<Rightarrow> stream_ctx \<Rightarrow> stream_ctx" where
  "notify is_set call sc =
     (case sx_callbacks sc of
        None \<Rightarrow> sc\<lparr>sx_undefined := True\<rparr>
      | Some k \<Rightarrow> if is_set k then sc\<lparr>sx_calls := sx_calls sc @ [call]\<rparr> else sc)"

definition poll_abort :: "stream_ctx \<Rightarrow> bool \<times> stream_ctx" where
  "poll_abort sc =
     (case sx_abort_cb sc of
        None \<Rightarrow> (False, sc)
      | Some f \<Rightarrow> (f (sx_polls sc), sc\<lparr>sx_polls := sx_polls sc + 1\<rparr>))"

section \<open>The end of the tool calls\<close>

text \<open>
  Unescaping in place: the new content, of which the first part counts. When it fails the
  buffer is not read again.
\<close>

definition unescape_json_string_inplace :: "byte list \<Rightarrow> byte list option" where
  "unescape_json_string_inplace buf =
     (if length buf > INT_MAX then None
      else case jstok_unescape_mem (length buf) (length buf) buf 0 0 of
        None \<Rightarrow> None
      | Some (mem, unescaped_len) \<Rightarrow> Some (take unescaped_len mem))"

definition validate_json_span :: "byte list \<Rightarrow> bool" where
  "validate_json_span json =
     (if json = [] \<or> length json > INT_MAX then False
      else case fst (jstok_parse False jstok_init (Some json) None) of
        Inl e \<Rightarrow> False
      | Inr needed \<Rightarrow> needed > 0)"

text \<open>
  The loop over the indices of the accumulators. The callback is guarded against a NULL record
  here. A buffer without memory has no data to unescape.
\<close>

definition args_text :: "tool_call_accumulator \<Rightarrow> byte list option" where
  "args_text acc =
     (if gb_nomem (ac_args_buf acc) \<and> gb_data (ac_args_buf acc) = [] then None
      else unescape_json_string_inplace (gb_data (ac_args_buf acc)))"

fun finalize_loop :: "stream_ctx \<Rightarrow> nat list \<Rightarrow> bool \<times> stream_ctx" where
  "finalize_loop sc [] = (True, sc)"
| "finalize_loop sc (i # is) =
     (let acc = sx_accums sc ! i in
      if \<not> ac_active acc then finalize_loop sc is
      else
        (let acc = acc\<lparr>ac_frozen := True\<rparr>;
             sc = sc\<lparr>sx_accums := (sx_accums sc)[i := acc]\<rparr> in
         if \<not> ac_saw_args acc then (False, stream_set_error sc LLM_ERR_FAILED)
         else
           (case args_text acc of
              None \<Rightarrow> (False, stream_set_error sc LLM_ERR_FAILED)
            | Some args \<Rightarrow>
                (let acc = acc\<lparr>ac_args_buf := (ac_args_buf acc)\<lparr>gb_data := args\<rparr>\<rparr>;
                     sc = sc\<lparr>sx_accums := (sx_accums sc)[i := acc]\<rparr> in
                 if \<not> validate_json_span args then (False, stream_set_error sc LLM_ERR_FAILED)
                 else
                   finalize_loop
                     (if sx_callbacks sc \<noteq> None
                      then notify sk_tool_args_complete (OnToolArgsComplete i args) sc else sc) is))))"

definition finalize_tool_calls :: "stream_ctx \<Rightarrow> bool \<times> stream_ctx" where
  "finalize_tool_calls sc =
     (if sx_tool_calls_finalized sc then (True, sc)
      else finalize_loop (sc\<lparr>sx_tool_calls_finalized := True\<rparr>) [0..<length (sx_accums sc)])"

section \<open>One event of a chat stream\<close>

definition ACCUM_SIZE :: nat where "ACCUM_SIZE = 56"

text \<open>
  Room for the call \<open>index\<close>. The new size is a \<open>size_t\<close> product that the code does not check:
  when it wraps, the loop that follows writes outside the array.
\<close>

definition grow_accums :: "stream_ctx \<Rightarrow> nat \<Rightarrow> bool \<times> stream_ctx" where
  "grow_accums sc index =
     (let new_count = index + 1 in
      if index < length (sx_accums sc) then (True, sc)
      else if new_count * ACCUM_SIZE > SIZE_MAX then (False, sc\<lparr>sx_undefined := True\<rparr>)
      else if \<not> sx_alloc sc (new_count * ACCUM_SIZE)
      then (False, stream_set_error (sc\<lparr>sx_protocol_error := True\<rparr>) LLM_ERR_FAILED)
      else (True, sc\<lparr>sx_accums := sx_accums sc @
              replicate (new_count - length (sx_accums sc)) (accum_init (sx_alloc sc))\<rparr>))"

fun feed_tool_deltas :: "stream_ctx \<Rightarrow> tool_call_delta list \<Rightarrow> bool \<times> stream_ctx" where
  "feed_tool_deltas sc [] = (True, sc)"
| "feed_tool_deltas sc (td # tds) =
     (case grow_accums sc (td_index td) of
        (ok, sc) \<Rightarrow>
          if \<not> ok then (False, sc)
          else
            (let sc = notify sk_tool_call_delta (OnToolCallDelta td) sc in
             case accum_feed_delta (sx_alloc sc) (sx_accums sc ! td_index td) td (sx_max_tool_args sc) of
               (accum_ok, acc) \<Rightarrow>
                 (let sc = sc\<lparr>sx_accums := (sx_accums sc)[td_index td := acc]\<rparr>;
                      sc = (if \<not> sp_null (td_arguments_fragment td)
                             then notify sk_tool_args_fragment
                                    (OnToolArgsFragment (td_index td) (sp_bytes (td_arguments_fragment td))) sc
                             else sc) in
                  if \<not> accum_ok
                  then (False, stream_set_error (sc\<lparr>sx_protocol_error := True\<rparr>) LLM_ERR_FAILED)
                  else feed_tool_deltas sc tds)))"

text \<open>What the handler does with a parsed chunk, up to the tool calls and from the finish reason on.\<close>

definition chunk_texts :: "stream_ctx \<Rightarrow> llm_chat_chunk_delta \<Rightarrow> llm_usage \<Rightarrow> bool \<Rightarrow> stream_ctx" where
  "chunk_texts sc delta usage usage_present =
     (let sc = (case cd_content_delta delta of
                   None \<Rightarrow> sc | Some t \<Rightarrow> notify sk_content_delta (OnContentDelta t) sc);
          sc = (case cd_reasoning_delta delta of
                   None \<Rightarrow> sc | Some t \<Rightarrow> notify sk_reasoning_delta (OnReasoningDelta t) sc) in
      if sx_include_usage sc \<and> usage_present then notify sk_usage (OnUsage usage) sc else sc)"

definition chunk_finish :: "stream_ctx \<Rightarrow> llm_finish_reason \<Rightarrow> stream_ctx" where
  "chunk_finish sc reason =
     (if reason = LLM_FINISH_REASON_UNKNOWN then sc
      else
        (case (if reason = LLM_FINISH_REASON_TOOL_CALLS then finalize_tool_calls sc else (True, sc)) of
           (ok, sc) \<Rightarrow>
             if \<not> ok then sc\<lparr>sx_protocol_error := True\<rparr>
             else notify sk_finish_reason (OnFinishReason reason) sc))"

definition done_marker :: "byte list" where
  "done_marker = lit ''[DONE]''"

definition on_sse_event :: "stream_ctx \<Rightarrow> sse_event \<Rightarrow> bool \<times> stream_ctx" where
  "on_sse_event sc event =
     (if sx_protocol_error sc then (True, sc)
      else if sx_saw_done sc then (True, sc)
      else if ev_data event = done_marker then (True, sc\<lparr>sx_saw_done := True\<rparr>)
      else if ev_data event = [] then (True, sc)
      else
        (case parse_chat_chunk_choice (sx_alloc sc) (ev_data event) (sx_choice_index sc) of
           Inl (ChunkErr e) \<Rightarrow> (True, sc)
         | Inl ChunkUndefined \<Rightarrow> (True, sc\<lparr>sx_undefined := True\<rparr>)
         | Inr (delta, usage, usage_present) \<Rightarrow>
             (case feed_tool_deltas (chunk_texts sc delta usage usage_present) (cd_tool_call_deltas delta) of
                (ok, sc) \<Rightarrow> if \<not> ok then (True, sc) else (True, chunk_finish sc (cd_finish_reason delta)))))"

definition on_sse_frame_abort_stream :: "stream_ctx \<Rightarrow> bool \<times> stream_ctx" where
  "on_sse_frame_abort_stream sc =
     (case poll_abort sc of
        (abort, sc) \<Rightarrow> if abort then (False, stream_set_error sc LLM_ERR_CANCELLED) else (True, sc))"

section \<open>Chunks of the transport\<close>

text \<open>The stream context is the parser's user data: both callbacks and this one share it.\<close>

record curl_stream_ctx =
  cs_sse :: "stream_ctx sse_parser"
  cs_sse_error :: sse_err_t

definition cs_ctx :: "curl_stream_ctx \<Rightarrow> stream_ctx" where
  "cs_ctx cs = user_data (cs_sse cs)"

definition cs_upd :: "(stream_ctx \<Rightarrow> stream_ctx) \<Rightarrow> curl_stream_ctx \<Rightarrow> curl_stream_ctx" where
  "cs_upd f cs = cs\<lparr>cs_sse := (cs_sse cs)\<lparr>user_data := f (cs_ctx cs)\<rparr>\<rparr>"

definition cs_poll :: "curl_stream_ctx \<Rightarrow> bool \<times> curl_stream_ctx" where
  "cs_poll cs =
     (case poll_abort (cs_ctx cs) of
        (abort, sc) \<Rightarrow> (abort, cs_upd (\<lambda>_. if abort then stream_set_error sc LLM_ERR_CANCELLED else sc) cs))"

definition curl_stream_cb :: "curl_stream_ctx \<Rightarrow> byte list \<Rightarrow> bool \<times> curl_stream_ctx" where
  "curl_stream_cb cs chunk =
     (case cs_poll cs of
        (abort, cs) \<Rightarrow>
          if abort then (False, cs)
          else if sx_protocol_error (cs_ctx cs) then (False, cs)
          else
            (case sse_feed (cs_sse cs) chunk of
               (rc, sse) \<Rightarrow>
                 (let cs = cs\<lparr>cs_sse := sse\<rparr> in
                  if rc \<noteq> SSE_OK then
                    (False, cs_upd (\<lambda>sc. stream_set_error sc
                              (if rc = SSE_ERR_ABORT then LLM_ERR_CANCELLED else LLM_ERR_FAILED))
                              (cs\<lparr>cs_sse_error := rc\<rparr>))
                  else
                    (case cs_poll cs of
                       (abort, cs) \<Rightarrow>
                         if abort then (False, cs)
                         else if sx_protocol_error (cs_ctx cs)
                         then (False, cs_upd (\<lambda>sc. stream_set_error sc LLM_ERR_FAILED) cs)
                         else (True, cs)))))"

text \<open>The capture of the body for the error detail, around any stream callback.\<close>

record 's stream_capture_ctx =
  cap_inner :: 's
  cap_buf :: growbuf
  cap_max_bytes :: nat
  cap_capture :: bool

definition stream_capture_init :: "(nat \<Rightarrow> bool) \<Rightarrow> 's \<Rightarrow> nat \<Rightarrow> bool \<Rightarrow> 's stream_capture_ctx" where
  "stream_capture_init alloc inner max_bytes enable =
     (let buf = growbuf_init alloc 4096 in
      if \<not> enable then \<lparr>cap_inner = inner, cap_buf = growbuf_init alloc 0, cap_max_bytes = max_bytes, cap_capture = False\<rparr>
      else if gb_nomem buf
      then \<lparr>cap_inner = inner, cap_buf = growbuf_free buf, cap_max_bytes = max_bytes, cap_capture = False\<rparr>
      else \<lparr>cap_inner = inner, cap_buf = buf, cap_max_bytes = max_bytes, cap_capture = True\<rparr>)"

definition stream_capture_cb ::
  "('s \<Rightarrow> byte list \<Rightarrow> bool \<times> 's) \<Rightarrow> 's stream_capture_ctx \<Rightarrow> byte list \<Rightarrow> bool \<times> 's stream_capture_ctx" where
  "stream_capture_cb inner cap chunk =
     (let cap =
            (if cap_capture cap then
               (case growbuf_append (cap_buf cap) chunk (cap_max_bytes cap) of
                  (ok, buf) \<Rightarrow>
                    if ok then cap\<lparr>cap_buf := buf\<rparr> else cap\<lparr>cap_buf := growbuf_free buf, cap_capture := False\<rparr>)
             else cap) in
      case inner (cap_inner cap) chunk of (ok, s) \<Rightarrow> (ok, cap\<lparr>cap_inner := s\<rparr>))"

definition stream_capture_release :: "'s stream_capture_ctx \<Rightarrow> byte list option" where
  "stream_capture_release cap = (if \<not> cap_capture cap then None else Some (gb_data (cap_buf cap)))"

end
