(* ===== verification/StreamCall.thy ===== *)
theory StreamCall
  imports ChatStream
begin

text \<open>
  The two streaming calls of \<open>src/src/llm.c\<close>, completions and chat: the request, the parser of
  \<open>Sse\<close> with their handlers, the transfer through it with the optional capture of the body, and
  the error reported at the end. The result is the error code, the handle, the caller's detail
  and the callbacks made, or \<open>None\<close> where the code does what C leaves undefined.
\<close>

section \<open>Common parts\<close>

type_synonym stream_result = "(llm_error \<times> llm_client \<times> llm_error_detail option \<times> stream_call list) option"

definition stream_fail ::
  "(nat \<Rightarrow> bool) \<Rightarrow> llm_client \<Rightarrow> llm_error_detail option \<Rightarrow> llm_error \<Rightarrow> llm_error_stage \<Rightarrow> int \<Rightarrow>
     byte list option \<Rightarrow> bool \<Rightarrow> stream_call list \<Rightarrow> stream_result" where
  "stream_fail alloc client detail err stage http_status body parse_error calls =
     (case error_detail_capture alloc client detail err stage http_status body parse_error of
        (client, detail) \<Rightarrow> Some (err, client, detail, calls))"

text \<open>
  The transfer, with the callback wrapped when there is a detail to fill: success, status, the
  callback's state and the captured body.
\<close>

definition stream_transfer ::
  "(nat \<Rightarrow> bool) \<Rightarrow> curl_lib \<Rightarrow> llm_client \<Rightarrow> byte list \<Rightarrow> byte list \<Rightarrow> byte list option list \<Rightarrow> bool \<Rightarrow>
     ('s \<Rightarrow> byte list \<Rightarrow> bool \<times> 's) \<Rightarrow> 's \<Rightarrow> (bool \<times> llm_transport_status \<times> 's \<times> byte list option) option" where
  "stream_transfer alloc lib client url request_json hs want_detail cb s =
     (if want_detail then
        (case http_post_stream lib url request_json (tm_overall_ms (cl_timeout client))
                (tm_read_idle_ms (cl_timeout client)) hs (llm_client_tls_config client) (cl_proxy_url client)
                (cl_no_proxy client) (stream_capture_cb cb)
                (stream_capture_init alloc s (lm_max_response_bytes (cl_limits client)) True) of
           None \<Rightarrow> None
         | Some (ok, status, cap) \<Rightarrow> Some (ok, status, cap_inner cap, stream_capture_release cap))
      else
        (case http_post_stream lib url request_json (tm_overall_ms (cl_timeout client))
                (tm_read_idle_ms (cl_timeout client)) hs (llm_client_tls_config client) (cl_proxy_url client)
                (cl_no_proxy client) cb s of
           None \<Rightarrow> None
         | Some (ok, status, s) \<Rightarrow> Some (ok, status, s, None)))"

section \<open>Completions\<close>

text \<open>
  The context of the events and that of the chunks are one record: the parser hands the first
  to the event callback and the second to the frame callback, and nothing is shared.
\<close>

record completions_ctx =
  cx_callbacks :: "llm_stream_callbacks option"
  cx_choice_index :: nat
  cx_include_usage :: bool
  cx_done :: bool
  cx_abort_cb :: "(nat \<Rightarrow> bool) option"
  cx_polls :: nat
  cx_error :: llm_error
  cx_alloc :: "nat \<Rightarrow> bool"
  cx_calls :: "stream_call list"
  cx_undefined :: bool

definition cx_notify ::
  "(llm_stream_callbacks \<Rightarrow> bool) \<Rightarrow> stream_call \<Rightarrow> completions_ctx \<Rightarrow> completions_ctx" where
  "cx_notify is_set call cx =
     (case cx_callbacks cx of
        None \<Rightarrow> cx\<lparr>cx_undefined := True\<rparr>
      | Some k \<Rightarrow> if is_set k then cx\<lparr>cx_calls := cx_calls cx @ [call]\<rparr> else cx)"

definition on_sse_completions_event :: "completions_ctx \<Rightarrow> sse_event \<Rightarrow> bool \<times> completions_ctx" where
  "on_sse_completions_event cx event =
     (if cx_done cx then (True, cx)
      else if ev_data event = done_marker then (True, cx\<lparr>cx_done := True\<rparr>)
      else if ev_data event = [] then (True, cx)
      else
        (case parse_completions_chunk_choice (cx_alloc cx) (ev_data event) (cx_choice_index cx) of
           Inl (ChunkErr e) \<Rightarrow> (True, cx)
         | Inl ChunkUndefined \<Rightarrow> (True, cx\<lparr>cx_undefined := True\<rparr>)
         | Inr (text_delta, finish_reason, usage, usage_present) \<Rightarrow>
             (let cx = (case text_delta of
                          None \<Rightarrow> cx | Some t \<Rightarrow> cx_notify sk_content_delta (OnContentDelta t) cx);
                  cx = (if cx_include_usage cx \<and> usage_present then cx_notify sk_usage (OnUsage usage) cx else cx);
                  cx = (if finish_reason \<noteq> LLM_FINISH_REASON_UNKNOWN
                        then cx_notify sk_finish_reason (OnFinishReason finish_reason) cx else cx) in
              (True, cx))))"

definition cx_set_error :: "completions_ctx \<Rightarrow> llm_error \<Rightarrow> completions_ctx" where
  "cx_set_error cx err = (if cx_error cx = LLM_ERR_NONE then cx\<lparr>cx_error := err\<rparr> else cx)"

definition cx_poll :: "completions_ctx \<Rightarrow> bool \<times> completions_ctx" where
  "cx_poll cx =
     (case cx_abort_cb cx of
        None \<Rightarrow> (False, cx)
      | Some f \<Rightarrow>
          (let cx1 = cx\<lparr>cx_polls := cx_polls cx + 1\<rparr> in
           if f (cx_polls cx) then (True, cx_set_error cx1 LLM_ERR_CANCELLED) else (False, cx1)))"

definition on_sse_frame_abort :: "completions_ctx \<Rightarrow> bool \<times> completions_ctx" where
  "on_sse_frame_abort cx = (case cx_poll cx of (abort, cx) \<Rightarrow> (\<not> abort, cx))"

record sse_stream_ctx =
  ss_sse :: "completions_ctx sse_parser"
  ss_sse_error :: sse_err_t

definition ss_ctx :: "sse_stream_ctx \<Rightarrow> completions_ctx" where
  "ss_ctx cs = user_data (ss_sse cs)"

definition ss_upd :: "(completions_ctx \<Rightarrow> completions_ctx) \<Rightarrow> sse_stream_ctx \<Rightarrow> sse_stream_ctx" where
  "ss_upd f cs = cs\<lparr>ss_sse := (ss_sse cs)\<lparr>user_data := f (ss_ctx cs)\<rparr>\<rparr>"

definition sse_stream_cb :: "sse_stream_ctx \<Rightarrow> byte list \<Rightarrow> bool \<times> sse_stream_ctx" where
  "sse_stream_cb cs chunk =
     (case cx_poll (ss_ctx cs) of
        (abort, cx) \<Rightarrow>
          (let cs = ss_upd (\<lambda>_. cx) cs in
           if abort then (False, cs)
           else
             (case sse_feed (ss_sse cs) chunk of
                (rc, sse) \<Rightarrow>
                  (let cs = cs\<lparr>ss_sse := sse\<rparr> in
                   if rc \<noteq> SSE_OK then
                     (False, ss_upd (\<lambda>cx. cx_set_error cx
                               (if rc = SSE_ERR_ABORT then LLM_ERR_CANCELLED else LLM_ERR_FAILED))
                               (cs\<lparr>ss_sse_error := rc\<rparr>))
                   else
                     (case cx_poll (ss_ctx cs) of
                        (abort, cx) \<Rightarrow> (\<not> abort, ss_upd (\<lambda>_. cx) cs))))))"

text \<open>What follows the transfer.\<close>

definition completions_stream_result ::
  "(nat \<Rightarrow> bool) \<Rightarrow> llm_client \<Rightarrow> llm_error_detail option \<Rightarrow> bool \<Rightarrow> llm_transport_status \<Rightarrow> sse_stream_ctx \<Rightarrow>
     byte list option \<Rightarrow> stream_result" where
  "completions_stream_result alloc client detail ok status cs body =
     (let err = (if cx_error (ss_ctx cs) \<noteq> LLM_ERR_NONE then cx_error (ss_ctx cs) else LLM_ERR_FAILED);
          calls = cx_calls (ss_ctx cs) in
      if cx_undefined (ss_ctx cs) then None
      else if \<not> ok then
        (let stage = (if err = LLM_ERR_CANCELLED then LLM_ERROR_STAGE_NONE
                      else if ss_sse_error cs \<noteq> SSE_OK \<and> ss_sse_error cs \<noteq> SSE_ERR_ABORT then LLM_ERROR_STAGE_SSE
                      else transport_stage status) in
         stream_fail alloc client detail err stage (ts_http_status status) None False calls)
      else if ss_sse_error cs \<noteq> SSE_OK then
        (let stage = (if ss_sse_error cs = SSE_ERR_ABORT \<or> err = LLM_ERR_CANCELLED then LLM_ERROR_STAGE_NONE
                      else LLM_ERROR_STAGE_SSE) in
         stream_fail alloc client detail err stage (ts_http_status status) None False calls)
      else if ts_http_status status \<ge> 400 then
        stream_fail alloc client detail LLM_ERR_FAILED LLM_ERROR_STAGE_PROTOCOL (ts_http_status status) body True calls
      else Some (LLM_ERR_NONE, client, detail, calls))"

text \<open>\<open>parser_ok\<close> says whether the parser itself can be allocated.\<close>

definition llm_completions_stream_with_headers_choice_ex ::
  "(nat \<Rightarrow> bool) \<Rightarrow> bool \<Rightarrow> curl_lib \<Rightarrow> llm_client \<Rightarrow> byte list \<Rightarrow> byte list option \<Rightarrow> nat \<Rightarrow>
     llm_stream_callbacks option \<Rightarrow> (nat \<Rightarrow> bool) option \<Rightarrow> header_list \<Rightarrow> llm_error_detail option \<Rightarrow> stream_result" where
  "llm_completions_stream_with_headers_choice_ex alloc parser_ok lib client prompt params_json choice_index callbacks
     abort_cb headers detail =
     (case api_reset client detail of
        (client, detail) \<Rightarrow>
          (case (cl_base_url client, cl_model_name client) of
             (Some base_url, Some model) \<Rightarrow>
               (let include_usage = (case callbacks of None \<Rightarrow> False | Some k \<Rightarrow> sk_include_usage k);
                    lim = cl_limits client;
                    fail = stream_fail alloc client detail LLM_ERR_FAILED LLM_ERROR_STAGE_PROTOCOL 0 None False [];
                    cx = \<lparr>cx_callbacks = callbacks, cx_choice_index = choice_index, cx_include_usage = include_usage,
                          cx_done = False, cx_abort_cb = abort_cb, cx_polls = 0, cx_error = LLM_ERR_NONE,
                          cx_alloc = alloc, cx_calls = [], cx_undefined = False\<rparr> in
                case build_completions_request alloc model prompt True include_usage params_json of
                  None \<Rightarrow> fail
                | Some request_json \<Rightarrow>
                    (case sse_create parser_ok (lm_max_line_bytes lim) (lm_max_frame_bytes lim)
                            (lm_max_sse_buffer_bytes lim) (lm_max_response_bytes lim) alloc cx of
                       None \<Rightarrow> fail
                     | Some sse \<Rightarrow>
                         (let sse = sse_set_callback sse (Some on_sse_completions_event);
                              sse = sse_set_frame_callback sse (Some on_sse_frame_abort);
                              cs = \<lparr>ss_sse = sse, ss_sse_error = SSE_OK\<rparr> in
                          case llm_header_set_init alloc client headers of
                            None \<Rightarrow> fail
                          | Some hs \<Rightarrow>
                              (case stream_transfer alloc lib client (call_url base_url ''/v1/completions'')
                                      request_json hs (detail \<noteq> None) sse_stream_cb cs of
                                 None \<Rightarrow> None
                               | Some (ok, status, cs, body) \<Rightarrow>
                                   completions_stream_result alloc client detail ok status cs body))))
           | _ \<Rightarrow> None))"

section \<open>Chat\<close>

text \<open>The tool calls of a stream that ended without a finish reason are completed here.\<close>

definition stream_finish :: "bool \<Rightarrow> stream_ctx \<Rightarrow> bool \<times> stream_ctx" where
  "stream_finish ok sc =
     (case (if ok \<and> \<not> sx_tool_calls_finalized sc \<and> sx_saw_done sc
            then (case finalize_tool_calls sc of
                    (fin, sc) \<Rightarrow> if \<not> fin then (False, stream_set_error (sc\<lparr>sx_protocol_error := True\<rparr>) LLM_ERR_FAILED)
                                 else (ok, sc))
            else (ok, sc)) of
        (ok, sc) \<Rightarrow> (if sx_protocol_error sc then False else ok, sc))"

definition chat_stream_result ::
  "(nat \<Rightarrow> bool) \<Rightarrow> llm_client \<Rightarrow> llm_error_detail option \<Rightarrow> bool \<Rightarrow> llm_transport_status \<Rightarrow> curl_stream_ctx \<Rightarrow>
     byte list option \<Rightarrow> stream_result" where
  "chat_stream_result alloc client detail ok status cs body =
     (case stream_finish ok (cs_ctx cs) of
        (ok, sc) \<Rightarrow>
          (let err = (if sx_error sc \<noteq> LLM_ERR_NONE then sx_error sc else LLM_ERR_FAILED);
               calls = sx_calls sc in
           if sx_undefined sc then None
           else if \<not> ok then
             (let stage = (if err = LLM_ERR_CANCELLED then LLM_ERROR_STAGE_NONE
                           else if sx_protocol_error sc then LLM_ERROR_STAGE_PROTOCOL
                           else if cs_sse_error cs \<noteq> SSE_OK \<and> cs_sse_error cs \<noteq> SSE_ERR_ABORT
                           then LLM_ERROR_STAGE_SSE
                           else transport_stage status) in
              stream_fail alloc client detail err stage (ts_http_status status) None False calls)
           else if cs_sse_error cs \<noteq> SSE_OK then
             (let stage = (if cs_sse_error cs = SSE_ERR_ABORT \<or> err = LLM_ERR_CANCELLED then LLM_ERROR_STAGE_NONE
                           else LLM_ERROR_STAGE_SSE) in
              stream_fail alloc client detail err stage (ts_http_status status) None False calls)
           else if sx_error sc \<noteq> LLM_ERR_NONE then
             (let stage = (if sx_error sc = LLM_ERR_CANCELLED then LLM_ERROR_STAGE_NONE
                           else LLM_ERROR_STAGE_PROTOCOL) in
              stream_fail alloc client detail (sx_error sc) stage (ts_http_status status) None False calls)
           else if ts_http_status status \<ge> 400 then
             stream_fail alloc client detail LLM_ERR_FAILED LLM_ERROR_STAGE_PROTOCOL (ts_http_status status) body True
               calls
           else Some (LLM_ERR_NONE, client, detail, calls)))"

definition stream_ctx_init ::
  "(nat \<Rightarrow> bool) \<Rightarrow> llm_stream_callbacks option \<Rightarrow> nat \<Rightarrow> nat \<Rightarrow> bool \<Rightarrow> (nat \<Rightarrow> bool) option \<Rightarrow> stream_ctx" where
  "stream_ctx_init alloc callbacks choice_index max_tool_args include_usage abort_cb =
     \<lparr>sx_callbacks = callbacks, sx_choice_index = choice_index, sx_accums = [], sx_max_tool_args = max_tool_args,
      sx_tool_calls_finalized = False, sx_saw_done = False, sx_include_usage = include_usage,
      sx_protocol_error = False, sx_abort_cb = abort_cb, sx_polls = 0, sx_error = LLM_ERR_NONE, sx_alloc = alloc,
      sx_calls = [], sx_undefined = False\<rparr>"

definition llm_chat_stream_with_headers_choice_ex ::
  "(nat \<Rightarrow> bool) \<Rightarrow> bool \<Rightarrow> curl_lib \<Rightarrow> llm_client \<Rightarrow> llm_message list \<Rightarrow> byte list option \<Rightarrow> byte list option \<Rightarrow>
     byte list option \<Rightarrow> nat \<Rightarrow> llm_stream_callbacks option \<Rightarrow> (nat \<Rightarrow> bool) option \<Rightarrow> header_list \<Rightarrow>
     llm_error_detail option \<Rightarrow> stream_result" where
  "llm_chat_stream_with_headers_choice_ex alloc parser_ok lib client messages params_json tooling_json
     response_format_json choice_index callbacks abort_cb headers detail =
     (case api_reset client detail of
        (client, detail) \<Rightarrow>
          (case (cl_base_url client, cl_model_name client) of
             (Some base_url, Some model) \<Rightarrow>
               (let include_usage = (case callbacks of None \<Rightarrow> False | Some k \<Rightarrow> sk_include_usage k);
                    lim = cl_limits client;
                    fail = stream_fail alloc client detail LLM_ERR_FAILED LLM_ERROR_STAGE_PROTOCOL 0 None False [];
                    sc = stream_ctx_init alloc callbacks choice_index (lm_max_tool_args_bytes_per_call lim)
                           include_usage abort_cb in
                case build_chat_request alloc alloc model messages True include_usage params_json tooling_json
                       response_format_json (lm_max_content_parts lim) (lm_max_content_bytes lim) of
                  None \<Rightarrow> fail
                | Some request_json \<Rightarrow>
                    (case sse_create parser_ok (lm_max_line_bytes lim) (lm_max_frame_bytes lim)
                            (lm_max_sse_buffer_bytes lim) (lm_max_response_bytes lim) alloc sc of
                       None \<Rightarrow> fail
                     | Some sse \<Rightarrow>
                         (let sse = sse_set_callback sse (Some on_sse_event);
                              sse = sse_set_frame_callback sse (Some on_sse_frame_abort_stream);
                              cs = \<lparr>cs_sse = sse, cs_sse_error = SSE_OK\<rparr> in
                          case llm_header_set_init alloc client headers of
                            None \<Rightarrow> fail
                          | Some hs \<Rightarrow>
                              (case stream_transfer alloc lib client (call_url base_url ''/v1/chat/completions'')
                                      request_json hs (detail \<noteq> None) curl_stream_cb cs of
                                 None \<Rightarrow> None
                               | Some (ok, status, cs, body) \<Rightarrow>
                                   chat_stream_result alloc client detail ok status cs body))))
           | _ \<Rightarrow> None))"

text \<open>The short forms with an abort callback; the others take none or no headers.\<close>

definition llm_chat_stream_detail_ex ::
  "(nat \<Rightarrow> bool) \<Rightarrow> bool \<Rightarrow> curl_lib \<Rightarrow> llm_client \<Rightarrow> llm_message list \<Rightarrow> byte list option \<Rightarrow> byte list option \<Rightarrow>
     byte list option \<Rightarrow> llm_stream_callbacks option \<Rightarrow> (nat \<Rightarrow> bool) option \<Rightarrow> llm_error_detail option \<Rightarrow> stream_result" where
  "llm_chat_stream_detail_ex alloc parser_ok lib client messages params_json tooling_json response_format_json callbacks
     abort_cb detail =
     llm_chat_stream_with_headers_choice_ex alloc parser_ok lib client messages params_json tooling_json
       response_format_json 0 callbacks abort_cb (HNull 0) detail"

definition llm_chat_stream ::
  "(nat \<Rightarrow> bool) \<Rightarrow> bool \<Rightarrow> curl_lib \<Rightarrow> llm_client \<Rightarrow> llm_message list \<Rightarrow> byte list option \<Rightarrow> byte list option \<Rightarrow>
     byte list option \<Rightarrow> llm_stream_callbacks option \<Rightarrow> (bool \<times> llm_client \<times> stream_call list) option" where
  "llm_chat_stream alloc parser_ok lib client messages params_json tooling_json response_format_json callbacks =
     (case llm_chat_stream_with_headers_choice_ex alloc parser_ok lib client messages params_json tooling_json
             response_format_json 0 callbacks None (HNull 0) None of
        None \<Rightarrow> None
      | Some (err, client, detail, calls) \<Rightarrow> Some (err = LLM_ERR_NONE, client, calls))"

end
