(* ===== verification/SseUser.thy ===== *)
theory SseUser
  imports Sse
begin

text \<open>
  What the callbacks of a parser keep, the parser keeps: an invariant of the memory behind the
  user pointer that both callbacks preserve holds after every call of \<open>sse_feed\<close>, whether it
  succeeds or not. The interface is a locale; its client is the stream of a chat.
\<close>

definition user_ok ::
  "('u \<Rightarrow> bool) \<Rightarrow> ('u \<Rightarrow> sse_event \<Rightarrow> bool \<times> 'u) \<Rightarrow> ('u \<Rightarrow> bool \<times> 'u) \<Rightarrow> 'u sse_parser \<Rightarrow> bool" where
  "user_ok P ev fr p \<longleftrightarrow> P (user_data p) \<and> on_event p = Some ev \<and> on_frame p = Some fr"

lemma user_ok_decoder:
  "user_ok P ev fr (snd (sse_line_append p bs)) = user_ok P ev fr p"
  "user_ok P ev fr (snd (sse_line_append_byte p b)) = user_ok P ev fr p"
  "user_ok P ev fr (snd (sse_append_replacement p)) = user_ok P ev fr p"
  "user_ok P ev fr (utf8_reset p) = user_ok P ev fr p"
  by (auto simp: user_ok_def sse_line_append_def sse_line_append_byte_def sse_append_replacement_def utf8_reset_def
      split: prod.splits)

lemma user_ok_utf8:
  "user_ok P ev fr (snd (sse_utf8_start_byte p b)) = user_ok P ev fr p"
  "user_ok P ev fr (snd (sse_utf8_emit_sequence p)) = user_ok P ev fr p"
  "user_ok P ev fr (snd (sse_utf8_flush_incomplete p)) = user_ok P ev fr p"
  by (simp_all add: sse_utf8_start_byte_def sse_utf8_emit_sequence_def sse_utf8_flush_incomplete_def user_ok_decoder)
    (simp add: user_ok_def)

lemma user_ok_utf8_reset: "user_ok P ev fr (snd (case r of (rc, p) \<Rightarrow> (rc, utf8_reset p))) = user_ok P ev fr (snd r)"
  by (cases r) (simp add: user_ok_decoder)

lemma user_ok_utf8_feed: "user_ok P ev fr (snd (sse_utf8_feed_byte p b)) = user_ok P ev fr p"
proof -
  obtain r2 p2 where a: "sse_append_replacement p = (r2, p2)" by fastforce
  have "user_ok P ev fr p2 = user_ok P ev fr p" using user_ok_decoder(3) [of P ev fr p] a by simp
  moreover have "user_ok P ev fr (p\<lparr>utf8_seq := s, utf8_expected := n\<rparr>) = user_ok P ev fr p" for s n
    by (simp add: user_ok_def)
  ultimately show ?thesis
    by (simp add: sse_utf8_feed_byte_def Let_def a user_ok_utf8 user_ok_decoder user_ok_utf8_reset)
qed

lemma user_ok_fields:
  "user_ok P ev fr (snd (sse_handle_data p v)) = user_ok P ev fr p"
  "user_ok P ev fr (snd (sse_handle_event p v)) = user_ok P ev fr p"
  "user_ok P ev fr (snd (sse_handle_id p v)) = user_ok P ev fr p"
  "user_ok P ev fr (snd (sse_handle_retry p v)) = user_ok P ev fr p"
  by (auto simp: user_ok_def sse_handle_data_def sse_handle_event_def sse_handle_id_def sse_handle_retry_def Let_def
      split: prod.splits option.splits)

locale user_inv =
  fixes P :: "'u \<Rightarrow> bool" and ev :: "'u \<Rightarrow> sse_event \<Rightarrow> bool \<times> 'u" and fr :: "'u \<Rightarrow> bool \<times> 'u"
  assumes ev: "P u \<Longrightarrow> P (snd (ev u e))" and fr: "P u \<Longrightarrow> P (snd (fr u))"
begin

abbreviation ok :: "'u sse_parser \<Rightarrow> bool" where
  "ok \<equiv> user_ok P ev fr"

lemma dispatch: "ok p \<Longrightarrow> ok (snd (sse_dispatch p))"
  using ev fr
  by (fastforce simp: user_ok_def sse_dispatch_def sse_call_frame_def sse_call_event_def sse_reset_event_def Let_def
      split: prod.splits dest: arg_cong [of _ _ snd])

lemma process_line: "ok p \<Longrightarrow> ok (snd (sse_process_line p))"
  by (auto simp: sse_process_line_def Let_def dispatch user_ok_fields split: prod.split)

lemma end_line: "ok p \<Longrightarrow> ok (snd (sse_end_line p))"
  using user_ok_utf8(3) [of P ev fr p] process_line
  by (fastforce simp: sse_end_line_def sse_clear_line_def user_ok_def split: prod.splits dest: arg_cong [of _ _ snd])

lemma raw_byte: "ok p \<Longrightarrow> ok (snd (sse_process_raw_byte p b))"
  using end_line [of "p\<lparr>pending_cr := False\<rparr>"] user_ok_utf8_feed [of P ev fr "p\<lparr>pending_cr := False\<rparr>" b]
  by (auto simp: sse_process_raw_byte_def Let_def user_ok_def split: prod.splits)

lemma raw_bytes: "ok p \<Longrightarrow> ok (snd (sse_process_raw_bytes p bs))"
proof (induction p bs rule: sse_process_raw_bytes.induct)
  case (2 p b bs)
  then show ?case using raw_byte [of p b] by (auto split: prod.splits)
qed simp

lemma byte: "ok p \<Longrightarrow> ok (snd (sse_process_byte p b))"
  using raw_byte raw_bytes [of "p\<lparr>bom_buf := bom_buf p @ [b], bom_checked := True\<rparr>" "take 3 (bom_buf p @ [b])"]
  by (auto simp: sse_process_byte_def Let_def user_ok_def split: prod.splits)

lemma bytes: "ok p \<Longrightarrow> ok (snd (sse_process_bytes p bs))"
proof (induction p bs rule: sse_process_bytes.induct)
  case (2 p b bs)
  then show ?case using byte [of p b] by (auto split: prod.splits)
qed simp

lemma feed: "ok p \<Longrightarrow> ok (snd (sse_feed p chunk))"
  using bytes [of "p\<lparr>total_bytes_seen := wrap64 (total_bytes_seen p + length chunk)\<rparr>" chunk]
  by (auto simp: sse_feed_def sse_set_error_def Let_def user_ok_def split: prod.splits)

end

end
