(* ===== verification/ChatStreamProps.thy ===== *)
theory ChatStreamProps
  imports StreamCall SseUser JstokTextProps
begin

text \<open>
  What the callbacks of a streamed chat can rely on, as an invariant of the stream context: the tool calls reported complete are the unescaped fragments reported before. It is
  kept by the event handler and the frame handler, so the interface of \<open>SseUser\<close> carries it
  through the parser; \<open>StreamCallProps\<close> takes it from there through the transport.
\<close>

section \<open>What a sequence of callbacks must satisfy\<close>

definition frags_of :: "nat \<Rightarrow> stream_call list \<Rightarrow> byte list" where
  "frags_of i calls =
     concat (map (\<lambda>c. case c of OnToolArgsFragment j bs \<Rightarrow> (if j = i then bs else []) | _ \<Rightarrow> []) calls)"

fun completes :: "nat \<Rightarrow> stream_call \<Rightarrow> bool" where
  "completes i (OnToolArgsComplete j args) = (i = j)"
| "completes i _ = False"

text \<open>
  A completed call \<open>i\<close> with the arguments \<open>args\<close> after the callbacks \<open>pre\<close>: the first for \<open>i\<close>,
  within the limit, the unescaping of the fragments, and text the tokenizer accepts.
\<close>

definition complete_ok :: "nat \<Rightarrow> stream_call list \<Rightarrow> nat \<Rightarrow> byte list \<Rightarrow> bool" where
  "complete_ok m pre i args \<longleftrightarrow>
     \<not> list_ex (completes i) pre \<and> (m = 0 \<or> length (frags_of i pre) \<le> m) \<and>
     jstok_unescape_loop (length (frags_of i pre)) [] (frags_of i pre) = Some args \<and> validate_json_span args"

fun calls_ok :: "nat \<Rightarrow> stream_call list \<Rightarrow> stream_call list \<Rightarrow> bool" where
  "calls_ok m pre [] = True"
| "calls_ok m pre (c # cs) =
     ((case c of OnToolArgsComplete i args \<Rightarrow> complete_ok m pre i args | _ \<Rightarrow> True) \<and> calls_ok m (pre @ [c]) cs)"

lemma calls_ok_snoc:
  "calls_ok m pre (cs @ [c]) \<longleftrightarrow> calls_ok m pre cs \<and>
     (case c of OnToolArgsComplete i args \<Rightarrow> complete_ok m (pre @ cs) i args | _ \<Rightarrow> True)"
proof (induction cs arbitrary: pre)
  case (Cons d cs)
  show ?case by (simp only: append_Cons calls_ok.simps Cons [of "pre @ [d]"] append_assoc append_Nil conj_assoc)
qed (simp split: stream_call.split)

lemma frags_of_simps [simp]:
  "frags_of i [] = []"
  "frags_of i (xs @ ys) = frags_of i xs @ frags_of i ys"
  "frags_of i [OnContentDelta t] = []" "frags_of i [OnReasoningDelta t] = []"
  "frags_of i [OnToolCallDelta td] = []" "frags_of i [OnUsage us] = []"
  "frags_of i [OnFinishReason r] = []" "frags_of i [OnToolArgsComplete j args] = []"
  "frags_of i [OnToolArgsFragment j bs] = (if j = i then bs else [])"
  by (simp_all add: frags_of_def)

lemma unescape_inplace_loop:
  "unescape_json_string_inplace buf = Some args \<Longrightarrow> jstok_unescape_loop (length buf) [] buf = Some args"
proof -
  assume u: "unescape_json_string_inplace buf = Some args"
  then obtain mem n where "jstok_unescape_mem (length buf) (length buf) buf 0 0 = Some (mem, n)" "args = take n mem"
    by (cases "jstok_unescape_mem (length buf) (length buf) buf 0 0")
      (auto simp add: unescape_json_string_inplace_def simp del: jstok_unescape_mem.simps split: if_splits)
  then show ?thesis
    using unescape_mem_loop [of 0 0 "length buf" buf "length buf"] by (simp add: same_unescape_def)
qed

section \<open>The invariant\<close>

definition args_at :: "stream_ctx \<Rightarrow> nat \<Rightarrow> byte list" where
  "args_at sc i = (if i < length (sx_accums sc) then args_of (sx_accums sc ! i) else [])"

lemma args_at_upd [simp]:
  "args_at (sc\<lparr>sx_calls := cs\<rparr>) i = args_at sc i" "args_at (sc\<lparr>sx_tool_calls_finalized := b\<rparr>) i = args_at sc i"
  by (simp_all add: args_at_def)

definition open_at :: "stream_ctx \<Rightarrow> nat \<Rightarrow> bool" where
  "open_at sc i \<longleftrightarrow>
     frags_of i (sx_calls sc) = args_at sc i \<and> \<not> list_ex (completes i) (sx_calls sc) \<and>
     (sx_max_tool_args sc = 0 \<or> length (args_at sc i) \<le> sx_max_tool_args sc)"

definition calls_inv :: "llm_stream_callbacks \<Rightarrow> nat \<Rightarrow> stream_ctx \<Rightarrow> bool" where
  "calls_inv k m sc \<longleftrightarrow>
     sx_callbacks sc = Some k \<and> sk_tool_args_fragment k \<and> sx_max_tool_args sc = m \<and> calls_ok m [] (sx_calls sc)"

definition chat_inv :: "llm_stream_callbacks \<Rightarrow> nat \<Rightarrow> stream_ctx \<Rightarrow> bool" where
  "chat_inv k m sc \<longleftrightarrow>
     calls_inv k m sc \<and> (sx_tool_calls_finalized sc \<or> sx_protocol_error sc \<or> (\<forall>i. open_at sc i))"

lemma chat_inv_upd [simp]:
  "chat_inv k m (sc\<lparr>sx_error := e\<rparr>) = chat_inv k m sc" "chat_inv k m (sc\<lparr>sx_polls := n\<rparr>) = chat_inv k m sc"
  "chat_inv k m (sc\<lparr>sx_undefined := b\<rparr>) = chat_inv k m sc" "chat_inv k m (sc\<lparr>sx_saw_done := b\<rparr>) = chat_inv k m sc"
  "calls_inv k m (sc\<lparr>sx_error := e\<rparr>) = calls_inv k m sc"
  "calls_inv k m (sc\<lparr>sx_accums := as\<rparr>) = calls_inv k m sc"
  "calls_inv k m (sc\<lparr>sx_protocol_error := b\<rparr>) = calls_inv k m sc"
  by (simp_all add: chat_inv_def calls_inv_def open_at_def args_at_def)

lemma chat_inv_set_error [simp]:
  "chat_inv k m (stream_set_error sc e) = chat_inv k m sc" "calls_inv k m (stream_set_error sc e) = calls_inv k m sc"
  by (simp_all add: stream_set_error_def)

lemma chat_inv_error: "calls_inv k m sc \<Longrightarrow> chat_inv k m (sc\<lparr>sx_protocol_error := True\<rparr>)"
  by (simp add: chat_inv_def)

lemma chat_inv_calls: "chat_inv k m sc \<Longrightarrow> calls_inv k m sc"
  by (simp add: chat_inv_def)

fun quiet :: "stream_call \<Rightarrow> bool" where
  "quiet (OnToolArgsFragment i bs) = False"
| "quiet (OnToolArgsComplete i args) = False"
| "quiet c = True"

lemma chat_inv_notify:
  assumes "chat_inv k m sc" "quiet c" shows "chat_inv k m (notify f c sc)"
proof -
  have c: "frags_of i [c] = []" "\<not> completes i c" for i using assms(2) by (cases c; simp)+
  have "calls_ok m [] (sx_calls sc @ [c]) = calls_ok m [] (sx_calls sc)"
    using assms(2) by (cases c) (simp_all add: calls_ok_snoc)
  with assms(1) c show ?thesis
    by (cases "f k") (auto simp: notify_def chat_inv_def calls_inv_def open_at_def)
qed

section \<open>Finalizing\<close>

lemma finalize_loop_inv:
  assumes "finalize_loop sc is = (ok, sc')" "calls_inv k m sc" "distinct is"
    "\<forall>i\<in>set is. open_at sc i \<and> i < length (sx_accums sc)"
  shows "calls_inv k m sc' \<and> sx_tool_calls_finalized sc' = sx_tool_calls_finalized sc"
  using assms
proof (induction "is" arbitrary: sc)
  case (Cons i "is")
  let ?acc = "(sx_accums sc ! i)\<lparr>ac_frozen := True\<rparr>"
  let ?sc1 = "sc\<lparr>sx_accums := (sx_accums sc)[i := ?acc]\<rparr>"
  have i: "open_at sc i" "i < length (sx_accums sc)" using Cons.prems(4) by auto
  show ?case
  proof (cases "ac_active (sx_accums sc ! i) \<and> ac_saw_args ?acc \<and> args_text ?acc \<noteq> None \<and>
      validate_json_span (the (args_text ?acc))")
    case False
    then show ?thesis
      using Cons.prems Cons.IH [of sc]
      by (auto simp: Let_def stream_set_error_def split: if_splits option.splits)
  next
    case True
    then obtain args where a: "args_text ?acc = Some args" "validate_json_span args" by auto
    let ?acc2 = "?acc\<lparr>ac_args_buf := (ac_args_buf ?acc)\<lparr>gb_data := args\<rparr>\<rparr>"
    let ?sc2 = "?sc1\<lparr>sx_accums := (sx_accums ?sc1)[i := ?acc2]\<rparr>"
    let ?sc3 = "notify sk_tool_args_complete (OnToolArgsComplete i args) ?sc2"
    have cb: "sx_callbacks sc = Some k" and cs: "calls_ok m [] (sx_calls sc)" and m: "sx_max_tool_args sc = m"
      using Cons.prems(2) by (simp_all add: calls_inv_def)
    have "unescape_json_string_inplace (args_at sc i) = Some args"
      using a(1) i(2) by (auto simp: args_text_def args_at_def args_of_def split: if_splits)
    from unescape_inplace_loop [OF this] have "complete_ok m (sx_calls sc) i args"
      using i(1) a(2) m by (simp add: complete_ok_def open_at_def)
    then have inv: "calls_inv k m ?sc3"
      using Cons.prems(2) cb cs by (simp add: notify_def calls_inv_def calls_ok_snoc)
    have op: "\<forall>j\<in>set is. open_at ?sc3 j \<and> j < length (sx_accums ?sc3)"
    proof
      fix j assume j: "j \<in> set is"
      then have "j \<noteq> i" "open_at sc j" "j < length (sx_accums sc)" using Cons.prems(3,4) by auto
      then show "open_at ?sc3 j \<and> j < length (sx_accums ?sc3)"
        using cb by (auto simp: notify_def open_at_def args_at_def)
    qed
    have "finalize_loop ?sc3 is = (ok, sc')" using Cons.prems(1) True a cb by (simp add: Let_def)
    from Cons.IH [OF this inv _ op] Cons.prems(3) cb show ?thesis by (simp add: notify_def)
  qed
qed simp

lemma finalize_tool_calls_inv:
  assumes "finalize_tool_calls sc = (ok, sc')" "chat_inv k m sc" "\<not> sx_protocol_error sc"
  shows "chat_inv k m sc'"
proof (cases "sx_tool_calls_finalized sc")
  case True
  with assms show ?thesis by (auto simp: finalize_tool_calls_def)
next
  case False
  let ?sc = "sc\<lparr>sx_tool_calls_finalized := True\<rparr>"
  have "finalize_loop ?sc [0..<length (sx_accums sc)] = (ok, sc')"
    using assms(1) False by (simp add: finalize_tool_calls_def)
  moreover have "open_at ?sc i" "calls_inv k m ?sc" for i
    using assms(2,3) False by (auto simp: chat_inv_def calls_inv_def open_at_def)
  ultimately show ?thesis
    using finalize_loop_inv [of ?sc "[0..<length (sx_accums sc)]" ok sc' k m] by (simp add: chat_inv_def)
qed

section \<open>The handlers\<close>

lemma args_of_init [simp]: "args_of (accum_init f) = []"
  by (simp add: args_of_def accum_init_def growbuf_init_def)

lemma grow_accums_inv:
  assumes "grow_accums sc n = (ok, sc')" "chat_inv k m sc"
  shows "chat_inv k m sc'" "ok \<Longrightarrow> n < length (sx_accums sc')"
    "sx_protocol_error sc' \<Longrightarrow> ok \<Longrightarrow> sx_protocol_error sc"
proof -
  have "args_at (sc\<lparr>sx_accums := sx_accums sc @ replicate j (accum_init f)\<rparr>) i = args_at sc i" for i j f
    by (auto simp: args_at_def nth_append)
  then have "chat_inv k m (sc\<lparr>sx_accums := sx_accums sc @ replicate j (accum_init f)\<rparr>) = chat_inv k m sc" for j f
    by (simp add: chat_inv_def open_at_def)
  with assms show "chat_inv k m sc'"
    by (auto simp: grow_accums_def Let_def chat_inv_error chat_inv_calls split: if_splits)
  show "ok \<Longrightarrow> n < length (sx_accums sc')" "sx_protocol_error sc' \<Longrightarrow> ok \<Longrightarrow> sx_protocol_error sc"
    using assms(1) by (auto simp: grow_accums_def Let_def split: if_splits)
qed

text \<open>One delta into its accumulator, with the fragment reported.\<close>

definition feed_one :: "stream_ctx \<Rightarrow> tool_call_delta \<Rightarrow> tool_call_accumulator \<Rightarrow> stream_ctx" where
  "feed_one sc td acc =
     (let sc = sc\<lparr>sx_accums := (sx_accums sc)[td_index td := acc]\<rparr> in
      if \<not> sp_null (td_arguments_fragment td)
      then notify sk_tool_args_fragment
             (OnToolArgsFragment (td_index td) (sp_bytes (td_arguments_fragment td))) sc
      else sc)"

lemma feed_one_inv:
  assumes "chat_inv k m sc" "td_index td < length (sx_accums sc)"
    "accum_feed_delta alloc (sx_accums sc ! td_index td) td m = (ok, acc)"
  shows "calls_inv k m (feed_one sc td acc)" "ok \<Longrightarrow> chat_inv k m (feed_one sc td acc)"
proof -
  have cb: "sx_callbacks sc = Some k" "sk_tool_args_fragment k" "sx_max_tool_args sc = m"
    using assms(1) by (simp_all add: chat_inv_def calls_inv_def)
  show c: "calls_inv k m (feed_one sc td acc)"
    using assms(1) by (auto simp: feed_one_def Let_def notify_def chat_inv_def calls_inv_def calls_ok_snoc)
  assume ok
  with assms(3) have f: "accum_feed_delta alloc (sx_accums sc ! td_index td) td m = (True, acc)" by simp
  have n: "sp_bytes (td_arguments_fragment td) = []" if "sp_null (td_arguments_fragment td)"
    using that by (cases "td_arguments_fragment td") simp_all
  have "open_at (feed_one sc td acc) i" if "open_at sc i" for i
  proof -
    have b: "m = 0 \<or> length (args_of acc) \<le> m" if "i = td_index td"
      using accum_feed_delta_bound [OF f] \<open>open_at sc i\<close> that assms(2) cb(3) by (auto simp: open_at_def args_at_def)
    have l: "args_at (feed_one sc td acc) i =
        (if i = td_index td then args_at sc i @ sp_bytes (td_arguments_fragment td) else args_at sc i)"
      using assms(2) accum_feed_delta_True(1) [OF f] cb by (auto simp: feed_one_def notify_def args_at_def Let_def)
    have r: "args_at (feed_one sc td acc) i = args_of acc" if "i = td_index td"
      using that assms(2) cb by (auto simp: feed_one_def notify_def args_at_def Let_def)
    have fr: "frags_of i (sx_calls (feed_one sc td acc)) =
        (if i = td_index td then frags_of i (sx_calls sc) @ sp_bytes (td_arguments_fragment td)
         else frags_of i (sx_calls sc))"
      using cb n by (auto simp: feed_one_def notify_def Let_def)
    have "sx_max_tool_args (feed_one sc td acc) = m" using c by (simp add: calls_inv_def)
    moreover have "list_ex (completes i) (sx_calls (feed_one sc td acc)) = list_ex (completes i) (sx_calls sc)"
      using cb by (simp add: feed_one_def notify_def Let_def)
    ultimately show ?thesis using that b l r fr cb(3) by (auto simp: open_at_def)
  qed
  moreover have "sx_tool_calls_finalized (feed_one sc td acc) = sx_tool_calls_finalized sc"
    "sx_protocol_error (feed_one sc td acc) = sx_protocol_error sc"
    using cb by (simp_all add: feed_one_def notify_def Let_def)
  ultimately show "chat_inv k m (feed_one sc td acc)" using assms(1) c by (auto simp: chat_inv_def)
qed

lemma feed_tool_deltas_inv:
  "feed_tool_deltas sc tds = (ok, sc') \<Longrightarrow> chat_inv k m sc \<Longrightarrow>
     chat_inv k m sc' \<and> (ok \<longrightarrow> sx_protocol_error sc' \<longrightarrow> sx_protocol_error sc)"
proof (induction tds arbitrary: sc)
  case (Cons td tds)
  obtain ok1 sc1 where g: "grow_accums sc (td_index td) = (ok1, sc1)" by fastforce
  note gi = grow_accums_inv [OF g Cons.prems(2)]
  let ?sc2 = "notify sk_tool_call_delta (OnToolCallDelta td) sc1"
  obtain aok acc where a:
    "accum_feed_delta (sx_alloc ?sc2) (sx_accums ?sc2 ! td_index td) td (sx_max_tool_args ?sc2) = (aok, acc)"
    by fastforce
  show ?case
  proof (cases ok1)
    case False
    with Cons.prems(1) g gi(1) show ?thesis by auto
  next
    case True
    have i2: "chat_inv k m ?sc2" by (rule chat_inv_notify [OF gi(1)]) simp
    then have m: "sx_max_tool_args ?sc2 = m" "sx_callbacks ?sc2 = Some k" by (simp_all add: chat_inv_def calls_inv_def)
    have l: "td_index td < length (sx_accums ?sc2)" "sx_protocol_error ?sc2 = sx_protocol_error sc1"
      using gi(2) True by (auto simp: notify_def split: option.splits)
    note f = feed_one_inv [OF i2 l(1) a [unfolded m]]
    have r: "feed_tool_deltas sc (td # tds) =
        (if \<not> aok then (False, stream_set_error ((feed_one ?sc2 td acc)\<lparr>sx_protocol_error := True\<rparr>) LLM_ERR_FAILED)
         else feed_tool_deltas (feed_one ?sc2 td acc) tds)"
      using g True a by (simp add: Let_def feed_one_def)
    have p: "sx_protocol_error (feed_one ?sc2 td acc) = sx_protocol_error sc1"
      using l(2) m(2) by (auto simp: feed_one_def notify_def Let_def split: option.splits)
    show ?thesis
    proof (cases aok)
      case False
      with r Cons.prems(1) f(1) show ?thesis by (auto simp: chat_inv_error)
    next
      case aok: True
      have "feed_tool_deltas (feed_one ?sc2 td acc) tds = (ok, sc')" using r Cons.prems(1) aok by simp
      moreover have "chat_inv k m (feed_one ?sc2 td acc)" by (rule f(2)) (use aok in simp)
      ultimately show ?thesis
        using Cons.IH gi(3) True p by auto
    qed
  qed
qed simp

lemma chunk_texts_inv:
  assumes "chat_inv k m sc" shows "chat_inv k m (chunk_texts sc delta us present)"
  using assms by (auto simp: chunk_texts_def Let_def chat_inv_notify split: option.splits)

lemma notify_protocol_error [simp]: "sx_protocol_error (notify f c sc) = sx_protocol_error sc"
  by (simp add: notify_def split: option.split)

lemma chunk_texts_protocol_error [simp]:
  "sx_protocol_error (chunk_texts sc delta us present) = sx_protocol_error sc"
  by (simp add: chunk_texts_def Let_def split: option.split)

lemma chunk_finish_inv:
  assumes "chat_inv k m sc" "\<not> sx_protocol_error sc"
  shows "chat_inv k m (chunk_finish sc r)"
proof -
  obtain ok sc1 where f: "finalize_tool_calls sc = (ok, sc1)" by fastforce
  have "chat_inv k m sc1" by (rule finalize_tool_calls_inv [OF f assms])
  then show ?thesis
    using assms(1) by (auto simp: chunk_finish_def f chat_inv_notify chat_inv_error chat_inv_calls)
qed

lemma on_sse_event_inv: "chat_inv k m sc \<Longrightarrow> chat_inv k m (snd (on_sse_event sc e))"
proof -
  assume i: "chat_inv k m sc"
  have "chat_inv k m (snd (case feed_tool_deltas (chunk_texts sc d us pr) tds of
      (ok, sc) \<Rightarrow> if \<not> ok then (True, sc) else (True, chunk_finish sc r)))" if "\<not> sx_protocol_error sc" for d us pr tds r
  proof -
    obtain ok sc1 where f: "feed_tool_deltas (chunk_texts sc d us pr) tds = (ok, sc1)" by fastforce
    from feed_tool_deltas_inv [OF f chunk_texts_inv [OF i]] that f chunk_finish_inv [of k m sc1 r] show ?thesis by auto
  qed
  then show ?thesis using i by (auto simp: on_sse_event_def split: sum.splits chunk_err.splits)
qed

lemma poll_abort_inv: "poll_abort sc = (b, sc') \<Longrightarrow> chat_inv k m sc \<Longrightarrow> chat_inv k m sc'"
  by (auto simp: poll_abort_def split: option.splits)

lemma on_sse_frame_abort_inv: "chat_inv k m sc \<Longrightarrow> chat_inv k m (snd (on_sse_frame_abort_stream sc))"
  by (auto simp: on_sse_frame_abort_stream_def poll_abort_inv split: prod.split)

interpretation chat_user: user_inv "chat_inv k m" on_sse_event on_sse_frame_abort_stream
  for k m
  by unfold_locales (auto intro: on_sse_event_inv on_sse_frame_abort_inv)

end
