(* ===== verification/StreamCallProps.thy ===== *)
theory StreamCallProps
  imports ChatStreamProps SseProps ApiProps
begin

text \<open>
  The streaming calls as a whole: the invariant of \<open>ChatStreamProps\<close> holds for the callbacks of every
  chat stream, however it ends, and a stream that succeeds has made exactly the callbacks that
  the events of its body mean, however the transport cut it.
\<close>

section \<open>Through the transport\<close>

lemma deliver_keeps:
  assumes "\<And>s c. Q s \<Longrightarrow> Q (snd (cb s c))" "Q s"
  shows "Q (snd (deliver cb s cs))"
  using assms(2)
proof (induction cs arbitrary: s)
  case (Cons c cs)
  then show ?case using assms(1) [OF Cons.prems, of c] by (auto split: prod.split)
qed simp

definition stream_ok :: "llm_stream_callbacks \<Rightarrow> nat \<Rightarrow> curl_stream_ctx \<Rightarrow> bool" where
  "stream_ok k m cs = user_ok (chat_inv k m) on_sse_event on_sse_frame_abort_stream (cs_sse cs)"

lemma stream_ok_upd:
  "(\<And>sc. chat_inv k m sc \<Longrightarrow> chat_inv k m (f sc)) \<Longrightarrow> stream_ok k m cs \<Longrightarrow> stream_ok k m (cs_upd f cs)"
  by (simp add: stream_ok_def cs_upd_def cs_ctx_def user_ok_def)

lemma cs_poll_inv: "cs_poll cs = (b, cs') \<Longrightarrow> stream_ok k m cs \<Longrightarrow> stream_ok k m cs'"
  using poll_abort_inv [of "cs_ctx cs"]
  by (auto simp: cs_poll_def stream_ok_def cs_upd_def cs_ctx_def user_ok_def split: prod.splits if_splits)

lemma curl_stream_cb_inv: "stream_ok k m cs \<Longrightarrow> stream_ok k m (snd (curl_stream_cb cs chunk))"
proof -
  assume i: "stream_ok k m cs"
  obtain b cs1 where p: "cs_poll cs = (b, cs1)" by fastforce
  obtain rc q where f: "sse_feed (cs_sse cs1) chunk = (rc, q)" by fastforce
  have "stream_ok k m (cs1\<lparr>cs_sse := q, cs_sse_error := x\<rparr>)" "stream_ok k m (cs1\<lparr>cs_sse := q\<rparr>)" for x
    using chat_user.feed [of k m "cs_sse cs1" chunk] cs_poll_inv [OF p i] f by (simp_all add: stream_ok_def)
  moreover obtain b2 cs2 where p2: "cs_poll (cs1\<lparr>cs_sse := q\<rparr>) = (b2, cs2)" by fastforce
  moreover note cs_poll_inv [OF p i] cs_poll_inv [OF p2, of k m]
  ultimately show ?thesis
    using p f by (auto simp: curl_stream_cb_def Let_def intro!: stream_ok_upd)
qed

lemma deliver_capture:
  "deliver (stream_capture_cb cb) cap cs = (ok, cap') \<Longrightarrow> deliver cb (cap_inner cap) cs = (ok, cap_inner cap')"
proof (induction cs arbitrary: cap)
  case (Cons c cs)
  obtain r s where r: "cb (cap_inner cap) c = (r, s)" by fastforce
  obtain cap1 where c: "stream_capture_cb cb cap c = (r, cap1\<lparr>cap_inner := s\<rparr>)"
  proof -
    obtain ok b where g: "growbuf_append (cap_buf cap) c (cap_max_bytes cap) = (ok, b)" by fastforce
    show thesis
      by (rule that [of "if cap_capture cap then (if ok then cap\<lparr>cap_buf := b\<rparr>
              else cap\<lparr>cap_buf := growbuf_free b, cap_capture := False\<rparr>) else cap"])
        (simp add: stream_capture_cb_def g r Let_def)
  qed
  show ?case
  proof (cases r)
    case True
    with Cons.prems c have "deliver (stream_capture_cb cb) (cap1\<lparr>cap_inner := s\<rparr>) cs = (ok, cap')" by simp
    from Cons.IH [OF this] show ?thesis using r True by simp
  qed (use Cons.prems c r in auto)
qed auto

lemma http_post_stream_deliver:
  assumes "http_post_stream lib url json tmo idle hs tls px npx cb s = Some (ok, status, s1)"
  obtains "\<not> ok" "s1 = s"
  | opts r where "co_url opts = url" "co_post opts = Some (c_string json)"
      "deliver cb s (cr_chunks (curl_net lib opts)) = (r, s1)" "ok \<Longrightarrow> r"
      "ok \<Longrightarrow> ts_http_status status = cr_status (curl_net lib opts)"
proof (cases "apply_tls_config lib (curl_opts_init url) tls")
  case None
  with assms that(1) show thesis by (auto simp: http_post_stream_def split: if_splits)
next
  case (Some opts)
  define o1 where "o1 = set_timeouts ((apply_proxy_config opts px npx)\<lparr>co_post := Some (c_string json),
    co_headers := content_type_json # hs\<rparr>) tmo"
  define o2 where "o2 = (if idle > 0 then o1\<lparr>co_low_speed_time := Some ((idle + 999) div 1000)\<rparr> else o1)"
  obtain r s2 where d: "deliver cb s (cr_chunks (curl_net lib o2)) = (r, s2)" by fastforce
  have "co_url opts = url" using apply_tls_config_url [OF Some] by (simp add: curl_opts_init_def)
  then have u: "co_url o2 = url" "co_post o2 = Some (c_string json)"
    by (simp_all add: o2_def o1_def set_timeouts_def apply_proxy_config_def)
  have "curl_init lib" using assms by (auto simp: http_post_stream_def split: if_splits)
  have "Some (ok, status, s1) = (case (if r then cr_code (curl_net lib o2) else CURLE_WRITE_ERROR) of
      res \<Rightarrow> Some (res = CURLE_OK, transport_status res (cr_status (curl_net lib o2)), s2))"
    using \<open>curl_init lib\<close> unfolding assms [symmetric] http_post_stream_def Some Let_def option.case
      o1_def [symmetric] o2_def [symmetric] curl_easy_perform_def d prod.case by simp
  then have e: "ok = ((if r then cr_code (curl_net lib o2) else CURLE_WRITE_ERROR) = CURLE_OK)"
    "status = transport_status (if r then cr_code (curl_net lib o2) else CURLE_WRITE_ERROR) (cr_status (curl_net lib o2))"
    "s1 = s2"
    by simp_all
  with that(2) [OF u d [folded e(3)]] show thesis
    by (auto simp: transport_status_def split: if_splits)
qed

lemma stream_transfer_deliver:
  assumes "stream_transfer alloc lib client url json hs want cb s = Some (ok, status, s1, body)"
  obtains "\<not> ok" "s1 = s"
  | opts r where "co_url opts = url" "co_post opts = Some (c_string json)"
      "deliver cb s (cr_chunks (curl_net lib opts)) = (r, s1)" "ok \<Longrightarrow> r"
      "ok \<Longrightarrow> ts_http_status status = cr_status (curl_net lib opts)"
proof (cases want)
  case False
  with assms have "http_post_stream lib url json (tm_overall_ms (cl_timeout client)) (tm_read_idle_ms (cl_timeout client))
      hs (llm_client_tls_config client) (cl_proxy_url client) (cl_no_proxy client) cb s = Some (ok, status, s1)"
    by (auto simp: stream_transfer_def split: option.splits)
  then show thesis by (rule http_post_stream_deliver) (rule that; assumption)+
next
  case True
  let ?cap = "stream_capture_init alloc s (lm_max_response_bytes (cl_limits client)) True"
  obtain cap where h: "http_post_stream lib url json (tm_overall_ms (cl_timeout client))
      (tm_read_idle_ms (cl_timeout client)) hs (llm_client_tls_config client) (cl_proxy_url client)
      (cl_no_proxy client) (stream_capture_cb cb) ?cap = Some (ok, status, cap)" "s1 = cap_inner cap"
    using True assms by (auto simp: stream_transfer_def split: option.splits)
  have i: "cap_inner ?cap = s" by (simp add: stream_capture_init_def Let_def)
  from h(1) show thesis
  proof (rule http_post_stream_deliver)
    assume "\<not> ok" "cap = ?cap"
    then show thesis using that(1) h(2) i by simp
  next
    fix opts r assume o: "co_url opts = url" "co_post opts = Some (c_string json)"
      "deliver (stream_capture_cb cb) ?cap (cr_chunks (curl_net lib opts)) = (r, cap)" "ok \<Longrightarrow> r"
      "ok \<Longrightarrow> ts_http_status status = cr_status (curl_net lib opts)"
    show thesis using that(2) [OF o(1,2) _ o(4,5)] deliver_capture [OF o(3)] h(2) i by simp
  qed
qed

lemma stream_transfer_keeps:
  assumes "stream_transfer alloc lib client url json hs want cb s = Some (ok, status, s1, body)"
    "\<And>s c. Q s \<Longrightarrow> Q (snd (cb s c))" "Q s"
  shows "Q s1"
  using assms(1)
proof (rule stream_transfer_deliver)
  fix opts r assume "deliver cb s (cr_chunks (curl_net lib opts)) = (r, s1)"
  with deliver_keeps [of Q cb s "cr_chunks (curl_net lib opts)"] assms(2,3) show "Q s1" by simp
qed (use assms(3) in simp)

lemma stream_finish_inv:
  assumes "chat_inv k m sc" "ok \<Longrightarrow> \<not> sx_protocol_error sc" shows "chat_inv k m (snd (stream_finish ok sc))"
proof -
  obtain r sc1 where f: "finalize_tool_calls sc = (r, sc1)" by fastforce
  show ?thesis
  proof (cases ok)
    case True
    from finalize_tool_calls_inv [OF f assms(1)] assms True show ?thesis
      by (simp add: stream_finish_def f chat_inv_error chat_inv_calls)
  next
    case False
    with assms(1) show ?thesis by (simp add: stream_finish_def)
  qed
qed

lemma curl_stream_cb_no_error: "curl_stream_cb cs c = (True, cs') \<Longrightarrow> \<not> sx_protocol_error (cs_ctx cs')"
  by (auto simp: curl_stream_cb_def Let_def split: prod.splits if_splits)

lemma deliver_no_error:
  "deliver curl_stream_cb cs chunks = (True, cs') \<Longrightarrow> \<not> sx_protocol_error (cs_ctx cs) \<Longrightarrow>
     \<not> sx_protocol_error (cs_ctx cs')"
  by (induction chunks arbitrary: cs) (auto split: prod.splits if_splits dest: curl_stream_cb_no_error)

lemma stream_fail_calls: "stream_fail alloc client detail err stage n body pe calls = Some (err1, c1, d1, calls1) \<Longrightarrow>
    err1 = err \<and> calls1 = calls"
  by (auto simp: stream_fail_def split: prod.splits)

lemma chat_stream_result_calls:
  assumes "chat_stream_result alloc client detail ok status cs body = Some (err, c1, d1, calls)"
  shows "calls = sx_calls (snd (stream_finish ok (cs_ctx cs)))"
    "err = LLM_ERR_NONE \<Longrightarrow> fst (stream_finish ok (cs_ctx cs)) \<and> ts_http_status status < 400"
proof -
  obtain r sc where f: "stream_finish ok (cs_ctx cs) = (r, sc)" by fastforce
  show "calls = sx_calls (snd (stream_finish ok (cs_ctx cs)))"
    using assms by (auto simp: chat_stream_result_def f Let_def dest!: stream_fail_calls split: if_splits)
  show "err = LLM_ERR_NONE \<Longrightarrow> fst (stream_finish ok (cs_ctx cs)) \<and> ts_http_status status < 400"
    using assms by (auto simp: chat_stream_result_def f Let_def dest!: stream_fail_calls split: if_splits)
qed

text \<open>A call that gets as far as the transfer, or one that fails before with no callback made.\<close>

lemma chat_stream_transfer:
  assumes "llm_chat_stream_with_headers_choice_ex alloc parser_ok lib client messages pj tj rj ci cbs abort_cb headers
      detail = Some (err, c1, d1, calls)"
  obtains "calls = []" "err = LLM_ERR_FAILED"
  | base hs json c d ok status cs body where "cl_base_url client = Some base" "cl_limits c = cl_limits client"
      "stream_transfer alloc lib c (call_url base ''/v1/chat/completions'') json hs (d \<noteq> None) curl_stream_cb
         \<lparr>cs_sse = sse_open (lm_max_line_bytes (cl_limits client)) (lm_max_frame_bytes (cl_limits client))
              (lm_max_sse_buffer_bytes (cl_limits client)) (lm_max_response_bytes (cl_limits client)) alloc
              (Some on_sse_event) (Some on_sse_frame_abort_stream)
              (stream_ctx_init alloc cbs ci (lm_max_tool_args_bytes_per_call (cl_limits client))
                 (case cbs of None \<Rightarrow> False | Some k \<Rightarrow> sk_include_usage k) abort_cb),
           cs_sse_error = SSE_OK\<rparr> = Some (ok, status, cs, body)"
      "chat_stream_result alloc c d ok status cs body = Some (err, c1, d1, calls)"
proof -
  obtain c d where r: "api_reset client detail = (c, d)" "cl_base_url c = cl_base_url client"
    "cl_model_name c = cl_model_name client" "cl_limits c = cl_limits client"
    by (cases detail) (auto simp: api_reset_def last_error_reset_def)
  show thesis
    using assms that(2) [OF _ r(4)] that(1)
    by (auto simp: llm_chat_stream_with_headers_choice_ex_def r Let_def sse_create_def sse_open_def
        dest!: stream_fail_calls split: option.splits if_splits)
qed

section \<open>Tool calls\<close>

lemma stream_ctx_init_inv:
  "sk_tool_args_fragment k \<Longrightarrow> chat_inv k m (stream_ctx_init alloc (Some k) ci m u abort_cb)"
  by (simp add: chat_inv_def calls_inv_def open_at_def args_at_def stream_ctx_init_def)

text \<open>
  C32: the tool calls a chat stream reports complete. Whatever the server sends, however the
  transport cuts it, with or without an abort or an error, the arguments handed to
  \<open>on_tool_args_complete\<close> for a call are the unescaping of the fragments handed to
  \<open>on_tool_args_fragment\<close> for it before, at most the configured limit of them, they are JSON for
  the tokenizer, and no call is completed twice.
\<close>

theorem stream_tool_calls_complete:
  "case llm_chat_stream_with_headers_choice_ex alloc parser_ok lib client messages params_json tooling_json
          response_format_json choice_index (Some (k\<lparr>sk_tool_args_fragment := True\<rparr>)) abort_cb headers detail of
     None \<Rightarrow> True
   | Some (err, client1, detail1, calls) \<Rightarrow>
       calls_ok (lm_max_tool_args_bytes_per_call (cl_limits client)) [] calls"
proof (cases "llm_chat_stream_with_headers_choice_ex alloc parser_ok lib client messages params_json tooling_json
          response_format_json choice_index (Some (k\<lparr>sk_tool_args_fragment := True\<rparr>)) abort_cb headers detail")
  case (Some r)
  let ?k = "k\<lparr>sk_tool_args_fragment := True\<rparr>"
  let ?m = "lm_max_tool_args_bytes_per_call (cl_limits client)"
  obtain err c1 d1 calls where r: "r = (err, c1, d1, calls)" by (cases r) auto
  have "calls_ok ?m [] calls"
    using Some [unfolded r]
  proof (rule chat_stream_transfer)
    fix base hs json c d ok status cs body
    assume t: "stream_transfer alloc lib c (call_url base ''/v1/chat/completions'') json hs (d \<noteq> None) curl_stream_cb
         \<lparr>cs_sse = sse_open (lm_max_line_bytes (cl_limits client)) (lm_max_frame_bytes (cl_limits client))
              (lm_max_sse_buffer_bytes (cl_limits client)) (lm_max_response_bytes (cl_limits client)) alloc
              (Some on_sse_event) (Some on_sse_frame_abort_stream)
              (stream_ctx_init alloc (Some ?k) choice_index ?m
                 (case Some ?k of None \<Rightarrow> False | Some k \<Rightarrow> sk_include_usage k) abort_cb),
           cs_sse_error = SSE_OK\<rparr> = Some (ok, status, cs, body)" (is "stream_transfer _ _ _ _ _ _ _ _ ?s = _")
      and res: "chat_stream_result alloc c d ok status cs body = Some (err, c1, d1, calls)"
    have "stream_ok ?k ?m cs"
      by (rule stream_transfer_keeps [OF t, where Q = "stream_ok ?k ?m"], erule curl_stream_cb_inv)
        (simp add: stream_ok_def user_ok_def stream_ctx_init_inv)
    then have "chat_inv ?k ?m (cs_ctx cs)" by (simp add: stream_ok_def user_ok_def cs_ctx_def)
    moreover have "\<not> sx_protocol_error (cs_ctx cs)" if ok
      using t
    proof (rule stream_transfer_deliver)
      fix opts r assume d: "deliver curl_stream_cb ?s (cr_chunks (curl_net lib opts)) = (r, cs)" "ok \<Longrightarrow> r"
      then show ?thesis
        using deliver_no_error [of ?s _ cs] that by (simp add: cs_ctx_def stream_ctx_init_def)
    qed (use that in simp)
    ultimately have "chat_inv ?k ?m (snd (stream_finish ok (cs_ctx cs)))" by (rule stream_finish_inv)
    then show "calls_ok ?m [] calls"
      using chat_stream_result_calls(1) [OF res] by (simp add: chat_inv_def calls_inv_def)
  qed simp
  with Some r show ?thesis by simp
qed simp

section \<open>Success\<close>

lemma no_poll [simp]:
  "sx_abort_cb (notify f c sc) = sx_abort_cb sc" "sx_abort_cb (stream_set_error sc e) = sx_abort_cb sc"
  "sx_abort_cb (chunk_texts sc delta us present) = sx_abort_cb sc"
  by (simp_all add: notify_def stream_set_error_def chunk_texts_def Let_def split: option.split)

lemma no_poll_grow: "grow_accums sc n = (ok, sc') \<Longrightarrow> sx_abort_cb sc' = sx_abort_cb sc"
  by (auto simp: grow_accums_def Let_def split: if_splits)

lemma no_poll_feed: "feed_tool_deltas sc tds = (ok, sc') \<Longrightarrow> sx_abort_cb sc' = sx_abort_cb sc"
  by (induction tds arbitrary: sc) (fastforce simp: Let_def split: prod.splits if_splits dest: no_poll_grow)+

lemma no_poll_finalize: "finalize_loop sc is = (ok, sc') \<Longrightarrow> sx_abort_cb sc' = sx_abort_cb sc"
  by (induction "is" arbitrary: sc) (fastforce simp: Let_def split: option.splits if_splits)+

lemma no_poll_finalize_calls: "finalize_tool_calls sc = (ok, sc') \<Longrightarrow> sx_abort_cb sc' = sx_abort_cb sc"
  by (auto simp: finalize_tool_calls_def dest: no_poll_finalize split: if_splits)

lemma no_poll_event: "sx_abort_cb (snd (on_sse_event sc e)) = sx_abort_cb sc"
  by (auto simp: on_sse_event_def chunk_finish_def split: sum.splits chunk_err.splits prod.splits
      dest!: no_poll_feed no_poll_finalize_calls)

lemma on_sse_event_True: "fst (on_sse_event sc e)"
  by (auto simp: on_sse_event_def split: sum.splits chunk_err.splits prod.splits)

interpretation chat_quiet: user_inv "\<lambda>sc. sx_abort_cb sc = None" on_sse_event on_sse_frame_abort_stream
  by unfold_locales (auto simp: no_poll_event on_sse_frame_abort_stream_def poll_abort_def)

text \<open>The stream context after a list of events.\<close>

definition chat_events :: "stream_ctx \<Rightarrow> sse_event list \<Rightarrow> stream_ctx" where
  "chat_events sc es = fold (\<lambda>e sc. snd (on_sse_event sc e)) es sc"

lemma do_calls_chat:
  assumes "on_event p = Some on_sse_event" "on_frame p = Some on_sse_frame_abort_stream"
  shows "sx_abort_cb sc = None \<Longrightarrow> do_calls p sc cs = (True, chat_events sc (events_of cs))"
proof (induction cs arbitrary: sc)
  case (Cons c cs)
  show ?case
  proof (cases c)
    case Frame_Call
    with Cons assms show ?thesis by (simp add: do_call_def on_sse_frame_abort_stream_def poll_abort_def)
  next
    case (Event_Call e)
    have "sx_abort_cb (snd (on_sse_event sc e)) = None" using Cons.prems by (simp add: no_poll_event)
    from Cons.IH [OF this] show ?thesis
      using Event_Call assms on_sse_event_True [of sc e]
      by (cases "on_sse_event sc e") (simp add: do_call_def chat_events_def)
  qed
qed (simp add: chat_events_def)

definition quiet_parser :: "stream_ctx sse_parser \<Rightarrow> bool" where
  "quiet_parser p = user_ok (\<lambda>sc. sx_abort_cb sc = None) on_sse_event on_sse_frame_abort_stream p"

lemma cs_poll_quiet: "quiet_parser (cs_sse cs) \<Longrightarrow> cs_poll cs = (False, cs)"
  by (simp add: quiet_parser_def user_ok_def cs_poll_def poll_abort_def cs_upd_def cs_ctx_def)

lemma curl_stream_cb_quiet:
  assumes "curl_stream_cb cs c = (True, cs')" "quiet_parser (cs_sse cs)"
  shows "sse_feed (cs_sse cs) c = (SSE_OK, cs_sse cs')" "quiet_parser (cs_sse cs')"
proof -
  obtain rc q where f: "sse_feed (cs_sse cs) c = (rc, q)" by fastforce
  have q: "quiet_parser q" using chat_quiet.feed [of "cs_sse cs" c] assms(2) f by (simp add: quiet_parser_def)
  have "cs' = cs\<lparr>cs_sse := q\<rparr> \<and> rc = SSE_OK"
    using assms(1) f cs_poll_quiet [OF assms(2)] cs_poll_quiet [of "cs\<lparr>cs_sse := q\<rparr>"] q
    by (auto simp: curl_stream_cb_def Let_def split: if_splits)
  with f q show "sse_feed (cs_sse cs) c = (SSE_OK, cs_sse cs')" "quiet_parser (cs_sse cs')" by simp_all
qed

lemma deliver_quiet:
  "deliver curl_stream_cb cs chunks = (True, cs') \<Longrightarrow> quiet_parser (cs_sse cs) \<Longrightarrow>
     feed_chunks sse_feed SSE_OK (cs_sse cs) chunks = (SSE_OK, cs_sse cs')"
proof (induction chunks arbitrary: cs)
  case (Cons c chunks)
  then obtain cs1 where c: "curl_stream_cb cs c = (True, cs1)" "deliver curl_stream_cb cs1 chunks = (True, cs')"
    by (auto split: prod.splits if_splits)
  note q = curl_stream_cb_quiet [OF c(1) Cons.prems(2)]
  show ?case using Cons.IH [OF c(2) q(2)] q(1) by simp
qed simp

text \<open>What a chat stream that is not aborted comes to, for the parser's limits.\<close>

lemma deliver_chat_events:
  assumes "deliver curl_stream_cb \<lparr>cs_sse = sse_open l f b t ok (Some on_sse_event) (Some on_sse_frame_abort_stream) sc,
      cs_sse_error = e\<rparr> chunks = (True, cs')" "sx_abort_cb sc = None"
  shows "cs_ctx cs' = chat_events sc (spec_events (concat chunks))"
proof -
  let ?p = "sse_open l f b t ok (Some on_sse_event) (Some on_sse_frame_abort_stream) sc"
  have "feed_chunks sse_feed SSE_OK ?p chunks = (SSE_OK, cs_sse cs')"
    using deliver_quiet [OF assms(1)] assms(2) by (simp add: quiet_parser_def user_ok_def)
  from feed_chunks_effect [OF this stream_inv_open]
  have p: "same_setup ?p (cs_sse cs')" "stream_inv sc (concat chunks) (cs_sse cs')" by (simp_all add: stream_outcome_def)
  from stream_inv_calls [OF p(2)] do_calls_chat [of "cs_sse cs'" sc "spec_calls (concat chunks)"] p(1) assms(2)
  show ?thesis by (simp add: same_setup_def cs_ctx_def spec_events_def)
qed

text \<open>
  C33: a chat stream that succeeds. When the call returns without error and nothing aborts it, there was one
  request, to the chat URL of the handle, its status was below 400, and the callbacks made are exactly
  those of the events that the concatenation of the chunks means, in order, with the tool calls
  completed at the end: where the transport cuts the body makes no difference.
\<close>

theorem chat_stream_faithful:
  assumes "llm_chat_stream_with_headers_choice_ex alloc parser_ok lib client messages params_json tooling_json
      response_format_json choice_index (Some k) None headers detail = Some (LLM_ERR_NONE, client1, detail1, calls)"
  shows "\<exists>base opts sc.
    cl_base_url client = Some base \<and> co_url opts = call_url base ''/v1/chat/completions'' \<and>
    cr_status (curl_net lib opts) < 400 \<and>
    sc = chat_events (stream_ctx_init alloc (Some k) choice_index
           (lm_max_tool_args_bytes_per_call (cl_limits client)) (sk_include_usage k) None)
           (spec_events (concat (cr_chunks (curl_net lib opts)))) \<and>
    fst (stream_finish True sc) \<and> calls = sx_calls (snd (stream_finish True sc))"
  using assms
proof (rule chat_stream_transfer)
  fix base hs json c d ok status cs body
  let ?sc = "stream_ctx_init alloc (Some k) choice_index (lm_max_tool_args_bytes_per_call (cl_limits client))
    (sk_include_usage k) None"
  assume b: "cl_base_url client = Some base"
    and t: "stream_transfer alloc lib c (call_url base ''/v1/chat/completions'') json hs (d \<noteq> None) curl_stream_cb
         \<lparr>cs_sse = sse_open (lm_max_line_bytes (cl_limits client)) (lm_max_frame_bytes (cl_limits client))
              (lm_max_sse_buffer_bytes (cl_limits client)) (lm_max_response_bytes (cl_limits client)) alloc
              (Some on_sse_event) (Some on_sse_frame_abort_stream)
              (stream_ctx_init alloc (Some k) choice_index (lm_max_tool_args_bytes_per_call (cl_limits client))
                 (case Some k of None \<Rightarrow> False | Some k \<Rightarrow> sk_include_usage k) None),
           cs_sse_error = SSE_OK\<rparr> = Some (ok, status, cs, body)"
    and res: "chat_stream_result alloc c d ok status cs body = Some (LLM_ERR_NONE, client1, detail1, calls)"
  note r = chat_stream_result_calls [OF res]
  have ok using r(2) by (auto simp: stream_finish_def split: if_splits prod.splits)
  from t show ?thesis
  proof (rule stream_transfer_deliver)
    fix opts r' assume o: "co_url opts = call_url base ''/v1/chat/completions''"
      "deliver curl_stream_cb \<lparr>cs_sse = sse_open (lm_max_line_bytes (cl_limits client)) (lm_max_frame_bytes (cl_limits client))
              (lm_max_sse_buffer_bytes (cl_limits client)) (lm_max_response_bytes (cl_limits client)) alloc
              (Some on_sse_event) (Some on_sse_frame_abort_stream)
              (stream_ctx_init alloc (Some k) choice_index (lm_max_tool_args_bytes_per_call (cl_limits client))
                 (case Some k of None \<Rightarrow> False | Some k \<Rightarrow> sk_include_usage k) None),
           cs_sse_error = SSE_OK\<rparr> (cr_chunks (curl_net lib opts)) = (r', cs)"
      "ok \<Longrightarrow> r'" "ok \<Longrightarrow> ts_http_status status = cr_status (curl_net lib opts)"
    have "cs_ctx cs = chat_events ?sc (spec_events (concat (cr_chunks (curl_net lib opts))))"
      using deliver_chat_events [of _ _ _ _ _ ?sc _ _ cs] o(2,3) \<open>ok\<close> by (simp add: stream_ctx_init_def)
    then show ?thesis
      using b o(1,4) r \<open>ok\<close> by (intro exI [of _ base] exI [of _ opts] exI) auto
  qed (use \<open>ok\<close> in simp)
qed simp

definition demo_stream_body :: "byte list" where
  "demo_stream_body =
     qlit ''data:{`choices`:[{`delta`:{`content`:`x`}}]}'' @ [C_LF, C_LF] @ lit ''data:[DONE]'' @ [C_LF, C_LF]"

definition demo_stream_lib :: curl_lib where
  "demo_stream_lib =
     demo_lib\<lparr>curl_net := (\<lambda>opts. \<lparr>cr_chunks = [take 9 demo_stream_body, drop 9 demo_stream_body],
        cr_code = CURLE_OK, cr_status = 200\<rparr>)\<rparr>"

definition demo_callbacks :: llm_stream_callbacks where
  "demo_callbacks = \<lparr>sk_content_delta = True, sk_reasoning_delta = False, sk_tool_args_fragment = False,
     sk_tool_call_delta = False, sk_tool_args_complete = False, sk_usage = False, sk_finish_reason = False,
     sk_include_usage = False\<rparr>"

theorem chat_stream_faithful_witness:
  "\<exists>client1 detail1 base opts sc.
    llm_chat_stream_with_headers_choice_ex (\<lambda>n. True) True demo_stream_lib demo_client [] None None None 0
      (Some demo_callbacks) None (HNull 0) None = Some (LLM_ERR_NONE, client1, detail1, [OnContentDelta [0x78]]) \<and>
    cl_base_url demo_client = Some base \<and> co_url opts = call_url base ''/v1/chat/completions'' \<and>
    sc = chat_events (stream_ctx_init (\<lambda>n. True) (Some demo_callbacks) 0
           (lm_max_tool_args_bytes_per_call (cl_limits demo_client)) (sk_include_usage demo_callbacks) None)
           (spec_events (concat (cr_chunks (curl_net demo_stream_lib opts)))) \<and>
    [OnContentDelta [0x78]] = sx_calls (snd (stream_finish True sc))"
proof -
  have v: "(case llm_chat_stream_with_headers_choice_ex (\<lambda>n. True) True demo_stream_lib demo_client [] None None None 0
      (Some demo_callbacks) None (HNull 0) None of
      Some (LLM_ERR_NONE, _, _, calls) \<Rightarrow> calls = [OnContentDelta [0x78]] | _ \<Rightarrow> False)"
    by code_simp
  then obtain c1 d1 where c: "llm_chat_stream_with_headers_choice_ex (\<lambda>n. True) True demo_stream_lib demo_client []
      None None None 0 (Some demo_callbacks) None (HNull 0) None =
      Some (LLM_ERR_NONE, c1, d1, [OnContentDelta [0x78]])"
    by (auto split: option.splits prod.splits llm_error.splits)
  from chat_stream_faithful [OF c] c show ?thesis by blast
qed

text \<open>
  The array of accumulators is grown to the index of a delta plus one, whatever the index: for an
  index that the tokenizer accepts, the size computed for \<open>realloc\<close> wraps to 40 bytes, less
  than one accumulator, and the loop that follows writes outside.
\<close>

theorem tool_index_overflows:
  "329406144173384850 \<le> (2 ^ 63 - 1 :: nat) \<and> (329406144173384850 + 1) * ACCUM_SIZE mod 2 ^ 64 = 40 \<and>
   sx_undefined (snd (grow_accums (stream_ctx_init alloc cbs ci m u abort_cb) 329406144173384850))"
  by (simp add: grow_accums_def stream_ctx_init_def ACCUM_SIZE_def SIZE_MAX_def)

end
