(* ===== verification/ToolLoopGuard.thy ===== *)
theory ToolLoopGuard
  imports ToolLoop
begin

text \<open>
  The guard of the tool loop against repetition. Its interface is a locale: something that
  answers whether an entry is among the last few it was shown. The ring buffer of the code is its
  model. The hash that is shown to it is that of a byte string from which the turn
  can be read back.
\<close>

section \<open>A window of recent entries\<close>

definition lastn :: "nat \<Rightarrow> 'a list \<Rightarrow> 'a list" where
  "lastn n xs = drop (length xs - n) xs"

lemma lastn_snoc: "lastn n (lastn n xs @ [x]) = lastn n (xs @ [x])"
  by (cases "length xs \<le> n") (auto simp: lastn_def Suc_diff_le)

text \<open>Showing a list of entries one after the other, until one is refused.\<close>

fun admit :: "('s \<Rightarrow> 'h \<Rightarrow> bool \<times> 's) \<Rightarrow> 's \<Rightarrow> 'h list \<Rightarrow> 's option" where
  "admit seen s [] = Some s"
| "admit seen s (h # hs) = (case seen s h of (b, s1) \<Rightarrow> if b then None else admit seen s1 hs)"

lemma admit_append:
  "admit seen s (xs @ ys) = (case admit seen s xs of None \<Rightarrow> None | Some s1 \<Rightarrow> admit seen s1 ys)"
  by (induction xs arbitrary: s) (auto split: prod.split)

text \<open>No entry occurs among the \<open>w\<close> before it.\<close>

definition window_free :: "nat \<Rightarrow> 'h list \<Rightarrow> bool" where
  "window_free w hs \<longleftrightarrow> (\<forall>j < length hs. hs ! j \<notin> set (lastn w (take j hs)))"

lemma window_free_snoc: "window_free w (hs @ [h]) \<longleftrightarrow> window_free w hs \<and> h \<notin> set (lastn w hs)"
  by (auto simp: window_free_def nth_append less_Suc_eq)

locale recent_window =
  fixes seen :: "'s \<Rightarrow> 'h \<Rightarrow> bool \<times> 's" and recent :: "'s \<Rightarrow> 'h list" and ok :: "'s \<Rightarrow> bool" and w :: nat
  assumes seen_iff: "ok s \<Longrightarrow> fst (seen s h) \<longleftrightarrow> h \<in> set (recent s)"
    and seen_new: "ok s \<Longrightarrow> seen s h = (False, s1) \<Longrightarrow> ok s1 \<and> recent s1 = lastn w (recent s @ [h])"
begin

lemma admit_recent: "admit seen s hs = Some s1 \<Longrightarrow> ok s \<Longrightarrow> recent s = [] \<Longrightarrow> ok s1 \<and> recent s1 = lastn w hs"
proof (induction hs arbitrary: s1 rule: rev_induct)
  case Nil
  then show ?case by (simp add: lastn_def)
next
  case (snoc h hs)
  then obtain s2 where a: "admit seen s hs = Some s2" "seen s2 h = (False, s1)"
    by (auto simp: admit_append split: option.splits prod.splits if_splits)
  with snoc have "ok s2" "recent s2 = lastn w hs" by blast+
  with seen_new [OF _ a(2)] show ?case by (simp add: lastn_snoc)
qed

lemma admit_iff: "ok s \<Longrightarrow> recent s = [] \<Longrightarrow> admit seen s hs \<noteq> None \<longleftrightarrow> window_free w hs"
proof (induction hs rule: rev_induct)
  case Nil
  show ?case by (simp add: window_free_def)
next
  case (snoc h hs)
  show ?case
  proof (cases "admit seen s hs")
    case None
    with snoc show ?thesis by (auto simp: admit_append window_free_snoc)
  next
    case (Some s1)
    with snoc.prems have r: "ok s1" "recent s1 = lastn w hs" using admit_recent by blast+
    have "admit seen s (hs @ [h]) \<noteq> None \<longleftrightarrow> \<not> fst (seen s1 h)"
      using Some by (auto simp: admit_append split: prod.split)
    with snoc Some seen_iff [OF r(1)] r(2) show ?thesis by (simp add: window_free_snoc)
  qed
qed

end

section \<open>The ring buffer\<close>

definition guard_ok :: "tool_loop_guard \<Rightarrow> bool" where
  "guard_ok g \<longleftrightarrow> length (recent_hashes g) = 8 \<and> recent_pos g < 8 \<and>
     (recent_count g = 8 \<or> recent_count g = recent_pos g)"

definition guard_recent :: "tool_loop_guard \<Rightarrow> 64 word list" where
  "guard_recent g =
     (if recent_count g = 8 then drop (recent_pos g) (recent_hashes g) @ take (recent_pos g) (recent_hashes g)
      else take (recent_count g) (recent_hashes g))"

lemma ring_store:
  assumes "length xs = n" "p < n"
  shows "drop (Suc p) (xs[p := h]) @ take (Suc p) (xs[p := h]) = tl (drop p xs @ take p xs) @ [h]"
proof -
  have "drop p xs = xs ! p # drop (Suc p) xs" using assms by (simp add: Cons_nth_drop_Suc)
  then show ?thesis using assms by (simp add: take_Suc_conv_app_nth)
qed

interpretation guard_window: recent_window tool_loop_guard_seen guard_recent guard_ok 8
proof
  fix g :: tool_loop_guard and h
  assume ok: "guard_ok g"
  have "set (take (recent_count g) (recent_hashes g)) = set (guard_recent g)"
    using ok arg_cong [OF append_take_drop_id [of "recent_pos g" "recent_hashes g"], of set]
    by (auto simp: guard_recent_def guard_ok_def simp del: append_take_drop_id)
  then show "fst (tool_loop_guard_seen g h) \<longleftrightarrow> h \<in> set (guard_recent g)"
    by (auto simp: tool_loop_guard_seen_def Let_def list_ex_iff)
next
  fix g g1 :: tool_loop_guard and h
  assume ok: "guard_ok g" and s: "tool_loop_guard_seen g h = (False, g1)"
  let ?xs = "recent_hashes g" and ?p = "recent_pos g"
  have l: "length ?xs = 8" "?p < 8" using ok by (simp_all add: guard_ok_def)
  have g1: "recent_hashes g1 = ?xs[?p := h]" "recent_pos g1 = Suc ?p mod 8"
    "recent_count g1 = (if recent_count g < 8 then Suc (recent_count g) else recent_count g)"
    using s by (auto simp: tool_loop_guard_seen_def Let_def TOOL_LOOP_HASH_WINDOW_def split: if_splits)
  have ok1: "guard_ok g1" using ok g1 by (cases "Suc ?p = 8") (auto simp: guard_ok_def)
  moreover have "guard_recent g1 = lastn 8 (guard_recent g @ [h])"
  proof (cases "recent_count g = 8")
    case True
    then have "guard_recent g1 = drop (Suc ?p) (?xs[?p := h]) @ take (Suc ?p) (?xs[?p := h])"
      using g1 l by (cases "Suc ?p = 8") (simp_all add: guard_recent_def)
    then show ?thesis
      using ring_store [OF l] l True by (simp add: guard_recent_def lastn_def drop_Suc tl_drop)
  next
    case False
    then have p: "recent_count g = ?p" using ok by (simp add: guard_ok_def)
    have "guard_recent g1 = take (Suc ?p) (?xs[?p := h])"
      using g1 l p by (cases "Suc ?p = 8") (simp_all add: guard_recent_def)
    also have "\<dots> = take ?p ?xs @ [h]" using l by (simp add: take_Suc_conv_app_nth take_update_cancel)
    finally show ?thesis using False p l by (simp add: guard_recent_def lastn_def)
  qed
  ultimately show "guard_ok g1 \<and> guard_recent g1 = lastn 8 (guard_recent g @ [h])" by blast
qed

lemma guard_init: "guard_ok tool_loop_guard_init" "guard_recent tool_loop_guard_init = []"
  by (simp_all add: guard_ok_def guard_recent_def tool_loop_guard_init_def TOOL_LOOP_HASH_WINDOW_def)

text \<open>
  C37: the guard of the tool loop, a ring buffer of eight hashes, lets a run of turns pass exactly
  when no hash is equal to one of the eight before it.
\<close>

theorem guard_admits_iff:
  "admit tool_loop_guard_seen tool_loop_guard_init hs \<noteq> None \<longleftrightarrow> window_free 8 hs"
  by (rule guard_window.admit_iff [OF guard_init])

section \<open>The bytes of a turn\<close>

definition le64 :: "nat \<Rightarrow> byte list" where
  "le64 n = map (\<lambda>i. ucast (drop_bit (8 * i) (word_of_nat n :: 64 word))) [0..<8]"

definition field_bytes :: "byte list option \<Rightarrow> byte list" where
  "field_bytes sp = le64 (length (span_bytes sp)) @ span_bytes sp"

definition turn_bytes :: "llm_chat_choice \<Rightarrow> byte list" where
  "turn_bytes r =
     le64 (length (ch_tool_calls r)) @
     concat (map (\<lambda>tc. field_bytes (tc_name tc) @ field_bytes (tc_arguments tc)) (ch_tool_calls r)) @
     field_bytes (ch_content r) @ field_bytes (ch_reasoning_content r)"

lemma hash_bytes_append: "tool_loop_hash_bytes h (xs @ ys) = tool_loop_hash_bytes (tool_loop_hash_bytes h xs) ys"
  by (induction xs arbitrary: h) auto

lemma low_byte: "and v 0xff = (ucast (ucast v :: byte) :: 64 word)"
proof -
  have "and v (mask 8) = (ucast (ucast v :: byte) :: 64 word)"
    by (rule bit_word_eqI) (auto simp: bit_simps)
  then show ?thesis by (simp add: mask_eq_exp_minus_1)
qed

lemma hash_u64_loop_bytes:
  "hash_u64_loop k h v = tool_loop_hash_bytes h (map (\<lambda>i. ucast (drop_bit (8 * i) v)) [0..<k])"
proof (induction k arbitrary: h v)
  case (Suc k)
  have "map (\<lambda>i. ucast (drop_bit (8 * i) v) :: byte) [0..<Suc k] =
      ucast v # map (\<lambda>i. ucast (drop_bit (8 * i) (drop_bit 8 v))) [0..<k]"
    by (simp add: upt_conv_Cons add.commute flip: map_Suc_upt del: upt_Suc)
  then show ?case using Suc by (simp add: low_byte)
qed simp

lemma hash_u64_le64: "tool_loop_hash_u64 h (word_of_nat n) = tool_loop_hash_bytes h (le64 n)"
  unfolding tool_loop_hash_u64_def le64_def by (rule hash_u64_loop_bytes)

lemma hash_field_bytes: "hash_field h sp = tool_loop_hash_bytes h (field_bytes sp)"
  by (simp add: hash_field_def Let_def field_bytes_def hash_u64_le64 hash_bytes_append)

lemma hash_tool_calls_bytes:
  "hash_tool_calls h tcs =
     tool_loop_hash_bytes h (concat (map (\<lambda>tc. field_bytes (tc_name tc) @ field_bytes (tc_arguments tc)) tcs))"
  by (induction tcs arbitrary: h) (simp_all add: hash_field_bytes hash_bytes_append)

lemma tool_loop_hash_turn_bytes: "tool_loop_hash_turn r = tool_loop_hash_bytes FNV_BASIS (turn_bytes r)"
  by (simp add: tool_loop_hash_turn_def turn_bytes_def hash_u64_le64 hash_tool_calls_bytes hash_field_bytes
      hash_bytes_append)

lemma length_le64 [simp]: "length (le64 n) = 8"
  by (simp add: le64_def)

lemma le64_inj:
  assumes "le64 n = le64 m" "n < 2 ^ 64" "m < 2 ^ 64" shows "n = m"
proof -
  have "bit (word_of_nat n :: 64 word) j = bit (word_of_nat m :: 64 word) j" if "j < 64" for j
  proof -
    have b: "(ucast (drop_bit (8 * (j div 8)) (word_of_nat n :: 64 word)) :: byte) =
        ucast (drop_bit (8 * (j div 8)) (word_of_nat m :: 64 word))"
    proof -
      have "le64 k ! (j div 8) = ucast (drop_bit (8 * (j div 8)) (word_of_nat k :: 64 word))" for k
        using that by (simp add: le64_def nth_map nth_upt less_mult_imp_div_less del: upt_rec_numeral)
      then show ?thesis using assms(1) by metis
    qed
    have "bit (ucast (drop_bit (8 * (j div 8)) w) :: byte) (j mod 8) = bit w j" for w :: "64 word"
      by (simp add: bit_simps)
    with b show ?thesis by metis
  qed
  then have "(word_of_nat n :: 64 word) = word_of_nat m" by (intro bit_word_eqI) simp
  then have "unat (word_of_nat n :: 64 word) = unat (word_of_nat m :: 64 word)" by simp
  with assms(2,3) show ?thesis by (simp add: unat_of_nat)
qed

text \<open>Two byte strings that start with the same fields go on with the same bytes.\<close>

lemma field_bytes_inj:
  assumes "field_bytes a @ xs = field_bytes b @ ys" "length (span_bytes a) < 2 ^ 64" "length (span_bytes b) < 2 ^ 64"
  shows "span_bytes a = span_bytes b \<and> xs = ys"
proof -
  have "le64 (length (span_bytes a)) = le64 (length (span_bytes b))"
    and r: "span_bytes a @ xs = span_bytes b @ ys"
    using assms(1) by (simp_all add: field_bytes_def)
  then have "length (span_bytes a) = length (span_bytes b)" using le64_inj assms(2,3) by blast
  with r show ?thesis by simp
qed

definition turn_calls :: "llm_chat_choice \<Rightarrow> (byte list \<times> byte list) list" where
  "turn_calls r = map (\<lambda>tc. (span_bytes (tc_name tc), span_bytes (tc_arguments tc))) (ch_tool_calls r)"

definition turn_fits :: "llm_chat_choice \<Rightarrow> bool" where
  "turn_fits r \<longleftrightarrow> length (ch_tool_calls r) < 2 ^ 64 \<and>
     list_all (\<lambda>tc. length (span_bytes (tc_name tc)) < 2 ^ 64 \<and> length (span_bytes (tc_arguments tc)) < 2 ^ 64)
       (ch_tool_calls r) \<and>
     length (span_bytes (ch_content r)) < 2 ^ 64 \<and> length (span_bytes (ch_reasoning_content r)) < 2 ^ 64"

lemma calls_bytes_inj:
  assumes "concat (map (\<lambda>tc. field_bytes (tc_name tc) @ field_bytes (tc_arguments tc)) xs) @ us =
      concat (map (\<lambda>tc. field_bytes (tc_name tc) @ field_bytes (tc_arguments tc)) ys) @ vs"
    "length xs = length ys"
    "list_all (\<lambda>tc. length (span_bytes (tc_name tc)) < 2 ^ 64 \<and> length (span_bytes (tc_arguments tc)) < 2 ^ 64) (xs @ ys)"
  shows "map (\<lambda>tc. (span_bytes (tc_name tc), span_bytes (tc_arguments tc))) xs =
      map (\<lambda>tc. (span_bytes (tc_name tc), span_bytes (tc_arguments tc))) ys \<and> us = vs"
  using assms(2,1,3)
proof (induction xs ys rule: list_induct2)
  case (Cons x xs y ys)
  let ?f = "\<lambda>tc. field_bytes (tc_name tc) @ field_bytes (tc_arguments tc)"
  have "field_bytes (tc_name x) @ field_bytes (tc_arguments x) @ concat (map ?f xs) @ us =
      field_bytes (tc_name y) @ field_bytes (tc_arguments y) @ concat (map ?f ys) @ vs"
    using Cons.prems(1) by simp
  from field_bytes_inj [OF this] have n: "span_bytes (tc_name x) = span_bytes (tc_name y)"
    and "field_bytes (tc_arguments x) @ concat (map ?f xs) @ us = field_bytes (tc_arguments y) @ concat (map ?f ys) @ vs"
    using Cons.prems(2) by simp_all
  from field_bytes_inj [OF this(2)] have "span_bytes (tc_arguments x) = span_bytes (tc_arguments y)"
    "concat (map ?f xs) @ us = concat (map ?f ys) @ vs"
    using Cons.prems(2) by simp_all
  with n Cons.IH Cons.prems(2) show ?case by simp
qed simp

text \<open>
  The hash of a turn is the FNV hash of a byte string that determines the turn: turns with equal
  byte strings have the same names and arguments of their calls, the same content and the same
  reasoning, so that only a collision of the hash can stop a run that does not repeat itself.
\<close>

theorem turn_hash_exact:
  assumes "turn_fits r" "turn_fits s"
  shows "tool_loop_hash_turn r = tool_loop_hash_bytes FNV_BASIS (turn_bytes r) \<and>
    (turn_bytes r = turn_bytes s \<longleftrightarrow>
       turn_calls r = turn_calls s \<and> span_bytes (ch_content r) = span_bytes (ch_content s) \<and>
       span_bytes (ch_reasoning_content r) = span_bytes (ch_reasoning_content s))"
proof (intro conjI iffI)
  show "tool_loop_hash_turn r = tool_loop_hash_bytes FNV_BASIS (turn_bytes r)" by (rule tool_loop_hash_turn_bytes)
next
  assume e: "turn_bytes r = turn_bytes s"
  then have "le64 (length (ch_tool_calls r)) = le64 (length (ch_tool_calls s))"
    by (simp add: turn_bytes_def append_eq_append_conv)
  then have l: "length (ch_tool_calls r) = length (ch_tool_calls s)" using le64_inj assms by (simp add: turn_fits_def)
  note c = calls_bytes_inj [OF _ l]
  have "turn_calls r = turn_calls s \<and>
      field_bytes (ch_content r) @ field_bytes (ch_reasoning_content r) =
      field_bytes (ch_content s) @ field_bytes (ch_reasoning_content s)"
    unfolding turn_calls_def by (rule c) (use e l assms in \<open>simp_all add: turn_bytes_def turn_fits_def\<close>)
  then have t: "turn_calls r = turn_calls s" and f:
    "field_bytes (ch_content r) @ field_bytes (ch_reasoning_content r) =
      field_bytes (ch_content s) @ field_bytes (ch_reasoning_content s)" by blast+
  have b: "length (span_bytes (ch_content r)) < 2 ^ 64" "length (span_bytes (ch_content s)) < 2 ^ 64"
    "length (span_bytes (ch_reasoning_content r)) < 2 ^ 64" "length (span_bytes (ch_reasoning_content s)) < 2 ^ 64"
    using assms by (simp_all only: turn_fits_def)
  note g = field_bytes_inj [OF f b(1,2)]
  then have "field_bytes (ch_reasoning_content r) @ [] = field_bytes (ch_reasoning_content s) @ []" by simp
  from field_bytes_inj [OF this b(3,4)] g t show "turn_calls r = turn_calls s"
    "span_bytes (ch_content r) = span_bytes (ch_content s)"
    "span_bytes (ch_reasoning_content r) = span_bytes (ch_reasoning_content s)" by blast+
next
  assume e: "turn_calls r = turn_calls s \<and> span_bytes (ch_content r) = span_bytes (ch_content s) \<and>
    span_bytes (ch_reasoning_content r) = span_bytes (ch_reasoning_content s)"
  have "turn_bytes t = le64 (length (turn_calls t)) @
      concat (map (\<lambda>(n, a). le64 (length n) @ n @ le64 (length a) @ a) (turn_calls t)) @
      le64 (length (span_bytes (ch_content t))) @ span_bytes (ch_content t) @
      le64 (length (span_bytes (ch_reasoning_content t))) @ span_bytes (ch_reasoning_content t)" for t
    by (simp add: turn_bytes_def turn_calls_def field_bytes_def comp_def)
  with e show "turn_bytes r = turn_bytes s" by (simp only:)
qed

definition demo_turn :: "byte list \<Rightarrow> llm_chat_choice" where
  "demo_turn args =
     \<lparr>ch_finish_reason = LLM_FINISH_REASON_TOOL_CALLS, ch_content = None, ch_reasoning_content = None,
      ch_tool_calls = [\<lparr>tc_id = Some [0x31], tc_name = Some [0x66], tc_arguments = Some args\<rparr>],
      ch_tool_calls_json = Some (lit ''[]'')\<rparr>"

theorem turn_hash_exact_witness:
  "tool_loop_hash_turn (demo_turn [0x31]) = tool_loop_hash_bytes FNV_BASIS (turn_bytes (demo_turn [0x31])) \<and>
   turn_bytes (demo_turn [0x31]) \<noteq> turn_bytes (demo_turn [0x32])"
proof -
  have f: "turn_fits (demo_turn [b])" for b by (simp add: turn_fits_def demo_turn_def span_bytes_def)
  have "turn_calls (demo_turn [0x31]) \<noteq> turn_calls (demo_turn [0x32])"
    by (simp add: turn_calls_def demo_turn_def span_bytes_def)
  with turn_hash_exact [of "demo_turn [0x31]" "demo_turn [0x32]", OF f f] show ?thesis by blast
qed

end
