(* ===== verification/ChatText.thy ===== *)
theory ChatText
  imports ChatTree
begin

text \<open>
  The strings of a parsed answer are the insides of JSON strings, escapes and all: no NUL,
  no control character, no bare quote.
\<close>

fun strs_ok :: "byte list \<Rightarrow> jtree \<Rightarrow> bool" where
  "strs_ok json (JStr a b) = json_chars (slice json a b)"
| "strs_ok json (JPrim a b) = True"
| "strs_ok json (JArr a b ts) = list_all (strs_ok json) ts"
| "strs_ok json (JObj a b kvs) = list_all (\<lambda>kv. strs_ok json (snd kv)) kvs"

lemma jvalue_strs_ok:
  "jvalue json a b t \<Longrightarrow> strs_ok json t"
  "jelems json p q ts \<Longrightarrow> list_all (strs_ok json) ts"
  "jmembers json p q kvs \<Longrightarrow> list_all (\<lambda>kv. strs_ok json (snd kv)) kvs"
  by (induction rule: jvalue_jelems_jmembers.inducts) (simp_all add: jstring_def)

lemma jtop_strs_ok: "jtop json p q ts \<Longrightarrow> list_all (strs_ok json) ts"
  by (induction rule: jtop.induct) (auto dest: jvalue_strs_ok(1))

lemma strs_ok_get: "strs_ok json t \<Longrightarrow> tree_get json t key = Some v \<Longrightarrow> strs_ok json v"
proof -
  assume t: "strs_ok json t" "tree_get json t key = Some v"
  then obtain a b kvs kv where "t = JObj a b kvs" "find (key_is json key) kvs = Some kv" "v = snd kv"
    by (cases t) auto
  moreover from this(2) have "kv \<in> set kvs" by (auto simp: find_Some_iff)
  ultimately show ?thesis using t(1) by (simp add: list_all_iff)
qed

lemma strs_ok_parts:
  "strs_ok json t \<Longrightarrow> tree_obj json t key = Some v \<Longrightarrow> strs_ok json v"
  "strs_ok json t \<Longrightarrow> tree_arr json t key = Some ts \<Longrightarrow> list_all (strs_ok json) ts"
  "strs_ok json t \<Longrightarrow> tree_str json t key = Some s \<Longrightarrow> json_chars s"
proof -
  show "strs_ok json t \<Longrightarrow> tree_obj json t key = Some v \<Longrightarrow> strs_ok json v"
    by (auto simp: tree_obj_def dest: strs_ok_get split: option.splits if_splits)
  show "strs_ok json t \<Longrightarrow> tree_arr json t key = Some ts \<Longrightarrow> list_all (strs_ok json) ts"
  proof -
    assume "strs_ok json t" "tree_arr json t key = Some ts"
    then obtain v where "strs_ok json v" "arr_elems v = Some ts"
      by (auto simp: tree_arr_def dest: strs_ok_get split: option.splits)
    then show ?thesis by (cases v) simp_all
  qed
  show "strs_ok json t \<Longrightarrow> tree_str json t key = Some s \<Longrightarrow> json_chars s"
  proof -
    assume "strs_ok json t" "tree_str json t key = Some s"
    then obtain v where "strs_ok json v" "is_str v" "s = tree_text json v"
      by (auto simp: tree_str_def dest: strs_ok_get split: option.splits if_splits)
    then show ?thesis by (cases v) simp_all
  qed
qed

lemma tree_elems_Inr:
  "tree_elems f ts = Inr xs \<Longrightarrow> length xs = length ts \<and> (\<forall>x\<in>set xs. \<exists>t\<in>set ts. f t = Inr x)"
  by (induction ts arbitrary: xs) (auto split: if_splits sum.splits)

lemma tree_choice_ids:
  assumes "strs_ok json t" "tree_choice json t = Inr c" "tc \<in> set (ch_tool_calls c)" "tc_id tc = Some s"
  shows "json_chars s"
proof -
  obtain m tcs where m: "tree_obj json t (lit ''message'') = Some m"
    "tree_elems (\<lambda>c. Inr (tree_call json c))
       (case tree_arr json m (lit ''tool_calls'') of None \<Rightarrow> [] | Some cs \<Rightarrow> cs) = Inr tcs"
    "ch_tool_calls c = tcs"
    using assms(2) by (auto simp: tree_choice_def simp del: lit_Cons split: option.splits sum.splits)
  then obtain cs v where c: "tree_arr json m (lit ''tool_calls'') = Some cs" "v \<in> set cs" "tc = tree_call json v"
    using tree_elems_Inr [OF m(2)] assms(3) by (auto simp del: lit_Cons split: option.splits)
  have "strs_ok json v"
    using strs_ok_parts(2) [OF strs_ok_parts(1) [OF assms(1) m(1)] c(1)] c(2) by (simp add: list_all_iff)
  moreover have "tree_str json v (lit ''id'') = Some s" using assms(4) c(3) by (simp add: tree_call_def Let_def)
  ultimately show ?thesis by (rule strs_ok_parts(3))
qed

lemma parsed_ids:
  assumes "length json < 2 ^ 31" "parse_chat_response (\<lambda>n. True) json = Inr r" "tc \<in> set (ch_tool_calls (cr_first r))"
    "tc_id tc = Some s"
  shows "json_chars s"
proof -
  obtain toks where "tokenize (\<lambda>n. True) json = Inr toks"
    using assms(2) by (auto simp: parse_chat_response_def split: sum.splits)
  then obtain ts where d: "doc json ts" using tokenize_Inr [OF assms(1)] by blast
  then have "tree_response json ts = Inr r" using parse_chat_response_tree [OF d] assms(2) by simp
  then obtain t cs chs where t: "ts = t # tl ts" "tree_arr json t (lit ''choices'') = Some cs" "cs \<noteq> []"
    "tree_elems (tree_choice json) cs = Inr chs" "cr_first r = hd chs"
    by (auto simp: tree_response_def simp del: lit_Cons split: list.splits option.splits if_splits sum.splits)
  have "list_all (strs_ok json) ts" using d jtop_strs_ok by (auto simp: doc_def)
  then have "strs_ok json t" using t(1) by (cases ts) simp_all
  with strs_ok_parts(2) t(2) have cs: "list_all (strs_ok json) cs" by blast
  have "chs \<noteq> []" using tree_elems_Inr [OF t(4)] t(3) by auto
  then obtain c where "c \<in> set cs" "tree_choice json c = Inr (hd chs)" using tree_elems_Inr [OF t(4)] by force
  with tree_choice_ids [of json c "hd chs" tc s] cs assms(3,4) t(5) show ?thesis by (auto simp: list_all_iff)
qed

lemma json_chars_no_nul: "json_chars w \<Longrightarrow> C_NUL \<notin> set w"
proof (induction w rule: json_chars.induct)
  case (2 c cs)
  show ?case
  proof (cases "c = C_BSLASH")
    case False
    with 2 show ?thesis by auto
  next
    case True
    then obtain e es where es: "cs = e # es" using 2(4) by (cases cs) auto
    show ?thesis
    proof (cases "jstok_simple_escape e")
      case s: True
      then have "C_NUL \<notin> set es" using 2 True es by auto
      moreover have "e \<noteq> C_NUL" using s by (auto simp: jstok_simple_escape_def)
      ultimately show ?thesis using True es by auto
    next
      case False
      then have u: "e = 0x75" "list_all jstok_is_hex (take 4 es)" "json_chars (drop 4 es)" using 2(4) True es by auto
      have "C_NUL \<notin> set (take 4 es)"
        using u(2) by (auto simp: list_all_iff jstok_is_hex_def is_digit_def)
      moreover have "C_NUL \<notin> set (drop 4 es)" using 2(2) True es False u by auto
      ultimately have "C_NUL \<notin> set es" by (metis append_take_drop_id UnE set_append)
      then show ?thesis using True es u(1) by auto
    qed
  qed
qed simp

end
