(* ===== verification/ToolLoopProps.thy ===== *)
theory ToolLoopProps
  imports ToolLoopGuard ApiProps ChatText
begin

text \<open>
  What a run of the tool loop sends and when it ends. The conversation is a transition system: a
  step appends one answer that asked for tools and a result for each of its calls. Every run
  sends a chain of steps from the copy of the initial messages, within the limits, and ends
  after at most \<open>max_turns\<close> requests.
\<close>

section \<open>Conversations\<close>

text \<open>The message that records an answer, and the results of its calls in their order.\<close>

definition assistant_of :: "llm_chat_choice \<Rightarrow> llm_message" where
  "assistant_of r =
     \<lparr>msg_role = LLM_ROLE_ASSISTANT,
      msg_content = (if ch_content r = None \<and> ch_reasoning_content r = None then SNull 0
                     else SPtr (span_bytes (ch_content r) @ span_bytes (ch_reasoning_content r))),
      msg_tool_call_id = SNull 0, msg_name = SNull 0,
      msg_tool_calls_json = SPtr (span_bytes (ch_tool_calls_json r)), msg_content_json = SNull 0\<rparr>"

definition result_of :: "llm_tool_call \<Rightarrow> byte list \<Rightarrow> llm_message" where
  "result_of tc out =
     \<lparr>msg_role = LLM_ROLE_TOOL, msg_content = SPtr out, msg_tool_call_id = span_of (tc_id tc),
      msg_name = SNull 0, msg_tool_calls_json = SNull 0, msg_content_json = SNull 0\<rparr>"

text \<open>
  One turn that ran its tools: from a conversation and the bytes of all results so far to the
  next, for the answer \<open>r\<close> and the outputs of its calls, within the limit on the outputs.
\<close>

inductive conv_step ::
  "nat \<Rightarrow> llm_chat_choice \<Rightarrow> llm_message list \<times> nat \<Rightarrow> llm_message list \<times> nat \<Rightarrow> bool" for lim where
  conv_step:
    "ch_finish_reason r = LLM_FINISH_REASON_TOOL_CALLS \<Longrightarrow> ch_tool_calls r \<noteq> [] \<Longrightarrow>
     span_bytes (ch_tool_calls_json r) \<noteq> [] \<Longrightarrow> length outs = length (ch_tool_calls r) \<Longrightarrow>
     n1 = n + length (concat outs) \<Longrightarrow> lim = 0 \<or> n1 \<le> lim \<Longrightarrow>
     conv_step lim r (h, n) (h @ assistant_of r # map2 result_of (ch_tool_calls r) outs, n1)"

text \<open>The conversations sent from a point on, with the answers that were acted on.\<close>

inductive sent_chain ::
  "nat \<Rightarrow> llm_message list \<times> nat \<Rightarrow> llm_message list list \<Rightarrow> llm_chat_choice list \<Rightarrow> bool" for lim where
  sent_none: "sent_chain lim (h, n) [] []"
| sent_last: "sent_chain lim (h, n) [h] []"
| sent_more: "conv_step lim r (h, n) s \<Longrightarrow> sent_chain lim s hs rs \<Longrightarrow> sent_chain lim (h, n) (h # hs) (r # rs)"

lemma assistant_msg_of:
  "assistant_msg alloc r (span_bytes (ch_tool_calls_json r)) = Some am \<Longrightarrow> am = assistant_of r"
  by (auto simp: assistant_msg_def assistant_of_def Let_def split: if_splits)

lemma copy_string_Done: "copy_string alloc (SPtr bs) = Done c \<Longrightarrow> c = SPtr bs"
  by (auto simp: copy_string_def strdup_span_z_def split: if_splits)

lemma tool_msg_of: "tool_msg alloc z tc out = Done m \<Longrightarrow> m = result_of tc out"
  by (auto simp: tool_msg_def result_of_def span_of_def dest: copy_string_Done
      split: option.splits if_splits outcome.splits)

lemma run_tools_Done:
  "run_tools alloc mx z f tcs msgs total0 d = (Done (msgs1, total1), d1) \<Longrightarrow>
     \<exists>outs. length outs = length tcs \<and> msgs1 = msgs @ map2 result_of tcs outs \<and>
       total1 = total0 + length (concat outs) \<and> (mx = 0 \<or> tcs = [] \<or> total1 \<le> mx)"
proof (induction tcs arbitrary: msgs total0 d)
  case Nil
  then show ?case by simp
next
  case (Cons tc tcs)
  from Cons.prems obtain d2 out m where
    s: "run_tools alloc mx z f tcs (msgs @ [m]) (total0 + length out) d2 = (Done (msgs1, total1), d1)"
    and m: "tool_msg alloc z tc out = Done m" and b: "mx = 0 \<or> total0 + length out \<le> mx"
    by (auto split: prod.splits if_splits option.splits outcome.splits simp: not_less)
  from Cons.IH [OF s] obtain outs where o: "length outs = length tcs"
    "msgs1 = (msgs @ [m]) @ map2 result_of tcs outs" "total1 = total0 + length out + length (concat outs)"
    "mx = 0 \<or> tcs = [] \<or> total1 \<le> mx" by blast
  then show ?case
    using tool_msg_of [OF m] b by (intro exI [of _ "out # outs"]) auto
qed

section \<open>Turns\<close>

text \<open>A call changes nothing of the handle but its last error.\<close>

definition same_handle :: "llm_client \<Rightarrow> llm_client \<Rightarrow> bool" where
  "same_handle c d \<longleftrightarrow> cl_base_url d = cl_base_url c \<and> cl_model_name d = cl_model_name c \<and> cl_limits d = cl_limits c"

lemma same_handle_refl [simp]: "same_handle c c" and same_handle_trans: "same_handle a b \<Longrightarrow> same_handle b c \<Longrightarrow> same_handle a c"
  by (simp_all add: same_handle_def)

lemma same_handle_reset [simp]: "same_handle c (last_error_reset c)"
  by (simp add: same_handle_def last_error_reset_def)

lemma same_handle_capture: "same_handle c (fst (error_detail_capture alloc c d code st http body pe))"
  by (auto simp: same_handle_def error_detail_capture_def Let_def split: option.split)

lemma same_handle_fail: "api_fail alloc c d st http body pe = Some (err, c1, d1, v) \<Longrightarrow> same_handle c c1"
  using same_handle_capture [of c alloc d LLM_ERR_FAILED st http body pe]
  by (auto simp: api_fail_def split: prod.splits)

lemma same_handle_post:
  "api_post alloc lib c d url req hs parse = Some (err, c1, d1, v) \<Longrightarrow> same_handle c c1"
  by (auto simp: api_post_def dest: same_handle_fail split: option.splits if_splits sum.splits)

lemma same_handle_chat:
  assumes "llm_chat_with_headers alloc lib c ms pj tj rj hs = Some (ok, c1, v)" shows "same_handle c c1"
proof -
  have "api_reset c None = (last_error_reset c, None)" by (simp add: api_reset_def)
  with assms have "same_handle (last_error_reset c) c1"
    by (auto simp: llm_chat_with_headers_def llm_chat_with_headers_ex_def
        dest: same_handle_fail same_handle_post split: option.splits if_splits)
  then show ?thesis by (rule same_handle_trans [OF same_handle_reset])
qed

lemma answer_turn_next:
  assumes "answer_turn args final st r z = TurnNext st1"
  shows "conv_step (lm_max_tool_output_bytes_total (cl_limits (tl_client st))) r
      (tl_history st, tl_output_total st) (tl_history st1, tl_output_total st1)"
    "tool_loop_guard_seen (tl_guard st) (tool_loop_hash_turn r) = (False, tl_guard st1)"
    "tl_client st1 = tl_client st" "tl_sent st1 = tl_sent st" "\<not> final"
proof -
  let ?lim = "lm_max_tool_output_bytes_total (cl_limits (tl_client st))"
  have g: "ch_finish_reason r = LLM_FINISH_REASON_TOOL_CALLS" "ch_tool_calls r \<noteq> []"
    "span_bytes (ch_tool_calls_json r) \<noteq> []" "\<not> final"
    using assms by (auto simp: answer_turn_def Let_def split: if_splits)
  obtain guard am msgs total1 d where t:
    "tool_loop_guard_seen (tl_guard st) (tool_loop_hash_turn r) = (False, guard)"
    "assistant_msg (la_alloc args) r (span_bytes (ch_tool_calls_json r)) = Some am"
    "run_tools (la_alloc args) ?lim z (la_dispatch args) (ch_tool_calls r) [] (tl_output_total st) (tl_user st) =
      (Done (msgs, total1), d)"
    "st1 = st\<lparr>tl_guard := guard, tl_user := d, tl_history := tl_history st @ am # msgs, tl_output_total := total1\<rparr>"
    using assms by (auto simp: answer_turn_def Let_def split: if_splits prod.splits option.splits outcome.splits)
  obtain outs where o: "length outs = length (ch_tool_calls r)" "msgs = map2 result_of (ch_tool_calls r) outs"
    "total1 = tl_output_total st + length (concat outs)" "?lim = 0 \<or> total1 \<le> ?lim"
    using run_tools_Done [OF t(3)] g(2) by auto
  show "conv_step ?lim r (tl_history st, tl_output_total st) (tl_history st1, tl_output_total st1)"
    using conv_step.intros [OF g(1-3) o(1,3,4)] t(4) assistant_msg_of [OF t(2)] o(2) by simp
  show "tool_loop_guard_seen (tl_guard st) (tool_loop_hash_turn r) = (False, tl_guard st1)"
    "tl_client st1 = tl_client st" "tl_sent st1 = tl_sent st" "\<not> final"
    using t(1,4) g(4) by simp_all
qed

lemma answer_turn_stop:
  "answer_turn args final st r z = TurnStop err st1 \<Longrightarrow> tl_sent st1 = tl_sent st"
  by (auto simp: answer_turn_def Let_def split: if_splits prod.splits option.splits outcome.splits)

lemma tool_turn_next:
  assumes "tool_turn args final st = TurnNext st1"
  obtains r where
    "conv_step (lm_max_tool_output_bytes_total (cl_limits (tl_client st))) r
      (tl_history st, tl_output_total st) (tl_history st1, tl_output_total st1)"
    "tool_loop_guard_seen (tl_guard st) (tool_loop_hash_turn r) = (False, tl_guard st1)"
    "same_handle (tl_client st) (tl_client st1)" "tl_sent st1 = tl_sent st @ [tl_history st]" "\<not> final"
proof -
  define st0 where "st0 = (if la_abort_cb args = None then st else st\<lparr>tl_polls := tl_polls st + 1\<rparr>)"
  have s0: "tl_client st0 = tl_client st" "tl_history st0 = tl_history st" "tl_sent st0 = tl_sent st"
    "tl_guard st0 = tl_guard st" "tl_output_total st0 = tl_output_total st" by (simp_all add: st0_def)
  obtain ok client result body z where c:
    "llm_chat_with_headers (la_alloc args) (la_lib args) (tl_client st0) (tl_history st0) (la_params_json args)
       (la_tooling_json args) (la_response_format_json args) (la_headers args) =
       Some (ok, client, Some (result, body, z))"
    "answer_turn args final (st0\<lparr>tl_client := client, tl_sent := tl_sent st0 @ [tl_history st0]\<rparr>)
       (cr_first result) z = TurnNext st1"
    using assms by (auto simp: tool_turn_def Let_def st0_def [symmetric] split: if_splits option.splits prod.splits)
  note n = answer_turn_next [OF c(2)]
  have h: "same_handle (tl_client st) client" using same_handle_chat [OF c(1)] s0 by simp
  show thesis
    by (rule that [of "cr_first result"]) (use n h s0 in \<open>simp_all add: same_handle_def\<close>)
qed

lemma tool_turn_stop:
  assumes "tool_turn args final st = TurnStop err st1"
  shows "tl_sent st1 = tl_sent st \<or> tl_sent st1 = tl_sent st @ [tl_history st]"
  using assms
  by (auto simp: tool_turn_def Let_def dest!: answer_turn_stop split: if_splits option.splits prod.splits)

section \<open>Runs\<close>

lemma tool_turns_chain:
  assumes "tool_turns args n st = Some (err, st1)" "lm_max_tool_output_bytes_total (cl_limits (tl_client st)) = lim"
  shows "\<exists>hs rs. tl_sent st1 = tl_sent st @ hs \<and> length hs \<le> n \<and>
    sent_chain lim (tl_history st, tl_output_total st) hs rs \<and>
    admit tool_loop_guard_seen (tl_guard st) (map tool_loop_hash_turn rs) \<noteq> None"
  using assms
proof (induction n arbitrary: st)
  case 0
  then show ?case by (intro exI [of _ "[]"]) (auto intro: sent_chain.intros)
next
  case (Suc n)
  show ?case
  proof (cases "tool_turn args (n = 0) st")
    case TurnUndefined
    with Suc.prems show ?thesis by simp
  next
    case (TurnStop e s)
    with Suc.prems have "s = st1" by simp
    with tool_turn_stop [OF TurnStop] show ?thesis
    proof (elim disjE)
      assume "tl_sent s = tl_sent st"
      then show ?thesis using \<open>s = st1\<close> by (intro exI [of _ "[]"]) (auto intro: sent_chain.intros)
    next
      assume "tl_sent s = tl_sent st @ [tl_history st]"
      then show ?thesis using \<open>s = st1\<close>
        by (intro exI [of _ "[tl_history st]"] exI [of _ "[]"]) (auto intro: sent_chain.intros)
    qed
  next
    case (TurnNext s)
    then obtain r where r: "conv_step lim r (tl_history st, tl_output_total st) (tl_history s, tl_output_total s)"
      "tool_loop_guard_seen (tl_guard st) (tool_loop_hash_turn r) = (False, tl_guard s)"
      "same_handle (tl_client st) (tl_client s)" "tl_sent s = tl_sent st @ [tl_history st]"
      using Suc.prems(2) by (auto elim: tool_turn_next)
    have "tool_turns args n s = Some (err, st1)" using Suc.prems(1) TurnNext by simp
    from Suc.IH [OF this] r(3) Suc.prems(2) obtain hs rs where i: "tl_sent st1 = tl_sent s @ hs" "length hs \<le> n"
      "sent_chain lim (tl_history s, tl_output_total s) hs rs"
      "admit tool_loop_guard_seen (tl_guard s) (map tool_loop_hash_turn rs) \<noteq> None"
      by (auto simp: same_handle_def)
    show ?thesis
      using i r sent_more [OF r(1) i(3)]
      by (intro exI [of _ "tl_history st # hs"] exI [of _ "r # rs"]) simp
  qed
qed

text \<open>The copy of a message: what the loop keeps of it.\<close>

definition kept :: "cspan \<Rightarrow> cspan" where
  "kept sp = (if sp_null sp then SNull 0 else sp)"

definition copied :: "llm_message \<Rightarrow> llm_message" where
  "copied m = m\<lparr>msg_content := kept (msg_content m), msg_tool_call_id := kept (msg_tool_call_id m),
     msg_tool_calls_json := (if sp_bytes (msg_tool_calls_json m) = [] then SNull 0 else msg_tool_calls_json m),
     msg_content_json := kept (msg_content_json m)\<rparr>"

lemma copy_string_kept: "copy_string alloc sp = Done c \<Longrightarrow> c = kept sp"
  by (cases sp) (auto simp: copy_string_def strdup_span_z_def kept_def split: if_splits)

lemma copy_message_copied: "copy_message alloc m = Done c \<Longrightarrow> c = copied m"
  by (cases "msg_tool_calls_json m")
    (auto simp: copy_message_def copied_def kept_def Let_def dest!: copy_string_kept split: if_splits outcome.splits)

lemma copy_messages_copied: "copy_messages alloc ms = Done cs \<Longrightarrow> cs = map copied ms"
  by (induction ms arbitrary: cs) (auto dest: copy_message_copied split: outcome.splits)


section \<open>The loop ends\<close>

text \<open>What the loop needs to be defined: a handle that is set up, a limit on responses, and strings.\<close>

definition chat_ready :: "curl_lib \<Rightarrow> llm_client \<Rightarrow> bool" where
  "chat_ready lib c \<longleftrightarrow> curl_init lib \<and> cl_base_url c \<noteq> None \<and> cl_model_name c \<noteq> None \<and>
     0 < lm_max_response_bytes (cl_limits c) \<and> lm_max_response_bytes (cl_limits c) < 2 ^ 31"

lemma chat_ready_same: "same_handle c d \<Longrightarrow> chat_ready lib c \<Longrightarrow> chat_ready lib d"
  by (simp add: chat_ready_def same_handle_def)

lemma http_post_terminated:
  assumes "http_post (\<lambda>n. True) lib url json tmo m hs tls px npx = Some r" "hr_success r" "hr_body r = Some body"
    "0 < m" "m < 2 ^ 31"
  shows "hr_terminated r \<and> length body \<le> m"
proof (cases "apply_tls_config lib (curl_opts_init url) tls")
  case None
  with assms(1,2) show ?thesis by (auto simp: http_post_def tls_config_failed_def http_failed_def split: if_splits)
next
  case (Some opts)
  then obtain o1 where r: "r = perform_buffered (\<lambda>n. True) lib o1 m"
    using assms(1) by (auto simp: http_post_def Let_def split: if_splits)
  show ?thesis
    using assms(2-) unfolding r perform_buffered_exact
    by (auto simp: Let_def http_failed_def wrap64_def split: if_splits)
qed

lemma api_post_returns:
  assumes "chat_ready lib c" "cl_limits c1 = cl_limits c"
  shows "\<exists>err c2 d v. api_post (\<lambda>n. True) lib c1 d0 url req hs parse = Some (err, c2, d, v) \<and>
    (case v of None \<Rightarrow> True | Some (x, body, z) \<Rightarrow> z \<and> length body < 2 ^ 31 \<and> parse body = Inr x)"
proof -
  let ?m = "lm_max_response_bytes (cl_limits c1)"
  have f: "\<exists>err c2 d. api_fail alloc c1 d0 st n b pe = Some (err, c2, d, None)" for alloc st n b pe
    by (simp add: api_fail_def split: prod.split)
  show ?thesis
  proof (cases "llm_header_set_init (\<lambda>n. True) c1 hs")
    case None
    obtain err c2 d where "api_fail (\<lambda>n. True) c1 d0 LLM_ERROR_STAGE_PROTOCOL 0 None False = Some (err, c2, d, None :: ('a \<times> byte list \<times> bool) option)"
      using f by blast
    with None show ?thesis by (simp add: api_post_def)
  next
    case (Some h)
    let ?p = "http_post (\<lambda>n. True) lib url req (tm_overall_ms (cl_timeout c1)) ?m h
      (llm_client_tls_config c1) (cl_proxy_url c1) (cl_no_proxy c1)"
    obtain r where r: "?p = Some r"
      using assms(1) by (cases ?p) (auto simp: http_post_def chat_ready_def Let_def split: option.splits)
    show ?thesis
    proof (cases "hr_success r \<and> ts_http_status (hr_status r) < 400 \<and>
        (\<exists>body x. hr_body r = Some body \<and> parse body = Inr x)")
      case True
      then obtain body x where b: "hr_body r = Some body" "parse body = Inr x" by blast
      from http_post_terminated [OF r _ b(1)] True assms have "hr_terminated r \<and> length body < 2 ^ 31"
        by (auto simp: chat_ready_def)
      then show ?thesis using Some r True b by (simp add: api_post_def)
    next
      case False
      let ?fail = "api_fail (\<lambda>n. True) c1 d0"
      have "\<exists>st n b pe. api_post (\<lambda>n. True) lib c1 d0 url req hs parse = ?fail st n b pe"
      proof -
        consider "\<not> hr_success r" | "hr_success r" "ts_http_status (hr_status r) \<ge> 400"
          | "hr_success r" "\<not> ts_http_status (hr_status r) \<ge> 400" "hr_body r = None"
          | body e where "hr_success r" "\<not> ts_http_status (hr_status r) \<ge> 400" "hr_body r = Some body" "parse body = Inl e"
          using False by (cases "hr_body r"; cases "parse (the (hr_body r))") (auto simp: not_less)
        then show ?thesis
        proof cases
          case 1
          with Some r show ?thesis by (auto simp: api_post_def)
        next
          case 2
          with Some r show ?thesis by (auto simp: api_post_def)
        next
          case 3
          with Some r have "api_post (\<lambda>n. True) lib c1 d0 url req hs parse =
              ?fail (parse_stage (PErrJson JSTOK_ERROR_INVAL)) (ts_http_status (hr_status r)) None True"
            by (simp add: api_post_def)
          then show ?thesis by (intro exI)
        next
          case 4
          with Some r show ?thesis by (auto simp: api_post_def)
        qed
      qed
      then obtain st n b pe where e: "api_post (\<lambda>n. True) lib c1 d0 url req hs parse = ?fail st n b pe" by blast
      obtain err c2 d where "?fail st n b pe = Some (err, c2, d, None :: ('a \<times> byte list \<times> bool) option)"
        using f by blast
      with e show ?thesis by simp
    qed
  qed
qed

lemma chat_returns:
  assumes "chat_ready lib c"
  shows "\<exists>ok c2 v. llm_chat_with_headers (\<lambda>n. True) lib c ms pj tj rj hs = Some (ok, c2, v) \<and>
    (case v of None \<Rightarrow> True
     | Some (x, body, z) \<Rightarrow> z \<and> length body < 2 ^ 31 \<and> parse_chat_response (\<lambda>n. True) body = Inr x)"
proof -
  have l: "cl_limits (last_error_reset c) = cl_limits c" by (simp add: last_error_reset_def)
  obtain base model where m: "cl_base_url (last_error_reset c) = Some base" "cl_model_name (last_error_reset c) = Some model"
  proof -
    have "cl_base_url (last_error_reset c) = cl_base_url c" "cl_model_name (last_error_reset c) = cl_model_name c"
      by (simp_all add: last_error_reset_def)
    then show thesis using assms that by (auto simp: chat_ready_def)
  qed
  let ?b = "build_chat_request (\<lambda>n. True) (\<lambda>n. True) model ms False False pj tj rj (lm_max_content_parts (cl_limits c))
    (lm_max_content_bytes (cl_limits c))"
  show ?thesis
  proof (cases ?b)
    case None
    then show ?thesis
      using m l by (auto simp: llm_chat_with_headers_def llm_chat_with_headers_ex_def api_reset_def api_fail_def
          split: prod.split)
  next
    case (Some req)
    from api_post_returns [OF assms l, of None "call_url base ''/v1/chat/completions''" req hs
        "parse_chat_response (\<lambda>n. True)"] Some m l show ?thesis
      by (fastforce simp: llm_chat_with_headers_def llm_chat_with_headers_ex_def api_reset_def)
  qed
qed

lemma run_tools_defined:
  assumes "\<forall>tc\<in>set tcs. \<forall>s. tc_id tc = Some s \<longrightarrow> C_NUL \<notin> set s"
  shows "fst (run_tools (\<lambda>n. True) mx True f tcs msgs total0 d) \<noteq> Undefined"
  using assms
  by (induction tcs arbitrary: msgs total0 d)
    (auto simp: tool_msg_def copy_string_def strdup_span_z_def split: prod.splits option.splits outcome.splits)

lemma tool_turn_defined:
  assumes "la_alloc args = (\<lambda>n. True)" "chat_ready (la_lib args) (tl_client st)"
  shows "tool_turn args final st \<noteq> TurnUndefined"
proof -
  define st0 where "st0 = (if la_abort_cb args = None then st else st\<lparr>tl_polls := tl_polls st + 1\<rparr>)"
  have "chat_ready (la_lib args) (tl_client st0)" using assms(2) by (simp add: st0_def)
  from chat_returns [OF this, of "tl_history st0" "la_params_json args" "la_tooling_json args"
      "la_response_format_json args" "la_headers args"]
  obtain ok c2 v where c: "llm_chat_with_headers (la_alloc args) (la_lib args) (tl_client st0) (tl_history st0)
      (la_params_json args) (la_tooling_json args) (la_response_format_json args) (la_headers args) = Some (ok, c2, v)"
    and v: "case v of None \<Rightarrow> True
     | Some (x, body, z) \<Rightarrow> z \<and> length body < 2 ^ 31 \<and> parse_chat_response (\<lambda>n. True) body = Inr x"
    using assms(1) by auto
  have "answer_turn args final s (cr_first x) z \<noteq> TurnUndefined" if "v = Some (x, body, z)" for s x body z
  proof -
    have "z" "\<forall>tc\<in>set (ch_tool_calls (cr_first x)). \<forall>i. tc_id tc = Some i \<longrightarrow> C_NUL \<notin> set i"
      using v that parsed_ids json_chars_no_nul by auto
    then show ?thesis
      using run_tools_defined [of "ch_tool_calls (cr_first x)" "lm_max_tool_output_bytes_total (cl_limits (tl_client s))"
          "la_dispatch args" "[]" "tl_output_total s" "tl_user s"] assms(1)
      by (auto simp: answer_turn_def Let_def split: prod.splits option.splits outcome.splits)
  qed
  then show ?thesis
    using c by (auto simp: tool_turn_def Let_def st0_def [symmetric] split: option.splits)
qed

lemma tool_turns_defined:
  assumes "la_alloc args = (\<lambda>n. True)"
  shows "chat_ready (la_lib args) (tl_client st) \<Longrightarrow> tool_turns args n st \<noteq> None"
proof (induction n arbitrary: st)
  case (Suc n)
  show ?case
  proof (cases "tool_turn args (n = 0) st")
    case TurnUndefined
    with tool_turn_defined [OF assms Suc.prems] show ?thesis by simp
  next
    case (TurnNext s)
    then have "same_handle (tl_client st) (tl_client s)" by (auto elim: tool_turn_next)
    with Suc TurnNext chat_ready_same show ?thesis by simp
  qed simp
qed simp

definition no_nul :: "cspan \<Rightarrow> bool" where
  "no_nul sp \<longleftrightarrow> C_NUL \<notin> set (sp_bytes sp)"

lemma copy_messages_defined:
  assumes "list_all (\<lambda>m. no_nul (msg_content m) \<and> no_nul (msg_tool_call_id m)) ms"
  shows "copy_messages alloc ms \<noteq> Undefined"
proof -
  have "copy_string alloc sp \<noteq> Undefined" if "no_nul sp" for sp
    using that by (cases sp) (auto simp: copy_string_def strdup_span_z_def no_nul_def)
  then have "copy_message alloc m \<noteq> Undefined" if "no_nul (msg_content m)" "no_nul (msg_tool_call_id m)" for m
    using that by (auto simp: copy_message_def Let_def split: outcome.splits)
  with assms show ?thesis by (induction ms) (auto split: outcome.splits)
qed


definition demo_loop :: "nat tool_loop_args" where
  "demo_loop =
     \<lparr>la_alloc = (\<lambda>n. True), la_lib = demo_lib, la_params_json = None, la_tooling_json = None,
      la_response_format_json = None, la_dispatch = (\<lambda>d name args. (True, Some [], d + 1)), la_abort_cb = None,
      la_headers = HNull 0\<rparr>"


end
