(* ===== verification/ChatAnswer.thy ===== *)
theory ChatAnswer
  imports ToolLoopProps
begin

text \<open>
  What a chat call returns for a given reply of the server: the reading of the reply when there is
  one, an error otherwise, and always something.
\<close>

section \<open>The transfer\<close>

text \<open>A reply that the transport hands up.\<close>

definition reply_body :: "curl_run \<Rightarrow> byte list" where
  "reply_body reply = concat (cr_chunks reply)"

definition reply_good :: "nat \<Rightarrow> curl_run \<Rightarrow> bool" where
  "reply_good limit reply \<longleftrightarrow>
     cr_code reply = CURLE_OK \<and> cr_status reply < 400 \<and> length (reply_body reply) \<le> limit"

lemma apply_tls_config_some: "tls_key_password_cb tls = None \<Longrightarrow> apply_tls_config lib opts tls \<noteq> None"
  by (simp add: apply_tls_config_def Let_def)

text \<open>When every request for the URL gets the same reply, the buffered transfer is that reply.\<close>

lemma http_post_reply:
  assumes "curl_init lib" "tls_key_password_cb tls = None" "0 < m" "m < 2 ^ 31"
    "\<forall>opts. co_url opts = url \<longrightarrow> curl_net lib opts = reply"
  shows "\<exists>r. http_post (\<lambda>n. True) lib url json tmo m hs tls px npx = Some r \<and>
    (if cr_code reply = CURLE_OK \<and> length (reply_body reply) \<le> m
     then hr_success r \<and> hr_body r = Some (reply_body reply) \<and> hr_terminated r \<and>
       ts_http_status (hr_status r) = cr_status reply
     else \<not> hr_success r)"
proof -
  obtain opts where o: "apply_tls_config lib (curl_opts_init url) tls = Some opts"
    using apply_tls_config_some [OF assms(2)] by blast
  define o2 where "o2 = set_timeouts ((apply_proxy_config opts px npx)
      \<lparr>co_post := Some (c_string json), co_headers := content_type_json # hs\<rparr>) tmo"
  have "co_url o2 = url"
    using apply_tls_config_url [OF o] by (simp add: o2_def set_timeouts_def apply_proxy_config_def curl_opts_init_def)
  then have n: "curl_net lib o2 = reply" using assms(5) by blast
  have p: "http_post (\<lambda>n. True) lib url json tmo m hs tls px npx = Some (perform_buffered (\<lambda>n. True) lib o2 m)"
    using assms(1) o by (simp add: http_post_def o2_def Let_def)
  have w: "wrap64 (m + 1) = m + 1" using assms(4) by (simp add: wrap64_def)
  show ?thesis
    unfolding p perform_buffered_exact n Let_def w
    using assms(3) by (auto simp: reply_body_def http_failed_def transport_status_def)
qed

section \<open>The call\<close>

lemma api_fail_failed: "\<exists>c2 d2. api_fail alloc c d st n b pe = Some (LLM_ERR_FAILED, c2, d2, None)"
  by (simp add: api_fail_def split: prod.split)

lemma api_post_reply:
  assumes "curl_init lib" "cl_tls_key_password_cb c = None"
    "0 < lm_max_response_bytes (cl_limits c)" "lm_max_response_bytes (cl_limits c) < 2 ^ 31"
    "\<forall>opts. co_url opts = url \<longrightarrow> curl_net lib opts = reply"
    "llm_header_set_init (\<lambda>n. True) c headers = Some hs"
  shows "(reply_good (lm_max_response_bytes (cl_limits c)) reply \<and> parse (reply_body reply) = Inr v \<longrightarrow>
      api_post (\<lambda>n. True) lib c d url req headers parse = Some (LLM_ERR_NONE, c, d, Some (v, reply_body reply, True))) \<and>
    (\<not> (reply_good (lm_max_response_bytes (cl_limits c)) reply \<and> (\<exists>v. parse (reply_body reply) = Inr v)) \<longrightarrow>
      (\<exists>c2 d2. api_post (\<lambda>n. True) lib c d url req headers parse = Some (LLM_ERR_FAILED, c2, d2, None)))"
proof -
  let ?m = "lm_max_response_bytes (cl_limits c)"
  have "tls_key_password_cb (llm_client_tls_config c) = None" using assms(2) by (simp add: llm_client_tls_config_def)
  from http_post_reply [OF assms(1) this assms(3-5)] obtain r where
    r: "http_post (\<lambda>n. True) lib url req (tm_overall_ms (cl_timeout c)) ?m hs (llm_client_tls_config c)
        (cl_proxy_url c) (cl_no_proxy c) = Some r"
    and s: "if cr_code reply = CURLE_OK \<and> length (reply_body reply) \<le> ?m
     then hr_success r \<and> hr_body r = Some (reply_body reply) \<and> hr_terminated r \<and>
       ts_http_status (hr_status r) = cr_status reply
     else \<not> hr_success r" by blast
  let ?post = "api_post (\<lambda>n. True) lib c d url req headers parse"
  consider "\<not> hr_success r" "\<not> reply_good ?m reply"
    | "hr_success r" "hr_body r = Some (reply_body reply)" "ts_http_status (hr_status r) = cr_status reply"
      "400 \<le> cr_status reply" "\<not> reply_good ?m reply"
    | "hr_success r" "hr_body r = Some (reply_body reply)" "ts_http_status (hr_status r) = cr_status reply"
      "hr_terminated r" "\<not> 400 \<le> cr_status reply" "reply_good ?m reply"
    using s by (cases "cr_code reply = CURLE_OK \<and> length (reply_body reply) \<le> ?m"; cases "400 \<le> cr_status reply")
      (auto simp: reply_good_def)
  then show ?thesis
  proof cases
    case 1
    then have "?post = api_fail (\<lambda>n. True) c d (transport_stage (hr_status r)) 0 None False"
      using assms(6) r by (simp add: api_post_def)
    with 1 api_fail_failed show ?thesis by metis
  next
    case 2
    then have "?post = api_fail (\<lambda>n. True) c d LLM_ERROR_STAGE_PROTOCOL (cr_status reply) (Some (reply_body reply)) True"
      using assms(6) r by (simp add: api_post_def)
    with 2 api_fail_failed show ?thesis by metis
  next
    case 3
    show ?thesis
    proof (cases "parse (reply_body reply)")
      case (Inl e)
      with 3 have "?post = api_fail (\<lambda>n. True) c d (parse_stage e) (cr_status reply) (Some (reply_body reply)) True"
        using assms(6) r by (simp add: api_post_def)
      with Inl api_fail_failed show ?thesis by (metis sum.distinct(1))
    next
      case (Inr x)
      with 3 have "?post = Some (LLM_ERR_NONE, c, d, Some (x, reply_body reply, True))"
        using assms(6) r by (simp add: api_post_def)
      with Inr 3(6) show ?thesis by auto
    qed
  qed
qed

lemma parse_chat_response_iff:
  assumes "length json < 2 ^ 31"
  shows "parse_chat_response (\<lambda>n. True) json = Inr r \<longleftrightarrow> (\<exists>ts. doc json ts \<and> tree_response json ts = Inr r)"
proof
  assume r: "parse_chat_response (\<lambda>n. True) json = Inr r"
  then obtain toks where "tokenize (\<lambda>n. True) json = Inr toks"
    by (auto simp: parse_chat_response_def split: sum.splits)
  then obtain ts where ts: "doc json ts" using tokenize_Inr [OF assms] by blast
  with r show "\<exists>ts. doc json ts \<and> tree_response json ts = Inr r" using parse_chat_response_tree [OF ts] by auto
next
  assume "\<exists>ts. doc json ts \<and> tree_response json ts = Inr r"
  then show "parse_chat_response (\<lambda>n. True) json = Inr r" using parse_chat_response_tree by auto
qed

text \<open>
  C31: a chat call on a handle that is set up, with memory granted and a request that can be built, always
  returns, and returns the server's answer whenever there is one. If the reply arrived whole,
  below status 400, within the limit and is a document with choices, the call succeeds and its
  result is the reading of that document, with the body kept and terminated. In every other
  case it fails and there is no result.
\<close>

theorem chat_answer_returned:
  assumes "chat_ready lib client" "cl_tls_key_password_cb client = None"
    "\<forall>opts. co_url opts = call_url (the (cl_base_url client)) ''/v1/chat/completions'' \<longrightarrow> curl_net lib opts = reply"
    "llm_header_set_init (\<lambda>n. True) (last_error_reset client) headers = Some hs"
    "build_chat_request (\<lambda>n. True) (\<lambda>n. True) (the (cl_model_name client)) messages False False params_json tooling_json
       response_format_json (lm_max_content_parts (cl_limits client)) (lm_max_content_bytes (cl_limits client)) =
       Some request_json"
  shows "let good = reply_good (lm_max_response_bytes (cl_limits client)) reply; body = reply_body reply;
           call = llm_chat_with_headers_ex (\<lambda>n. True) lib client messages params_json tooling_json response_format_json
                    True headers detail in
    (\<forall>ts r. good \<and> doc body ts \<and> tree_response body ts = Inr r \<longrightarrow>
       call = Some (LLM_ERR_NONE, last_error_reset client, map_option llm_error_detail_free detail,
                Some (r, body, True))) \<and>
    (\<not> (good \<and> (\<exists>ts r. doc body ts \<and> tree_response body ts = Inr r)) \<longrightarrow>
       (\<exists>c2 d2. call = Some (LLM_ERR_FAILED, c2, d2, None)))"
proof -
  let ?c = "last_error_reset client" and ?body = "reply_body reply" and ?m = "lm_max_response_bytes (cl_limits client)"
  obtain base model where m: "cl_base_url client = Some base" "cl_model_name client = Some model" "curl_init lib"
    "0 < ?m" "?m < 2 ^ 31" using assms(1) by (auto simp: chat_ready_def)
  have same: "cl_base_url ?c = cl_base_url client" "cl_model_name ?c = cl_model_name client" "cl_limits ?c = cl_limits client"
    "cl_tls_key_password_cb ?c = cl_tls_key_password_cb client" by (simp_all add: last_error_reset_def)
  have u: "\<forall>opts. co_url opts = call_url base ''/v1/chat/completions'' \<longrightarrow> curl_net lib opts = reply"
    using assms(3) m(1) by simp
  have call: "llm_chat_with_headers_ex (\<lambda>n. True) lib client messages params_json tooling_json response_format_json
      True headers detail = api_post (\<lambda>n. True) lib ?c (map_option llm_error_detail_free detail)
        (call_url base ''/v1/chat/completions'') request_json headers (parse_chat_response (\<lambda>n. True))"
    using m same assms(5) by (simp add: llm_chat_with_headers_ex_def api_reset_def)
  have small: "length ?body < 2 ^ 31" if "reply_good ?m reply" using that m(5) by (simp add: reply_good_def)
  let ?parse = "parse_chat_response (\<lambda>n. True)" and ?good = "reply_good ?m reply"
  let ?post = "api_post (\<lambda>n. True) lib ?c (map_option llm_error_detail_free detail)
    (call_url base ''/v1/chat/completions'') request_json headers ?parse"
  note post = api_post_reply [of lib ?c, unfolded same, OF m(3) assms(2) m(4,5) u assms(4)]
  have ok: "?good \<and> ?parse ?body = Inr v \<longrightarrow>
      ?post = Some (LLM_ERR_NONE, ?c, map_option llm_error_detail_free detail, Some (v, ?body, True))"
    and bad: "\<not> (?good \<and> (\<exists>v. ?parse ?body = Inr v)) \<longrightarrow> (\<exists>c2 d2. ?post = Some (LLM_ERR_FAILED, c2, d2, None))" for v
    by (rule post [THEN conjunct1], rule post [THEN conjunct2])
  show ?thesis
  proof (unfold Let_def call, intro conjI allI impI)
    fix ts r
    assume a: "?good \<and> doc ?body ts \<and> tree_response ?body ts = Inr r"
    then have "?parse ?body = Inr r" using parse_chat_response_iff [OF small] by blast
    with a ok show "?post = Some (LLM_ERR_NONE, ?c, map_option llm_error_detail_free detail, Some (r, ?body, True))"
      by simp
  next
    assume n: "\<not> (?good \<and> (\<exists>ts r. doc ?body ts \<and> tree_response ?body ts = Inr r))"
    then have "\<not> (?good \<and> (\<exists>v. ?parse ?body = Inr v))" using parse_chat_response_iff [OF small] by blast
    with bad show "\<exists>c2 d2. ?post = Some (LLM_ERR_FAILED, c2, d2, None)" by simp
  qed
qed

text \<open>The example server answers every request alike.\<close>

theorem chat_answer_returned_witness:
  "\<exists>ts r. doc demo_body ts \<and> tree_response demo_body ts = Inr r \<and>
     llm_chat_with_headers_ex (\<lambda>n. True) demo_lib demo_client [] None None None True (HNull 0) None =
       Some (LLM_ERR_NONE, last_error_reset demo_client, None, Some (r, demo_body, True))"
proof -
  define reply where "reply = curl_net demo_lib (curl_opts_init [])"
  have b: "reply_body reply = demo_body" "cr_code reply = CURLE_OK" "cr_status reply = 200"
    by (simp_all add: reply_def reply_body_def demo_lib_def)
  have ready: "chat_ready demo_lib demo_client" by code_simp
  have lim: "length demo_body \<le> lm_max_response_bytes (cl_limits demo_client)" by code_simp
  have "Option.is_none (cl_tls_key_password_cb demo_client)" by code_simp
  then have pw: "cl_tls_key_password_cb demo_client = None" by (simp add: Option.is_none_def)
  have same: "\<forall>opts. co_url opts = call_url (the (cl_base_url demo_client)) ''/v1/chat/completions'' \<longrightarrow>
      curl_net demo_lib opts = reply" by (simp add: reply_def demo_lib_def)
  have "llm_header_set_init (\<lambda>n. True) (last_error_reset demo_client) (HNull 0) \<noteq> None" by code_simp
  then obtain hs where hs: "llm_header_set_init (\<lambda>n. True) (last_error_reset demo_client) (HNull 0) = Some hs" by blast
  have "build_chat_request (\<lambda>n. True) (\<lambda>n. True) (the (cl_model_name demo_client)) [] False False None None None
      (lm_max_content_parts (cl_limits demo_client)) (lm_max_content_bytes (cl_limits demo_client)) \<noteq> None" by code_simp
  then obtain req where req: "build_chat_request (\<lambda>n. True) (\<lambda>n. True) (the (cl_model_name demo_client)) [] False False
      None None None (lm_max_content_parts (cl_limits demo_client)) (lm_max_content_bytes (cl_limits demo_client)) =
      Some req" by blast
  have "\<not> Option.is_none (case parse_chat_response (\<lambda>n. True) demo_body of Inl e \<Rightarrow> None | Inr r \<Rightarrow> Some r)" by code_simp
  then obtain r where "parse_chat_response (\<lambda>n. True) demo_body = Inr r" by (auto split: sum.splits)
  moreover have "length demo_body < 2 ^ 31" by (simp add: demo_body_def qlit_def)
  ultimately obtain ts where ts: "doc demo_body ts" "tree_response demo_body ts = Inr r"
    using parse_chat_response_iff by blast
  have "reply_good (lm_max_response_bytes (cl_limits demo_client)) reply" using b lim by (simp add: reply_good_def)
  with chat_answer_returned [OF ready pw same hs req, of None] ts b(1) show ?thesis
    by (auto simp: Let_def)
qed

end
