(* ===== verification/StreamAnswer.thy ===== *)
theory StreamAnswer
  imports StreamCallProps SseSafe ChatAnswer
begin

text \<open>
  What a chat stream delivers for a given reply of the server: when no limit of the event parser is
  in the way, a reply whose events make no protocol error is delivered whole.
\<close>

section \<open>A stream without errors\<close>

text \<open>A protocol error stays: the handlers do nothing more.\<close>

interpretation chat_broken: user_inv sx_protocol_error on_sse_event on_sse_frame_abort_stream
  by unfold_locales
    (auto simp: on_sse_event_def on_sse_frame_abort_stream_def poll_abort_def stream_set_error_def split: option.split)

lemma broken_chunks:
  "user_ok sx_protocol_error on_sse_event on_sse_frame_abort_stream p \<Longrightarrow> sx_protocol_error (user_data (snd (feed_chunks sse_feed SSE_OK p cs)))"
proof (induction cs arbitrary: p)
  case Nil
  then show ?case by (simp add: user_ok_def)
next
  case (Cons c cs)
  obtain rc q where f: "sse_feed p c = (rc, q)" by fastforce
  with chat_broken.feed [OF Cons.prems, of c] have q: "user_ok sx_protocol_error on_sse_event on_sse_frame_abort_stream q" by simp
  show ?case using Cons.IH [OF q] q f by (simp add: user_ok_def)
qed

text \<open>So, if there is none at the end, the transport's callback accepted every chunk.\<close>

lemma deliver_clean:
  assumes "feed_chunks sse_feed SSE_OK p cs = (SSE_OK, q)" "quiet_parser p" "\<not> sx_protocol_error (user_data q)"
  shows "deliver curl_stream_cb \<lparr>cs_sse = p, cs_sse_error = e\<rparr> cs = (True, \<lparr>cs_sse = q, cs_sse_error = e\<rparr>)"
  using assms(1,2)
proof (induction cs arbitrary: p)
  case (Cons c cs)
  obtain rc p1 where f: "sse_feed p c = (rc, p1)" by fastforce
  then have rc: "rc = SSE_OK" and r: "feed_chunks sse_feed SSE_OK p1 cs = (SSE_OK, q)"
    using Cons.prems(1) by (auto split: if_splits)
  have q1: "quiet_parser p1" using chat_quiet.feed [of p c] Cons.prems(2) f by (simp add: quiet_parser_def)
  have n: "\<not> sx_protocol_error (user_data p)" "\<not> sx_protocol_error (user_data p1)"
    using broken_chunks [of p "c # cs"] broken_chunks [of p1 cs] Cons.prems r q1 assms(3)
    by (auto simp: user_ok_def quiet_parser_def)
  have "curl_stream_cb \<lparr>cs_sse = p, cs_sse_error = e\<rparr> c = (True, \<lparr>cs_sse = p1, cs_sse_error = e\<rparr>)"
    using cs_poll_quiet [of "\<lparr>cs_sse = p, cs_sse_error = e\<rparr>"] cs_poll_quiet [of "\<lparr>cs_sse = p1, cs_sse_error = e\<rparr>"]
      Cons.prems(2) q1 n f rc by (simp add: curl_stream_cb_def cs_ctx_def)
  with Cons.IH [OF r q1] show ?case by simp
qed simp

lemma chat_stream_clean:
  assumes "sx_abort_cb sc = None" "t = 0 \<or> length (concat cs) \<le> t" "t \<le> SIZE_MAX"
    "\<not> sx_protocol_error (chat_events sc (spec_events (concat cs)))"
  shows "\<exists>q. deliver curl_stream_cb
      \<lparr>cs_sse = sse_open 0 0 0 t (\<lambda>_. True) (Some on_sse_event) (Some on_sse_frame_abort_stream) sc, cs_sse_error = e\<rparr> cs =
        (True, \<lparr>cs_sse = q, cs_sse_error = e\<rparr>) \<and>
    user_data q = chat_events sc (spec_events (concat cs))"
proof -
  let ?p = "sse_open 0 0 0 t (\<lambda>_. True) (Some on_sse_event) (Some on_sse_frame_abort_stream) sc"
  have quiet: "sx_abort_cb u = None \<Longrightarrow> fst (on_sse_frame_abort_stream u) \<and> sx_abort_cb (snd (on_sse_frame_abort_stream u)) = None" for u
    by (simp add: on_sse_frame_abort_stream_def poll_abort_def)
  have "fst (feed_chunks sse_feed SSE_OK ?p cs) = SSE_OK"
    by (rule sse_open_accepts [where P = "\<lambda>u. sx_abort_cb u = None", OF assms(2,3,1)])
      (use quiet on_sse_event_True no_poll_event in auto)
  then obtain q where q: "feed_chunks sse_feed SSE_OK ?p cs = (SSE_OK, q)"
    by (cases "feed_chunks sse_feed SSE_OK ?p cs") auto
  from feed_chunks_effect [OF this stream_inv_open]
  have s: "same_setup ?p q" "stream_inv sc (concat cs) q" by (simp_all add: stream_outcome_def)
  from stream_inv_calls [OF s(2)] do_calls_chat [of q sc "spec_calls (concat cs)"] s(1) assms(1)
  have u: "user_data q = chat_events sc (spec_events (concat cs))" by (simp add: same_setup_def spec_events_def)
  have "quiet_parser ?p" using assms(1) by (simp add: quiet_parser_def user_ok_def)
  from deliver_clean [OF q this] u assms(4) show ?thesis by auto
qed

section \<open>The transfer\<close>

lemma http_post_stream_reply:
  assumes "curl_init lib" "tls_key_password_cb tls = None"
    "\<forall>opts. co_url opts = url \<longrightarrow> curl_net lib opts = reply" "cr_code reply = CURLE_OK"
    "deliver cb s (cr_chunks reply) = (True, s1)"
  shows "\<exists>status. http_post_stream lib url json tmo idle hs tls px npx cb s = Some (True, status, s1) \<and>
    ts_http_status status = cr_status reply"
proof -
  obtain opts where o: "apply_tls_config lib (curl_opts_init url) tls = Some opts"
    using apply_tls_config_some [OF assms(2)] by blast
  define o1 where "o1 = set_timeouts ((apply_proxy_config opts px npx)\<lparr>co_post := Some (c_string json),
    co_headers := content_type_json # hs\<rparr>) tmo"
  define o2 where "o2 = (if idle > 0 then o1\<lparr>co_low_speed_time := Some ((idle + 999) div 1000)\<rparr> else o1)"
  have "co_url o2 = url"
    using apply_tls_config_url [OF o] by (simp add: o2_def o1_def set_timeouts_def apply_proxy_config_def curl_opts_init_def)
  then have n: "curl_net lib o2 = reply" using assms(3) by blast
  have "http_post_stream lib url json tmo idle hs tls px npx cb s =
      Some (True, transport_status CURLE_OK (cr_status reply), s1)"
    using assms(1) unfolding http_post_stream_def o Let_def option.case o1_def [symmetric] o2_def [symmetric]
      curl_easy_perform_def n assms(5) prod.case by (simp add: assms(4))
  then show ?thesis by (simp add: transport_status_def)
qed

lemma stream_transfer_reply:
  assumes "curl_init lib" "cl_tls_key_password_cb c = None"
    "\<forall>opts. co_url opts = url \<longrightarrow> curl_net lib opts = reply" "cr_code reply = CURLE_OK"
    "deliver cb s (cr_chunks reply) = (True, s1)"
  shows "\<exists>status body. stream_transfer alloc lib c url json hs want cb s = Some (True, status, s1, body) \<and>
    ts_http_status status = cr_status reply"
proof -
  have p: "tls_key_password_cb (llm_client_tls_config c) = None" using assms(2) by (simp add: llm_client_tls_config_def)
  show ?thesis
  proof (cases want)
    case False
    from http_post_stream_reply [OF assms(1) p assms(3,4,5), of json "tm_overall_ms (cl_timeout c)"
        "tm_read_idle_ms (cl_timeout c)" hs "cl_proxy_url c" "cl_no_proxy c"] False
    show ?thesis by (auto simp: stream_transfer_def)
  next
    case True
    let ?cap = "stream_capture_init alloc s (lm_max_response_bytes (cl_limits c)) True"
    have i: "cap_inner ?cap = s" by (simp add: stream_capture_init_def Let_def)
    obtain ok cap where d: "deliver (stream_capture_cb cb) ?cap (cr_chunks reply) = (ok, cap)" by fastforce
    from deliver_capture [OF d] assms(5) i have "ok" "cap_inner cap = s1" by simp_all
    with http_post_stream_reply [OF assms(1) p assms(3,4), of "stream_capture_cb cb" ?cap cap json "tm_overall_ms (cl_timeout c)"
        "tm_read_idle_ms (cl_timeout c)" hs "cl_proxy_url c" "cl_no_proxy c"] d True
    show ?thesis by (auto simp: stream_transfer_def)
  qed
qed

section \<open>The call\<close>

text \<open>The context the events of a body leave, when none of them is a protocol error.\<close>

definition clean_end :: "stream_ctx \<Rightarrow> bool" where
  "clean_end sc \<longleftrightarrow> \<not> sx_protocol_error sc \<and>
     (case stream_finish True sc of (ok, sc1) \<Rightarrow> ok \<and> \<not> sx_undefined sc1 \<and> sx_error sc1 = LLM_ERR_NONE)"

definition chat_stream_end :: "llm_client \<Rightarrow> nat \<Rightarrow> llm_stream_callbacks \<Rightarrow> byte list \<Rightarrow> stream_ctx" where
  "chat_stream_end client choice_index k body =
     chat_events (stream_ctx_init (\<lambda>n. True) (Some k) choice_index (lm_max_tool_args_bytes_per_call (cl_limits client))
       (sk_include_usage k) None) (spec_events body)"

text \<open>
  C34: a chat stream is delivered. On a handle that is set up, without limits on lines, frames and the
  event buffer, when the reply arrives whole, below status 400 and within the response limit,
  and its events make no protocol error, the call returns, succeeds, and has made exactly the
  callbacks of the events that the body means, however the transport cut it.
\<close>

theorem chat_stream_delivers:
  assumes "chat_ready lib client" "cl_tls_key_password_cb client = None"
    "lm_max_line_bytes (cl_limits client) = 0" "lm_max_frame_bytes (cl_limits client) = 0"
    "lm_max_sse_buffer_bytes (cl_limits client) = 0"
    "\<forall>opts. co_url opts = call_url (the (cl_base_url client)) ''/v1/chat/completions'' \<longrightarrow> curl_net lib opts = reply"
    "reply_good (lm_max_response_bytes (cl_limits client)) reply"
    "llm_header_set_init (\<lambda>n. True) (last_error_reset client) headers = Some hs"
    "build_chat_request (\<lambda>n. True) (\<lambda>n. True) (the (cl_model_name client)) messages True (sk_include_usage k) params_json
       tooling_json response_format_json (lm_max_content_parts (cl_limits client))
       (lm_max_content_bytes (cl_limits client)) = Some request_json"
    "clean_end (chat_stream_end client choice_index k (reply_body reply))"
  shows "llm_chat_stream_with_headers_choice_ex (\<lambda>n. True) True lib client messages params_json tooling_json
      response_format_json choice_index (Some k) None headers detail =
    Some (LLM_ERR_NONE, last_error_reset client, map_option llm_error_detail_free detail,
      sx_calls (snd (stream_finish True (chat_stream_end client choice_index k (reply_body reply)))))"
proof -
  let ?c = "last_error_reset client" and ?m = "lm_max_response_bytes (cl_limits client)"
  let ?sc = "stream_ctx_init (\<lambda>n. True) (Some k) choice_index (lm_max_tool_args_bytes_per_call (cl_limits client))
       (sk_include_usage k) None" and ?d = "map_option llm_error_detail_free detail"
  obtain base model where m: "cl_base_url client = Some base" "cl_model_name client = Some model" "curl_init lib"
    "?m < 2 ^ 31" using assms(1) by (auto simp: chat_ready_def)
  have same: "cl_base_url ?c = cl_base_url client" "cl_model_name ?c = cl_model_name client" "cl_limits ?c = cl_limits client"
    "cl_tls_key_password_cb ?c = cl_tls_key_password_cb client" by (simp_all add: last_error_reset_def)
  have g: "cr_code reply = CURLE_OK" "cr_status reply < 400" "length (concat (cr_chunks reply)) \<le> ?m"
    using assms(7) by (simp_all add: reply_good_def reply_body_def)
  have a: "sx_abort_cb ?sc = None" by (simp add: stream_ctx_init_def)
  have clean: "\<not> sx_protocol_error (chat_events ?sc (spec_events (concat (cr_chunks reply))))"
    using assms(10) by (simp add: clean_end_def chat_stream_end_def reply_body_def)
  have "?m \<le> SIZE_MAX" using m(4) by (simp add: SIZE_MAX_def)
  from chat_stream_clean [OF a _ this clean, of SSE_OK] g(3) obtain q where
    q: "deliver curl_stream_cb
      \<lparr>cs_sse = sse_open 0 0 0 ?m (\<lambda>_. True) (Some on_sse_event) (Some on_sse_frame_abort_stream) ?sc,
       cs_sse_error = SSE_OK\<rparr> (cr_chunks reply) = (True, \<lparr>cs_sse = q, cs_sse_error = SSE_OK\<rparr>)"
    and u: "user_data q = chat_stream_end client choice_index k (reply_body reply)"
    by (auto simp: chat_stream_end_def reply_body_def)
  have net: "\<forall>opts. co_url opts = call_url base ''/v1/chat/completions'' \<longrightarrow> curl_net lib opts = reply"
    using assms(6) m(1) by simp
  obtain status body where
    t: "stream_transfer (\<lambda>n. True) lib ?c (call_url base ''/v1/chat/completions'') request_json hs (?d \<noteq> None) curl_stream_cb
      \<lparr>cs_sse = sse_open 0 0 0 ?m (\<lambda>_. True) (Some on_sse_event) (Some on_sse_frame_abort_stream) ?sc,
       cs_sse_error = SSE_OK\<rparr> = Some (True, status, \<lparr>cs_sse = q, cs_sse_error = SSE_OK\<rparr>, body)"
    and st: "ts_http_status status = cr_status reply"
    using stream_transfer_reply [OF m(3) assms(2) [folded same(4)] net g(1) q] by blast
  have call: "llm_chat_stream_with_headers_choice_ex (\<lambda>n. True) True lib client messages params_json tooling_json
      response_format_json choice_index (Some k) None headers detail =
      chat_stream_result (\<lambda>n. True) ?c ?d True status \<lparr>cs_sse = q, cs_sse_error = SSE_OK\<rparr> body"
    using m(1,2) same assms(3-5,8,9) t
    by (simp add: llm_chat_stream_with_headers_choice_ex_def api_reset_def sse_create_def sse_open_def Let_def)
  obtain sc1 where f: "stream_finish True (user_data q) = (True, sc1)" "\<not> sx_undefined sc1" "sx_error sc1 = LLM_ERR_NONE"
    using assms(10) unfolding u [symmetric] clean_end_def by (auto split: prod.splits)
  show ?thesis
    unfolding call chat_stream_result_def using f g(2) st by (simp add: cs_ctx_def u [symmetric])
qed

text \<open>The example handle without limits on the event parser.\<close>

definition roomy_client :: llm_client where
  "roomy_client = demo_client\<lparr>cl_limits := (cl_limits demo_client)
     \<lparr>lm_max_line_bytes := 0, lm_max_frame_bytes := 0, lm_max_sse_buffer_bytes := 0\<rparr>\<rparr>"

theorem chat_stream_delivers_witness:
  "llm_chat_stream_with_headers_choice_ex (\<lambda>n. True) True demo_stream_lib roomy_client [] None None None 0
      (Some demo_callbacks) None (HNull 0) None =
    Some (LLM_ERR_NONE, last_error_reset roomy_client, None,
      sx_calls (snd (stream_finish True (chat_stream_end roomy_client 0 demo_callbacks demo_stream_body))))"
proof -
  define reply where "reply = curl_net demo_stream_lib (curl_opts_init [])"
  have b: "reply_body reply = demo_stream_body" "cr_code reply = CURLE_OK" "cr_status reply = 200"
    by (simp_all add: reply_def reply_body_def demo_stream_lib_def)
  have net: "\<forall>opts. co_url opts = call_url (the (cl_base_url roomy_client)) ''/v1/chat/completions'' \<longrightarrow>
      curl_net demo_stream_lib opts = reply" by (simp add: reply_def demo_stream_lib_def)
  have ready: "chat_ready demo_stream_lib roomy_client" by code_simp
  have "Option.is_none (cl_tls_key_password_cb roomy_client)" by code_simp
  then have pw: "cl_tls_key_password_cb roomy_client = None" by (simp add: Option.is_none_def)
  have lims: "lm_max_line_bytes (cl_limits roomy_client) = 0" "lm_max_frame_bytes (cl_limits roomy_client) = 0"
    "lm_max_sse_buffer_bytes (cl_limits roomy_client) = 0" by (simp_all add: roomy_client_def)
  have "length demo_stream_body \<le> lm_max_response_bytes (cl_limits roomy_client)" by code_simp
  then have good: "reply_good (lm_max_response_bytes (cl_limits roomy_client)) reply" using b by (simp add: reply_good_def)
  have "llm_header_set_init (\<lambda>n. True) (last_error_reset roomy_client) (HNull 0) \<noteq> None" by code_simp
  then obtain hs where hs: "llm_header_set_init (\<lambda>n. True) (last_error_reset roomy_client) (HNull 0) = Some hs" by blast
  let ?build = "build_chat_request (\<lambda>n. True) (\<lambda>n. True) (the (cl_model_name roomy_client)) [] True
      (sk_include_usage demo_callbacks) None None None (lm_max_content_parts (cl_limits roomy_client))
      (lm_max_content_bytes (cl_limits roomy_client))"
  have "?build \<noteq> None" by code_simp
  then obtain req where req: "?build = Some req" by blast
  have "clean_end (chat_stream_end roomy_client 0 demo_callbacks demo_stream_body)" by code_simp
  then have clean: "clean_end (chat_stream_end roomy_client 0 demo_callbacks (reply_body reply))" by (simp add: b)
  from chat_stream_delivers [OF ready pw lims net good hs req clean, of None] show ?thesis by (simp add: b)
qed

end
