(* ===== verification/ToolLoopText.thy ===== *)
theory ToolLoopText
  imports ToolLoopProps JsonBuildProps
begin

text \<open>
  The text that the tool loop sends back. The parsers of the answers hand up spans of the body,
  with the escapes of JSON in them; the builders take text and escape it.
\<close>

lemma json_text_plain: "C_BSLASH \<notin> set w \<Longrightarrow> json_text w = w"
  by (induction w) auto

lemma json_text_shorter: "json_chars w \<Longrightarrow> C_BSLASH \<in> set w \<Longrightarrow> length (json_text w) < length w"
proof (induction w rule: json_text.induct)
  case (2 c cs)
  show ?case
  proof (cases "c = C_BSLASH")
    case False
    with 2 show ?thesis by auto
  next
    case True
    then obtain e es where cs: "cs = e # es" using 2(4) by (cases cs) auto
    show ?thesis
    proof (cases "jstok_escape_char e")
      case (Some b)
      then have "json_chars es" using 2(4) True cs escape_char_iff [of e] by auto
      with json_text_length [of es] True cs Some show ?thesis by simp
    next
      case None
      then have h: "4 \<le> length es" "json_chars (drop 4 es)" using 2(4) True cs escape_char_iff [of e] by auto
      have "length (jstok_utf8 (hex4 es)) \<le> 4" by (simp add: jstok_utf8_def)
      with json_text_length [OF h(2)] h(1) True cs None show ?thesis by simp
    qed
  qed
qed simp

text \<open>
  The answer's content has the value \<open>json_text raw\<close>. The message that the next turn sends has
  the value \<open>raw\<close>: as soon as the content holds an escape, for a newline or a quotation mark say,
  the assistant is quoted with another text than it said.
\<close>

theorem tool_loop_reescapes:
  assumes "assistant_msg alloc result calls_json = Some am" "ch_content result = Some raw"
    "ch_reasoning_content result = None" "json_chars raw"
  shows "json_text (json_escape (sp_bytes (msg_content am))) = raw \<and> (json_text raw = raw) = (C_BSLASH \<notin> set raw)"
proof -
  have "msg_content am = SPtr raw"
    using assms(1-3) by (auto simp: assistant_msg_def span_bytes_def Let_def split: if_splits)
  moreover have "(json_text raw = raw) = (C_BSLASH \<notin> set raw)"
    using json_text_plain [of raw] json_text_shorter [OF assms(4)] by (metis less_irrefl)
  ultimately show ?thesis using json_escape_ok(2) by simp
qed

theorem tool_loop_reescapes_witness:
  "\<exists>result am. assistant_msg (\<lambda>n. True) result [] = Some am \<and> ch_content result = Some [C_BSLASH, 0x6E] \<and>
     json_text (json_escape (sp_bytes (msg_content am))) \<noteq> json_text [C_BSLASH, 0x6E]"
proof -
  let ?r = "\<lparr>ch_finish_reason = LLM_FINISH_REASON_TOOL_CALLS, ch_content = Some [C_BSLASH, 0x6E],
    ch_reasoning_content = None, ch_tool_calls = [], ch_tool_calls_json = None\<rparr>"
  have "\<exists>am. assistant_msg (\<lambda>n. True) ?r [] = Some am" by (simp add: assistant_msg_def Let_def)
  then obtain am where a: "assistant_msg (\<lambda>n. True) ?r [] = Some am" by blast
  have "json_chars [C_BSLASH, 0x6E]" by code_simp
  from tool_loop_reescapes [OF a _ _ this] a show ?thesis by (intro exI [of _ ?r] exI [of _ am]) auto
qed

end
