(* ===== verification/ShortForms.thy ===== *)
theory ShortForms
  imports StreamCall ToolLoop
begin

text \<open>
  The short forms of the calls of \<open>src/src/llm.c\<close>: the full call with no headers, the first choice,
  no abort callback or no error detail, and the forms that answer by a boolean.
\<close>

section \<open>Creation\<close>

definition llm_client_create_with_headers ::
  "(nat \<Rightarrow> bool) \<Rightarrow> byte list \<Rightarrow> byte list option \<Rightarrow>
     llm_timeout option \<Rightarrow> llm_limits option \<Rightarrow> header_list \<Rightarrow>
     llm_client option" where
  "llm_client_create_with_headers alloc base_url model timeout limits headers =
     llm_client_create_with_headers_opts alloc base_url model timeout limits headers False"

definition llm_client_create_opts ::
  "(nat \<Rightarrow> bool) \<Rightarrow> byte list \<Rightarrow> byte list option \<Rightarrow>
     llm_timeout option \<Rightarrow> llm_limits option \<Rightarrow> bool \<Rightarrow> llm_client option" where
  "llm_client_create_opts alloc base_url model timeout limits enable_last_error =
     llm_client_create_with_headers_opts alloc base_url model timeout limits (HNull 0) enable_last_error"

definition llm_client_create ::
  "(nat \<Rightarrow> bool) \<Rightarrow> byte list \<Rightarrow> byte list option \<Rightarrow>
     llm_timeout option \<Rightarrow> llm_limits option \<Rightarrow> llm_client option" where
  "llm_client_create alloc base_url model timeout limits =
     llm_client_create_with_headers_opts alloc base_url model timeout limits (HNull 0) False"

section \<open>Whole responses\<close>

text \<open>The forms that answer by a boolean and keep no detail.\<close>

type_synonym 'a api_bool = "(bool \<times> llm_client \<times> 'a option) option"

definition api_bool :: "'a api \<Rightarrow> 'a api_bool" where
  "api_bool r = (case r of None \<Rightarrow> None | Some (err, client, detail, v) \<Rightarrow>
     Some (err = LLM_ERR_NONE, client, v))"

definition llm_health_ex ::
  "(nat \<Rightarrow> bool) \<Rightarrow> curl_lib \<Rightarrow> llm_client \<Rightarrow>
     llm_error_detail option \<Rightarrow> unit api" where
  "llm_health_ex alloc lib client detail =
     llm_health_with_headers_ex alloc lib client (HNull 0) detail"

definition llm_health_with_headers ::
  "(nat \<Rightarrow> bool) \<Rightarrow> curl_lib \<Rightarrow> llm_client \<Rightarrow> header_list \<Rightarrow>
     unit api_bool" where
  "llm_health_with_headers alloc lib client headers =
     api_bool (llm_health_with_headers_ex alloc lib client headers None)"

definition llm_health ::
  "(nat \<Rightarrow> bool) \<Rightarrow> curl_lib \<Rightarrow> llm_client \<Rightarrow> unit api_bool" where
  "llm_health alloc lib client =
     llm_health_with_headers alloc lib client (HNull 0)"

definition llm_props_get_ex ::
  "(nat \<Rightarrow> bool) \<Rightarrow> curl_lib \<Rightarrow> llm_client \<Rightarrow> bool \<Rightarrow>
     llm_error_detail option \<Rightarrow> (byte list option) api" where
  "llm_props_get_ex alloc lib client want_result detail =
     llm_props_get_with_headers_ex alloc lib client want_result (HNull 0) detail"

definition llm_props_get_with_headers ::
  "(nat \<Rightarrow> bool) \<Rightarrow> curl_lib \<Rightarrow> llm_client \<Rightarrow> bool \<Rightarrow>
     header_list \<Rightarrow> (byte list option) api_bool" where
  "llm_props_get_with_headers alloc lib client want_result headers =
     api_bool (llm_props_get_with_headers_ex alloc lib client want_result headers None)"

definition llm_props_get ::
  "(nat \<Rightarrow> bool) \<Rightarrow> curl_lib \<Rightarrow> llm_client \<Rightarrow> bool \<Rightarrow>
     (byte list option) api_bool" where
  "llm_props_get alloc lib client want_result =
     llm_props_get_with_headers alloc lib client want_result (HNull 0)"

definition llm_completions_ex ::
  "(nat \<Rightarrow> bool) \<Rightarrow> curl_lib \<Rightarrow> llm_client \<Rightarrow> byte list \<Rightarrow>
     byte list option \<Rightarrow> bool \<Rightarrow> llm_error_detail option \<Rightarrow>
     (byte list option list \<times> byte list \<times> bool) api" where
  "llm_completions_ex alloc lib client prompt params_json want_result detail =
     llm_completions_with_headers_ex alloc lib client prompt params_json want_result (HNull 0) detail"

definition llm_completions_with_headers ::
  "(nat \<Rightarrow> bool) \<Rightarrow> curl_lib \<Rightarrow> llm_client \<Rightarrow> byte list \<Rightarrow>
     byte list option \<Rightarrow> bool \<Rightarrow> header_list \<Rightarrow>
     (byte list option list \<times> byte list \<times> bool) api_bool" where
  "llm_completions_with_headers alloc lib client prompt params_json want_result headers =
     api_bool (llm_completions_with_headers_ex alloc lib client prompt params_json want_result headers None)"

definition llm_completions ::
  "(nat \<Rightarrow> bool) \<Rightarrow> curl_lib \<Rightarrow> llm_client \<Rightarrow> byte list \<Rightarrow>
     byte list option \<Rightarrow> bool \<Rightarrow>
     (byte list option list \<times> byte list \<times> bool) api_bool" where
  "llm_completions alloc lib client prompt params_json want_result =
     llm_completions_with_headers alloc lib client prompt params_json want_result (HNull 0)"

definition llm_embeddings_ex ::
  "(nat \<Rightarrow> bool) \<Rightarrow> curl_lib \<Rightarrow> llm_client \<Rightarrow>
     llm_embedding_input list option \<Rightarrow> nat \<Rightarrow> byte list option \<Rightarrow>
     bool \<Rightarrow> llm_error_detail option \<Rightarrow>
     (byte list option list \<times> byte list \<times> bool) api" where
  "llm_embeddings_ex alloc lib client inputs inputs_count params_json want_result detail =
     llm_embeddings_with_headers_ex alloc lib client inputs inputs_count params_json want_result (HNull 0) detail"

definition llm_embeddings_with_headers ::
  "(nat \<Rightarrow> bool) \<Rightarrow> curl_lib \<Rightarrow> llm_client \<Rightarrow>
     llm_embedding_input list option \<Rightarrow> nat \<Rightarrow> byte list option \<Rightarrow>
     bool \<Rightarrow> header_list \<Rightarrow>
     (byte list option list \<times> byte list \<times> bool) api_bool" where
  "llm_embeddings_with_headers alloc lib client inputs inputs_count params_json want_result headers =
     api_bool (llm_embeddings_with_headers_ex alloc lib client inputs inputs_count params_json want_result headers None)"

definition llm_embeddings ::
  "(nat \<Rightarrow> bool) \<Rightarrow> curl_lib \<Rightarrow> llm_client \<Rightarrow>
     llm_embedding_input list option \<Rightarrow> nat \<Rightarrow> byte list option \<Rightarrow>
     bool \<Rightarrow> (byte list option list \<times> byte list \<times> bool) api_bool" where
  "llm_embeddings alloc lib client inputs inputs_count params_json want_result =
     llm_embeddings_with_headers alloc lib client inputs inputs_count params_json want_result (HNull 0)"

definition llm_chat_ex ::
  "(nat \<Rightarrow> bool) \<Rightarrow> curl_lib \<Rightarrow> llm_client \<Rightarrow>
     llm_message list \<Rightarrow> byte list option \<Rightarrow> byte list option \<Rightarrow>
     byte list option \<Rightarrow> bool \<Rightarrow> llm_error_detail option \<Rightarrow>
     (llm_chat_result \<times> byte list \<times> bool) api" where
  "llm_chat_ex alloc lib client messages params_json tooling_json response_format_json want_result detail =
     llm_chat_with_headers_ex alloc lib client messages params_json tooling_json response_format_json want_result (HNull 0) detail"

definition llm_chat ::
  "(nat \<Rightarrow> bool) \<Rightarrow> curl_lib \<Rightarrow> llm_client \<Rightarrow>
     llm_message list \<Rightarrow> byte list option \<Rightarrow> byte list option \<Rightarrow>
     byte list option \<Rightarrow> (llm_chat_result \<times> byte list \<times> bool) api_bool" where
  "llm_chat alloc lib client messages params_json tooling_json response_format_json =
     llm_chat_with_headers alloc lib client messages params_json tooling_json response_format_json (HNull 0)"

text \<open>
  The models come back as the array or NULL; an empty list is NULL too. Without a place for the
  count the call fails.
\<close>

definition llm_models_list_ex ::
  "(nat \<Rightarrow> bool) \<Rightarrow> curl_lib \<Rightarrow> llm_client \<Rightarrow> bool \<Rightarrow>
     llm_error_detail option \<Rightarrow> byte list list api" where
  "llm_models_list_ex alloc lib client want_result detail =
     llm_models_list_with_headers_ex alloc lib client want_result (HNull 0) detail"

definition llm_models_list_with_headers ::
  "(nat \<Rightarrow> bool) \<Rightarrow> curl_lib \<Rightarrow> llm_client \<Rightarrow> bool \<Rightarrow>
     header_list \<Rightarrow> (byte list list option \<times> llm_client) option" where
  "llm_models_list_with_headers alloc lib client want_count headers =
     (case llm_models_list_with_headers_ex alloc lib client want_count headers None of
        None \<Rightarrow> None
      | Some (err, client, detail, models) \<Rightarrow>
          Some (if err \<noteq> LLM_ERR_NONE \<or> models = Some [] then None else models, client))"

definition llm_models_list ::
  "(nat \<Rightarrow> bool) \<Rightarrow> curl_lib \<Rightarrow> llm_client \<Rightarrow> bool \<Rightarrow>
     (byte list list option \<times> llm_client) option" where
  "llm_models_list alloc lib client want_count =
     llm_models_list_with_headers alloc lib client want_count (HNull 0)"

section \<open>Streams\<close>

type_synonym stream_bool = "(bool \<times> llm_client \<times> stream_call list) option"

definition stream_bool :: "stream_result \<Rightarrow> stream_bool" where
  "stream_bool r =
     (case r of None \<Rightarrow> None | Some (err, client, detail, calls) \<Rightarrow>
     Some (err = LLM_ERR_NONE, client, calls))"

definition llm_completions_stream_with_headers ::
  "(nat \<Rightarrow> bool) \<Rightarrow> bool \<Rightarrow> curl_lib \<Rightarrow> llm_client \<Rightarrow>
     byte list \<Rightarrow> byte list option \<Rightarrow> llm_stream_callbacks option \<Rightarrow>
     header_list \<Rightarrow> stream_bool" where
  "llm_completions_stream_with_headers alloc parser_ok lib client prompt params_json callbacks headers =
     stream_bool
       (llm_completions_stream_with_headers_choice_ex alloc parser_ok lib client prompt params_json 0 callbacks
       None headers None)"

definition llm_completions_stream ::
  "(nat \<Rightarrow> bool) \<Rightarrow> bool \<Rightarrow> curl_lib \<Rightarrow> llm_client \<Rightarrow>
     byte list \<Rightarrow> byte list option \<Rightarrow> llm_stream_callbacks option \<Rightarrow>
     stream_bool" where
  "llm_completions_stream alloc parser_ok lib client prompt params_json callbacks =
     llm_completions_stream_with_headers alloc parser_ok lib client prompt params_json callbacks (HNull 0)"

definition llm_completions_stream_choice_with_headers ::
  "(nat \<Rightarrow> bool) \<Rightarrow> bool \<Rightarrow> curl_lib \<Rightarrow> llm_client \<Rightarrow>
     byte list \<Rightarrow> byte list option \<Rightarrow> nat \<Rightarrow>
     llm_stream_callbacks option \<Rightarrow> header_list \<Rightarrow> stream_bool" where
  "llm_completions_stream_choice_with_headers alloc parser_ok lib client prompt params_json choice_index callbacks headers =
     stream_bool
       (llm_completions_stream_with_headers_choice_ex alloc parser_ok lib client prompt params_json choice_index callbacks
       None headers None)"

definition llm_completions_stream_choice ::
  "(nat \<Rightarrow> bool) \<Rightarrow> bool \<Rightarrow> curl_lib \<Rightarrow> llm_client \<Rightarrow>
     byte list \<Rightarrow> byte list option \<Rightarrow> nat \<Rightarrow>
     llm_stream_callbacks option \<Rightarrow> stream_bool" where
  "llm_completions_stream_choice alloc parser_ok lib client prompt params_json choice_index callbacks =
     stream_bool
       (llm_completions_stream_with_headers_choice_ex alloc parser_ok lib client prompt params_json choice_index callbacks
       None (HNull 0) None)"

definition llm_completions_stream_with_headers_ex ::
  "(nat \<Rightarrow> bool) \<Rightarrow> bool \<Rightarrow> curl_lib \<Rightarrow> llm_client \<Rightarrow>
     byte list \<Rightarrow> byte list option \<Rightarrow> llm_stream_callbacks option \<Rightarrow>
     (nat \<Rightarrow> bool) option \<Rightarrow> header_list \<Rightarrow> stream_result" where
  "llm_completions_stream_with_headers_ex alloc parser_ok lib client prompt params_json callbacks abort_cb headers =
     llm_completions_stream_with_headers_choice_ex alloc parser_ok lib client prompt params_json 0 callbacks
       abort_cb headers None"

definition llm_completions_stream_ex ::
  "(nat \<Rightarrow> bool) \<Rightarrow> bool \<Rightarrow> curl_lib \<Rightarrow> llm_client \<Rightarrow>
     byte list \<Rightarrow> byte list option \<Rightarrow> llm_stream_callbacks option \<Rightarrow>
     (nat \<Rightarrow> bool) option \<Rightarrow> stream_result" where
  "llm_completions_stream_ex alloc parser_ok lib client prompt params_json callbacks abort_cb =
     llm_completions_stream_with_headers_choice_ex alloc parser_ok lib client prompt params_json 0 callbacks
       abort_cb (HNull 0) None"

definition llm_completions_stream_choice_with_headers_ex ::
  "(nat \<Rightarrow> bool) \<Rightarrow> bool \<Rightarrow> curl_lib \<Rightarrow> llm_client \<Rightarrow>
     byte list \<Rightarrow> byte list option \<Rightarrow> nat \<Rightarrow>
     llm_stream_callbacks option \<Rightarrow> (nat \<Rightarrow> bool) option \<Rightarrow>
     header_list \<Rightarrow> stream_result" where
  "llm_completions_stream_choice_with_headers_ex alloc parser_ok lib client prompt params_json choice_index callbacks abort_cb headers =
     llm_completions_stream_with_headers_choice_ex alloc parser_ok lib client prompt params_json choice_index callbacks
       abort_cb headers None"

definition llm_completions_stream_choice_ex ::
  "(nat \<Rightarrow> bool) \<Rightarrow> bool \<Rightarrow> curl_lib \<Rightarrow> llm_client \<Rightarrow>
     byte list \<Rightarrow> byte list option \<Rightarrow> nat \<Rightarrow>
     llm_stream_callbacks option \<Rightarrow> (nat \<Rightarrow> bool) option \<Rightarrow> stream_result" where
  "llm_completions_stream_choice_ex alloc parser_ok lib client prompt params_json choice_index callbacks abort_cb =
     llm_completions_stream_with_headers_choice_ex alloc parser_ok lib client prompt params_json choice_index callbacks
       abort_cb (HNull 0) None"

definition llm_completions_stream_with_headers_detail_ex ::
  "(nat \<Rightarrow> bool) \<Rightarrow> bool \<Rightarrow> curl_lib \<Rightarrow> llm_client \<Rightarrow>
     byte list \<Rightarrow> byte list option \<Rightarrow> llm_stream_callbacks option \<Rightarrow>
     (nat \<Rightarrow> bool) option \<Rightarrow> header_list \<Rightarrow> llm_error_detail option \<Rightarrow>
     stream_result" where
  "llm_completions_stream_with_headers_detail_ex alloc parser_ok lib client prompt params_json callbacks abort_cb headers detail =
     llm_completions_stream_with_headers_choice_ex alloc parser_ok lib client prompt params_json 0 callbacks
       abort_cb headers detail"

definition llm_completions_stream_detail_ex ::
  "(nat \<Rightarrow> bool) \<Rightarrow> bool \<Rightarrow> curl_lib \<Rightarrow> llm_client \<Rightarrow>
     byte list \<Rightarrow> byte list option \<Rightarrow> llm_stream_callbacks option \<Rightarrow>
     (nat \<Rightarrow> bool) option \<Rightarrow> llm_error_detail option \<Rightarrow> stream_result" where
  "llm_completions_stream_detail_ex alloc parser_ok lib client prompt params_json callbacks abort_cb detail =
     llm_completions_stream_with_headers_choice_ex alloc parser_ok lib client prompt params_json 0 callbacks
       abort_cb (HNull 0) detail"

definition llm_completions_stream_choice_with_headers_detail_ex ::
  "(nat \<Rightarrow> bool) \<Rightarrow> bool \<Rightarrow> curl_lib \<Rightarrow> llm_client \<Rightarrow>
     byte list \<Rightarrow> byte list option \<Rightarrow> nat \<Rightarrow>
     llm_stream_callbacks option \<Rightarrow> (nat \<Rightarrow> bool) option \<Rightarrow>
     header_list \<Rightarrow> llm_error_detail option \<Rightarrow> stream_result" where
  "llm_completions_stream_choice_with_headers_detail_ex alloc parser_ok lib client prompt params_json choice_index callbacks abort_cb headers detail =
     llm_completions_stream_with_headers_choice_ex alloc parser_ok lib client prompt params_json choice_index callbacks
       abort_cb headers detail"

definition llm_completions_stream_choice_detail_ex ::
  "(nat \<Rightarrow> bool) \<Rightarrow> bool \<Rightarrow> curl_lib \<Rightarrow> llm_client \<Rightarrow>
     byte list \<Rightarrow> byte list option \<Rightarrow> nat \<Rightarrow>
     llm_stream_callbacks option \<Rightarrow> (nat \<Rightarrow> bool) option \<Rightarrow>
     llm_error_detail option \<Rightarrow> stream_result" where
  "llm_completions_stream_choice_detail_ex alloc parser_ok lib client prompt params_json choice_index callbacks abort_cb detail =
     llm_completions_stream_with_headers_choice_ex alloc parser_ok lib client prompt params_json choice_index callbacks
       abort_cb (HNull 0) detail"

definition llm_chat_stream_with_headers ::
  "(nat \<Rightarrow> bool) \<Rightarrow> bool \<Rightarrow> curl_lib \<Rightarrow> llm_client \<Rightarrow>
     llm_message list \<Rightarrow> byte list option \<Rightarrow> byte list option \<Rightarrow>
     byte list option \<Rightarrow> llm_stream_callbacks option \<Rightarrow> header_list \<Rightarrow>
     stream_bool" where
  "llm_chat_stream_with_headers alloc parser_ok lib client messages params_json tooling_json response_format_json callbacks headers =
     stream_bool
       (llm_chat_stream_with_headers_choice_ex alloc parser_ok lib client messages params_json tooling_json response_format_json 0 callbacks
       None headers None)"

definition llm_chat_stream_choice_with_headers ::
  "(nat \<Rightarrow> bool) \<Rightarrow> bool \<Rightarrow> curl_lib \<Rightarrow> llm_client \<Rightarrow>
     llm_message list \<Rightarrow> byte list option \<Rightarrow> byte list option \<Rightarrow>
     byte list option \<Rightarrow> nat \<Rightarrow> llm_stream_callbacks option \<Rightarrow>
     header_list \<Rightarrow> stream_bool" where
  "llm_chat_stream_choice_with_headers alloc parser_ok lib client messages params_json tooling_json response_format_json choice_index callbacks headers =
     stream_bool
       (llm_chat_stream_with_headers_choice_ex alloc parser_ok lib client messages params_json tooling_json response_format_json choice_index callbacks
       None headers None)"

definition llm_chat_stream_choice ::
  "(nat \<Rightarrow> bool) \<Rightarrow> bool \<Rightarrow> curl_lib \<Rightarrow> llm_client \<Rightarrow>
     llm_message list \<Rightarrow> byte list option \<Rightarrow> byte list option \<Rightarrow>
     byte list option \<Rightarrow> nat \<Rightarrow> llm_stream_callbacks option \<Rightarrow> stream_bool" where
  "llm_chat_stream_choice alloc parser_ok lib client messages params_json tooling_json response_format_json choice_index callbacks =
     stream_bool
       (llm_chat_stream_with_headers_choice_ex alloc parser_ok lib client messages params_json tooling_json response_format_json choice_index callbacks
       None (HNull 0) None)"

definition llm_chat_stream_with_headers_ex ::
  "(nat \<Rightarrow> bool) \<Rightarrow> bool \<Rightarrow> curl_lib \<Rightarrow> llm_client \<Rightarrow>
     llm_message list \<Rightarrow> byte list option \<Rightarrow> byte list option \<Rightarrow>
     byte list option \<Rightarrow> llm_stream_callbacks option \<Rightarrow> (nat \<Rightarrow>
     bool) option \<Rightarrow> header_list \<Rightarrow> stream_result" where
  "llm_chat_stream_with_headers_ex alloc parser_ok lib client messages params_json tooling_json response_format_json callbacks abort_cb headers =
     llm_chat_stream_with_headers_choice_ex alloc parser_ok lib client messages params_json tooling_json response_format_json 0 callbacks
       abort_cb headers None"

definition llm_chat_stream_ex ::
  "(nat \<Rightarrow> bool) \<Rightarrow> bool \<Rightarrow> curl_lib \<Rightarrow> llm_client \<Rightarrow>
     llm_message list \<Rightarrow> byte list option \<Rightarrow> byte list option \<Rightarrow>
     byte list option \<Rightarrow> llm_stream_callbacks option \<Rightarrow> (nat \<Rightarrow>
     bool) option \<Rightarrow> stream_result" where
  "llm_chat_stream_ex alloc parser_ok lib client messages params_json tooling_json response_format_json callbacks abort_cb =
     llm_chat_stream_with_headers_choice_ex alloc parser_ok lib client messages params_json tooling_json response_format_json 0 callbacks
       abort_cb (HNull 0) None"

definition llm_chat_stream_choice_with_headers_ex ::
  "(nat \<Rightarrow> bool) \<Rightarrow> bool \<Rightarrow> curl_lib \<Rightarrow> llm_client \<Rightarrow>
     llm_message list \<Rightarrow> byte list option \<Rightarrow> byte list option \<Rightarrow>
     byte list option \<Rightarrow> nat \<Rightarrow> llm_stream_callbacks option \<Rightarrow> (nat \<Rightarrow>
     bool) option \<Rightarrow> header_list \<Rightarrow> stream_result" where
  "llm_chat_stream_choice_with_headers_ex alloc parser_ok lib client messages params_json tooling_json response_format_json choice_index callbacks abort_cb headers =
     llm_chat_stream_with_headers_choice_ex alloc parser_ok lib client messages params_json tooling_json response_format_json choice_index callbacks
       abort_cb headers None"

definition llm_chat_stream_choice_ex ::
  "(nat \<Rightarrow> bool) \<Rightarrow> bool \<Rightarrow> curl_lib \<Rightarrow> llm_client \<Rightarrow>
     llm_message list \<Rightarrow> byte list option \<Rightarrow> byte list option \<Rightarrow>
     byte list option \<Rightarrow> nat \<Rightarrow> llm_stream_callbacks option \<Rightarrow> (nat \<Rightarrow>
     bool) option \<Rightarrow> stream_result" where
  "llm_chat_stream_choice_ex alloc parser_ok lib client messages params_json tooling_json response_format_json choice_index callbacks abort_cb =
     llm_chat_stream_with_headers_choice_ex alloc parser_ok lib client messages params_json tooling_json response_format_json choice_index callbacks
       abort_cb (HNull 0) None"

definition llm_chat_stream_with_headers_detail_ex ::
  "(nat \<Rightarrow> bool) \<Rightarrow> bool \<Rightarrow> curl_lib \<Rightarrow> llm_client \<Rightarrow>
     llm_message list \<Rightarrow> byte list option \<Rightarrow> byte list option \<Rightarrow>
     byte list option \<Rightarrow> llm_stream_callbacks option \<Rightarrow> (nat \<Rightarrow>
     bool) option \<Rightarrow> header_list \<Rightarrow> llm_error_detail option \<Rightarrow> stream_result" where
  "llm_chat_stream_with_headers_detail_ex alloc parser_ok lib client messages params_json tooling_json response_format_json callbacks abort_cb headers detail =
     llm_chat_stream_with_headers_choice_ex alloc parser_ok lib client messages params_json tooling_json response_format_json 0 callbacks
       abort_cb headers detail"

definition llm_chat_stream_choice_with_headers_detail_ex ::
  "(nat \<Rightarrow> bool) \<Rightarrow> bool \<Rightarrow> curl_lib \<Rightarrow> llm_client \<Rightarrow>
     llm_message list \<Rightarrow> byte list option \<Rightarrow> byte list option \<Rightarrow>
     byte list option \<Rightarrow> nat \<Rightarrow> llm_stream_callbacks option \<Rightarrow> (nat \<Rightarrow>
     bool) option \<Rightarrow> header_list \<Rightarrow> llm_error_detail option \<Rightarrow> stream_result" where
  "llm_chat_stream_choice_with_headers_detail_ex alloc parser_ok lib client messages params_json tooling_json response_format_json choice_index callbacks abort_cb headers detail =
     llm_chat_stream_with_headers_choice_ex alloc parser_ok lib client messages params_json tooling_json response_format_json choice_index callbacks
       abort_cb headers detail"

definition llm_chat_stream_choice_detail_ex ::
  "(nat \<Rightarrow> bool) \<Rightarrow> bool \<Rightarrow> curl_lib \<Rightarrow> llm_client \<Rightarrow>
     llm_message list \<Rightarrow> byte list option \<Rightarrow> byte list option \<Rightarrow>
     byte list option \<Rightarrow> nat \<Rightarrow> llm_stream_callbacks option \<Rightarrow> (nat \<Rightarrow>
     bool) option \<Rightarrow> llm_error_detail option \<Rightarrow> stream_result" where
  "llm_chat_stream_choice_detail_ex alloc parser_ok lib client messages params_json tooling_json response_format_json choice_index callbacks abort_cb detail =
     llm_chat_stream_with_headers_choice_ex alloc parser_ok lib client messages params_json tooling_json response_format_json choice_index callbacks
       abort_cb (HNull 0) detail"

section \<open>The tool loop\<close>

definition llm_tool_loop_run_with_headers ::
  "'d tool_loop_args \<Rightarrow> llm_client \<Rightarrow> llm_message list \<Rightarrow> 'd \<Rightarrow>
     nat \<Rightarrow> (bool \<times> llm_client \<times> 'd) option" where
  "llm_tool_loop_run_with_headers args client initial d max_turns =
     (case llm_tool_loop_run_with_headers_ex (args\<lparr>la_abort_cb := None\<rparr>) client initial d max_turns of
        None \<Rightarrow> None
      | Some (err, client, d, sent) \<Rightarrow> Some (err = LLM_ERR_NONE, client, d))"

end
