(* ===== verification/ExampleTools.thy ===== *)
theory ExampleTools
  imports ShortForms
begin

text \<open>
  The tools of the example programs under \<open>src/examples\<close>: the weather and dice tools of
  \<open>chat_advanced.c\<close> with the code that reads their arguments, and the dispatch function of
  \<open>tool_loop.c\<close>. The results are text; \<open>alloc\<close> grants each allocation, as everywhere.
\<close>

section \<open>Environment and errors\<close>

text \<open>\<open>getenv\<close> is a function of the name.\<close>

type_synonym environment = "string \<Rightarrow> byte list option"

definition env_truthy :: "environment \<Rightarrow> string \<Rightarrow> bool" where
  "env_truthy env name =
     (case env name of
        None \<Rightarrow> False
      | Some v \<Rightarrow> if v = [] then False else v \<noteq> [C_0])"

definition or_dash :: "byte list option \<Rightarrow> byte list" where
  "or_dash value = (case value of None \<Rightarrow> lit ''-'' | Some v \<Rightarrow> if v = [] then lit ''-'' else v)"

fun error_stage_str :: "llm_error_stage \<Rightarrow> byte list" where
  "error_stage_str LLM_ERROR_STAGE_TRANSPORT = lit ''transport''"
| "error_stage_str LLM_ERROR_STAGE_TLS = lit ''tls''"
| "error_stage_str LLM_ERROR_STAGE_SSE = lit ''sse''"
| "error_stage_str LLM_ERROR_STAGE_JSON = lit ''json''"
| "error_stage_str LLM_ERROR_STAGE_PROTOCOL = lit ''protocol''"
| "error_stage_str LLM_ERROR_STAGE_NONE = lit ''none''"

text \<open>
  The text on the error stream. A span printed with \<open>%.*s\<close> ends at a NUL; the spans of a detail are
  shorter than \<open>2 ^ 31\<close> bytes, within the limit on the response.
\<close>

definition detail_line :: "string \<Rightarrow> byte list option \<Rightarrow> byte list" where
  "detail_line label sp =
     (if nonempty sp then lit label @ lit '': '' @ c_string (the sp) @ [C_LF] else [])"

definition print_error_detail :: "byte list \<Rightarrow> llm_error \<Rightarrow> llm_error_detail option \<Rightarrow> byte list" where
  "print_error_detail label err detail =
     label @ lit '' failed: '' @ llm_errstr err @ [C_LF] @
     (case detail of
        None \<Rightarrow> []
      | Some d \<Rightarrow>
          lit ''stage='' @ error_stage_str (ed_stage d) @
          (if ed_has_http_status d then lit '' http='' @ fmt_int (ed_http_status d) else []) @ [C_LF] @
          detail_line ''message'' (ed_message d) @
          detail_line ''type'' (ed_type d) @
          detail_line ''code'' (ed_error_code d) @
          (if nonempty (ed_raw_body d) then
             (let raw = the (ed_raw_body d); cap = (if length raw > 256 then 256 else length raw) in
              lit ''raw_body: '' @ c_string (take cap raw) @ (if cap < length raw then lit ''...'' else []) @ [C_LF])
           else []))"

section \<open>Arguments\<close>

definition unescape_tool_args :: "(nat \<Rightarrow> bool) \<Rightarrow> byte list option \<Rightarrow> byte list option" where
  "unescape_tool_args alloc input =
     (case input of
        None \<Rightarrow> None
      | Some bs \<Rightarrow>
          if length bs > INT_MAX then None
          else if length bs \<ge> SIZE_MAX - 1 then None
          else if \<not> alloc (length bs + 1) then None
          else jstok_unescape bs
                 \<lparr>tk_type = JSTOK_STRING, tk_start = 0, tk_end = int (length bs), tk_size = 0\<rparr> (length bs + 1))"

definition dup_string :: "(nat \<Rightarrow> bool) \<Rightarrow> byte list option \<Rightarrow> byte list option" where
  "dup_string alloc s =
     (case s of
        None \<Rightarrow> None
      | Some bs \<Rightarrow> if length bs \<ge> SIZE_MAX - 1 then None else if \<not> alloc (length bs + 1) then None else Some bs)"

text \<open>
  The member of an object in a text: its token, by the two runs of the tokenizer both
  functions begin with.
\<close>

definition json_extract_token :: "(nat \<Rightarrow> bool) \<Rightarrow> byte list \<Rightarrow> byte list \<Rightarrow> jstoktok option" where
  "json_extract_token alloc json key =
     (if length json > INT_MAX then None
      else
        (case fst (jstok_parse False jstok_init (Some json) None) of
           Inl e \<Rightarrow> None
         | Inr needed \<Rightarrow>
             if needed = 0 then None
             else if \<not> alloc (needed * JSTOKTOK_SIZE) then None
             else
               (case jstok_parse False jstok_init (Some json) (Some (fresh_toks needed)) of
                  (Inr count, _, Some tokens) \<Rightarrow>
                    if count > 0 \<and> tk_type (tokens ! 0) = JSTOK_OBJECT then
                      (let idx = jstok_object_get json (take count tokens) 0 key in
                       if idx \<ge> 0 then Some (tokens ! nat idx) else None)
                    else None
                | _ \<Rightarrow> None)))"

text \<open>The span found, itself NULL for a token without one.\<close>

definition json_extract_string :: "(nat \<Rightarrow> bool) \<Rightarrow> byte list \<Rightarrow> byte list \<Rightarrow> byte list option option" where
  "json_extract_string alloc json key =
     (case json_extract_token alloc json key of
        None \<Rightarrow> None
      | Some tok \<Rightarrow> if tk_type tok = JSTOK_STRING then Some (jstok_span json tok) else None)"

text \<open>\<open>Undefined\<close> stands for the overflow of \<open>jstok_atoi64\<close>.\<close>

definition json_extract_int :: "(nat \<Rightarrow> bool) \<Rightarrow> byte list \<Rightarrow> byte list \<Rightarrow> int outcome" where
  "json_extract_int alloc json key =
     (case json_extract_token alloc json key of
        None \<Rightarrow> Failed
      | Some tok \<Rightarrow>
          if tk_type tok = JSTOK_PRIMITIVE then
            (case jstok_atoi64 json tok of AtoiFail \<Rightarrow> Failed | AtoiOverflow \<Rightarrow> Undefined | AtoiOk val \<Rightarrow> Done val)
          else Failed)"

section \<open>The tools of chat_advanced.c\<close>

definition weather_reply :: "(nat \<Rightarrow> bool) \<Rightarrow> cspan \<Rightarrow> byte list" where
  "weather_reply alloc args =
     (let unknown = qlit ''{`location`:`unknown`,`temperature_c`:0,`condition`:`unknown`}'' in
      if \<not> sp_null args \<and> sp_len args > 0 then
        (case json_extract_string alloc (sp_bytes args) (lit ''location'') of
           Some (Some location) \<Rightarrow>
             if location = lit ''Tokyo'' then qlit ''{`location`:`Tokyo`,`temperature_c`:26,`condition`:`clear`}''
             else if location = lit ''Berlin'' then qlit ''{`location`:`Berlin`,`temperature_c`:18,`condition`:`overcast`}''
             else unknown
         | _ \<Rightarrow> unknown)
      else unknown)"

definition dice_sides :: "(nat \<Rightarrow> bool) \<Rightarrow> cspan \<Rightarrow> int outcome" where
  "dice_sides alloc args =
     (case (if \<not> sp_null args \<and> sp_len args > 0 then json_extract_int alloc (sp_bytes args) (lit ''sides'') else Failed) of
        Undefined \<Rightarrow> Undefined
      | Failed \<Rightarrow> Done 6
      | Done sides \<Rightarrow> Done (if sides < 2 \<or> sides > 1000 then 6 else sides))"

definition dice_reply :: "int \<Rightarrow> byte list" where
  "dice_reply sides =
     qlit ''{`sides`:'' @ fmt_int sides @ qlit '',`result`:'' @ fmt_int ((sides + 1) div 2) @ lit ''}''"

definition build_tool_result_from_args ::
  "(nat \<Rightarrow> bool) \<Rightarrow> llm_tool_call \<Rightarrow> cspan \<Rightarrow> byte list outcome" where
  "build_tool_result_from_args alloc call args =
     (let done_or_failed = (\<lambda>r. case r of None \<Rightarrow> Failed | Some out \<Rightarrow> Done out) in
      if \<not> nonempty (tc_name call) then Failed
      else if sp_len args > 0 \<and> sp_null args then Failed
      else if tc_name call = Some (lit ''get_weather'') then
        done_or_failed (dup_string alloc (Some (weather_reply alloc args)))
      else if tc_name call = Some (lit ''roll_dice'') then
        (case dice_sides alloc args of
           Undefined \<Rightarrow> Undefined
         | Failed \<Rightarrow> Failed
         | Done sides \<Rightarrow>
             if \<not> alloc 64 then Failed
             else if length (dice_reply sides) < 64 then Done (dice_reply sides) else Failed)
      else done_or_failed (dup_string alloc (Some (qlit ''{`error`:`unknown_tool`}''))))"

section \<open>The tool of tool\_loop.c\<close>

text \<open>\<open>strncmp\<close> is 0: the strings agree up to their end or in \<open>n\<close> bytes.\<close>

fun strncmp_eq :: "byte list \<Rightarrow> byte list \<Rightarrow> nat \<Rightarrow> bool" where
  "strncmp_eq a b 0 = True"
| "strncmp_eq a b (Suc n) =
     (let x = (case a of [] \<Rightarrow> C_NUL | c # _ \<Rightarrow> c); y = (case b of [] \<Rightarrow> C_NUL | c # _ \<Rightarrow> c) in
      if x \<noteq> y then False else if x = C_NUL then True else strncmp_eq (tl a) (tl b) n)"

lemma strncmp_eq_code [code]:
  "strncmp_eq a b n =
     (if n = 0 then True
      else let x = (case a of [] \<Rightarrow> C_NUL | c # _ \<Rightarrow> c); y = (case b of [] \<Rightarrow> C_NUL | c # _ \<Rightarrow> c) in
        if x \<noteq> y then False else if x = C_NUL then True else strncmp_eq (tl a) (tl b) (n - 1))"
  by (cases n) (simp_all add: Let_def)

definition mock_response :: "byte list" where
  "mock_response = qlit ''{`temperature`: 22, `unit`: `celsius`, `description`: `Sunny intervals`}''"

text \<open>The result of \<open>strdup\<close> is not looked at.\<close>

definition weather_dispatch :: "(nat \<Rightarrow> bool) \<Rightarrow> 'd dispatch" where
  "weather_dispatch alloc d tool_name args_json =
     (let name = span_bytes tool_name in
      if strncmp_eq name (lit ''get_weather'') (length name)
      then (True, cstrdup alloc mock_response, d) else (False, None, d))"

section \<open>Properties\<close>

lemma strncmp_eq_prefix:
  assumes "C_NUL \<notin> set a" "C_NUL \<notin> set b"
  shows "strncmp_eq a b (length a) = (take (length a) b = a)"
  using assms
proof (induction a arbitrary: b)
  case (Cons c a)
  then show ?case by (cases b) (auto simp: Let_def)
qed simp

text \<open>
  The comparison is bounded by the length of the name the model sent, so the weather tool answers
  to every beginning of its name, and to a call without a name.
\<close>

theorem weather_dispatch_prefix:
  assumes "C_NUL \<notin> set name"
  shows "fst (weather_dispatch alloc d (Some name) args) = (take (length name) (lit ''get_weather'') = name)"
  using strncmp_eq_prefix [OF assms, of "lit ''get_weather''"]
  by (simp add: weather_dispatch_def span_bytes_def Let_def del: lit_Cons) simp

end
