(* ===== verification/ExampleMain.thy ===== *)
theory ExampleMain
  imports ExampleTools
begin

text \<open>
  The example programs under \<open>src/examples\<close>: the tool round of \<open>chat_advanced.c\<close> and the four
  \<open>main\<close> functions, as compositions of the library's calls. A run gives the exit code with the
  conversations that were sent and the callbacks of the stream. What \<open>chat_advanced.c\<close> prints of
  its configuration and progress is left out; allocation, libcurl, the environment and the C
  library's formatting of doubles are parameters.
\<close>

section \<open>Configuration of chat\_advanced.c\<close>

definition env_or :: "environment \<Rightarrow> string \<Rightarrow> byte list \<Rightarrow> byte list" where
  "env_or env name fallback = (if nonempty (env name) then the (env name) else fallback)"

definition advanced_timeout :: llm_timeout where
  "advanced_timeout = \<lparr>tm_connect_ms = 5000, tm_overall_ms = 30000, tm_read_idle_ms = 10000\<rparr>"

definition advanced_limits :: llm_limits where
  "advanced_limits =
     \<lparr>lm_max_response_bytes = 2 * 1024 * 1024, lm_max_line_bytes = 256 * 1024, lm_max_frame_bytes = 256 * 1024,
      lm_max_sse_buffer_bytes = 2 * 1024 * 1024, lm_max_tool_args_bytes_per_call = 16 * 1024,
      lm_max_tool_args_bytes_per_turn = 64 * 1024, lm_max_tool_output_bytes_total = 64 * 1024,
      lm_max_embedding_input_bytes = 256 * 1024, lm_max_embedding_inputs = 128, lm_max_content_parts = 32,
      lm_max_content_bytes = 64 * 1024\<rparr>"

definition advanced_headers :: header_list where
  "advanced_headers =
     HArr [Some (lit ''User-Agent: desi-advanced-example/1.0''), Some (lit ''X-Client-Mode: advanced'')]"

text \<open>The TLS configuration, and whether any part of it was given.\<close>

definition advanced_tls :: "environment \<Rightarrow> llm_tls_config \<times> bool" where
  "advanced_tls env =
     (let given = (\<lambda>name. if nonempty (env name) then env name else None);
          insecure = env_truthy env ''LLM_INSECURE'' in
      (\<lparr>tls_ca_bundle_path = given ''LLM_CA_BUNDLE'', tls_ca_dir_path = given ''LLM_CA_DIR'',
        tls_client_cert_path = given ''LLM_CLIENT_CERT'', tls_client_key_path = given ''LLM_CLIENT_KEY'',
        tls_key_password_cb = None, tls_verify_peer = LLM_TLS_VERIFY_DEFAULT,
        tls_verify_host = LLM_TLS_VERIFY_DEFAULT, tls_insecure = insecure\<rparr>,
       nonempty (env ''LLM_CA_BUNDLE'') \<or> nonempty (env ''LLM_CA_DIR'') \<or> nonempty (env ''LLM_CLIENT_CERT'') \<or>
       nonempty (env ''LLM_CLIENT_KEY'') \<or> insecure))"

text \<open>A step of the setup on the handle, or the exit with code 1.\<close>

definition setup_step :: "bool \<Rightarrow> (llm_client \<Rightarrow> bool \<times> llm_client) \<Rightarrow> llm_client option \<Rightarrow> llm_client option" where
  "setup_step wanted f client =
     (case client of
        None \<Rightarrow> None
      | Some c \<Rightarrow> if \<not> wanted then Some c else (case f c of (ok, c1) \<Rightarrow> if ok then Some c1 else None))"

definition advanced_client :: "(nat \<Rightarrow> bool) \<Rightarrow> environment \<Rightarrow> llm_client option" where
  "advanced_client alloc env =
     (let base_url = env_or env ''LLM_BASE_URL'' (lit ''http://127.0.0.1:8080'');
          model_name = env_or env ''LLM_MODEL'' (lit ''gpt-4o'');
          client = llm_client_create_with_headers_opts alloc base_url (Some model_name) (Some advanced_timeout)
                     (Some advanced_limits) advanced_headers True;
          client = setup_step (nonempty (env ''LLM_API_KEY''))
                     (\<lambda>c. llm_client_set_api_key alloc c (env ''LLM_API_KEY'')) client;
          client = setup_step (snd (advanced_tls env))
                     (\<lambda>c. llm_client_set_tls_config alloc c (Some (fst (advanced_tls env)))) client;
          client = setup_step (nonempty (env ''LLM_PROXY''))
                     (\<lambda>c. llm_client_set_proxy alloc c (env ''LLM_PROXY'')) client in
      setup_step (nonempty (env ''LLM_NO_PROXY'')) (\<lambda>c. llm_client_set_no_proxy alloc c (env ''LLM_NO_PROXY'')) client)"

text \<open>The request options; \<open>quarter\<close> and \<open>three_quarters\<close> are the doubles 0.25 and 0.75.\<close>

definition advanced_opts :: "'d \<Rightarrow> 'd \<Rightarrow> 'd llm_request_opts" where
  "advanced_opts quarter three_quarters =
     \<lparr>ro_temperature = Some quarter, ro_top_p = Some three_quarters, ro_max_tokens = Some 256, ro_stop = SNull 0,
      ro_stop_list = Some [Some (lit ''<<END>>'')], ro_stop_lens = True, ro_stop_count = 1,
      ro_frequency_penalty = None, ro_presence_penalty = None, ro_seed = Some 4242\<rparr>"

definition advanced_params :: "('d \<Rightarrow> byte list) \<Rightarrow> ('d \<Rightarrow> bool) \<Rightarrow> 'd \<Rightarrow> 'd \<Rightarrow> byte list option" where
  "advanced_params fmt finite_d quarter three_quarters =
     llm_request_opts_json_write fmt finite_d (Some (advanced_opts quarter three_quarters)) 512 4 32"

definition advanced_tooling_json :: "byte list" where
  "advanced_tooling_json =
     qlit ''{`tools`:[{`type`:`function`,`function`:{`name`:`get_weather`,'' @
     qlit ''`description`:`Get current weather for a city`,'' @
     qlit ''`parameters`:{`type`:`object`,`properties`:{`location`:{`type`:`string`,`description`:`City name`}},'' @
     qlit ''`required`:[`location`]}}},{`type`:`function`,`function`:{`name`:`roll_dice`,'' @
     qlit ''`description`:`Return a deterministic dice roll`,'' @
     qlit ''`parameters`:{`type`:`object`,`properties`:{`sides`:{`type`:`integer`,`minimum`:2,`maximum`:1000}},'' @
     qlit ''`required`:[`sides`]}}}]}''"

definition text_message :: "llm_role \<Rightarrow> byte list \<Rightarrow> llm_message" where
  "text_message role content =
     \<lparr>msg_role = role, msg_content = SPtr content, msg_tool_call_id = SNull 0, msg_name = SNull 0,
      msg_tool_calls_json = SNull 0, msg_content_json = SNull 0\<rparr>"

definition advanced_initial :: "llm_message list" where
  "advanced_initial =
     [text_message LLM_ROLE_SYSTEM (lit ''You are a helpful demo assistant. Use tools when you need concrete data.''),
      text_message LLM_ROLE_USER
        (lit ''Use get_weather for Tokyo and roll_dice with sides=12, then write a short, friendly update.'')]"

section \<open>The tool round of chat\_advanced.c\<close>

text \<open>Content and reasoning of the answer, one after the other; no content when both are empty.\<close>

definition build_assistant_content :: "(nat \<Rightarrow> bool) \<Rightarrow> llm_chat_choice \<Rightarrow> cspan outcome" where
  "build_assistant_content alloc result =
     (let content = span_bytes (ch_content result); reasoning = span_bytes (ch_reasoning_content result);
          n = length content + length reasoning in
      if length content > SIZE_MAX - length reasoning then Failed
      else if n = 0 then Done (SNull 0)
      else if n \<ge> SIZE_MAX - 1 then Failed
      else if \<not> alloc (n + 1) then Failed
      else Done (SPtr (content @ reasoning)))"

definition have_tool_calls :: "llm_chat_choice \<Rightarrow> bool" where
  "have_tool_calls result \<longleftrightarrow>
     ch_finish_reason result = LLM_FINISH_REASON_TOOL_CALLS \<and> ch_tool_calls result \<noteq> [] \<and>
     nonempty (ch_tool_calls_json result)"

text \<open>One call: its tool message.\<close>

definition followup_tool :: "(nat \<Rightarrow> bool) \<Rightarrow> llm_tool_call \<Rightarrow> llm_message outcome" where
  "followup_tool alloc call =
     (if \<not> nonempty (tc_id call) \<or> \<not> nonempty (tc_name call) then Failed
      else if tc_arguments call = None then Failed
      else
        (case unescape_tool_args alloc (tc_arguments call) of
           None \<Rightarrow> Failed
         | Some args \<Rightarrow>
             (case build_tool_result_from_args alloc call (SPtr args) of
                Undefined \<Rightarrow> Undefined
              | Failed \<Rightarrow> Failed
              | Done tool_json \<Rightarrow>
                  (case llm_tool_message_init (SPtr tool_json) (SPtr (the (tc_id call))) (SPtr (the (tc_name call))) of
                     None \<Rightarrow> Failed
                   | Some m \<Rightarrow> Done m))))"

fun followup_tools :: "(nat \<Rightarrow> bool) \<Rightarrow> llm_tool_call list \<Rightarrow> llm_message list outcome" where
  "followup_tools alloc [] = Done []"
| "followup_tools alloc (call # calls) =
     (case followup_tool alloc call of
        Undefined \<Rightarrow> Undefined
      | Failed \<Rightarrow> Failed
      | Done m \<Rightarrow>
          (case followup_tools alloc calls of Undefined \<Rightarrow> Undefined | Failed \<Rightarrow> Failed | Done ms \<Rightarrow> Done (m # ms)))"

definition followup_messages :: "(nat \<Rightarrow> bool) \<Rightarrow> llm_chat_choice \<Rightarrow> llm_message list outcome" where
  "followup_messages alloc result =
     (case build_assistant_content alloc result of
        Undefined \<Rightarrow> Undefined
      | Failed \<Rightarrow> Failed
      | Done content \<Rightarrow>
          (let n = length (ch_tool_calls result);
               assistant = \<lparr>msg_role = LLM_ROLE_ASSISTANT, msg_content = content, msg_tool_call_id = SNull 0,
                 msg_name = SNull 0, msg_tool_calls_json = SPtr (span_bytes (ch_tool_calls_json result)),
                 msg_content_json = SNull 0\<rparr> in
           if \<not> alloc ((2 + 1 + n) * MESSAGE_SIZE) then Failed
           else if \<not> alloc (n * 8) then Failed
           else
             (case followup_tools alloc (ch_tool_calls result) of
                Undefined \<Rightarrow> Undefined
              | Failed \<Rightarrow> Failed
              | Done ms \<Rightarrow> Done (advanced_initial @ [assistant] @ ms))))"

definition request_id :: "string \<Rightarrow> header_list" where
  "request_id name = HArr [Some (lit ''X-Request-Id: '' @ lit name)]"

text \<open>
  The first request with the tools and, when the answer asks for some, the second without: the
  handle, whether both went well, the conversations sent; \<open>None\<close> after them stands for the exit
  with code 1.
\<close>

definition advanced_round ::
  "(nat \<Rightarrow> bool) \<Rightarrow> curl_lib \<Rightarrow> llm_client \<Rightarrow> byte list \<Rightarrow> (llm_message list list \<times> (llm_client \<times> bool) option) option" where
  "advanced_round alloc lib client params_json =
     (case llm_chat_with_headers_ex alloc lib client advanced_initial (Some params_json) (Some advanced_tooling_json) None
             True (request_id ''tool-call-1'') (Some error_detail_clear) of
        None \<Rightarrow> None
      | Some (err, client, detail, answer) \<Rightarrow>
          if err \<noteq> LLM_ERR_NONE then Some ([advanced_initial], None)
          else
            (case answer of
               None \<Rightarrow> Some ([advanced_initial], Some (client, True))
             | Some (chat, body, terminated) \<Rightarrow>
                 if \<not> have_tool_calls (cr_first chat) then Some ([advanced_initial], Some (client, True))
                 else
                   (case followup_messages alloc (cr_first chat) of
                      Undefined \<Rightarrow> None
                    | Failed \<Rightarrow> Some ([advanced_initial], None)
                    | Done msgs \<Rightarrow>
                        (case llm_chat_with_headers_ex alloc lib client msgs (Some params_json) None None True
                                (request_id ''tool-call-final'') (Some error_detail_clear) of
                           None \<Rightarrow> None
                         | Some (err, client, detail, answer) \<Rightarrow>
                             Some ([advanced_initial, msgs], Some (client, err = LLM_ERR_NONE))))))"

section \<open>The stream of chat\_advanced.c\<close>

record stream_state =
  st_content_bytes :: nat
  st_reasoning_bytes :: nat

definition on_content_delta :: "stream_state \<Rightarrow> byte list \<Rightarrow> stream_state" where
  "on_content_delta st delta = st\<lparr>st_content_bytes := wrap64 (st_content_bytes st + length delta)\<rparr>"

definition on_reasoning_delta :: "stream_state \<Rightarrow> byte list \<Rightarrow> stream_state" where
  "on_reasoning_delta st delta = st\<lparr>st_reasoning_bytes := wrap64 (st_reasoning_bytes st + length delta)\<rparr>"

text \<open>The other callbacks only print.\<close>

fun on_stream_call :: "stream_state \<Rightarrow> stream_call \<Rightarrow> stream_state" where
  "on_stream_call st (OnContentDelta delta) = on_content_delta st delta"
| "on_stream_call st (OnReasoningDelta delta) = on_reasoning_delta st delta"
| "on_stream_call st _ = st"

text \<open>What the callbacks print, on the output and on the error stream.\<close>

definition usage_number :: "string \<Rightarrow> nat option \<Rightarrow> byte list" where
  "usage_number label n = (case n of None \<Rightarrow> [] | Some k \<Rightarrow> lit label @ fmt_int (int k))"

definition on_usage_text :: "llm_usage \<Rightarrow> byte list" where
  "on_usage_text usage =
     (if us_prompt_tokens usage = None \<and> us_completion_tokens usage = None \<and> us_total_tokens usage = None then []
      else
        [C_LF] @ lit ''[usage]'' @ usage_number '' prompt='' (us_prompt_tokens usage) @
        usage_number '' completion='' (us_completion_tokens usage) @
        usage_number '' total='' (us_total_tokens usage) @ [C_LF])"

definition on_finish_reason_text :: "llm_finish_reason \<Rightarrow> byte list" where
  "on_finish_reason_text reason = [C_LF] @ lit ''[finish] '' @ llm_finish_reason_to_string reason @ [C_LF]"

fun callback_output :: "stream_call \<Rightarrow> byte list \<times> byte list" where
  "callback_output (OnContentDelta delta) = (delta, [])"
| "callback_output (OnReasoningDelta delta) = ([], lit ''[reasoning] '' @ c_string delta)"
| "callback_output (OnUsage usage) = ([], on_usage_text usage)"
| "callback_output (OnFinishReason reason) = ([], on_finish_reason_text reason)"
| "callback_output _ = ([], [])"

definition advanced_callbacks :: "bool \<Rightarrow> llm_stream_callbacks" where
  "advanced_callbacks show_reasoning =
     \<lparr>sk_content_delta = True, sk_reasoning_delta = show_reasoning, sk_tool_args_fragment = False,
      sk_tool_call_delta = False, sk_tool_args_complete = False, sk_usage = True, sk_finish_reason = True,
      sk_include_usage = True\<rparr>"

definition advanced_stream ::
  "(nat \<Rightarrow> bool) \<Rightarrow> bool \<Rightarrow> curl_lib \<Rightarrow> llm_client \<Rightarrow> bool \<Rightarrow> byte list \<Rightarrow> stream_result" where
  "advanced_stream alloc parser_ok lib client show_reasoning params_json =
     llm_chat_stream_with_headers_detail_ex alloc parser_ok lib client
       [text_message LLM_ROLE_USER (lit ''In one sentence, describe desi's core design philosophy.'')]
       (Some params_json) None None (Some (advanced_callbacks show_reasoning)) None (request_id ''stream-demo'')
       (Some error_detail_clear)"

section \<open>The main of chat\_advanced.c\<close>

record advanced_run =
  ar_exit :: int
  ar_sent :: "llm_message list list"
  ar_stream :: "stream_call list"
  ar_state :: stream_state

definition advanced_exit :: "int \<Rightarrow> llm_message list list \<Rightarrow> advanced_run" where
  "advanced_exit code sent =
     \<lparr>ar_exit = code, ar_sent = sent, ar_stream = [], ar_state = \<lparr>st_content_bytes = 0, st_reasoning_bytes = 0\<rparr>\<rparr>"

text \<open>The exit code when there are arguments.\<close>

definition advanced_args :: "byte list list \<Rightarrow> int option" where
  "advanced_args args = (if args = [] then None else if args = [lit ''--help''] then Some 0 else Some 1)"

lemma advanced_args_Nil [simp]: "advanced_args [] = None"
  by (simp add: advanced_args_def)

definition advanced_main ::
  "(nat \<Rightarrow> bool) \<Rightarrow> bool \<Rightarrow> curl_lib \<Rightarrow> ('d \<Rightarrow> byte list) \<Rightarrow> ('d \<Rightarrow> bool) \<Rightarrow> 'd \<Rightarrow> 'd \<Rightarrow> environment \<Rightarrow>
     byte list list \<Rightarrow> advanced_run option" where
  "advanced_main alloc parser_ok lib fmt finite_d quarter three_quarters env args =
     (case advanced_args args of
        Some code \<Rightarrow> Some (advanced_exit code [])
      | None \<Rightarrow>
        (case advanced_client alloc env of
           None \<Rightarrow> Some (advanced_exit 1 [])
         | Some client \<Rightarrow>
             (case llm_health_ex alloc lib client (Some error_detail_clear) of
                None \<Rightarrow> None
              | Some (err, client, detail, health) \<Rightarrow>
                  if err \<noteq> LLM_ERR_NONE then Some (advanced_exit 1 [])
                  else
                    (case advanced_params fmt finite_d quarter three_quarters of
                       None \<Rightarrow> Some (advanced_exit 1 [])
                     | Some params_json \<Rightarrow>
                         (case advanced_round alloc lib client params_json of
                            None \<Rightarrow> None
                          | Some (sent, None) \<Rightarrow> Some (advanced_exit 1 sent)
                          | Some (sent, Some (client, ok)) \<Rightarrow>
                              (case advanced_stream alloc parser_ok lib client (env_truthy env ''LLM_SHOW_REASONING'')
                                      params_json of
                                 None \<Rightarrow> None
                               | Some (err, client, detail, calls) \<Rightarrow>
                                   Some \<lparr>ar_exit = (if ok \<and> err = LLM_ERR_NONE then 0 else 1), ar_sent = sent,
                                         ar_stream = calls,
                                         ar_state = foldl on_stream_call
                                           \<lparr>st_content_bytes = 0, st_reasoning_bytes = 0\<rparr> calls\<rparr>))))))"

section \<open>The other programs\<close>

definition tool_loop_tools :: "byte list" where
  "tool_loop_tools =
     qlit ''{`tools`: [{`type`: `function`,`function`: {`name`: `get_weather`,'' @
     qlit ''`description`: `Get current weather for a location`,`parameters`: {`type`: `object`,`properties`: {'' @
     qlit ''`location`: {`type`: `string`, `description`: `City, e.g. London`}},`required`: [`location`]}}}]}''"

definition tool_loop_prompt :: "byte list" where
  "tool_loop_prompt = lit ''What's the weather like in London today?''"

text \<open>The message says that its content has 34 bytes.\<close>

definition tool_loop_initial :: "llm_message list" where
  "tool_loop_initial = [text_message LLM_ROLE_USER (take 34 tool_loop_prompt)]"

text \<open>The exit code, and how the loop ended if it was run.\<close>

definition tool_loop_main :: "(nat \<Rightarrow> bool) \<Rightarrow> curl_lib \<Rightarrow> environment \<Rightarrow> (int \<times> bool option) option" where
  "tool_loop_main alloc lib env =
     (let url = (case env ''LLM_BASE_URL'' of None \<Rightarrow> lit ''http://127.0.0.1:8080'' | Some u \<Rightarrow> u);
          model_name = (case env ''LLM_MODEL'' of None \<Rightarrow> lit ''gpt-3.5-turbo'' | Some m \<Rightarrow> m) in
      case llm_client_create alloc url (Some model_name) None None of
        None \<Rightarrow> Some (1, None)
      | Some client \<Rightarrow>
          (case llm_health alloc lib client of
             None \<Rightarrow> None
           | Some (ok, client, v) \<Rightarrow>
               if \<not> ok then Some (1, None)
               else
                 (case llm_tool_loop_run
                         \<lparr>la_alloc = alloc, la_lib = lib, la_params_json = None, la_tooling_json = Some tool_loop_tools,
                          la_response_format_json = None, la_dispatch = weather_dispatch alloc, la_abort_cb = None,
                          la_headers = HNull 0\<rparr> client tool_loop_initial () 5 of
                    None \<Rightarrow> None
                  | Some (ok, client, d) \<Rightarrow> Some (0, Some ok))))"

text \<open>The exit code and the text printed.\<close>

definition chat_simple_main :: "(nat \<Rightarrow> bool) \<Rightarrow> curl_lib \<Rightarrow> (int \<times> byte list) option" where
  "chat_simple_main alloc lib =
     (case llm_client_create alloc (lit ''https://api.openai.com'') (Some (lit ''gpt-4o'')) None None of
        None \<Rightarrow> Some (1, [])
      | Some client \<Rightarrow>
          (case llm_chat alloc lib client [text_message LLM_ROLE_USER (take 10 (lit ''Say hello!''))] None None None of
             None \<Rightarrow> None
           | Some (ok, client, answer) \<Rightarrow>
               Some (0,
                 if ok then
                   (case (case answer of None \<Rightarrow> None | Some (r, body, z) \<Rightarrow> ch_content (cr_first r)) of
                      None \<Rightarrow> []
                    | Some content \<Rightarrow> lit ''Assistant: '' @ c_string content @ [C_LF])
                 else [])))"

fun chat_stream_print :: "stream_call \<Rightarrow> byte list" where
  "chat_stream_print (OnContentDelta delta) = c_string delta"
| "chat_stream_print (OnFinishReason reason) =
     [C_LF] @ lit ''[Finish reason: '' @ llm_finish_reason_to_string reason @ lit '']'' @ [C_LF]"
| "chat_stream_print _ = []"

definition chat_stream_main :: "(nat \<Rightarrow> bool) \<Rightarrow> bool \<Rightarrow> curl_lib \<Rightarrow> (int \<times> byte list) option" where
  "chat_stream_main alloc parser_ok lib =
     (case llm_client_create alloc (lit ''https://api.openai.com'') (Some (lit ''gpt-4o'')) None None of
        None \<Rightarrow> Some (1, [])
      | Some client \<Rightarrow>
          (case llm_chat_stream alloc parser_ok lib client
                  [text_message LLM_ROLE_USER (take 21 (lit ''Tell me a short joke.''))] None None None
                  (Some \<lparr>sk_content_delta = True, sk_reasoning_delta = False, sk_tool_args_fragment = False,
                         sk_tool_call_delta = False, sk_tool_args_complete = False, sk_usage = False,
                         sk_finish_reason = True, sk_include_usage = False\<rparr>) of
             None \<Rightarrow> None
           | Some (ok, client, calls) \<Rightarrow> Some (0, lit ''Assistant: '' @ concat (map chat_stream_print calls))))"

end
