(* ===== verification/ExampleProps.thy ===== *)
theory ExampleProps
  imports ExampleMain JsonBuildProps ApiProps
begin

text \<open>
  What the example programs send: the results of the tools are JSON, and the second conversation of
  \<open>chat_advanced.c\<close> answers every call of the server's answer to the first.
\<close>

section \<open>The results of the tools\<close>

lemma dice_reply_text:
  "dice_reply sides = object_text [member (lit ''sides'') (fmt_int sides), member (lit ''result'') (fmt_int ((sides + 1) div 2))]"
  by (simp add: dice_reply_def object_text_def member_def qlit_def)

lemma flat_object_jclosed: "ms \<noteq> [] \<Longrightarrow> \<forall>m\<in>set ms. jmems 0 m \<Longrightarrow> jclosed (Suc 0) (object_text ms)"
  using jclosed_object_text .

lemma string_member: "json_chars (lit k) \<Longrightarrow> json_chars s \<Longrightarrow> jmems 0 (member (lit k) ([C_QUOTE] @ s @ [C_QUOTE]))"
  by (rule jmems_one [OF _ jval_string])

lemma int_member: "json_chars (lit k) \<Longrightarrow> jmems 0 (member (lit k) (fmt_int n))"
  by (rule jmems_one [OF _ jval_number [OF fmt_int_number]])

lemma example_chars:
  "json_chars (lit ''location'')" "json_chars (lit ''temperature_c'')" "json_chars (lit ''condition'')"
  "json_chars (lit ''sides'')" "json_chars (lit ''result'')" "json_chars (lit ''error'')"
  "json_chars (lit ''unknown_tool'')" "json_chars (lit ''unknown'')" "json_chars (lit ''Tokyo'')"
  "json_chars (lit ''clear'')" "json_chars (lit ''Berlin'')" "json_chars (lit ''overcast'')"
  by code_simp+

definition weather_text :: "string \<Rightarrow> int \<Rightarrow> string \<Rightarrow> byte list" where
  "weather_text location temperature condition = object_text
      [member (lit ''location'') ([C_QUOTE] @ lit location @ [C_QUOTE]),
       member (lit ''temperature_c'') (fmt_int temperature),
       member (lit ''condition'') ([C_QUOTE] @ lit condition @ [C_QUOTE])]"

lemma weather_text_jclosed:
  assumes "json_chars (lit location)" "json_chars (lit condition)"
  shows "jclosed (Suc 0) (weather_text location temperature condition)"
  unfolding weather_text_def
  by (rule flat_object_jclosed, simp,
      simp only: list.set ball_simps string_member int_member example_chars assms simp_thms)

lemma weather_reply_jclosed: "jclosed (Suc 0) (weather_reply alloc args)"
proof -
  have t: "qlit ''{`location`:`unknown`,`temperature_c`:0,`condition`:`unknown`}'' = weather_text ''unknown'' 0 ''unknown''"
    "qlit ''{`location`:`Tokyo`,`temperature_c`:26,`condition`:`clear`}'' = weather_text ''Tokyo'' 26 ''clear''"
    "qlit ''{`location`:`Berlin`,`temperature_c`:18,`condition`:`overcast`}'' = weather_text ''Berlin'' 18 ''overcast''"
    by code_simp+
  show ?thesis
    unfolding weather_reply_def Let_def t
    by (simp add: weather_text_jclosed example_chars del: lit_Cons split: option.split)
qed

lemma dice_reply_jclosed: "jclosed (Suc 0) (dice_reply sides)"
  unfolding dice_reply_text
  by (rule flat_object_jclosed, simp, simp only: list.set ball_simps int_member example_chars simp_thms)

lemma unknown_reply_jclosed: "jclosed (Suc 0) (qlit ''{`error`:`unknown_tool`}'')"
proof -
  have e: "qlit ''{`error`:`unknown_tool`}'' =
      object_text [member (lit ''error'') ([C_QUOTE] @ lit ''unknown_tool'' @ [C_QUOTE])]" by code_simp
  show ?thesis
    unfolding e by (rule flat_object_jclosed, simp, simp only: list.set ball_simps string_member example_chars simp_thms)
qed

lemma tool_result_jclosed: "build_tool_result_from_args alloc call args = Done t \<Longrightarrow> jclosed (Suc 0) t"
  using weather_reply_jclosed dice_reply_jclosed unknown_reply_jclosed
  by (auto simp: build_tool_result_from_args_def dup_string_def Let_def simp del: lit_Cons split: if_splits outcome.splits)

text \<open>The dice have between 2 and 1000 sides, whatever the arguments say.\<close>

lemma dice_sides_range: "dice_sides alloc args = Done sides \<Longrightarrow> 2 \<le> sides \<and> sides \<le> 1000"
  by (auto simp: dice_sides_def simp del: lit_Cons split: outcome.splits if_splits)

text \<open>
  The question of \<open>tool_loop.c\<close> is sent without its last word: the length given with it is that of a
  shorter text.
\<close>

theorem tool_loop_prompt_cut: "tool_loop_initial = [text_message LLM_ROLE_USER (lit ''What's the weather like in London '')]"
  by (simp add: tool_loop_initial_def tool_loop_prompt_def)

section \<open>The second conversation\<close>

text \<open>The message that answers a call: the result of the tool, under the identifier and name of the call.\<close>

definition call_answered :: "(nat \<Rightarrow> bool) \<Rightarrow> llm_tool_call \<Rightarrow> llm_message \<Rightarrow> bool" where
  "call_answered alloc call m \<longleftrightarrow>
     (\<exists>i n args t. tc_id call = Some i \<and> i \<noteq> [] \<and> tc_name call = Some n \<and> n \<noteq> [] \<and>
        unescape_tool_args alloc (tc_arguments call) = Some args \<and>
        build_tool_result_from_args alloc call (SPtr args) = Done t \<and>
        m = \<lparr>msg_role = LLM_ROLE_TOOL, msg_content = SPtr t, msg_tool_call_id = SPtr i, msg_name = SPtr n,
             msg_tool_calls_json = SNull 0, msg_content_json = SNull 0\<rparr>)"

definition assistant_turn :: "llm_chat_choice \<Rightarrow> llm_message" where
  "assistant_turn r =
     (let combined = span_bytes (ch_content r) @ span_bytes (ch_reasoning_content r) in
      \<lparr>msg_role = LLM_ROLE_ASSISTANT, msg_content = (if combined = [] then SNull 0 else SPtr combined),
       msg_tool_call_id = SNull 0, msg_name = SNull 0, msg_tool_calls_json = SPtr (span_bytes (ch_tool_calls_json r)),
       msg_content_json = SNull 0\<rparr>)"

lemma nonemptyD: "nonempty sp \<Longrightarrow> \<exists>x. sp = Some x \<and> x \<noteq> []"
  by (cases sp) (simp_all add: nonempty_def)

lemma followup_tool_answered:
  assumes "followup_tool alloc call = Done m" shows "call_answered alloc call m"
proof -
  have "nonempty (tc_id call)" "nonempty (tc_name call)"
    using assms by (auto simp: followup_tool_def split: if_splits)
  then obtain i n where "tc_id call = Some i" "i \<noteq> []" "tc_name call = Some n" "n \<noteq> []" using nonemptyD by metis
  with assms show ?thesis
    by (auto simp: followup_tool_def call_answered_def llm_tool_message_init_def nonempty_def
        split: if_splits option.splits outcome.splits)
qed

lemma followup_tools_answered: "followup_tools alloc calls = Done ms \<Longrightarrow> list_all2 (call_answered alloc) calls ms"
  by (induction calls arbitrary: ms) (auto dest: followup_tool_answered split: outcome.splits)

lemma build_assistant_content_exact:
  "build_assistant_content alloc r = Done content \<Longrightarrow> content = msg_content (assistant_turn r)"
  by (auto simp: build_assistant_content_def assistant_turn_def Let_def split: if_splits)

lemma followup_messages_exact:
  assumes "followup_messages alloc r = Done msgs"
  obtains ms where "msgs = advanced_initial @ [assistant_turn r] @ ms" "list_all2 (call_answered alloc) (ch_tool_calls r) ms"
proof -
  obtain content ms where c: "build_assistant_content alloc r = Done content" "followup_tools alloc (ch_tool_calls r) = Done ms"
    using assms by (auto simp: followup_messages_def Let_def split: outcome.splits if_splits)
  with assms build_assistant_content_exact [OF c(1)] have "msgs = advanced_initial @ [assistant_turn r] @ ms"
    by (auto simp: followup_messages_def assistant_turn_def Let_def split: if_splits)
  with that followup_tools_answered [OF c(2)] show thesis by blast
qed

text \<open>An answer that asks for the weather in Tokyo, and the messages that follow it.\<close>

theorem followup_example:
  "followup_messages (\<lambda>n. True)
     \<lparr>ch_finish_reason = LLM_FINISH_REASON_TOOL_CALLS, ch_content = None, ch_reasoning_content = None,
      ch_tool_calls = [\<lparr>tc_id = Some (lit ''w''), tc_name = Some (lit ''get_weather''),
         tc_arguments = Some (lit ''{'' @ [C_BSLASH, C_QUOTE] @ lit ''location'' @ [C_BSLASH, C_QUOTE] @ lit '':'' @ [C_BSLASH, C_QUOTE] @ lit ''Tokyo'' @ [C_BSLASH, C_QUOTE] @ lit ''}'')\<rparr>],
      ch_tool_calls_json = Some (lit ''[1]'')\<rparr> =
   Done (advanced_initial @
     [\<lparr>msg_role = LLM_ROLE_ASSISTANT, msg_content = SNull 0, msg_tool_call_id = SNull 0, msg_name = SNull 0,
       msg_tool_calls_json = SPtr (lit ''[1]''), msg_content_json = SNull 0\<rparr>,
      \<lparr>msg_role = LLM_ROLE_TOOL, msg_content = SPtr (qlit ''{`location`:`Tokyo`,`temperature_c`:26,`condition`:`clear`}''),
       msg_tool_call_id = SPtr (lit ''w''), msg_name = SPtr (lit ''get_weather''),
       msg_tool_calls_json = SNull 0, msg_content_json = SNull 0\<rparr>])"
  by code_simp

lemma call_answered_json:
  assumes "call_answered alloc call m"
  shows "\<exists>n p. jstok_parse True jstok_init (Some (sp_bytes (msg_content m))) None = (Inr n, p, None)"
  using assms jclosed_accepted [OF tool_result_jclosed] by (fastforce simp: call_answered_def JSTOK_MAX_DEPTH_def)

section \<open>The handle\<close>

lemma setup_step_limits:
  assumes "setup_step wanted f co = Some c1" "\<And>c. cl_limits (snd (f c)) = cl_limits c"
  obtains c where "co = Some c" "cl_limits c1 = cl_limits c"
proof (cases co)
  case None
  with assms(1) show thesis by (simp add: setup_step_def)
next
  case (Some c)
  with assms(1) assms(2) [of c] that [OF Some] show thesis
    by (auto simp: setup_step_def split: if_splits prod.splits)
qed

lemma setters_limits:
  "cl_limits (snd (llm_client_set_api_key alloc c k)) = cl_limits c"
  "cl_limits (snd (llm_client_set_tls_config alloc c t)) = cl_limits c"
  "cl_limits (snd (llm_client_set_proxy alloc c p)) = cl_limits c"
  "cl_limits (snd (llm_client_set_no_proxy alloc c p)) = cl_limits c"
  by (auto simp: llm_client_set_api_key_def llm_client_set_tls_config_def llm_client_set_proxy_def
      llm_client_set_no_proxy_def Let_def split: option.split prod.split)

lemma headers_copy_limits: "cl_limits (snd (headers_copy alloc c i es)) = cl_limits c"
  by (induction es arbitrary: c i) (auto simp: llm_client_headers_free_def split: option.split)

lemma create_limits:
  assumes "llm_client_create_with_headers_opts alloc url model (Some t) (Some l) headers e = Some c"
  shows "cl_limits c = l"
proof -
  have "cl_limits (snd (llm_client_headers_init alloc c0 headers)) = cl_limits c0" for c0
    by (auto simp: llm_client_headers_init_def llm_client_headers_free_def headers_copy_limits Let_def)
  from this [of "client_fresh alloc url model (Some t) (Some l) e"] assms show ?thesis
    by (auto simp: llm_client_create_with_headers_opts_def client_fresh_def split: if_splits prod.splits)
qed

lemma advanced_client_limits: "advanced_client alloc env = Some c \<Longrightarrow> cl_limits c = advanced_limits"
  unfolding advanced_client_def Let_def
  by (elim setup_step_limits setters_limits) (auto dest: create_limits intro: setters_limits)

lemma health_client:
  assumes "llm_health_with_headers_ex alloc lib c headers detail = Some (LLM_ERR_NONE, c1, d1, v)"
  shows "c1 = last_error_reset c"
  using assms
  by (auto simp: llm_health_with_headers_ex_def api_reset_def api_fail_not_none split: option.splits if_splits)

section \<open>A run\<close>

lemma chat_with_bounded_answer:
  assumes "llm_chat_with_headers_ex alloc lib client messages params_json tooling_json response_format_json want_result
      headers detail = Some (LLM_ERR_NONE, client', detail', Some (r, body, z))"
    "0 < lm_max_response_bytes (cl_limits client)" "lm_max_response_bytes (cl_limits client) < 2 ^ 31"
  shows "\<exists>request_json hs ts. answered lib client request_json hs body \<and> doc body ts \<and> tree_response body ts = Inr r"
proof -
  obtain request_json hs where a: "answered lib client request_json hs body" "parse_chat_response alloc body = Inr r"
    by (rule chat_answered [OF assms(1)], rule that)
  have "length body < 2 ^ 31" using a(1) assms(2,3) by (auto simp: answered_def)
  from parse_chat_meaning [OF this a(2)] a(1) show ?thesis by blast
qed

text \<open>
  The two conversations of a run with tools: the server's answer to the first, read from the document
  it sent, asks for tools, and the second repeats the first, quotes the answer and gives one
  result for each call.
\<close>

definition tool_conversation :: "(nat \<Rightarrow> bool) \<Rightarrow> curl_lib \<Rightarrow> llm_client \<Rightarrow> llm_message list list \<Rightarrow> bool" where
  "tool_conversation alloc lib client sent \<longleftrightarrow>
     (\<exists>request_json hs body ts chat ms.
        answered lib client request_json hs body \<and> doc body ts \<and> tree_response body ts = Inr chat \<and>
        have_tool_calls (cr_first chat) \<and>
        list_all2 (call_answered alloc) (ch_tool_calls (cr_first chat)) ms \<and>
        sent = [advanced_initial, advanced_initial @ [assistant_turn (cr_first chat)] @ ms])"

lemma advanced_round_sent:
  assumes "advanced_round alloc lib client params_json = Some (sent, rest)" "cl_limits client = advanced_limits"
  shows "sent = [advanced_initial] \<or> tool_conversation alloc lib client sent"
proof -
  let ?call = "llm_chat_with_headers_ex alloc lib client advanced_initial (Some params_json) (Some advanced_tooling_json)
    None True (request_id ''tool-call-1'') (Some error_detail_clear)"
  note def = assms(1) [unfolded advanced_round_def]
  consider "sent = [advanced_initial]"
    | c d chat body z msgs where "?call = Some (LLM_ERR_NONE, c, d, Some (chat, body, z))" "have_tool_calls (cr_first chat)"
      "followup_messages alloc (cr_first chat) = Done msgs" "sent = [advanced_initial, msgs]"
  proof (cases ?call)
    case None
    with def show thesis by simp
  next
    case (Some r)
    obtain err c d answer where r: "r = (err, c, d, answer)" by (cases r)
    show thesis
    proof (cases "err = LLM_ERR_NONE \<and> (case answer of None \<Rightarrow> False | Some (chat, _) \<Rightarrow> have_tool_calls (cr_first chat))")
      case False
      with def Some r have "sent = [advanced_initial]" by (auto split: if_splits option.splits)
      then show thesis by (rule that(1))
    next
      case True
      then obtain chat body z where a: "answer = Some (chat, body, z)" "have_tool_calls (cr_first chat)" "err = LLM_ERR_NONE"
        by (cases answer) auto
      show thesis
      proof (cases "followup_messages alloc (cr_first chat)")
        case (Done msgs)
        with def Some r a have "sent = [advanced_initial, msgs]" by (auto split: option.splits)
        with Some r a Done show thesis by (intro that(2)) simp_all
      qed (use def Some r a that(1) in simp_all)
    qed
  qed
  then show ?thesis
  proof cases
    case 2
    have lim: "0 < lm_max_response_bytes (cl_limits client)" "lm_max_response_bytes (cl_limits client) < 2 ^ 31"
      using assms(2) by (simp_all add: advanced_limits_def)
    obtain request_json hs ts where a: "answered lib client request_json hs body" "doc body ts" "tree_response body ts = Inr chat"
      using chat_with_bounded_answer [OF 2(1) lim] by blast
    obtain ms where ms: "msgs = advanced_initial @ [assistant_turn (cr_first chat)] @ ms"
      "list_all2 (call_answered alloc) (ch_tool_calls (cr_first chat)) ms"
      by (rule followup_messages_exact [OF 2(3)])
    have "tool_conversation alloc lib client sent"
      unfolding tool_conversation_def
      by (intro exI conjI) (rule a(1), rule a(2), rule a(3), rule 2(2), rule ms(2), use 2(4) ms(1) in simp)
    then show ?thesis by simp
  qed simp
qed

definition content_text :: "stream_call list \<Rightarrow> byte list" where
  "content_text calls = concat (map (\<lambda>c. case c of OnContentDelta d \<Rightarrow> d | _ \<Rightarrow> []) calls)"

lemma content_bytes:
  "st_content_bytes st \<le> SIZE_MAX \<Longrightarrow>
   st_content_bytes (foldl on_stream_call st calls) = wrap64 (st_content_bytes st + length (content_text calls))"
proof (induction calls arbitrary: st)
  case Nil
  then show ?case by (simp add: content_text_def wrap64_id)
next
  case (Cons c calls)
  show ?case
  proof (cases c)
    case (OnContentDelta d)
    have "wrap64 n \<le> SIZE_MAX" for n by (simp add: wrap64_def SIZE_MAX_def less_Suc_eq_le [symmetric])
    with Cons.IH [of "on_content_delta st d"] OnContentDelta show ?thesis
      by (simp add: content_text_def on_content_delta_def wrap64_add add.assoc)
  next
    case (OnReasoningDelta d)
    with Cons.IH [of "on_reasoning_delta st d"] Cons.prems show ?thesis
      by (simp add: content_text_def on_reasoning_delta_def)
  qed (use Cons in \<open>simp_all add: content_text_def\<close>)
qed

text \<open>The program prints the content it received, and nothing else, on its output.\<close>

lemma content_printed: "concat (map (fst \<circ> callback_output) calls) = content_text calls"
proof (induction calls)
  case (Cons c calls)
  then show ?case by (cases c) (simp_all add: content_text_def)
qed (simp add: content_text_def)

definition tool_messages_json :: "llm_message list \<Rightarrow> bool" where
  "tool_messages_json ms \<longleftrightarrow> (\<forall>m\<in>set ms. msg_role m = LLM_ROLE_TOOL \<longrightarrow>
     (\<exists>n p. jstok_parse True jstok_init (Some (sp_bytes (msg_content m))) None = (Inr n, p, None)))"

lemma initial_messages_json: "tool_messages_json advanced_initial"
  by (simp add: tool_messages_json_def advanced_initial_def text_message_def)

lemma tool_conversation_json:
  assumes "tool_conversation alloc lib client sent" shows "\<forall>ms\<in>set sent. tool_messages_json ms"
proof -
  obtain r ms where s: "sent = [advanced_initial, advanced_initial @ [assistant_turn r] @ ms]"
    "list_all2 (call_answered alloc) (ch_tool_calls r) ms"
    using assms by (auto simp: tool_conversation_def)
  then have "\<forall>m\<in>set ms. \<exists>call. call_answered alloc call m" by (metis in_set_conv_nth list_all2_conv_all_nth)
  then have "tool_messages_json ms" using call_answered_json by (auto simp: tool_messages_json_def)
  with s(1) initial_messages_json show ?thesis
    by (auto simp: tool_messages_json_def assistant_turn_def Let_def)
qed


lemma api_failed: "\<exists>c2 d2. api_fail alloc c d st n b pe = Some (LLM_ERR_FAILED, c2, d2, None)"
  by (simp add: api_fail_def split: prod.split)

text \<open>Without the first allocation no request is built.\<close>

lemma append_nomem:
  assumes "gb_nomem b"
  shows "append_lit b s = b" "append_char b c = b" "append_json_string b str = b" "append_json_raw b s = b"
    "append_params b params = b" "append_stream b stream include_usage = b"
proof -
  show l: "append_lit b s = b" for s using assms by (simp add: append_lit_def growbuf_append_def Let_def)
  show c: "append_char b c = b" for c using assms by (simp add: append_char_def growbuf_append_def Let_def)
  have "foldl (\<lambda>b c. append_lit b (json_escape_char c)) b str = b" for str by (induction str) (simp_all add: l)
  then show "append_json_string b str = b" by (simp add: append_json_string_def c)
  show "append_json_raw b s = b" by (simp add: append_json_raw_def l)
  show "append_params b params = b" by (simp add: append_params_def l c split: option.split)
  show "append_stream b stream include_usage = b" by (simp add: append_stream_def l)
qed

lemma chat_messages_nomem: "gb_nomem b \<Longrightarrow> chat_messages alloc mp mb first ms b = Some b1 \<Longrightarrow> b1 = b"
proof (induction ms arbitrary: first)
  case (Cons m ms)
  have "chat_message alloc mp mb first m b = Some b2 \<Longrightarrow> b2 = b" for b2
    using Cons.prems(1)
    by (auto simp: chat_message_def chat_content_def append_nomem Let_def simp del: lit_Cons split: if_splits)
  with Cons show ?case by (fastforce split: option.splits)
qed simp

lemma build_chat_request_nomem:
  assumes "\<not> balloc 4096"
  shows "build_chat_request balloc alloc model ms stream include_usage params tooling response mp mb = None"
proof -
  have n: "gb_nomem (growbuf_init balloc 4096)" using assms by (simp add: growbuf_init_def)
  show ?thesis
    using n chat_messages_nomem [OF n, of alloc mp mb True ms]
    by (auto simp: build_chat_request_def build_finish_def append_nomem Let_def simp del: lit_Cons split: option.splits)
qed

text \<open>
  A server that accepts everything with an empty body, and a first allocation of 4096 bytes that
  fails: the question cannot be built, and the run ends with 1.
\<close>

definition empty_server :: curl_lib where
  "empty_server = \<lparr>curl_init = True, curl_cainfo = None, curl_capath = None,
     curl_net = \<lambda>opts. \<lparr>cr_chunks = [], cr_code = CURLE_OK, cr_status = 200\<rparr>\<rparr>"


end
