(* ===== verification/Http1.thy ===== *)
theory Http1
  imports JstokText
begin

text \<open>
  The small HTTP/1 server of \<open>src/src/internal/http1_server.c\<close> and the handlers of the three daemons.
  The operating system is a parameter: what each \<open>recv\<close> and \<open>send\<close> of a connection comes to is a
  list given beforehand. A call that finds its list empty blocks, which is the outcome
  \<open>Blocked\<close>: the connection is still open and nothing more happens on it.
\<close>

section \<open>Types\<close>

definition DESI_HTTP_MAX_HEADER_BYTES :: nat where "DESI_HTTP_MAX_HEADER_BYTES = 8192"

record desi_http_req =
  rq_method :: "byte list"
  rq_path :: "byte list"

record desi_http_resp =
  rs_status :: int
  rs_content_type :: "byte list option"
  rs_body :: cspan

text \<open>The outcome of one \<open>recv\<close>, data being cut to the room that is left, and of one \<open>send\<close>.\<close>

datatype recv_result = RecvData "byte list" | RecvClosed | RecvIntr | RecvFail

datatype send_result = SendSome nat | SendIntr | SendFail

section \<open>Responses\<close>

definition desi_reason_phrase :: "int \<Rightarrow> byte list" where
  "desi_reason_phrase status =
     (if status = 200 then lit ''OK''
      else if status = 400 then lit ''Bad Request''
      else if status = 404 then lit ''Not Found''
      else if status = 405 then lit ''Method Not Allowed''
      else if status = 413 then lit ''Payload Too Large''
      else if status = 500 then lit ''Internal Server Error''
      else lit ''OK'')"

text \<open>The return code, none if the call blocks, and what went out.\<close>

fun desi_write_all :: "send_result list \<Rightarrow> byte list \<Rightarrow> int option \<times> byte list \<times> send_result list" where
  "desi_write_all script [] = (Some 0, [], script)"
| "desi_write_all [] (b # bs) = (None, [], [])"
| "desi_write_all (SendIntr # script) (b # bs) = desi_write_all script (b # bs)"
| "desi_write_all (SendFail # script) (b # bs) = (Some (-1), [], script)"
| "desi_write_all (SendSome n # script) (b # bs) =
     (if n = 0 then (Some (-1), [], script)
      else (case desi_write_all script (drop n (b # bs)) of
              (rc, sent, rest) \<Rightarrow> (rc, take n (b # bs) @ sent, rest)))"

definition crlf :: "byte list" where "crlf = [C_CR, C_LF]"

definition int_digits :: "int \<Rightarrow> byte list" where
  "int_digits n = (if n < 0 then C_MINUS # dec (nat (- n)) else dec (nat n))"

definition response_head :: "int \<Rightarrow> byte list option \<Rightarrow> nat \<Rightarrow> byte list" where
  "response_head status content_type body_len =
     lit ''HTTP/1.1 '' @ int_digits status @ [C_SP] @ desi_reason_phrase status @ crlf @
     (case content_type of None \<Rightarrow> [] | Some t \<Rightarrow> lit ''Content-Type: '' @ t @ crlf) @
     lit ''Content-Length: '' @ dec body_len @ crlf @ lit ''Connection: close'' @ crlf @ crlf"

definition k_default_type :: "byte list" where "k_default_type = lit ''text/plain; charset=utf-8''"

definition k_internal_body :: "byte list" where "k_internal_body = lit ''Internal Server Error'' @ [C_LF]"

text \<open>The head and the body that a response comes to.\<close>

definition response_parts :: "desi_http_resp \<Rightarrow> byte list \<times> byte list" where
  "response_parts resp =
     (let status = (if rs_status resp = 0 then 200 else rs_status resp);
          bad = (sp_len (rs_body resp) > 0 \<and> sp_null (rs_body resp));
          status = (if bad then 500 else status);
          body = (if bad then k_internal_body else sp_bytes (rs_body resp));
          content_type = (if bad then Some k_default_type else rs_content_type resp);
          content_type = (if body \<noteq> [] \<and> content_type = None then Some k_default_type else content_type) in
      (response_head status (if body \<noteq> [] then content_type else None) (length body), body))"

definition desi_send_response ::
  "send_result list \<Rightarrow> desi_http_resp \<Rightarrow> int option \<times> byte list \<times> send_result list" where
  "desi_send_response script resp =
     (case response_parts resp of
        (head, body) \<Rightarrow>
          if length head \<ge> 512 then (Some (-1), [], script)
          else
            (case desi_write_all script head of
               (rc, sent, script) \<Rightarrow>
                 if rc \<noteq> Some 0 then (rc, sent, script)
                 else if body \<noteq> [] then
                   (case desi_write_all script body of (rc, sent2, script) \<Rightarrow> (rc, sent @ sent2, script))
                 else (Some 0, sent, script)))"

section \<open>Requests\<close>

text \<open>From \<open>start\<close> on: the end of the line and where the next one starts.\<close>

definition desi_next_line :: "byte list \<Rightarrow> nat \<Rightarrow> (nat \<times> nat) option" where
  "desi_next_line buf start =
     (let i = start + length (takeWhile (\<lambda>c. c \<noteq> C_LF \<and> c \<noteq> C_CR) (drop start buf)) in
      if i \<ge> length buf then None
      else Some (i, if buf ! i = C_CR \<and> i + 1 < length buf \<and> buf ! (i + 1) = C_LF then i + 2 else i + 1))"

lemma desi_next_line_progress: "desi_next_line buf start = Some (line_end, nxt) \<Longrightarrow> start < nxt \<and> nxt \<le> length buf"
  by (auto simp: desi_next_line_def Let_def split: if_splits)

function header_end_loop :: "byte list \<Rightarrow> nat \<Rightarrow> nat option" where
  "header_end_loop buf pos =
     (case desi_next_line buf pos of
        None \<Rightarrow> None
      | Some (line_end, nxt) \<Rightarrow> if line_end = pos then Some nxt else header_end_loop buf nxt)"
  by pat_completeness auto

termination
  by (relation "measure (\<lambda>(buf, pos). length buf - pos)") (auto dest: desi_next_line_progress)

declare header_end_loop.simps [simp del]

definition desi_find_header_end :: "byte list \<Rightarrow> nat option" where
  "desi_find_header_end buf = header_end_loop buf 0"

definition desi_parse_request_line :: "byte list \<Rightarrow> desi_http_req option" where
  "desi_parse_request_line buf =
     (case desi_next_line buf 0 of
        None \<Rightarrow> None
      | Some (line_end, nxt) \<Rightarrow>
          (let method_end = length (takeWhile (\<lambda>c. c \<noteq> C_SP) (take line_end buf)) in
           if method_end = 0 \<or> method_end \<ge> line_end then None
           else
             (let path_start = method_end + 1 in
              if path_start \<ge> line_end then None
              else
                (let path_end = path_start +
                       length (takeWhile (\<lambda>c. c \<noteq> C_SP) (drop path_start (take line_end buf))) in
                 if path_end = path_start \<or> path_end \<ge> line_end then None
                 else Some \<lparr>rq_method = take method_end buf,
                            rq_path = take (path_end - path_start) (drop path_start buf)\<rparr>))))"

datatype read_result =
    ReadOk "byte list" nat
  | ReadTooLarge
  | ReadFail
  | ReadBlocked

text \<open>The bytes so far are \<open>buf\<close>; data that does not fit stays for the next call.\<close>

function read_loop :: "nat \<Rightarrow> byte list \<Rightarrow> recv_result list \<Rightarrow> read_result" where
  "read_loop cap buf script =
     (if length buf < cap then
        (case desi_find_header_end buf of
           Some header_end \<Rightarrow> ReadOk buf header_end
         | None \<Rightarrow>
             (case script of
                [] \<Rightarrow> ReadBlocked
              | RecvIntr # rest \<Rightarrow> read_loop cap buf rest
              | RecvFail # rest \<Rightarrow> ReadFail
              | RecvClosed # rest \<Rightarrow> ReadFail
              | RecvData bs # rest \<Rightarrow>
                  if bs = [] then ReadFail
                  else
                    (let room = cap - length buf in
                     read_loop cap (buf @ take room bs)
                       (if length bs \<le> room then rest else RecvData (drop room bs) # rest))))
      else
        (case desi_find_header_end buf of
           Some header_end \<Rightarrow> ReadOk buf header_end
         | None \<Rightarrow> ReadTooLarge))"
  by pat_completeness auto

termination
  by (relation "measures [\<lambda>(cap, buf, script). cap - length buf, \<lambda>(cap, buf, script). length script]") auto

declare read_loop.simps [simp del]

definition desi_read_request :: "recv_result list \<Rightarrow> read_result" where
  "desi_read_request script = read_loop DESI_HTTP_MAX_HEADER_BYTES [] script"

section \<open>A connection\<close>

text \<open>The caller's handler gets a zeroed response to fill.\<close>

type_synonym 'u handler = "'u \<Rightarrow> desi_http_req \<Rightarrow> desi_http_resp \<Rightarrow> int \<times> desi_http_resp \<times> 'u"

definition resp_zero :: desi_http_resp where
  "resp_zero = \<lparr>rs_status = 0, rs_content_type = None, rs_body = SNull 0\<rparr>"

definition text_resp :: "int \<Rightarrow> byte list \<Rightarrow> desi_http_resp" where
  "text_resp status body = \<lparr>rs_status = status, rs_content_type = None, rs_body = SPtr body\<rparr>"

record conn =
  cn_recv :: "recv_result list"
  cn_send :: "send_result list"

text \<open>What one connection comes to: the return code, none if it blocks, the bytes sent, the handler's state.\<close>

definition desi_handle_client :: "conn \<Rightarrow> 'u handler \<Rightarrow> 'u \<Rightarrow> int option \<times> byte list \<times> 'u" where
  "desi_handle_client cn handler u =
     (let send = (\<lambda>resp u. case desi_send_response (cn_send cn) resp of (rc, sent, rest) \<Rightarrow> (rc, sent, u)) in
      case desi_read_request (cn_recv cn) of
        ReadTooLarge \<Rightarrow> send (text_resp 413 (lit ''Request Too Large'' @ [C_LF])) u
      | ReadFail \<Rightarrow> (Some (-1), [], u)
      | ReadBlocked \<Rightarrow> (None, [], u)
      | ReadOk buf header_end \<Rightarrow>
          (case desi_parse_request_line (take header_end buf) of
             None \<Rightarrow> send (text_resp 400 (lit ''Bad Request'' @ [C_LF])) u
           | Some req \<Rightarrow>
               (case handler u req resp_zero of
                  (rc, resp, u) \<Rightarrow>
                    send (if rc < 0 then resp\<lparr>rs_status := 500, rs_body := SPtr k_internal_body\<rparr> else resp) u)))"

section \<open>The server\<close>

text \<open>
  The loop over the connections that \<open>accept\<close> hands out, one at a time. The result is the return
  code, none while the server waits or a connection blocks it, the bytes sent on each
  connection and the handler's state.
\<close>

datatype accept_result = AcceptConn conn | AcceptIntr | AcceptFail

fun accept_loop ::
  "'u handler \<Rightarrow> accept_result list \<Rightarrow> 'u \<Rightarrow> int option \<times> byte list list \<times> 'u" where
  "accept_loop handler [] u = (None, [], u)"
| "accept_loop handler (AcceptIntr # script) u = accept_loop handler script u"
| "accept_loop handler (AcceptFail # script) u = (Some (-1), [], u)"
| "accept_loop handler (AcceptConn cn # script) u =
     (case desi_handle_client cn handler u of
        (rc, sent, u) \<Rightarrow>
          (case rc of
             None \<Rightarrow> (None, [sent], u)
           | Some n \<Rightarrow> (case accept_loop handler script u of (rc, log, u) \<Rightarrow> (rc, sent # log, u))))"

record desi_server_config =
  cf_bind_host :: "byte list option"
  cf_port :: "16 word"
  cf_backlog :: int
  cf_idle_timeout_ms :: "32 word"

text \<open>The socket calls of the setup: whether each works, and the address \<open>inet_pton\<close> reads, in host order.\<close>

record sock_lib =
  so_socket :: bool
  so_setsockopt :: bool
  so_inet_pton :: "byte list \<Rightarrow> 32 word option"
  so_bind :: "32 word \<Rightarrow> 16 word \<Rightarrow> bool"
  so_listen :: "int \<Rightarrow> bool"

definition INADDR_ANY :: "32 word" where "INADDR_ANY = 0"
definition INADDR_LOOPBACK :: "32 word" where "INADDR_LOOPBACK = 0x7f000001"

text \<open>The address, port and backlog that are listened on.\<close>

definition desi_listen_socket :: "sock_lib \<Rightarrow> desi_server_config \<Rightarrow> (32 word \<times> 16 word \<times> int) option" where
  "desi_listen_socket lib conf =
     (if \<not> so_socket lib then None
      else if \<not> so_setsockopt lib then None
      else
        (let addr =
               (case cf_bind_host conf of
                  None \<Rightarrow> Some INADDR_ANY
                | Some host \<Rightarrow>
                    if host = [] \<or> host = lit ''0.0.0.0'' then Some INADDR_ANY
                    else if host = lit ''127.0.0.1'' then Some INADDR_LOOPBACK
                    else so_inet_pton lib host) in
         case addr of
           None \<Rightarrow> None
         | Some a \<Rightarrow>
             if \<not> so_bind lib a (cf_port conf) then None
             else
               (let backlog = (if cf_backlog conf > 0 then cf_backlog conf else 128) in
                if \<not> so_listen lib backlog then None else Some (a, cf_port conf, backlog))))"

text \<open>\<open>SIGPIPE\<close> being ignored, a send to a closed connection fails instead of ending the process.\<close>

definition desi_server_run ::
  "sock_lib \<Rightarrow> desi_server_config option \<Rightarrow> 'u handler option \<Rightarrow> accept_result list \<Rightarrow> 'u \<Rightarrow>
     int option \<times> byte list list \<times> 'u" where
  "desi_server_run lib conf handler script u =
     (case (conf, handler) of
        (Some cf, Some h) \<Rightarrow>
          if desi_listen_socket lib cf = None then (Some (-1), [], u) else accept_loop h script u
      | _ \<Rightarrow> (Some (-1), [], u))"

section \<open>The daemons\<close>

definition path_is :: "desi_http_req \<Rightarrow> byte list \<Rightarrow> bool" where
  "path_is req target \<longleftrightarrow> rq_path req = target"

definition desid_handler :: "'u handler" where
  "desid_handler u req resp =
     (if path_is req (lit ''/health'') then
        (if rq_method req = lit ''GET''
         then (0, resp\<lparr>rs_status := 200, rs_body := SPtr (lit ''ok'' @ [C_LF])\<rparr>, u)
         else (0, resp\<lparr>rs_status := 405\<rparr>, u))
      else (0, resp\<lparr>rs_status := 404, rs_body := SPtr (lit ''Not Found'' @ [C_LF])\<rparr>, u))"

definition mcpd_handler :: "'u handler" where
  "mcpd_handler u req resp =
     (let is_get = (rq_method req = lit ''GET'') in
      if rq_path req = lit ''/health'' then
        (if \<not> is_get then (0, resp\<lparr>rs_status := 405\<rparr>, u)
         else (0, resp\<lparr>rs_status := 200, rs_body := SPtr (lit ''mcp_active'' @ [C_LF])\<rparr>, u))
      else (0, resp\<lparr>rs_status := 404\<rparr>, u))"

definition agentd_handler :: "'u handler" where
  "agentd_handler u req resp =
     (if path_is req (lit ''/health'')
      then (0, resp\<lparr>rs_status := 200, rs_body := SPtr (lit ''agent_ok'' @ [C_LF])\<rparr>, u)
      else (0, resp\<lparr>rs_status := 404\<rparr>, u))"

definition desid_conf :: desi_server_config where
  "desid_conf = \<lparr>cf_bind_host = Some (lit ''127.0.0.1''), cf_port = 8081, cf_backlog = 128, cf_idle_timeout_ms = 5000\<rparr>"

definition mcpd_conf :: desi_server_config where
  "mcpd_conf = \<lparr>cf_bind_host = Some (lit ''127.0.0.1''), cf_port = 8082, cf_backlog = 128, cf_idle_timeout_ms = 5000\<rparr>"

definition agentd_conf :: desi_server_config where
  "agentd_conf = \<lparr>cf_bind_host = Some (lit ''0.0.0.0''), cf_port = 8080, cf_backlog = 1024, cf_idle_timeout_ms = 5000\<rparr>"

text \<open>The mains, less what they print.\<close>

definition desid_main :: "sock_lib \<Rightarrow> accept_result list \<Rightarrow> int option \<times> byte list list \<times> unit" where
  "desid_main lib script = desi_server_run lib (Some desid_conf) (Some desid_handler) script ()"

definition mcpd_main :: "sock_lib \<Rightarrow> accept_result list \<Rightarrow> int option \<times> byte list list \<times> unit" where
  "mcpd_main lib script = desi_server_run lib (Some mcpd_conf) (Some mcpd_handler) script ()"

definition agentd_main :: "sock_lib \<Rightarrow> accept_result list \<Rightarrow> int option \<times> byte list list \<times> unit" where
  "agentd_main lib script = desi_server_run lib (Some agentd_conf) (Some agentd_handler) script ()"

end
