(* ===== verification/Http1Props.thy ===== *)
theory Http1Props
  imports Http1 "HOL-Library.Sublist"
begin

text \<open>
  The server reads the same request however the bytes of a connection arrive, and what it sends
  back is framed: the header ends where the body starts, and the length in it is the length
  of the body.
\<close>

section \<open>Lines\<close>

lemma takeWhile_prefix: "takeWhile P xs \<noteq> xs \<Longrightarrow> takeWhile P (xs @ ys) = takeWhile P xs"
  by (induction xs) auto

lemma takeWhile_whole: "takeWhile P xs = xs \<Longrightarrow> takeWhile P (xs @ ys) = xs @ takeWhile P ys"
  by (induction xs) (auto split: if_splits)

definition first_line :: "byte list \<Rightarrow> byte list" where
  "first_line buf = takeWhile (\<lambda>c. c \<noteq> C_LF \<and> c \<noteq> C_CR) buf"

lemma first_line_append: "first_line buf \<noteq> buf \<Longrightarrow> first_line (buf @ xs) = first_line buf"
  unfolding first_line_def by (rule takeWhile_prefix)

lemma first_line_short: "first_line buf \<noteq> buf \<longleftrightarrow> length (first_line buf) < length buf"
proof -
  have "first_line buf = take (length (first_line buf)) buf" by (simp add: first_line_def flip: takeWhile_eq_take)
  moreover have "length (first_line buf) \<le> length buf" by (simp add: first_line_def length_takeWhile_le)
  ultimately show ?thesis by (cases "length (first_line buf) = length buf") auto
qed

lemma next_line_first: "desi_next_line buf 0 = None \<longleftrightarrow> first_line buf = buf"
  "desi_next_line buf 0 = Some (i, nxt) \<Longrightarrow> i = length (first_line buf) \<and> i < nxt \<and> first_line buf \<noteq> buf"
  using first_line_short [of buf]
  by (auto simp: desi_next_line_def Let_def first_line_def not_le split: if_splits)

text \<open>A line seen in a buffer is seen in a longer one; only a line feed after a final return is added.\<close>

lemma next_line_append:
  assumes "desi_next_line buf pos = Some (i, nxt)"
  shows "desi_next_line (buf @ xs) pos = Some (i, nxt) \<or>
    (nxt = length buf \<and> desi_next_line (buf @ xs) pos = Some (i, nxt + 1))"
proof -
  let ?P = "\<lambda>c. c \<noteq> C_LF \<and> c \<noteq> C_CR"
  have i: "i = pos + length (takeWhile ?P (drop pos buf))" "i < length buf"
    using assms by (auto simp: desi_next_line_def Let_def split: if_splits)
  have "takeWhile ?P (drop pos buf) \<noteq> drop pos buf"
  proof
    assume "takeWhile ?P (drop pos buf) = drop pos buf"
    then have "length (takeWhile ?P (drop pos buf)) = length (drop pos buf)" by (rule arg_cong)
    with i show False unfolding length_drop by linarith
  qed
  then have "takeWhile ?P (drop pos buf @ xs) = takeWhile ?P (drop pos buf)"
    by (rule takeWhile_prefix)
  then have t: "takeWhile ?P (drop pos (buf @ xs)) = takeWhile ?P (drop pos buf)"
    using i by (simp add: drop_append)
  show ?thesis
    using assms i unfolding desi_next_line_def Let_def t by (auto simp: nth_append split: if_splits)
qed

lemma header_end_append:
  "header_end_loop buf pos = Some e \<Longrightarrow> header_end_loop (buf @ xs) pos \<noteq> None"
proof (induction buf pos rule: header_end_loop.induct)
  case (1 buf pos)
  obtain i nxt where n: "desi_next_line buf pos = Some (i, nxt)"
    using 1(2) by (auto simp: header_end_loop.simps [of buf pos] split: option.splits)
  show ?case
  proof (cases "i = pos")
    case True
    with next_line_append [OF n, of xs] show ?thesis
      by (auto simp: header_end_loop.simps [of "buf @ xs" pos])
  next
    case False
    then have r: "header_end_loop buf nxt = Some e" using 1(2) n by (simp add: header_end_loop.simps [of buf pos])
    then have "nxt \<noteq> length buf" by (auto simp: header_end_loop.simps [of buf "length buf"] desi_next_line_def)
    with next_line_append [OF n, of xs] 1(1) [OF n refl False r] False show ?thesis
      by (auto simp: header_end_loop.simps [of "buf @ xs" pos])
  qed
qed

lemma header_end_le: "header_end_loop buf pos = Some e \<Longrightarrow> pos < e \<and> e \<le> length buf"
proof (induction buf pos rule: header_end_loop.induct)
  case (1 buf pos)
  then obtain i nxt where n: "desi_next_line buf pos = Some (i, nxt)"
    by (auto simp: header_end_loop.simps [of buf pos] split: option.splits)
  note p = desi_next_line_progress [OF n]
  show ?case
  proof (cases "i = pos")
    case True
    with 1(2) n p show ?thesis by (auto simp: header_end_loop.simps [of buf pos])
  next
    case False
    with 1(1) [OF n refl False] 1(2) n p show ?thesis by (auto simp: header_end_loop.simps [of buf pos])
  qed
qed

text \<open>The first line lies within the header.\<close>

lemma header_first_line:
  assumes "desi_find_header_end buf = Some e"
  shows "first_line buf \<noteq> buf" "first_line (take e buf) = first_line buf" "first_line (take e buf) \<noteq> take e buf"
proof -
  obtain i nxt where n: "desi_next_line buf 0 = Some (i, nxt)"
    using assms by (auto simp: desi_find_header_end_def header_end_loop.simps [of buf 0] split: option.splits)
  note f = next_line_first(2) [OF n]
  show "first_line buf \<noteq> buf" using f by blast
  have e: "nxt \<le> e"
  proof (cases "i = 0")
    case True
    with assms n show ?thesis by (simp add: desi_find_header_end_def header_end_loop.simps [of buf 0])
  next
    case False
    then have "header_end_loop buf nxt = Some e"
      using assms n by (simp add: desi_find_header_end_def header_end_loop.simps [of buf 0])
    from header_end_le [OF this] show ?thesis by simp
  qed
  have el: "e \<le> length buf" using header_end_le assms by (auto simp: desi_find_header_end_def)
  have "length (first_line buf) < e" using f e by simp
  show t: "first_line (take e buf) \<noteq> take e buf"
  proof
    assume "first_line (take e buf) = take e buf"
    then have "first_line (take e buf @ drop e buf) = take e buf @ first_line (drop e buf)"
      unfolding first_line_def by (rule takeWhile_whole)
    then have "e \<le> length (first_line buf)" using el by simp
    with \<open>length (first_line buf) < e\<close> show False by simp
  qed
  from first_line_append [OF t, of "drop e buf"] show "first_line (take e buf) = first_line buf" by simp
qed

section \<open>The request line\<close>

lemma takeWhile_split:
  "length (takeWhile (\<lambda>c. c \<noteq> x) l) < length l \<Longrightarrow>
     l = takeWhile (\<lambda>c. c \<noteq> x) l @ x # drop (Suc (length (takeWhile (\<lambda>c. c \<noteq> x) l))) l"
  by (induction l) auto

lemma takeWhile_until: "x \<notin> set m \<Longrightarrow> takeWhile (\<lambda>c. c \<noteq> x) (m @ x # r) = m"
  by (induction m) auto

definition is_request :: "byte list \<Rightarrow> desi_http_req \<Rightarrow> bool" where
  "is_request line req \<longleftrightarrow>
     rq_method req \<noteq> [] \<and> rq_path req \<noteq> [] \<and> C_SP \<notin> set (rq_method req) \<and> C_SP \<notin> set (rq_path req) \<and>
     (\<exists>version. line = rq_method req @ C_SP # rq_path req @ C_SP # version)"

lemma parse_request_line_iff:
  "desi_parse_request_line buf = Some req \<longleftrightarrow> first_line buf \<noteq> buf \<and> is_request (first_line buf) req"
proof (cases "desi_next_line buf 0")
  case None
  with next_line_first(1) [of buf] show ?thesis by (simp add: desi_parse_request_line_def)
next
  case (Some x)
  obtain i nxt where n: "desi_next_line buf 0 = Some (i, nxt)" using Some by (cases x) simp
  define l where "l = first_line buf"
  define m where "m = takeWhile (\<lambda>c. c \<noteq> C_SP) l"
  define r where "r = drop (length m + 1) l"
  define q where "q = takeWhile (\<lambda>c. c \<noteq> C_SP) r"
  note f = next_line_first(2) [OF n, folded l_def]
  have tk: "take i buf = l" using f by (simp add: l_def first_line_def flip: takeWhile_eq_take)
  have tb: "take k buf = take k l" if "k \<le> i" for k using tk that by (metis min.absorb1 take_take)
  have db: "take k (drop j buf) = take k (drop j l)" if "j + k \<le> i" for j k
    using tk that by (metis min.absorb1 take_drop take_take add.commute)
  have e: "desi_parse_request_line buf =
      (if m = [] \<or> length m \<ge> i \<or> length m + 1 \<ge> i \<or> q = [] \<or> length m + 1 + length q \<ge> i then None
       else Some \<lparr>rq_method = take (length m) buf, rq_path = take (length q) (drop (length m + 1) buf)\<rparr>)"
    unfolding desi_parse_request_line_def n option.case prod.case Let_def tk m_def [symmetric] r_def [symmetric]
      q_def [symmetric] by simp
  have ml: "take (length m) l = m" "take (length q) r = q"
    unfolding m_def q_def by (simp_all flip: takeWhile_eq_take)
  show ?thesis
  proof
    assume "desi_parse_request_line buf = Some req"
    then have c: "m \<noteq> []" "length m < i" "q \<noteq> []" "length m + 1 + length q < i"
      and req: "req = \<lparr>rq_method = take (length m) buf, rq_path = take (length q) (drop (length m + 1) buf)\<rparr>"
      unfolding e by (auto split: if_splits)
    have mq: "rq_method req = m" "rq_path req = q" using req c tb db ml by (simp_all add: r_def)
    have "l = m @ C_SP # r" using takeWhile_split [of C_SP l] c(2) f by (simp add: m_def r_def)
    moreover from this have "r = q @ C_SP # drop (Suc (length q)) r"
      using takeWhile_split [of C_SP r] c(4) f by (simp add: q_def)
    ultimately have "l = m @ C_SP # q @ C_SP # drop (Suc (length q)) r" by simp
    moreover have "C_SP \<notin> set m" "C_SP \<notin> set q" by (auto simp: m_def q_def dest: set_takeWhileD)
    ultimately show "first_line buf \<noteq> buf \<and> is_request (first_line buf) req"
      using f c mq by (auto simp: is_request_def l_def)
  next
    assume a: "first_line buf \<noteq> buf \<and> is_request (first_line buf) req"
    then obtain v where v: "l = rq_method req @ C_SP # rq_path req @ C_SP # v" "rq_method req \<noteq> []" "rq_path req \<noteq> []"
      "C_SP \<notin> set (rq_method req)" "C_SP \<notin> set (rq_path req)" by (auto simp: is_request_def l_def)
    have m: "m = rq_method req" unfolding m_def v(1) by (rule takeWhile_until [OF v(4)])
    have r: "r = rq_path req @ C_SP # v" unfolding r_def m v(1) by simp
    have q: "q = rq_path req" unfolding q_def r by (rule takeWhile_until [OF v(5)])
    have "i = length l" using f by simp
    then have i: "length m + 1 + length q < i" using v(1) m q by simp
    then show "desi_parse_request_line buf = Some req"
      unfolding e using v(2,3) m q tb [of "length m"] db [of "length m + 1" "length q"] ml by (simp add: r_def)
  qed
qed

lemma parse_request_line_cong:
  assumes "first_line a = first_line b" "first_line a \<noteq> a" "first_line b \<noteq> b"
  shows "desi_parse_request_line a = desi_parse_request_line b"
  using parse_request_line_iff [of a] parse_request_line_iff [of b] assms
  by (cases "desi_parse_request_line a"; cases "desi_parse_request_line b") auto

section \<open>Reading\<close>

text \<open>What a connection delivers, and whether it is over after that.\<close>

fun stream_of :: "recv_result list \<Rightarrow> byte list" where
  "stream_of [] = []"
| "stream_of (RecvIntr # s) = stream_of s"
| "stream_of (RecvData bs # s) = (if bs = [] then [] else bs @ stream_of s)"
| "stream_of (RecvClosed # s) = []"
| "stream_of (RecvFail # s) = []"

fun over :: "recv_result list \<Rightarrow> bool" where
  "over [] = False"
| "over (RecvIntr # s) = over s"
| "over (RecvData bs # s) = (bs = [] \<or> over s)"
| "over (RecvClosed # s) = True"
| "over (RecvFail # s) = True"

datatype request_outcome = Got "desi_http_req option" | TooLarge | Lost | Waiting

fun outcome_of :: "read_result \<Rightarrow> request_outcome" where
  "outcome_of (ReadOk buf e) = Got (desi_parse_request_line (take e buf))"
| "outcome_of ReadTooLarge = TooLarge"
| "outcome_of ReadFail = Lost"
| "outcome_of ReadBlocked = Waiting"

text \<open>The outcome for the bytes \<open>d\<close> that fit into the buffer.\<close>

definition request_outcome :: "nat \<Rightarrow> byte list \<Rightarrow> bool \<Rightarrow> request_outcome" where
  "request_outcome cap d ended =
     (if desi_find_header_end d \<noteq> None then Got (desi_parse_request_line d)
      else if length d \<ge> cap then TooLarge
      else if ended then Lost else Waiting)"

lemma outcome_found:
  assumes "desi_find_header_end buf = Some e"
  shows "request_outcome cap (buf @ xs) b = outcome_of (ReadOk buf e)"
proof -
  note h = header_first_line [OF assms]
  have "desi_find_header_end (buf @ xs) \<noteq> None" using header_end_append assms unfolding desi_find_header_end_def by blast
  moreover have "desi_parse_request_line (buf @ xs) = desi_parse_request_line (take e buf)"
    by (rule parse_request_line_cong) (use h first_line_append [OF h(1), of xs] first_line_short in auto)
  ultimately show ?thesis by (simp add: request_outcome_def)
qed

lemma read_loop_steps:
  assumes "desi_find_header_end buf = None" "length buf < cap"
  shows "read_loop cap buf [] = ReadBlocked"
    and "read_loop cap buf (RecvIntr # rest) = read_loop cap buf rest"
    and "read_loop cap buf (RecvFail # rest) = ReadFail"
    and "read_loop cap buf (RecvClosed # rest) = ReadFail"
    and "read_loop cap buf (RecvData [] # rest) = ReadFail"
    and "bs \<noteq> [] \<Longrightarrow> read_loop cap buf (RecvData bs # rest) =
           read_loop cap (buf @ take (cap - length buf) bs)
             (if length bs \<le> cap - length buf then rest else RecvData (drop (cap - length buf) bs) # rest)"
  by (subst read_loop.simps, simp add: assms Let_def)+

lemma read_loop_outcome:
  "length buf \<le> cap \<Longrightarrow>
     outcome_of (read_loop cap buf script) = request_outcome cap (take cap (buf @ stream_of script)) (over script)"
proof (induction cap buf script rule: read_loop.induct)
  case (1 cap buf script)
  show ?case
  proof (cases "desi_find_header_end buf")
    case (Some e)
    then have "outcome_of (read_loop cap buf script) = outcome_of (ReadOk buf e)"
      by (simp add: read_loop.simps [of cap buf script])
    moreover have "take cap (buf @ stream_of script) = buf @ take (cap - length buf) (stream_of script)"
      using 1(3) by simp
    ultimately show ?thesis using outcome_found [OF Some] by simp
  next
    case None
    show ?thesis
    proof (cases "length buf < cap")
      case False
      with None 1(3) show ?thesis by (simp add: read_loop.simps [of cap buf script] request_outcome_def)
    next
      case True
      note step = read_loop_steps [OF None True]
      show ?thesis
      proof (cases script)
        case Nil
        with None True show ?thesis by (simp add: step request_outcome_def)
      next
        case (Cons x rest)
        show ?thesis
        proof (cases x)
          case RecvIntr
          have "outcome_of (read_loop cap buf rest) =
              request_outcome cap (take cap (buf @ stream_of rest)) (over rest)"
            by (rule 1(2) [OF True None Cons RecvIntr]) (use True in simp)
          with Cons RecvIntr show ?thesis by (simp add: step)
        next
          case (RecvData bs)
          show ?thesis
          proof (cases "bs = []")
            case True
            with Cons RecvData None \<open>length buf < cap\<close> show ?thesis by (simp add: step request_outcome_def)
          next
            case ne: False
            let ?room = "cap - length buf"
            let ?rest = "if length bs \<le> ?room then rest else RecvData (drop ?room bs) # rest"
            have "read_loop cap buf script = read_loop cap (buf @ take ?room bs) ?rest"
              unfolding Cons RecvData by (rule step(6) [OF ne])
            moreover have "outcome_of (read_loop cap (buf @ take ?room bs) ?rest) =
                request_outcome cap (take cap ((buf @ take ?room bs) @ stream_of ?rest)) (over ?rest)"
              using 1(1) [OF True None Cons RecvData ne refl] True by simp
            moreover have "take cap ((buf @ take ?room bs) @ stream_of ?rest) = take cap (buf @ stream_of script)"
              using Cons RecvData ne True by (auto simp: min_def)
            moreover have "over ?rest = over script"
              using Cons RecvData ne by auto
            ultimately show ?thesis by simp
          qed
        qed (use Cons None True in \<open>simp_all add: step request_outcome_def\<close>)
      qed
    qed
  qed
qed

text \<open>What the server does with an outcome: the response it sends, if any.\<close>

definition respond :: "request_outcome \<Rightarrow> send_result list \<Rightarrow> 'u handler \<Rightarrow> 'u \<Rightarrow> int option \<times> byte list \<times> 'u" where
  "respond outcome sends handler u =
     (let send = (\<lambda>resp u. case desi_send_response sends resp of (rc, sent, rest) \<Rightarrow> (rc, sent, u)) in
      case outcome of
        Lost \<Rightarrow> (Some (-1), [], u)
      | Waiting \<Rightarrow> (None, [], u)
      | TooLarge \<Rightarrow> send (text_resp 413 (lit ''Request Too Large'' @ [C_LF])) u
      | Got None \<Rightarrow> send (text_resp 400 (lit ''Bad Request'' @ [C_LF])) u
      | Got (Some req) \<Rightarrow>
          (case handler u req resp_zero of
             (rc, resp, u) \<Rightarrow>
               send (if rc < 0 then resp\<lparr>rs_status := 500, rs_body := SPtr k_internal_body\<rparr> else resp) u))"

lemma handle_client_respond:
  "desi_handle_client cn handler u = respond (outcome_of (desi_read_request (cn_recv cn))) (cn_send cn) handler u"
  by (cases "desi_read_request (cn_recv cn)") (simp_all add: desi_handle_client_def respond_def Let_def split: option.split)

text \<open>
  C39: the server serves the same request however its bytes arrive. What a connection comes to depends
  only on the first 8192 bytes it delivers and on whether it ends: the handler's answer to the
  request line of those bytes once they hold an empty line, or 400 if that line is malformed;
  413 when they are 8192 without an empty line; no answer when the connection ends before,
  and waiting otherwise. The request line gives method and path exactly when it is two words,
  each followed by a space.
\<close>

theorem http_request_exact:
  "desi_handle_client cn handler u =
     respond (request_outcome 8192 (take 8192 (stream_of (cn_recv cn))) (over (cn_recv cn))) (cn_send cn) handler u \<and>
   (desi_parse_request_line buf = Some req \<longleftrightarrow> first_line buf \<noteq> buf \<and> is_request (first_line buf) req)"
  using read_loop_outcome [of "[]" 8192 "cn_recv cn"] parse_request_line_iff
  by (simp add: handle_client_respond desi_read_request_def DESI_HTTP_MAX_HEADER_BYTES_def)

section \<open>Responses\<close>

definition plain_line :: "byte list \<Rightarrow> bool" where
  "plain_line l \<longleftrightarrow> l \<noteq> [] \<and> C_CR \<notin> set l \<and> C_LF \<notin> set l"

lemma next_line_crlf:
  assumes "C_CR \<notin> set l" "C_LF \<notin> set l"
  shows "desi_next_line (pre @ l @ crlf @ rest) (length pre) = Some (length pre + length l, length pre + length l + 2)"
proof -
  have cr: "C_CR \<noteq> (C_LF :: byte)" by simp
  have "takeWhile (\<lambda>c. c \<noteq> C_LF \<and> c \<noteq> C_CR) (l @ C_CR # C_LF # rest) = l"
    using assms by (induction l) auto
  then show ?thesis by (simp add: desi_next_line_def crlf_def nth_append cr Let_def)
qed

lemma header_end_lines:
  "list_all plain_line ls \<Longrightarrow>
     header_end_loop (pre @ concat (map (\<lambda>l. l @ crlf) ls) @ crlf @ rest) (length pre) =
       Some (length (pre @ concat (map (\<lambda>l. l @ crlf) ls) @ crlf))"
proof (induction ls arbitrary: pre)
  case Nil
  from next_line_crlf [of "[]" pre rest] show ?case
    by (simp add: header_end_loop.simps [of _ "length pre"] crlf_def)
next
  case (Cons l ls)
  let ?rest = "concat (map (\<lambda>l. l @ crlf) ls) @ crlf @ rest"
  have "header_end_loop (pre @ l @ crlf @ ?rest) (length pre) =
      header_end_loop (pre @ l @ crlf @ ?rest) (length (pre @ l @ crlf))"
    using next_line_crlf [of l pre ?rest] Cons.prems
    by (simp add: header_end_loop.simps [of _ "length pre"] plain_line_def crlf_def)
  also have "\<dots> = Some (length (pre @ concat (map (\<lambda>l. l @ crlf) (l # ls)) @ crlf))"
    using Cons.IH [of "pre @ l @ crlf"] Cons.prems by simp
  finally show ?case by simp
qed

lemma write_all_prefix:
  assumes "desi_write_all script bs = (rc, sent, rest)"
  shows "prefix sent bs \<and> (rc = Some 0 \<longleftrightarrow> sent = bs)"
  using assms
proof (induction script bs arbitrary: rc sent rest rule: desi_write_all.induct)
  case (5 n script b bs)
  show ?case
  proof (cases "n = 0")
    case False
    obtain rc' sent' rest' where w: "desi_write_all script (drop n (b # bs)) = (rc', sent', rest')"
      by (cases "desi_write_all script (drop n (b # bs))")
    from 5(1) [OF False w] have ih: "prefix sent' (drop n (b # bs))" "rc' = Some 0 \<longleftrightarrow> sent' = drop n (b # bs)"
      by blast+
    have s: "rc = rc'" "sent = take n (b # bs) @ sent'" using 5(2) False w by auto
    have "prefix (take n (b # bs) @ sent') (take n (b # bs) @ drop n (b # bs))" using ih(1) by (rule same_prefix_prefix [THEN iffD2])
    moreover have "take n (b # bs) @ sent' = take n (b # bs) @ drop n (b # bs) \<longleftrightarrow> rc' = Some 0"
      unfolding same_append_eq using ih(2) by blast
    ultimately show ?thesis unfolding s append_take_drop_id by blast
  qed (use 5 in auto)
qed auto

lemma dec_plain: "C_CR \<notin> set (dec n)" "C_LF \<notin> set (dec n)"
  using dec_digits [of n] by (auto simp: list_all_iff is_digit_def)

lemma int_digits_plain: "C_CR \<notin> set (int_digits n)" "C_LF \<notin> set (int_digits n)"
  using dec_plain by (auto simp: int_digits_def)

lemma reason_plain: "C_CR \<notin> set (desi_reason_phrase n)" "C_LF \<notin> set (desi_reason_phrase n)"
  by (auto simp: desi_reason_phrase_def)

lemma response_head_lines:
  assumes "\<forall>t. ct = Some t \<longrightarrow> C_CR \<notin> set t \<and> C_LF \<notin> set t"
  shows "\<exists>ls. list_all plain_line ls \<and> response_head st ct n = concat (map (\<lambda>l. l @ crlf) ls) @ crlf"
proof -
  let ?status = "lit ''HTTP/1.1 '' @ int_digits st @ [C_SP] @ desi_reason_phrase st"
  let ?type = "case ct of None \<Rightarrow> [] | Some t \<Rightarrow> [lit ''Content-Type: '' @ t]"
  let ?len = "lit ''Content-Length: '' @ dec n"
  let ?ls = "[?status] @ ?type @ [?len, lit ''Connection: close'']"
  have "plain_line ?status" using int_digits_plain reason_plain
    by (auto simp: plain_line_def)
  moreover have "list_all plain_line ?type" using assms
    by (auto simp: plain_line_def lit_def split: option.split)
  moreover have "plain_line ?len" using dec_plain by (auto simp: plain_line_def)
  moreover have "plain_line (lit ''Connection: close'')" by (auto simp: plain_line_def)
  ultimately have "list_all plain_line ?ls" by simp
  moreover have "response_head st ct n = concat (map (\<lambda>l. l @ crlf) ?ls) @ crlf"
    by (simp add: response_head_def split: option.split)
  ultimately show ?thesis by blast
qed

lemma response_head_frame:
  assumes "\<forall>t. ct = Some t \<longrightarrow> C_CR \<notin> set t \<and> C_LF \<notin> set t"
  shows "desi_find_header_end (response_head st ct n @ body) = Some (length (response_head st ct n))"
proof -
  obtain ls where "list_all plain_line ls" "response_head st ct n = concat (map (\<lambda>l. l @ crlf) ls) @ crlf"
    using response_head_lines [OF assms] by blast
  with header_end_lines [of ls "[]" body] show ?thesis by (simp add: desi_find_header_end_def)
qed

lemma response_head_length_field:
  "\<exists>pre. response_head st ct n =
     pre @ crlf @ lit ''Content-Length: '' @ dec n @ crlf @ lit ''Connection: close'' @ crlf @ crlf"
  by (cases ct) (auto simp: response_head_def simp del: lit_Cons
      intro: exI [where x = "lit ''HTTP/1.1 '' @ int_digits st @ [C_SP] @ desi_reason_phrase st"]
        exI [where x = "lit ''HTTP/1.1 '' @ int_digits st @ [C_SP] @ desi_reason_phrase st @ crlf @ lit ''Content-Type: '' @ the ct"])

lemma response_parts_head:
  assumes "response_parts resp = (head, body)" "\<forall>t. rs_content_type resp = Some t \<longrightarrow> C_CR \<notin> set t \<and> C_LF \<notin> set t"
  shows "\<exists>st ct. head = response_head st ct (length body) \<and> (\<forall>t. ct = Some t \<longrightarrow> C_CR \<notin> set t \<and> C_LF \<notin> set t)"
proof -
  have k: "C_CR \<notin> set k_default_type \<and> C_LF \<notin> set k_default_type" by (simp add: k_default_type_def)
  define bad where "bad = (sp_len (rs_body resp) > 0 \<and> sp_null (rs_body resp))"
  define st where "st = (if bad then 500 else if rs_status resp = 0 then 200 else rs_status resp)"
  define b where "b = (if bad then k_internal_body else sp_bytes (rs_body resp))"
  define t where "t = (if bad then Some k_default_type else rs_content_type resp)"
  define ct where "ct = (if b = [] then None else if t = None then Some k_default_type else t)"
  have "response_parts resp = (response_head st ct (length b), b)"
    by (simp add: response_parts_def Let_def ct_def t_def b_def st_def bad_def)
  moreover have "\<forall>t. ct = Some t \<longrightarrow> C_CR \<notin> set t \<and> C_LF \<notin> set t"
    using assms(2) k by (auto simp: ct_def t_def split: if_splits)
  ultimately show ?thesis using assms(1) by auto
qed

lemma send_response_cases:
  assumes "desi_send_response script resp = (rc, sent, rest)" "response_parts resp = (head, body)"
  shows "prefix sent (head @ body) \<and> (rc = Some 0 \<longleftrightarrow> length head < 512 \<and> sent = head @ body)"
proof (cases "length head < 512")
  case False
  with assms show ?thesis by (auto simp: desi_send_response_def)
next
  case True
  obtain rc1 sent1 rest1 where w: "desi_write_all script head = (rc1, sent1, rest1)"
    by (cases "desi_write_all script head")
  note h = write_all_prefix [OF w]
  show ?thesis
  proof (cases "rc1 = Some 0")
    case False
    then have "rc = rc1" "sent = sent1" using assms True w by (auto simp: desi_send_response_def)
    with False h True show ?thesis by (auto simp: prefix_def)
  next
    case all: True
    obtain rc2 sent2 rest2 where b: "desi_write_all rest1 body = (rc2, sent2, rest2)"
      by (cases "desi_write_all rest1 body")
    have "rc = rc2 \<and> sent = head @ sent2"
      using assms True w all h b by (auto simp: desi_send_response_def split: if_splits)
    with write_all_prefix [OF b] True show ?thesis by simp
  qed
qed

text \<open>
  C40: every response is framed, and a send that fails is reported. What goes out is a prefix of the
  head and the body, in this order, and the call returns 0 exactly when all of it went out.
  When the handler's content type holds no line break, a reader that looks for the end of the
  header, as this server does for requests, finds it where the body starts, and the
  Content-Length of the head reads back as the length of the body.
\<close>

theorem http_response_exact:
  assumes "desi_send_response script resp = (rc, sent, rest)" "response_parts resp = (head, body)"
    and "\<forall>t. rs_content_type resp = Some t \<longrightarrow> C_CR \<notin> set t \<and> C_LF \<notin> set t"
  shows "prefix sent (head @ body) \<and> (rc = Some 0 \<longleftrightarrow> length head < 512 \<and> sent = head @ body) \<and>
    desi_find_header_end (head @ body) = Some (length head) \<and>
    (\<exists>pre ds. head = pre @ crlf @ lit ''Content-Length: '' @ ds @ crlf @ lit ''Connection: close'' @ crlf @ crlf \<and>
       list_all is_digit ds \<and> ds \<noteq> [] \<and> dec_val ds = length body)"
proof -
  obtain st ct where h: "head = response_head st ct (length body)"
    "\<forall>t. ct = Some t \<longrightarrow> C_CR \<notin> set t \<and> C_LF \<notin> set t"
    using response_parts_head [OF assms(2,3)] by blast
  have "desi_find_header_end (head @ body) = Some (length head)"
    unfolding h(1) by (rule response_head_frame [OF h(2)])
  moreover obtain pre where "head =
      pre @ crlf @ lit ''Content-Length: '' @ dec (length body) @ crlf @ lit ''Connection: close'' @ crlf @ crlf"
    using response_head_length_field [of st ct "length body"] h(1) by blast
  ultimately show ?thesis
    using send_response_cases [OF assms(1,2)] dec_digits [of "length body"] dec_val_dec [of "length body"] by blast
qed

text \<open>A response sent in two parts, with an interrupted call between them.\<close>

definition sample_head :: "byte list" where
  "sample_head = lit ''HTTP/1.1 200 OK'' @ crlf @ lit ''Content-Type: text/plain; charset=utf-8'' @ crlf @
     lit ''Content-Length: 3'' @ crlf @ lit ''Connection: close'' @ crlf @ crlf"

lemma sample_sent:
  "desi_send_response [SendSome 20, SendIntr, SendSome 400, SendSome 3] (text_resp 200 (lit ''ok'' @ [C_LF])) =
     (Some 0, sample_head @ lit ''ok'' @ [C_LF], [])"
  "response_parts (text_resp 200 (lit ''ok'' @ [C_LF])) = (sample_head, lit ''ok'' @ [C_LF])"
  by code_simp+

lemma http_response_exact_witness:
  "desi_find_header_end (sample_head @ lit ''ok'' @ [C_LF]) = Some (length sample_head) \<and> length sample_head < 512"
  using http_response_exact [OF sample_sent] by (simp add: text_resp_def)

end
