(* ===== verification/Spec2Isabelle.thy ===== *)
theory Spec2Isabelle
  imports SseWrite SseSafe JstokProps JstokTextProps JsonBuildProps ToolsAccum ChatProps ProtocolOther
    ClientProps ErrorProps ApiProps GetCalls Release StreamAnswer ToolLoopText ShortForms ExampleProps Http1Props
begin

text \<open>
  A verification development for \<open>libdesi\<close>, a client library in C for language-model servers, and
  for the small HTTP daemons beside it. File names below are relative to the repository.

  \<^bold>\<open>The program.\<close> A client handle (\<open>src/src/llm.c\<close>) holds the base URL, the model, limits, request
  headers and TLS settings. A call builds a JSON body (\<open>src/src/json_build.c\<close>), posts it through
  libcurl (\<open>src/src/transport_curl.c\<close>) and parses the answer with the protocol parsers
  (\<open>src/src/protocol_chat.c\<close>, \<open>protocol_completions.c\<close>, \<open>protocol_embeddings.c\<close>), which read the tokens of
  the pushdown tokenizer \<open>src/include/jstok.h\<close> through the wrappers of \<open>src/src/json_core.c\<close>. A
  streaming call feeds the chunks that libcurl delivers to the event-stream parser
  \<open>src/src/sse.c\<close>, whose callbacks parse each event and collect the fragments of tool calls
  (\<open>src/src/tools_accum.c\<close>). The tool loop chats, runs the caller's tools and chats again. The
  daemons run on \<open>src/src/internal/http1_server.c\<close>.

  \<^bold>\<open>Conventions.\<close> A C struct is a record with the struct's fields, a \<open>char\<close> an 8-bit word, a
  \<open>size_t\<close> a natural number with the wrap-around written out where the code can reach it
  (\<open>wrap64\<close>), a pointer that may be NULL an option, a pointer with a length a \<open>cspan\<close>. Every
  operation is a function from the state before to the result and the state after. A call whose
  behaviour C leaves undefined has no result (\<open>None\<close>, \<open>Undefined\<close> or a flag of the state), so a
  theorem that gives it a result also says it is defined. \<open>malloc\<close> and \<open>realloc\<close> are a predicate on
  the size asked for. Callbacks of the caller are functions, or their calls are recorded in order.

  \<^bold>\<open>Theories.\<close>
  \<^item> \<open>Prelude\<close>: bytes, integer limits, character constants, list lemmas, and the locale
    \<open>chunk_feeder\<close> of machines that are fed in chunks.
  \<^item> \<open>Utf8\<close>, \<open>Sse\<close>, \<open>Utf8Code\<close>, \<open>SseSpec\<close>, \<open>SseRefine\<close>, \<open>SseProps\<close>, \<open>SseSafe\<close>, \<open>SseUser\<close>, \<open>SseWrite\<close>:
    \<open>src/src/sse.c\<close>. \<open>Sse\<close> is the byte-driven parser, \<open>SseSpec\<close> the meaning of a whole stream;
    the parser refines it for any chunking, stays in its memory budget, delivers only
    well-formed UTF-8, keeps its first error, and reads back what the writer wrote. \<open>SseUser\<close> is
    the locale by which an invariant of the callbacks' state holds after every feed.
  \<^item> \<open>Jstok\<close>, \<open>JstokLex\<close>, \<open>JstokGrammar\<close>, \<open>JstokSound\<close>, \<open>JstokComplete\<close>, \<open>JstokCount\<close>, \<open>JstokSafe\<close>,
    \<open>JstokProps\<close>: the tokenizer of \<open>src/include/jstok.h\<close> in both compile-time modes. It accepts exactly
    the grammar of JSON over positions, writes exactly the tokens of the trees, and a count-only
    run foretells the writing run.
  \<^item> \<open>JstokNav\<close>, \<open>JstokText\<close>, \<open>JstokTextProps\<close>: navigation, integers, unescaping (also in place) and the
    pull scanner of the same header.
  \<^item> \<open>Buffers\<close>: \<open>struct growbuf\<close> (\<open>src/include/llm/internal.h\<close>) and \<open>struct fixedbuf\<close>, two
    interpretations of the locale \<open>append_buffer\<close>.
  \<^item> \<open>JsonBuild\<close>, \<open>JsonText\<close>, \<open>JsonBuildText\<close>, \<open>JsonBuildProps\<close>: the request builders and writers. Each is
    equal to a plain text function, and the text is JSON.
  \<^item> \<open>ToolsAccum\<close>, \<open>JsonCore\<close>, \<open>ProtocolChat\<close>, \<open>JsonDoc\<close>, \<open>ChatTree\<close>, \<open>ChatText\<close>, \<open>ChatProps\<close>,
    \<open>ProtocolOther\<close>: the accumulator, the JSON core and the protocol parsers, refined to readers
    of the document's tree. The static functions that \<open>protocol_completions.c\<close> and
    \<open>protocol_embeddings.c\<close> share by copy with \<open>protocol_chat.c\<close> are defined for each file and proved equal.
  \<^item> \<open>Client\<close>, \<open>ClientProps\<close>, \<open>ErrorProps\<close>: the handle, its setters, the merged request headers and the
    error details; the handles the operations reach are an inductive set.
  \<^item> \<open>Release\<close>: what \<open>llm_client_destroy\<close> and the functions that free results and histories release,
    block by block: every block of a handle once, although the API key's header has two pointers.
  \<^item> \<open>Transport\<close>, \<open>Api\<close>, \<open>ApiProps\<close>, \<open>ChatAnswer\<close>: the requests over libcurl and the calls that wait
    for a whole response. What a chat call returns is the reading of the server's reply, and
    it returns it whenever the reply has one.
  \<^item> \<open>TransportContract\<close>, \<open>GetCalls\<close>: the contract that \<open>src/src/llm_transport_contract.h\<close> writes down, as
    the locales \<open>buffered_transport\<close>, \<open>reliable_transport\<close>, \<open>streaming_transport\<close> and \<open>fed_transport\<close>, which the
    requests of \<open>transport_curl.c\<close> interpret, and what the calls that get a resource return by it.
  \<^item> \<open>ChatStream\<close>, \<open>StreamCall\<close>, \<open>ChatStreamProps\<close>, \<open>StreamCallProps\<close>, \<open>StreamAnswer\<close>: the streaming calls and
    their callbacks on the parser of \<open>Sse\<close>. The callbacks of a stream that succeeds are those of
    the events its body means, and a clean body is delivered.
  \<^item> \<open>ToolLoop\<close>, \<open>ToolLoopGuard\<close>, \<open>ToolLoopProps\<close>: the tool loop, its guard against repetition (the locale
    \<open>recent_window\<close>) and its conversation as a transition system. \<open>ToolLoopText\<close>: the text of the
    messages it sends back.
  \<^item> \<open>ShortForms\<close>: the forms of every call with fewer arguments.
  \<^item> \<open>ExampleTools\<close>, \<open>ExampleMain\<close>, \<open>ExampleProps\<close>: the programs under \<open>src/examples\<close>, whole uses of the
    library: their tools, the two conversations of \<open>chat_advanced.c\<close> and the \<open>main\<close> functions.
  \<^item> \<open>Http1\<close>, \<open>Http1Props\<close>: the HTTP/1 server and the three daemons.

  \<^bold>\<open>Bounds and fuel.\<close> No function takes fuel: every loop is a recursion with a measure, over the
  bytes that are left, the calls that are left or \<open>max_turns\<close>. The tokenizer's stack has
  \<open>JSTOK_MAX_DEPTH = 64\<close> frames, and its properties are about inputs nested that deep at most. Inputs
  of the tokenizer are shorter than \<open>2 ^ 31\<close> bytes, the width of the \<open>int\<close> positions it stores; the
  callers reject longer ones. A request header has at most 8192 bytes, a response header 511.

  \<^bold>\<open>Parameters.\<close> libcurl is the record \<open>curl_lib\<close>: whether a handle can be made, and for the options of
  a request the chunks, the code and the status it produces. Sockets are lists of what each
  \<open>recv\<close>, \<open>send\<close> and \<open>accept\<close> comes to. Formatting a \<open>double\<close> is a function. No law is assumed of any
  of them, so the theorems hold for every network and every server.

  \<^bold>\<open>Not modelled.\<close> An address space: the records share no memory, and \<open>Release\<close> names the blocks that are
  freed by the pointers that own them. The optional parent links of \<open>jstok.h\<close>, which no build defines.
  \<open>tools_loop.c\<close> and \<open>jstok_impl.c\<close>, which hold no code of their own. What the daemons and
  \<open>chat_advanced\<close> print of their configuration and progress. The tests, the fuzz targets and the
  command-line driver among the tests.

  \<^bold>\<open>What the development found.\<close> Theorems that state where the code departs from what it means to do:
  \<open>tool_index_overflows\<close>, \<open>chat_request_broken\<close>, \<open>jstok_unescape_surrogates\<close>, \<open>jstok_atoi64_overflows\<close>,
  \<open>choice_index_wraps\<close>, \<open>tok_eq_lit_inverted\<close>, \<open>tool_loop_reescapes\<close>, \<open>weather_dispatch_prefix\<close> and
  \<open>tool_loop_prompt_cut\<close>.
\<close>

end
